(* ===== verification/Prelude.thy ===== *)
theory Prelude
  imports Complex_Main
begin

text \<open>
  Shared vocabulary of the gateway development: the JavaScript string and number
  primitives the sources use, the result type of code that may throw, and the generic
  lemmas on lists and options that the component theories share.

  A JavaScript string is a \<^typ>\<open>string\<close>; one \<^typ>\<open>char\<close> stands for one code unit, so
  the model ranges over the strings whose code units are below 256.  JavaScript numbers
  are \<^typ>\<open>int\<close> where the code only ever stores integers (timestamps, counters, token
  counts, HTTP statuses) and \<^typ>\<open>rat\<close> where it divides (prices, latency averages,
  jitter fractions): rounding of binary64 is idealised to exact arithmetic.
\<close>

named_theorems js_simps \<open>evaluation rules of the JavaScript string primitives\<close>
named_theorems key_simps \<open>distinctness of the fully qualified Redis keys\<close>

section \<open>Results of code that may throw\<close>

type_synonym ('e, 'a) result = "'e + 'a"

definition is_ok :: "('e, 'a) result \<Rightarrow> bool" where
  "is_ok r = (case r of Inl _ \<Rightarrow> False | Inr _ \<Rightarrow> True)"

lemma is_ok_simps [simp]: "is_ok (Inl e) = False" "is_ok (Inr a) = True"
  by (simp_all add: is_ok_def)

lemma is_ok_iff: "is_ok r \<longleftrightarrow> (\<exists>a. r = Inr a)"
  by (cases r) auto

text \<open>The nullish-coalescing operator \<open>a ?? b\<close>.\<close>

definition nullish :: "'a option \<Rightarrow> 'a \<Rightarrow> 'a" where
  "nullish a b = (case a of None \<Rightarrow> b | Some x \<Rightarrow> x)"

definition nullish_opt :: "'a option \<Rightarrow> 'a option \<Rightarrow> 'a option" where
  "nullish_opt a b = (case a of None \<Rightarrow> b | Some x \<Rightarrow> Some x)"

lemma nullish_simps [simp]:
  "nullish None b = b" "nullish (Some x) b = x"
  "nullish_opt None c = c" "nullish_opt (Some x) c = Some x"
  by (simp_all add: nullish_def nullish_opt_def)

section \<open>Strings\<close>

definition startsWith :: "string \<Rightarrow> string \<Rightarrow> bool" where
  "startsWith s p = (take (length p) s = p)"

definition endsWith :: "string \<Rightarrow> string \<Rightarrow> bool" where
  "endsWith s p = startsWith (rev s) (rev p)"

fun includes_sub :: "string \<Rightarrow> string \<Rightarrow> bool" where
  "includes_sub [] p = (p = [])"
| "includes_sub (c # s) p = (startsWith (c # s) p \<or> includes_sub s p)"

lemma startsWith_append [simp]: "startsWith (p @ s) p"
  by (simp add: startsWith_def)

lemma startsWith_iff: "startsWith s p \<longleftrightarrow> (\<exists>t. s = p @ t)"
  by (metis append_eq_conv_conj append_take_drop_id startsWith_def)

text \<open>\<open>indexOf\<close> of a one-character needle; \<open>None\<close> is the source's \<open>-1\<close>.\<close>

fun indexOf :: "string \<Rightarrow> char \<Rightarrow> nat option" where
  "indexOf [] c = None"
| "indexOf (x # s) c = (if x = c then Some 0 else map_option Suc (indexOf s c))"

lemma indexOf_None: "indexOf s c = None \<longleftrightarrow> c \<notin> set s"
  by (induction s) auto

lemma indexOf_Some:
  "indexOf s c = Some i \<Longrightarrow> i < length s \<and> s = take i s @ c # drop (Suc i) s \<and> c \<notin> set (take i s)"
proof (induction s arbitrary: i)
  case Nil
  then show ?case by simp
next
  case (Cons x s)
  show ?case
  proof (cases "x = c")
    case True
    with Cons.prems show ?thesis by auto
  next
    case False
    with Cons.prems obtain j where "indexOf s c = Some j" "i = Suc j"
      by auto
    with Cons.IH [of j] False show ?thesis by auto
  qed
qed

lemma indexOf_append_hit: "c \<notin> set p \<Longrightarrow> indexOf (p @ c # s) c = Some (length p)"
  by (induction p) auto

text \<open>\<open>split\<close> at a one-character separator and \<open>join\<close>.\<close>

fun split_at :: "char \<Rightarrow> string \<Rightarrow> string list" where
  "split_at c [] = [[]]"
| "split_at c (x # s) =
     (if x = c then [] # split_at c s
      else (case split_at c s of [] \<Rightarrow> [[x]] | w # ws \<Rightarrow> (x # w) # ws))"

fun join :: "string \<Rightarrow> string list \<Rightarrow> string" where
  "join sep [] = []"
| "join sep [w] = w"
| "join sep (w # v # ws) = w @ sep @ join sep (v # ws)"

lemma split_at_nonempty [simp]: "split_at c s \<noteq> []"
  by (induction s) (auto split: list.splits)

lemma split_at_word: "c \<notin> set w \<Longrightarrow> split_at c (w @ c # s) = w # split_at c s"
  by (induction w) auto

lemma split_at_single: "c \<notin> set w \<Longrightarrow> split_at c w = [w]"
  by (induction w) auto

lemma split_at_join:
  "ws \<noteq> [] \<Longrightarrow> \<forall>w \<in> set ws. c \<notin> set w \<Longrightarrow> split_at c (join [c] ws) = ws"
  by (induction "[c]" ws rule: join.induct) (auto simp: split_at_single split_at_word)

text \<open>
  \<open>trim\<close> removes the white space and line terminators of ECMA-262 that are below code
  unit 256; \<open>toLowerCase\<close> maps the Latin-1 letters.
\<close>

definition is_space :: "char \<Rightarrow> bool" where
  "is_space c = (let n = (of_char c :: nat) in (9 \<le> n \<and> n \<le> 13) \<or> n = 32 \<or> n = 160)"

definition trim :: "string \<Rightarrow> string" where
  "trim s = rev (dropWhile is_space (rev (dropWhile is_space s)))"

definition lower_char :: "char \<Rightarrow> char" where
  "lower_char c = (let n = (of_char c :: nat) in
     if (65 \<le> n \<and> n \<le> 90) \<or> (192 \<le> n \<and> n \<le> 222 \<and> n \<noteq> 215) then char_of (n + 32) else c)"

definition toLowerCase :: "string \<Rightarrow> string" where
  "toLowerCase s = map lower_char s"

lemma length_toLowerCase [simp]: "length (toLowerCase s) = length s"
  by (simp add: toLowerCase_def)

section \<open>Decimal numerals\<close>

definition digit_char :: "nat \<Rightarrow> char" where
  "digit_char d = char_of (48 + d)"

definition char_digit :: "char \<Rightarrow> nat option" where
  "char_digit c = (let n = (of_char c :: nat) in if 48 \<le> n \<and> n \<le> 57 then Some (n - 48) else None)"

fun show_nat :: "nat \<Rightarrow> string" where
  "show_nat n = (if n < 10 then [digit_char n] else show_nat (n div 10) @ [digit_char (n mod 10)])"

declare show_nat.simps [simp del]

definition show_int :: "int \<Rightarrow> string" where
  "show_int i = (if i < 0 then CHR ''-'' # show_nat (nat (- i)) else show_nat (nat i))"

fun digits_value :: "nat \<Rightarrow> string \<Rightarrow> nat option" where
  "digits_value acc [] = Some acc"
| "digits_value acc (c # s) =
     (case char_digit c of None \<Rightarrow> None | Some d \<Rightarrow> digits_value (10 * acc + d) s)"

definition read_nat :: "string \<Rightarrow> nat option" where
  "read_nat s = (if s = [] then None else digits_value 0 s)"

lemma char_digit_digit_char [simp]: "d < 10 \<Longrightarrow> char_digit (digit_char d) = Some d"
  by (simp add: char_digit_def digit_char_def Let_def)

lemma digits_value_append:
  "digits_value acc (s @ t) =
     (case digits_value acc s of None \<Rightarrow> None | Some v \<Rightarrow> digits_value v t)"
  by (induction s arbitrary: acc) (auto split: option.splits)

lemma show_nat_nonempty [simp]: "show_nat n \<noteq> []"
  by (subst show_nat.simps) simp

lemma digits_value_show_nat: "digits_value 0 (show_nat n) = Some n"
proof (induction n rule: show_nat.induct)
  case (1 n)
  show ?case
  proof (cases "n < 10")
    case True
    then show ?thesis by (simp add: show_nat.simps [of n])
  next
    case False
    with "1.IH" show ?thesis
      by (simp add: show_nat.simps [of n] digits_value_append)
  qed
qed

lemma read_show_nat [simp]: "read_nat (show_nat n) = Some n"
  by (simp add: read_nat_def digits_value_show_nat)

lemma digit_char_not_colon: "d < 10 \<Longrightarrow> digit_char d \<noteq> CHR '':''"
proof
  assume d: "d < 10" and "digit_char d = CHR '':''"
  then have "(of_char (digit_char d) :: nat) = of_char (CHR '':'')"
    by simp
  with d show False by (simp add: digit_char_def)
qed

lemma colon_notin_show_nat [simp]: "CHR '':'' \<notin> set (show_nat n)"
proof (induction n rule: show_nat.induct)
  case (1 n)
  then show ?case
    using digit_char_not_colon [of n] digit_char_not_colon [of "n mod 10"]
    by (subst show_nat.simps) (auto dest: sym)
qed

section \<open>Numbers\<close>

definition js_round :: "rat \<Rightarrow> int" where
  "js_round x = \<lfloor>x + 1 / 2\<rfloor>"

definition js_ceil :: "rat \<Rightarrow> int" where
  "js_ceil x = \<lceil>x\<rceil>"

definition js_floor :: "rat \<Rightarrow> int" where
  "js_floor x = \<lfloor>x\<rfloor>"

definition ceil_div :: "int \<Rightarrow> int \<Rightarrow> int" where
  "ceil_div a b = - ((- a) div b)"

lemma ceil_div_bounds:
  assumes "0 < b"
  shows "a \<le> b * ceil_div a b" and "b * ceil_div a b < a + b"
proof -
  have "b * ((- a) div b) + (- a) mod b = - a"
    by simp
  moreover have "0 \<le> (- a) mod b" and "(- a) mod b < b"
    using assms by simp_all
  ultimately show "a \<le> b * ceil_div a b" and "b * ceil_div a b < a + b"
    unfolding ceil_div_def mult_minus_right by linarith+
qed

section \<open>Lists and options\<close>

lemma length_filter_le_strict:
  "x \<in> set xs \<Longrightarrow> \<not> P x \<Longrightarrow> length (filter P xs) < length xs"
  by (induction xs) (auto simp: less_Suc_eq_le)

lemma sum_list_filter_split:
  "(\<Sum>x\<leftarrow>xs. f x) = (\<Sum>x\<leftarrow>filter P xs. f x) + (\<Sum>x\<leftarrow>filter (\<lambda>x. \<not> P x) xs. (f x :: int))"
  by (induction xs) auto

lemma sum_list_nonneg_int: "\<forall>x \<in> set xs. (0 :: int) \<le> f x \<Longrightarrow> 0 \<le> (\<Sum>x\<leftarrow>xs. f x)"
  by (induction xs) auto

lemma find_member: "find P xs = Some x \<Longrightarrow> x \<in> set xs \<and> P x"
  by (auto simp: find_Some_iff)

lemma find_id_member: "x \<in> set xs \<Longrightarrow> \<exists>y. find (\<lambda>y. f y = f x) xs = Some y \<and> y \<in> set xs \<and> f y = f x"
  by (induction xs) auto

section \<open>Sorting\<close>

text \<open>\<open>Array.prototype.sort\<close> with a comparator: a stable sort.\<close>

fun insert_by :: "('a \<Rightarrow> 'a \<Rightarrow> int) \<Rightarrow> 'a \<Rightarrow> 'a list \<Rightarrow> 'a list" where
  "insert_by cmp x [] = [x]"
| "insert_by cmp x (y # ys) = (if cmp x y \<le> 0 then x # y # ys else y # insert_by cmp x ys)"

fun sort_by :: "('a \<Rightarrow> 'a \<Rightarrow> int) \<Rightarrow> 'a list \<Rightarrow> 'a list" where
  "sort_by cmp [] = []"
| "sort_by cmp (x # xs) = insert_by cmp x (sort_by cmp xs)"

lemma set_insert_by [simp]: "set (insert_by cmp x xs) = insert x (set xs)"
  by (induction xs) auto

lemma set_sort_by [simp]: "set (sort_by cmp xs) = set xs"
  by (induction xs) simp_all

lemma distinct_sort_by [simp]: "distinct (sort_by cmp xs) = distinct xs"
proof (induction xs)
  case (Cons x xs)
  have "distinct (insert_by cmp x ys) = (x \<notin> set ys \<and> distinct ys)" for ys
    by (induction ys) auto
  with Cons show ?case by simp
qed simp

text \<open>
  A comparator that is a strict total order on the elements at hand sorts them into one list,
  whatever order they came in.
\<close>

definition compares :: "('a \<Rightarrow> 'a \<Rightarrow> int) \<Rightarrow> 'a set \<Rightarrow> bool" where
  "compares cmp A \<longleftrightarrow>
     (\<forall>x \<in> A. \<forall>y \<in> A. x \<noteq> y \<longrightarrow> (cmp x y < 0 \<and> 0 < cmp y x) \<or> (0 < cmp x y \<and> cmp y x < 0)) \<and>
     (\<forall>x \<in> A. \<forall>y \<in> A. \<forall>z \<in> A. cmp x y < 0 \<longrightarrow> cmp y z < 0 \<longrightarrow> cmp x z < 0)"

lemma compares_mono: "compares cmp B \<Longrightarrow> A \<subseteq> B \<Longrightarrow> compares cmp A"
  unfolding compares_def by blast

lemma compares_cases:
  "compares cmp A \<Longrightarrow> x \<in> A \<Longrightarrow> y \<in> A \<Longrightarrow> x \<noteq> y \<Longrightarrow>
    (cmp x y < 0 \<and> 0 < cmp y x) \<or> (0 < cmp x y \<and> cmp y x < 0)"
  unfolding compares_def by blast

lemma sorted_insert_by:
  assumes "compares cmp (insert x (set xs))" "x \<notin> set xs" "sorted_wrt (\<lambda>a b. cmp a b < 0) xs"
  shows "sorted_wrt (\<lambda>a b. cmp a b < 0) (insert_by cmp x xs)"
  using assms
proof (induction xs)
  case (Cons y ys)
  have xy: "x \<noteq> y" using Cons.prems(2) by auto
  show ?case
  proof (cases "cmp x y \<le> 0")
    case True
    then have lt: "cmp x y < 0" using compares_cases [OF Cons.prems(1) _ _ xy] by auto
    have "cmp x z < 0" if "z \<in> set ys" for z
    proof -
      from Cons.prems(3) that have "cmp y z < 0" by simp
      moreover have "x \<in> insert x (set (y # ys))" "y \<in> insert x (set (y # ys))" "z \<in> insert x (set (y # ys))"
        using that by auto
      ultimately show ?thesis using lt conjunct2 [OF Cons.prems(1) [unfolded compares_def]] by blast
    qed
    with lt True Cons.prems(3) show ?thesis by auto
  next
    case False
    then have gt: "cmp y x < 0" using compares_cases [OF Cons.prems(1) _ _ xy] by auto
    have "sorted_wrt (\<lambda>a b. cmp a b < 0) (insert_by cmp x ys)"
    proof (rule Cons.IH)
      show "compares cmp (insert x (set ys))" by (rule compares_mono [OF Cons.prems(1)]) auto
    qed (use Cons.prems in auto)
    with gt False Cons.prems(3) show ?thesis by auto
  qed
qed simp

lemma sorted_sort_by:
  assumes "compares cmp (set xs)" "distinct xs"
  shows "sorted_wrt (\<lambda>a b. cmp a b < 0) (sort_by cmp xs)"
  using assms
proof (induction xs)
  case (Cons x xs)
  have "sorted_wrt (\<lambda>a b. cmp a b < 0) (sort_by cmp xs)"
    by (rule Cons.IH [OF compares_mono [OF Cons.prems(1)]]) (use Cons.prems in auto)
  then show ?case using Cons.prems by (auto intro: sorted_insert_by)
qed simp

lemma sorted_unique:
  assumes "compares cmp A" "sorted_wrt (\<lambda>a b. cmp a b < 0) xs" "sorted_wrt (\<lambda>a b. cmp a b < 0) ys"
    "set xs = set ys" "set xs \<subseteq> A" "distinct xs" "distinct ys"
  shows "xs = ys"
  using assms(2-)
proof (induction xs arbitrary: ys)
  case (Cons x xs)
  then obtain y ys' where ys: "ys = y # ys'" by (cases ys) auto
  have "x = y"
  proof (rule ccontr)
    assume "x \<noteq> y"
    with Cons.prems ys have "x \<in> set ys'" "y \<in> set xs" by auto
    with Cons.prems ys have "cmp y x < 0" "cmp x y < 0" "x \<in> A" "y \<in> A" by auto
    with compares_cases [OF assms(1) _ _ \<open>x \<noteq> y\<close>] show False by auto
  qed
  moreover from this Cons.prems ys have "set xs = set ys'" by auto
  ultimately show ?case using Cons.IH [of ys'] Cons.prems ys by auto
qed simp

lemma sort_by_unique:
  assumes "compares cmp (set xs)" "distinct xs" "distinct ys" "set xs = set ys"
  shows "sort_by cmp xs = sort_by cmp ys"
  by (rule sorted_unique [OF assms(1)]) (use assms in \<open>auto intro: sorted_sort_by\<close>)

end
