(* ===== verification/Errors.thy ===== *)
theory Errors
  imports Prelude
begin

text \<open>
  The error taxonomy of \<open>src/utils/errors.ts\<close> and its rendering by
  \<open>src/middleware/error-handler.ts\<close>: the error record and its subclasses, the
  normalisation of arbitrary thrown values, the OpenAI error envelope and the HTTP reply
  of the error handler.  \<open>cause\<close> and \<open>context\<close> only feed log lines and are left out,
  except for the validation issues of \<open>context.issues\<close>, which reach the client.
\<close>

section \<open>The error record\<close>

datatype OpenAIErrorType =
    Invalid_request_error | Authentication_error | Permission_error | Not_found_error
  | Rate_limit_error | Server_error | Api_error

datatype error_class =
    C_GatewayError | C_AuthenticationError | C_PermissionError | C_NotFoundError
  | C_ValidationError | C_PayloadTooLargeError | C_RateLimitError | C_ProviderError
  | C_UpstreamTimeoutError | C_CircuitOpenError | C_AllProvidersFailedError
  | C_InternalError | C_InsufficientQuotaError | C_ServiceUnavailableError

record GatewayError =
  ge_class :: error_class
  message :: string
  statusCode :: int
  openAIType :: OpenAIErrorType
  err_code :: "string option"
  err_param :: "string option"
  retryable :: bool
  retryAfterSeconds :: "int option"
  err_providerId :: "string option"
  err_attempts :: "nat option"

text \<open>An element of a Zod issue list: not an object, or its \<open>path\<close> and \<open>message\<close>.\<close>

datatype zod_issue = NotAnObject | Issue "string list option" "string option"

record GatewayErrorOptions =
  opt_code :: "string option"
  opt_param :: "string option"
  opt_retryable :: "bool option"
  opt_providerId :: "string option"
  opt_issues :: "zod_issue list option"

definition no_options :: GatewayErrorOptions where
  "no_options = \<lparr>opt_code = None, opt_param = None, opt_retryable = None,
     opt_providerId = None, opt_issues = None\<rparr>"

text \<open>\<open>{ code: c, retryable: r, ...options }\<close>: the caller's options win.\<close>

definition spread_code :: "string \<Rightarrow> GatewayErrorOptions \<Rightarrow> GatewayErrorOptions" where
  "spread_code c o' = o'\<lparr>opt_code := nullish_opt (opt_code o') (Some c)\<rparr>"

definition spread_retryable :: "bool \<Rightarrow> GatewayErrorOptions \<Rightarrow> GatewayErrorOptions" where
  "spread_retryable r o' = o'\<lparr>opt_retryable := nullish_opt (opt_retryable o') (Some r)\<rparr>"

definition newGatewayError ::
  "error_class \<Rightarrow> string \<Rightarrow> int \<Rightarrow> OpenAIErrorType \<Rightarrow> GatewayErrorOptions \<Rightarrow> GatewayError" where
  "newGatewayError cls msg status typ options =
     \<lparr>ge_class = cls, message = msg, statusCode = status, openAIType = typ,
      err_code = opt_code options, err_param = opt_param options,
      retryable = nullish (opt_retryable options) False,
      retryAfterSeconds = None, err_providerId = None, err_attempts = None\<rparr>"

section \<open>The subclasses\<close>

definition AuthenticationError :: "string \<Rightarrow> GatewayErrorOptions \<Rightarrow> GatewayError" where
  "AuthenticationError msg options =
     newGatewayError C_AuthenticationError msg 401 Authentication_error
       (spread_code ''invalid_api_key'' options)"

definition PermissionError :: "string \<Rightarrow> GatewayErrorOptions \<Rightarrow> GatewayError" where
  "PermissionError msg options =
     newGatewayError C_PermissionError msg 403 Permission_error
       (spread_code ''permission_denied'' options)"

definition NotFoundError :: "string \<Rightarrow> GatewayErrorOptions \<Rightarrow> GatewayError" where
  "NotFoundError msg options =
     newGatewayError C_NotFoundError msg 404 Not_found_error (spread_code ''not_found'' options)"

definition MAX_ISSUES_IN_MESSAGE :: nat where
  "MAX_ISSUES_IN_MESSAGE = 3"

fun summarize_loop :: "zod_issue list \<Rightarrow> string list \<Rightarrow> string option \<Rightarrow> string list \<times> string option" where
  "summarize_loop [] parts param = (parts, param)"
| "summarize_loop (NotAnObject # is) parts param = summarize_loop is parts param"
| "summarize_loop (Issue path msg # is) parts param =
     (let p = (case path of None \<Rightarrow> '''' | Some xs \<Rightarrow> join ''.'' xs);
          m = nullish msg ''invalid value'';
          param' = nullish_opt param (if p = '''' then None else Some p)
      in summarize_loop is (parts @ [if p = '''' then m else p @ '': '' @ m]) param')"

definition summarizeIssues :: "zod_issue list option \<Rightarrow> string \<times> string option" where
  "summarizeIssues issues =
     (case issues of
        None \<Rightarrow> ('''', None)
      | Some is \<Rightarrow>
          if is = [] then ('''', None)
          else (let (parts, param) = summarize_loop (take MAX_ISSUES_IN_MESSAGE is) [] None;
                    more = (if length is > MAX_ISSUES_IN_MESSAGE
                            then '' (+'' @ show_nat (length is - MAX_ISSUES_IN_MESSAGE) @ '' more)''
                            else '''')
                in (if parts = [] then '''' else join ''; '' parts @ more, param)))"

definition ValidationError :: "string \<Rightarrow> GatewayErrorOptions \<Rightarrow> GatewayError" where
  "ValidationError msg options =
     (let (detail, param) = summarizeIssues (opt_issues options)
      in newGatewayError C_ValidationError
           (if detail = '''' then msg else msg @ '' '' @ detail) 422 Invalid_request_error
           (spread_code ''invalid_request''
             (options\<lparr>opt_param := nullish_opt (opt_param options) param\<rparr>)))"

definition PayloadTooLargeError :: "string \<Rightarrow> GatewayErrorOptions \<Rightarrow> GatewayError" where
  "PayloadTooLargeError msg options =
     newGatewayError C_PayloadTooLargeError msg 413 Invalid_request_error
       (spread_code ''payload_too_large'' options)"

definition RateLimitError :: "string \<Rightarrow> rat \<Rightarrow> GatewayErrorOptions \<Rightarrow> GatewayError" where
  "RateLimitError msg seconds options =
     (newGatewayError C_RateLimitError msg 429 Rate_limit_error
        (spread_retryable True (spread_code ''rate_limit_exceeded'' options)))
       \<lparr>retryAfterSeconds := Some (max 1 (js_ceil seconds))\<rparr>"

definition ProviderError :: "string \<Rightarrow> int \<Rightarrow> GatewayErrorOptions \<Rightarrow> GatewayError" where
  "ProviderError msg status options =
     (newGatewayError C_ProviderError msg status
        (if status \<ge> 500 then Server_error else Invalid_request_error)
        (spread_retryable (status \<ge> 500 \<or> status = 429) (spread_code ''provider_error'' options)))
       \<lparr>err_providerId := opt_providerId options\<rparr>"

definition UpstreamTimeoutError :: "string option \<Rightarrow> GatewayErrorOptions \<Rightarrow> GatewayError" where
  "UpstreamTimeoutError pid options =
     (newGatewayError C_UpstreamTimeoutError ''The upstream provider timed out.'' 504 Server_error
        (spread_retryable True (spread_code ''upstream_timeout'' options)))
       \<lparr>err_providerId := pid\<rparr>"

definition CircuitOpenError :: "string \<Rightarrow> GatewayErrorOptions \<Rightarrow> GatewayError" where
  "CircuitOpenError pid options =
     (newGatewayError C_CircuitOpenError
        (''Provider '' @ pid @ '' is temporarily unavailable (circuit open).'') 503 Server_error
        (spread_retryable True (spread_code ''circuit_open'' options)))
       \<lparr>err_providerId := Some pid\<rparr>"

definition AllProvidersFailedError :: "nat \<Rightarrow> GatewayErrorOptions \<Rightarrow> GatewayError" where
  "AllProvidersFailedError attempts options =
     (newGatewayError C_AllProvidersFailedError
        ''All upstream providers are currently unavailable. Please retry shortly.'' 503 Server_error
        (spread_retryable True (spread_code ''all_providers_failed'' options)))
       \<lparr>err_attempts := Some attempts\<rparr>"

definition InternalError :: "string \<Rightarrow> GatewayErrorOptions \<Rightarrow> GatewayError" where
  "InternalError msg options =
     newGatewayError C_InternalError msg 500 Api_error (spread_code ''internal_error'' options)"

definition InsufficientQuotaError :: "string \<Rightarrow> GatewayErrorOptions \<Rightarrow> GatewayError" where
  "InsufficientQuotaError msg options =
     newGatewayError C_InsufficientQuotaError msg 429 Rate_limit_error
       (spread_code ''insufficient_quota'' options)"

definition ServiceUnavailableError :: "string \<Rightarrow> GatewayErrorOptions \<Rightarrow> GatewayError" where
  "ServiceUnavailableError msg options =
     newGatewayError C_ServiceUnavailableError msg 503 Server_error
       (spread_retryable True (spread_code ''service_unavailable'' options))"

section \<open>Thrown values and their normalisation\<close>

text \<open>
  What a \<open>catch\<close> clause may see: a gateway error, another \<open>Error\<close> instance, a plain
  object (with its \<open>String(\<dots>)\<close> rendering) or a primitive (likewise).  The record holds the
  own properties the code inspects.
\<close>

record js_error =
  je_name :: string
  je_message :: string
  je_code :: "string option"
  je_statusCode :: "int option"
  je_status :: "int option"
  je_validation :: bool

datatype thrown =
    TGateway GatewayError
  | TError js_error
  | TObject string js_error
  | TValue string

definition plain_error :: "string \<Rightarrow> string \<Rightarrow> js_error" where
  "plain_error name msg = \<lparr>je_name = name, je_message = msg, je_code = None,
     je_statusCode = None, je_status = None, je_validation = False\<rparr>"

definition generic_message :: string where
  "generic_message = ''An unexpected internal error occurred.''"

fun GatewayError_from :: "thrown \<Rightarrow> GatewayError" where
  "GatewayError_from (TGateway g) = g"
| "GatewayError_from (TError e) = InternalError generic_message no_options"
| "GatewayError_from (TObject s e) = InternalError generic_message no_options"
| "GatewayError_from (TValue s) = InternalError generic_message no_options"

fun toErrorMessage :: "thrown \<Rightarrow> string" where
  "toErrorMessage (TGateway g) = message g"
| "toErrorMessage (TError e) = je_message e"
| "toErrorMessage (TObject s e) = s"
| "toErrorMessage (TValue s) = s"

record OpenAIErrorBody =
  body_message :: string
  body_type :: OpenAIErrorType
  body_param :: "string option"
  body_code :: "string option"

definition toOpenAIError :: "GatewayError \<Rightarrow> OpenAIErrorBody" where
  "toOpenAIError g = \<lparr>body_message = message g, body_type = openAIType g,
     body_param = err_param g, body_code = err_code g\<rparr>"

definition isFastifyError :: "js_error \<Rightarrow> bool" where
  "isFastifyError e = (je_code e \<noteq> None \<or> je_statusCode e \<noteq> None \<or> je_validation e)"

definition normalize_fastify :: "js_error \<Rightarrow> GatewayError option" where
  "normalize_fastify e =
     (if je_code e = Some ''FST_ERR_CTP_BODY_TOO_LARGE''
      then Some (PayloadTooLargeError ''Request body is too large.'' no_options)
      else if je_code e = Some ''FST_UNDER_PRESSURE''
      then Some (ServiceUnavailableError (je_message e) no_options)
      else if je_validation e
      then Some (ValidationError ''Request failed schema validation.'' no_options)
      else if (case je_code e of None \<Rightarrow> False | Some c \<Rightarrow> startsWith c ''FST_ERR_CTP'')
      then Some (newGatewayError C_GatewayError ''Malformed request body.'' 400
                   Invalid_request_error (no_options\<lparr>opt_code := Some ''invalid_request''\<rparr>))
      else (case je_statusCode e of
              Some sc \<Rightarrow>
                if sc \<ge> 400 \<and> sc < 500
                then Some (newGatewayError C_GatewayError (je_message e) sc
                       Invalid_request_error (no_options\<lparr>opt_code := Some ''invalid_request''\<rparr>))
                else None
            | None \<Rightarrow> None))"

definition normalize_object :: "js_error \<Rightarrow> thrown \<Rightarrow> GatewayError" where
  "normalize_object e t =
     (if isFastifyError e
      then (case normalize_fastify e of Some g \<Rightarrow> g | None \<Rightarrow> GatewayError_from t)
      else GatewayError_from t)"

fun normalizeError :: "thrown \<Rightarrow> GatewayError" where
  "normalizeError (TGateway g) = g"
| "normalizeError (TError e) = normalize_object e (TError e)"
| "normalizeError (TObject s e) = normalize_object e (TObject s e)"
| "normalizeError (TValue s) = GatewayError_from (TValue s)"

text \<open>The reply of the error handler: a started response is only ended.\<close>

datatype reply_action =
    EndSocket
  | SendError int "(string \<times> string) list" OpenAIErrorBody

definition errorHandler :: "thrown \<Rightarrow> bool \<Rightarrow> reply_action" where
  "errorHandler err headersSent =
     (let g = normalizeError err in
      if headersSent then EndSocket
      else SendError (statusCode g)
             (case (ge_class g, retryAfterSeconds g) of
                (C_RateLimitError, Some n) \<Rightarrow> [(''retry-after'', show_int n)]
              | _ \<Rightarrow> [])
             (toOpenAIError g))"

definition notFoundHandler :: "string \<Rightarrow> string \<Rightarrow> reply_action" where
  "notFoundHandler meth url =
     (let g = NotFoundError (''No route for '' @ meth @ '' '' @ url @ ''.'') no_options
      in SendError (statusCode g) [] (toOpenAIError g))"

section \<open>Properties of the taxonomy\<close>

lemmas gateway_error_defs =
  newGatewayError_def AuthenticationError_def PermissionError_def NotFoundError_def
  PayloadTooLargeError_def RateLimitError_def ProviderError_def UpstreamTimeoutError_def
  CircuitOpenError_def AllProvidersFailedError_def InternalError_def
  InsufficientQuotaError_def ServiceUnavailableError_def ValidationError_def
  spread_code_def spread_retryable_def no_options_def

text \<open>
  A well-formed error pairs its status with an error type of the right family, and an
  error of the rate-limit class carries a positive retry hint.
\<close>

definition server_side :: "OpenAIErrorType \<Rightarrow> bool" where
  "server_side t = (t = Server_error \<or> t = Api_error)"

definition wf_error :: "GatewayError \<Rightarrow> bool" where
  "wf_error g = ((statusCode g \<ge> 500 \<longleftrightarrow> server_side (openAIType g)) \<and>
     (ge_class g = C_RateLimitError \<longrightarrow> (\<exists>n. retryAfterSeconds g = Some n \<and> n \<ge> 1)))"

lemma wf_subclasses [simp]:
  "wf_error (AuthenticationError m opts)" "wf_error (PermissionError m opts)"
  "wf_error (NotFoundError m opts)" "wf_error (PayloadTooLargeError m opts)"
  "wf_error (RateLimitError m s opts)" "wf_error (ProviderError m st opts)"
  "wf_error (UpstreamTimeoutError p opts)" "wf_error (CircuitOpenError q opts)"
  "wf_error (AllProvidersFailedError k opts)" "wf_error (InternalError m opts)"
  "wf_error (InsufficientQuotaError m opts)" "wf_error (ServiceUnavailableError m opts)"
  by (simp_all add: gateway_error_defs wf_error_def server_side_def)

lemma wf_ValidationError [simp]: "wf_error (ValidationError m opts)"
  by (simp add: gateway_error_defs wf_error_def server_side_def split: prod.splits)

lemma wf_normalize_fastify: "normalize_fastify e = Some g \<Longrightarrow> wf_error g"
  by (auto simp: normalize_fastify_def split: if_splits option.splits)
    (auto simp: gateway_error_defs wf_error_def server_side_def)

lemma wf_normalize_object: "wf_error (GatewayError_from t) \<Longrightarrow> wf_error (normalize_object e t)"
  by (auto simp: normalize_object_def dest: wf_normalize_fastify split: option.splits)

lemma wf_normalizeError:
  assumes "\<And>g. t = TGateway g \<Longrightarrow> wf_error g"
  shows "wf_error (normalizeError t)"
  using assms by (cases t) (auto intro: wf_normalize_object)

text \<open>
  Errors that carry no property the handler recognises are rendered with a fixed body:
  nothing of their own message, name or fields reaches the client.
\<close>

definition opaque_error :: "thrown \<Rightarrow> bool" where
  "opaque_error t =
     (case t of
        TGateway g \<Rightarrow> False
      | TError e \<Rightarrow> \<not> isFastifyError e \<or> normalize_fastify e = None
      | TObject s e \<Rightarrow> \<not> isFastifyError e \<or> normalize_fastify e = None
      | TValue s \<Rightarrow> True)"

lemma normalize_opaque: "opaque_error t \<Longrightarrow> normalizeError t = InternalError generic_message no_options"
  by (cases t) (auto simp: opaque_error_def normalize_object_def)

lemma from_not_gateway:
  "(\<And>g. t \<noteq> TGateway g) \<Longrightarrow> GatewayError_from t = InternalError generic_message no_options"
  by (cases t) auto

section \<open>What the client sees\<close>

text \<open>
  An unexpected error never leaks: unless the thrown value is a gateway error or carries
  a property the handler recognises (a Fastify code, a client status, a validation flag), the
  reply is a 500 with one fixed body, so nothing of the value's message, name or text reaches
  the client; and a response that has already started is only ended.
\<close>

theorem error_reply_opaque:
  assumes "opaque_error t"
  shows "errorHandler t started =
    (if started then EndSocket
     else SendError 500 [] \<lparr>body_message = generic_message, body_type = Api_error, body_param = None,
       body_code = Some ''internal_error''\<rparr>)"
  using normalize_opaque [OF assms]
  by (simp add: errorHandler_def Let_def gateway_error_defs toOpenAIError_def)

theorem error_reply_opaque_witness:
  "errorHandler (TError (plain_error ''DatabaseError'' ''password=hunter2'')) False =
     SendError 500 [] \<lparr>body_message = generic_message, body_type = Api_error, body_param = None,
       body_code = Some ''internal_error''\<rparr>"
proof -
  have "opaque_error (TError (plain_error ''DatabaseError'' ''password=hunter2''))"
    by (simp add: opaque_error_def isFastifyError_def plain_error_def)
  from error_reply_opaque [OF this, of False] show ?thesis by simp
qed

text \<open>
  Every error reply is well formed: the status and the OpenAI error type belong to the
  same family (a status of 500 or more exactly for server-side types), and a rate-limit error
  always carries a Retry-After of at least one second.
\<close>

theorem error_reply_wf:
  assumes "\<And>g. t = TGateway g \<Longrightarrow> wf_error g"
  shows "\<exists>g. normalizeError t = g \<and> wf_error g \<and>
    errorHandler t False = SendError (statusCode g)
      (if ge_class g = C_RateLimitError then [(''retry-after'', show_int (the (retryAfterSeconds g)))] else [])
      (toOpenAIError g) \<and>
    (500 \<le> statusCode g \<longleftrightarrow> server_side (body_type (toOpenAIError g))) \<and>
    (ge_class g = C_RateLimitError \<longrightarrow> 1 \<le> the (retryAfterSeconds g))"
proof -
  have wf: "wf_error (normalizeError t)" using assms by (rule wf_normalizeError)
  then show ?thesis
    by (auto simp: errorHandler_def Let_def wf_error_def toOpenAIError_def
        split: error_class.splits option.splits)
qed

theorem error_reply_wf_witness:
  "errorHandler (TGateway (RateLimitError ''Rate limit exceeded.'' (3 / 2) no_options)) False =
     SendError 429 [(''retry-after'', ''2'')] (toOpenAIError (RateLimitError ''Rate limit exceeded.'' (3 / 2) no_options))"
proof -
  have two: "show_int 2 = ''2''" by code_simp
  have "\<lceil>3 / 2 :: rat\<rceil> = 2" by (simp add: ceiling_eq_iff)
  with error_reply_wf [of "TGateway (RateLimitError ''Rate limit exceeded.'' (3 / 2) no_options)"] two
  show ?thesis
    by (simp add: gateway_error_defs wf_error_def server_side_def js_ceil_def)
qed

end
