(* ===== verification/Redis_Service.thy ===== *)
theory Redis_Service
  imports Errors "HOL-Library.List_Lexorder" "HOL-Library.Char_ord"
begin

text \<open>
  Redis as the gateway uses it.  The Redis server is not part of the repository, so it is
  a parameter: a record \<open>redis_env\<close> of the functions through which the code reaches it, and
  a locale \<open>redis_service\<close> whose assumptions state the documented behaviour of the commands
  (\<open>redis_spec\<close> on an abstract key space with a server clock) and of the connection (time
  passes, a round trip may fail).  The Lua scripts of the sources are values of type
  \<open>'a lua\<close>, a tree of \<open>redis.call\<close>s, so that the behaviour of every script over every
  law-abiding server follows from its run over \<open>redis_spec\<close> by one simulation lemma.  The
  theory also holds the key builders of \<open>src/utils/constants.ts\<close> and the script runner of \<open>src/database/redis.ts\<close>.
\<close>

section \<open>Values, commands and replies\<close>

text \<open>A stored string: text, or the decimal rendering of an integer or a fraction.\<close>

datatype rval = VStr string | VInt int | VFloat rat

datatype robj = OStr rval | OHash "string \<Rightarrow> rval option" | OZset "(string \<times> int) list"

datatype rcmd =
    GET string
  | SET string rval
  | SET_PX string rval int
  | DEL "string list"
  | INCR string
  | DECR string
  | INCRBYFLOAT string rat
  | PEXPIRE string int
  | MGET "string list"
  | HGET string string
  | HSET string string rval
  | HINCRBY string string int
  | ZADD string int string
  | ZREMRANGEBYSCORE string int int
  | ZRANGEBYSCORE string int int
  | ZRANGE_FIRST string
  | ZCARD string

datatype rreply =
    RNil | ROk | RInt int | RBulk rval | RBulks "rval option list"
  | RScored "(string \<times> int) list" | RErr string

section \<open>The documented behaviour of the commands\<close>

record db =
  clock :: int
  keyspace :: "string \<Rightarrow> (robj \<times> int option) option"

definition empty_db :: "int \<Rightarrow> db" where
  "empty_db t = \<lparr>clock = t, keyspace = (\<lambda>_. None)\<rparr>"

text \<open>A key is visible until its deadline, if it has one, has passed.\<close>

definition live :: "db \<Rightarrow> string \<Rightarrow> (robj \<times> int option) option" where
  "live d k = (case keyspace d k of
     None \<Rightarrow> None
   | Some (x, None) \<Rightarrow> Some (x, None)
   | Some (x, Some t) \<Rightarrow> if clock d \<le> t then Some (x, Some t) else None)"

definition put :: "string \<Rightarrow> robj \<Rightarrow> int option \<Rightarrow> db \<Rightarrow> db" where
  "put k x ttl d = d\<lparr>keyspace := (keyspace d)(k \<mapsto> (x, ttl))\<rparr>"

definition del_keys :: "string list \<Rightarrow> db \<Rightarrow> db" where
  "del_keys ks d = d\<lparr>keyspace := (\<lambda>k. if k \<in> set ks then None else keyspace d k)\<rparr>"

definition advance :: "int \<Rightarrow> db \<Rightarrow> db" where
  "advance dt d = d\<lparr>clock := clock d + dt\<rparr>"

definition wrongtype :: rreply where
  "wrongtype = RErr ''WRONGTYPE Operation against a key holding the wrong kind of value''"

definition not_integer :: rreply where
  "not_integer = RErr ''ERR value is not an integer or out of range''"

text \<open>Sorted sets are kept in their documented order: by score, then by member.\<close>

fun zinsert :: "string \<times> int \<Rightarrow> (string \<times> int) list \<Rightarrow> (string \<times> int) list" where
  "zinsert e [] = [e]"
| "zinsert e (f # zs) =
     (if snd e < snd f \<or> (snd e = snd f \<and> fst e < fst f) then e # f # zs else f # zinsert e zs)"

definition zadd :: "string \<Rightarrow> int \<Rightarrow> (string \<times> int) list \<Rightarrow> (string \<times> int) list" where
  "zadd m sc zs = zinsert (m, sc) (filter (\<lambda>e. fst e \<noteq> m) zs)"

definition in_range :: "int \<Rightarrow> int \<Rightarrow> string \<times> int \<Rightarrow> bool" where
  "in_range lo hi e = (lo \<le> snd e \<and> snd e \<le> hi)"

definition incr_by :: "string \<Rightarrow> int \<Rightarrow> db \<Rightarrow> rreply \<times> db" where
  "incr_by k n d = (case live d k of
     None \<Rightarrow> (RInt n, put k (OStr (VInt n)) None d)
   | Some (OStr (VInt i), ttl) \<Rightarrow> (RInt (i + n), put k (OStr (VInt (i + n))) ttl d)
   | Some (OStr _, ttl) \<Rightarrow> (not_integer, d)
   | Some _ \<Rightarrow> (wrongtype, d))"

definition rval_num :: "rval \<Rightarrow> rat option" where
  "rval_num v = (case v of VInt i \<Rightarrow> Some (of_int i) | VFloat q \<Rightarrow> Some q | VStr s \<Rightarrow> None)"

definition get_str :: "db \<Rightarrow> string \<Rightarrow> rval option" where
  "get_str d k = (case live d k of Some (OStr v, _) \<Rightarrow> Some v | _ \<Rightarrow> None)"

fun redis_spec :: "rcmd \<Rightarrow> db \<Rightarrow> rreply \<times> db" where
  "redis_spec (GET k) d = (case live d k of
      None \<Rightarrow> (RNil, d) | Some (OStr v, _) \<Rightarrow> (RBulk v, d) | Some _ \<Rightarrow> (wrongtype, d))"
| "redis_spec (SET k v) d = (ROk, put k (OStr v) None d)"
| "redis_spec (SET_PX k v ms) d =
     (if ms \<le> 0 then (RErr ''ERR invalid expire time in 'set' command'', d)
      else (ROk, put k (OStr v) (Some (clock d + ms)) d))"
| "redis_spec (DEL ks) d =
     (RInt (int (length (filter (\<lambda>k. live d k \<noteq> None) (remdups ks)))), del_keys ks d)"
| "redis_spec (INCR k) d = incr_by k 1 d"
| "redis_spec (DECR k) d = incr_by k (- 1) d"
| "redis_spec (INCRBYFLOAT k q) d = (case live d k of
      None \<Rightarrow> (RBulk (VFloat q), put k (OStr (VFloat q)) None d)
    | Some (OStr v, ttl) \<Rightarrow> (case rval_num v of
          None \<Rightarrow> (RErr ''ERR value is not a valid float'', d)
        | Some x \<Rightarrow> (RBulk (VFloat (x + q)), put k (OStr (VFloat (x + q))) ttl d))
    | Some _ \<Rightarrow> (wrongtype, d))"
| "redis_spec (PEXPIRE k ms) d = (case live d k of
      None \<Rightarrow> (RInt 0, d)
    | Some (x, _) \<Rightarrow>
        if ms \<le> 0 then (RInt 1, del_keys [k] d) else (RInt 1, put k x (Some (clock d + ms)) d))"
| "redis_spec (MGET ks) d = (RBulks (map (get_str d) ks), d)"
| "redis_spec (HGET k f) d = (case live d k of
      None \<Rightarrow> (RNil, d)
    | Some (OHash h, _) \<Rightarrow> (case h f of None \<Rightarrow> (RNil, d) | Some v \<Rightarrow> (RBulk v, d))
    | Some _ \<Rightarrow> (wrongtype, d))"
| "redis_spec (HSET k f v) d = (case live d k of
      None \<Rightarrow> (RInt 1, put k (OHash (Map.empty(f \<mapsto> v))) None d)
    | Some (OHash h, ttl) \<Rightarrow> (RInt (if h f = None then 1 else 0), put k (OHash (h(f \<mapsto> v))) ttl d)
    | Some _ \<Rightarrow> (wrongtype, d))"
| "redis_spec (HINCRBY k f n) d = (case live d k of
      None \<Rightarrow> (RInt n, put k (OHash (Map.empty(f \<mapsto> VInt n))) None d)
    | Some (OHash h, ttl) \<Rightarrow> (case h f of
          None \<Rightarrow> (RInt n, put k (OHash (h(f \<mapsto> VInt n))) ttl d)
        | Some (VInt i) \<Rightarrow> (RInt (i + n), put k (OHash (h(f \<mapsto> VInt (i + n)))) ttl d)
        | Some _ \<Rightarrow> (RErr ''ERR hash value is not an integer'', d))
    | Some _ \<Rightarrow> (wrongtype, d))"
| "redis_spec (ZADD k sc m) d = (case live d k of
      None \<Rightarrow> (RInt 1, put k (OZset [(m, sc)]) None d)
    | Some (OZset zs, ttl) \<Rightarrow>
        (RInt (if m \<in> fst ` set zs then 0 else 1), put k (OZset (zadd m sc zs)) ttl d)
    | Some _ \<Rightarrow> (wrongtype, d))"
| "redis_spec (ZREMRANGEBYSCORE k lo hi) d = (case live d k of
      None \<Rightarrow> (RInt 0, d)
    | Some (OZset zs, ttl) \<Rightarrow>
        (let rest = filter (\<lambda>e. \<not> in_range lo hi e) zs
         in (RInt (int (length zs - length rest)),
             if rest = [] then del_keys [k] d else put k (OZset rest) ttl d))
    | Some _ \<Rightarrow> (wrongtype, d))"
| "redis_spec (ZRANGEBYSCORE k lo hi) d = (case live d k of
      None \<Rightarrow> (RBulks [], d)
    | Some (OZset zs, _) \<Rightarrow> (RBulks (map (\<lambda>e. Some (VStr (fst e))) (filter (in_range lo hi) zs)), d)
    | Some _ \<Rightarrow> (wrongtype, d))"
| "redis_spec (ZRANGE_FIRST k) d = (case live d k of
      None \<Rightarrow> (RScored [], d)
    | Some (OZset zs, _) \<Rightarrow> (RScored (take 1 zs), d)
    | Some _ \<Rightarrow> (wrongtype, d))"
| "redis_spec (ZCARD k) d = (case live d k of
      None \<Rightarrow> (RInt 0, d) | Some (OZset zs, _) \<Rightarrow> (RInt (int (length zs)), d)
    | Some _ \<Rightarrow> (wrongtype, d))"

section \<open>Lua scripts\<close>

text \<open>
  A script is a tree of \<open>redis.call\<close>s that ends in a value or in a Lua error.  An error reply
  raises inside \<open>redis.call\<close> and aborts the script; the writes made before it stay.
\<close>

datatype 'a lua = Return 'a | Call rcmd "rreply \<Rightarrow> 'a lua" | LuaError string

primrec exec :: "(rcmd \<Rightarrow> 's \<Rightarrow> rreply \<times> 's) \<Rightarrow> 'a lua \<Rightarrow> 's \<Rightarrow> (string, 'a) result \<times> 's" where
  "exec call (Return a) s = (Inr a, s)"
| "exec call (LuaError e) s = (Inl e, s)"
| "exec call (Call c k) s =
     (case call c s of (r, s') \<Rightarrow> (case r of RErr e \<Rightarrow> (Inl e, s') | _ \<Rightarrow> exec call (k r) s'))"

text \<open>\<open>tonumber(reply or '0')\<close>: a missing key counts as 0, text has no number.\<close>

definition tonumber_or_zero :: "rreply \<Rightarrow> rat option" where
  "tonumber_or_zero r = (case r of RNil \<Rightarrow> Some 0 | RBulk v \<Rightarrow> rval_num v | RInt i \<Rightarrow> Some (of_int i) | _ \<Rightarrow> None)"

definition with_num :: "rreply \<Rightarrow> (rat \<Rightarrow> 'a lua) \<Rightarrow> 'a lua" where
  "with_num r f = (case tonumber_or_zero r of
     None \<Rightarrow> LuaError ''attempt to compare nil with number'' | Some n \<Rightarrow> f n)"

definition int_reply :: "rreply \<Rightarrow> int" where
  "int_reply r = (case r of RInt i \<Rightarrow> i | _ \<Rightarrow> 0)"

definition reply_string_or :: "string \<Rightarrow> rreply \<Rightarrow> string" where
  "reply_string_or dflt r = (case r of RBulk (VStr s) \<Rightarrow> s | RBulk (VInt i) \<Rightarrow> show_int i | _ \<Rightarrow> dflt)"

lemma with_num_simps [simp]:
  "with_num RNil f = f 0"
  "with_num (RBulk (VInt i)) f = f (of_int i)"
  "with_num (RBulk (VFloat q)) f = f q"
  by (simp_all add: with_num_def tonumber_or_zero_def rval_num_def)

lemma int_reply_RInt [simp]: "int_reply (RInt i) = i"
  by (simp add: int_reply_def)

lemma reply_string_or_simps [simp]:
  "reply_string_or x RNil = x" "reply_string_or x (RBulk (VStr s)) = s"
  by (simp_all add: reply_string_or_def)

section \<open>The connection\<close>

record 's redis_env =
  e_call :: "rcmd \<Rightarrow> 's \<Rightarrow> rreply \<times> 's"
  e_tick :: "'s \<Rightarrow> 's"
  e_up :: "'s \<Rightarrow> bool"
  e_known :: "'s \<Rightarrow> bool"
  e_sha :: "string \<Rightarrow> 's \<Rightarrow> bool"
  e_set_sha :: "string \<Rightarrow> bool \<Rightarrow> 's \<Rightarrow> 's"

datatype redis_error = Unreachable | NoScript | ScriptError string

text \<open>
  One round trip: time passes, then the command or script runs atomically on the server,
  unless the connection is down.  \<open>e_up\<close> and \<open>e_known\<close> are arbitrary observations of the
  environment (is the connection up, does the server still cache the script); \<open>e_sha\<close> and
  \<open>e_set_sha\<close> read and write the \<open>sha\<close> field of the named \<open>RedisScript\<close> object of this process.
\<close>

definition round_trip :: "'s redis_env \<Rightarrow> 'a lua \<Rightarrow> 's \<Rightarrow> (redis_error, 'a) result \<times> 's" where
  "round_trip E p s =
     (let s1 = e_tick E s in
      if \<not> e_up E s1 then (Inl Unreachable, s1)
      else (case exec (e_call E) p s1 of
              (Inl e, s2) \<Rightarrow> (Inl (ScriptError e), s2)
            | (Inr a, s2) \<Rightarrow> (Inr a, s2)))"

definition command :: "rcmd \<Rightarrow> rreply lua" where
  "command c = Call c Return"

text \<open>
  \<open>RedisScript.run\<close>: load the script once, invoke it by its digest, and fall back to sending
  the source once when the server has lost it.
\<close>

definition script_load :: "'s redis_env \<Rightarrow> 's \<Rightarrow> (redis_error, unit) result \<times> 's" where
  "script_load E s =
     (let s1 = e_tick E s in if e_up E s1 then (Inr (), s1) else (Inl Unreachable, s1))"

definition evalsha :: "'s redis_env \<Rightarrow> 'a lua \<Rightarrow> 's \<Rightarrow> (redis_error, 'a) result \<times> 's" where
  "evalsha E p s =
     (let s1 = e_tick E s in
      if e_up E s1 \<and> \<not> e_known E s1 then (Inl NoScript, s1)
      else if \<not> e_up E s1 then (Inl Unreachable, s1)
      else (case exec (e_call E) p s1 of
              (Inl e, s2) \<Rightarrow> (Inl (ScriptError e), s2) | (Inr a, s2) \<Rightarrow> (Inr a, s2)))"

definition RedisScript_run ::
  "'s redis_env \<Rightarrow> string \<Rightarrow> 'a lua \<Rightarrow> 's \<Rightarrow> (redis_error, 'a) result \<times> 's" where
  "RedisScript_run E name p s =
     (let (ld, s1) = (if e_sha E name s then (Inr (), s)
                      else (case script_load E s of
                              (Inl e, s0) \<Rightarrow> (Inl e, s0)
                            | (Inr _, s0) \<Rightarrow> (Inr (), e_set_sha E name True s0))) in
      case ld of
        Inl e \<Rightarrow> (Inl e, s1)
      | Inr _ \<Rightarrow>
          (case evalsha E p s1 of
             (r, s2) \<Rightarrow> if r = Inl NoScript then round_trip E p (e_set_sha E name False s2) else (r, s2)))"

section \<open>The service contract\<close>

definition atomic_run ::
  "('s \<Rightarrow> db) \<Rightarrow> 'a lua \<Rightarrow> 's \<Rightarrow> (redis_error, 'a) result \<Rightarrow> 's \<Rightarrow> bool" where
  "atomic_run view p s r s' = (\<exists>dt \<ge> 0.
     (r = Inl Unreachable \<and> view s' = advance dt (view s)) \<or>
     (\<exists>x. exec redis_spec p (advance dt (view s)) = (x, view s') \<and>
          r = (case x of Inl e \<Rightarrow> Inl (ScriptError e) | Inr a \<Rightarrow> Inr a)))"

lemma advance_zero [simp]: "advance 0 d = d"
  by (simp add: advance_def)

lemma advance_advance [simp]: "advance a (advance b d) = advance (b + a) d"
  by (simp add: advance_def)

lemma atomic_run_delay:
  assumes "atomic_run view p s1 r s'" and "\<exists>dt \<ge> 0. view s1 = advance dt (view s)"
  shows "atomic_run view p s r s'"
proof -
  obtain a where a: "0 \<le> a" "view s1 = advance a (view s)" using assms(2) by blast
  from assms(1) obtain b where "0 \<le> b" and
    "(r = Inl Unreachable \<and> view s' = advance b (view s1)) \<or>
     (\<exists>x. exec redis_spec p (advance b (view s1)) = (x, view s') \<and>
          r = (case x of Inl e \<Rightarrow> Inl (ScriptError e) | Inr a \<Rightarrow> Inr a))"
    by (auto simp: atomic_run_def)
  with a show ?thesis unfolding atomic_run_def by (intro exI [of _ "a + b"]) auto
qed

lemma atomic_runE:
  assumes "atomic_run view p s r s'"
  obtains dt where "0 \<le> dt"
    "(r = Inl Unreachable \<and> view s' = advance dt (view s)) \<or>
     (\<exists>x. exec redis_spec p (advance dt (view s)) = (x, view s') \<and>
          r = (case x of Inl e \<Rightarrow> Inl (ScriptError e) | Inr a \<Rightarrow> Inr a))"
  using assms by (auto simp: atomic_run_def)

locale redis_service =
  fixes E :: "'s redis_env" and view :: "'s \<Rightarrow> db"
  assumes call_doc: "redis_spec c (view s) = (fst (e_call E c s), view (snd (e_call E c s)))"
    and tick_doc: "\<exists>dt \<ge> 0. view (e_tick E s) = advance dt (view s)"
    and sha_local: "view (e_set_sha E name b s) = view s"
begin

lemma exec_view:
  "exec redis_spec p (view s) = (fst (exec (e_call E) p s), view (snd (exec (e_call E) p s)))"
proof (induction p arbitrary: s)
  case (Call c k)
  obtain r s' where c: "e_call E c s = (r, s')"
    by fastforce
  with call_doc [of c s] have "redis_spec c (view s) = (r, view s')"
    by simp
  with c Call.IH [of "k r" s'] show ?case
    by (cases r) auto
qed auto

text \<open>
  Every round trip is, on the abstract key space, a delay followed by either nothing or
  one atomic run of the script over the documented commands; so is every invocation of a
  registered script, however often the server loses it.
\<close>

lemma round_trip_atomic:
  assumes "round_trip E p s = (r, s')"
  shows "atomic_run view p s r s'"
proof -
  let ?s1 = "e_tick E s"
  obtain dt where dt: "0 \<le> dt" "view ?s1 = advance dt (view s)"
    using tick_doc by blast
  obtain x s2 where x: "exec (e_call E) p ?s1 = (x, s2)"
    by fastforce
  with exec_view [of p ?s1] dt(2) have "exec redis_spec p (advance dt (view s)) = (x, view s2)"
    by simp
  with assms dt x show ?thesis
    by (auto simp: round_trip_def atomic_run_def Let_def split: if_splits sum.splits)
qed

lemma script_load_view:
  assumes "script_load E s = (r, s')"
  shows "\<exists>dt \<ge> 0. view s' = advance dt (view s)" and "r = Inr () \<or> r = Inl Unreachable"
  using assms tick_doc [of s] by (auto simp: script_load_def Let_def split: if_splits)

lemma evalsha_cases:
  assumes "evalsha E p s = (r, s')"
  shows "(r = Inl NoScript \<and> (\<exists>dt \<ge> 0. view s' = advance dt (view s))) \<or>
    (r \<noteq> Inl NoScript \<and> atomic_run view p s r s')"
proof (cases "e_up E (e_tick E s) \<and> \<not> e_known E (e_tick E s)")
  case True
  with assms tick_doc [of s] show ?thesis by (auto simp: evalsha_def Let_def)
next
  case False
  with assms have "round_trip E p s = (r, s')" "r \<noteq> Inl NoScript"
    by (auto simp: evalsha_def round_trip_def Let_def split: sum.splits if_splits prod.splits)
  with round_trip_atomic show ?thesis by blast
qed

lemma RedisScript_run_atomic:
  assumes "RedisScript_run E name p s = (r, s')"
  shows "atomic_run view p s r s'"
proof -
  obtain ld s0 where ld: "script_load E s = (ld, s0)" by fastforce
  define s1 where "s1 = (if e_sha E name s then s else e_set_sha E name True s0)"
  obtain x s2 where ev: "evalsha E p s1 = (x, s2)" by fastforce
  show ?thesis
  proof (cases "e_sha E name s \<or> ld = Inr ()")
    case True
    have "\<exists>dt \<ge> 0. view s1 = advance dt (view s)"
      using script_load_view(1) [OF ld] by (auto simp: s1_def sha_local intro: exI [where x = 0])
    moreover have "atomic_run view p s1 r s'"
    proof (cases "x = Inl NoScript")
      case True
      with assms ev ld \<open>e_sha E name s \<or> ld = Inr ()\<close>
      have "round_trip E p (e_set_sha E name False s2) = (r, s')"
        by (auto simp: RedisScript_run_def s1_def Let_def split: if_splits)
      with True round_trip_atomic evalsha_cases [OF ev] atomic_run_delay [of view p _ r s' s1]
      show ?thesis by (fastforce simp: sha_local)
    next
      case False
      with assms ev ld \<open>e_sha E name s \<or> ld = Inr ()\<close> have "x = r" "s2 = s'"
        by (auto simp: RedisScript_run_def s1_def Let_def split: if_splits)
      with evalsha_cases [OF ev] False show ?thesis by blast
    qed
    ultimately show ?thesis by (blast intro: atomic_run_delay)
  next
    case False
    then have "ld = Inl Unreachable" using script_load_view(2) [OF ld] by blast
    with False assms ld script_load_view(1) [OF ld] show ?thesis
      by (auto simp: RedisScript_run_def atomic_run_def Let_def)
  qed
qed

end

section \<open>A reference server\<close>

text \<open>
  The documented key space itself is a server: its connection follows an explicit schedule
  of delays and of answers to "is the connection up" and "is the script cached".
\<close>

record ref_server =
  rs_db :: db
  rs_up :: bool
  rs_known :: bool
  rs_shas :: "string set"
  rs_schedule :: "(int \<times> bool \<times> bool) list"

definition ref_call :: "rcmd \<Rightarrow> ref_server \<Rightarrow> rreply \<times> ref_server" where
  "ref_call c s = (case redis_spec c (rs_db s) of (r, d) \<Rightarrow> (r, s\<lparr>rs_db := d\<rparr>))"

definition ref_tick :: "ref_server \<Rightarrow> ref_server" where
  "ref_tick s = (case rs_schedule s of
     [] \<Rightarrow> s
   | (dt, up, known) # rest \<Rightarrow>
       s\<lparr>rs_db := advance (max 0 dt) (rs_db s), rs_up := up, rs_known := known, rs_schedule := rest\<rparr>)"

definition ref_env :: "ref_server redis_env" where
  "ref_env = \<lparr>e_call = ref_call, e_tick = ref_tick, e_up = rs_up, e_known = rs_known,
     e_sha = (\<lambda>n s. n \<in> rs_shas s),
     e_set_sha = (\<lambda>n b s. s\<lparr>rs_shas := (if b then insert n (rs_shas s) else rs_shas s - {n})\<rparr>)\<rparr>"

definition ref_init :: "int \<Rightarrow> ref_server" where
  "ref_init t = \<lparr>rs_db = empty_db t, rs_up = True, rs_known = True, rs_shas = {}, rs_schedule = []\<rparr>"

interpretation ref: redis_service ref_env rs_db
proof
  fix c s
  show "redis_spec c (rs_db s) = (fst (e_call ref_env c s), rs_db (snd (e_call ref_env c s)))"
    by (simp add: ref_env_def ref_call_def split: prod.splits)
next
  fix s
  show "\<exists>dt\<ge>0. rs_db (e_tick ref_env s) = advance dt (rs_db s)"
  proof (cases "rs_schedule s")
    case Nil
    then show ?thesis
      by (intro exI [of _ 0]) (simp add: ref_env_def ref_tick_def advance_def)
  next
    case (Cons a rest)
    obtain dt up known where "a = (dt, up, known)"
      by (cases a) auto
    with Cons show ?thesis
      by (intro exI [of _ "max 0 dt"]) (simp add: ref_env_def ref_tick_def)
  qed
next
  fix name b s
  show "rs_db (e_set_sha ref_env name b s) = rs_db s"
    by (simp add: ref_env_def)
qed

lemma ref_redis_service: "redis_service ref_env rs_db"
  by (rule ref.redis_service_axioms)

section \<open>Keys\<close>

type_synonym key_prefix = string

definition authKey :: "key_prefix \<Rightarrow> string \<Rightarrow> string" where
  "authKey pre h = pre @ ''auth:'' @ h"

definition cbState :: "key_prefix \<Rightarrow> string \<Rightarrow> string" where
  "cbState pre p = pre @ ''cb:'' @ p @ '':state''"

definition cbFailures :: "key_prefix \<Rightarrow> string \<Rightarrow> string" where
  "cbFailures pre p = pre @ ''cb:'' @ p @ '':failures''"

definition cbOpenedAt :: "key_prefix \<Rightarrow> string \<Rightarrow> string" where
  "cbOpenedAt pre p = pre @ ''cb:'' @ p @ '':opened_at''"

definition cbHalfSuccesses :: "key_prefix \<Rightarrow> string \<Rightarrow> string" where
  "cbHalfSuccesses pre p = pre @ ''cb:'' @ p @ '':half_successes''"

definition cbHalfProbes :: "key_prefix \<Rightarrow> string \<Rightarrow> string" where
  "cbHalfProbes pre p = pre @ ''cb:'' @ p @ '':half_probes''"

definition rateLimitRpm :: "key_prefix \<Rightarrow> string \<Rightarrow> string" where
  "rateLimitRpm pre a = pre @ ''rl:rpm:'' @ a"

definition rateLimitTpm :: "key_prefix \<Rightarrow> string \<Rightarrow> string" where
  "rateLimitTpm pre a = pre @ ''rl:tpm:'' @ a"

definition rateLimitTpmSum :: "key_prefix \<Rightarrow> string \<Rightarrow> string" where
  "rateLimitTpmSum pre a = pre @ ''rl:tpmsum:'' @ a"

definition rateLimitBurst :: "key_prefix \<Rightarrow> string \<Rightarrow> string" where
  "rateLimitBurst pre a = pre @ ''rl:burst:'' @ a"

definition cacheEntry :: "key_prefix \<Rightarrow> string \<Rightarrow> string" where
  "cacheEntry pre fp = pre @ ''cache:'' @ fp"

definition lbRoundRobin :: "key_prefix \<Rightarrow> string \<Rightarrow> string" where
  "lbRoundRobin pre k = pre @ ''lb:rr:'' @ k"

definition lbWrrCurrent :: "key_prefix \<Rightarrow> string \<Rightarrow> string" where
  "lbWrrCurrent pre k = pre @ ''lb:wrr:'' @ k"

definition lbConnections :: "key_prefix \<Rightarrow> string \<Rightarrow> string" where
  "lbConnections pre p = pre @ ''lb:conn:'' @ p"

definition lbLatencyEma :: "key_prefix \<Rightarrow> string \<Rightarrow> string" where
  "lbLatencyEma pre p = pre @ ''lb:lat:'' @ p"

lemma suffix_neq: "rev (x @ a) \<noteq> rev (y @ b) \<Longrightarrow> x @ a \<noteq> y @ b"
  by metis

lemmas key_defs =
  authKey_def cbState_def cbFailures_def cbOpenedAt_def cbHalfSuccesses_def cbHalfProbes_def
  rateLimitRpm_def rateLimitTpm_def rateLimitTpmSum_def rateLimitBurst_def cacheEntry_def
  lbRoundRobin_def lbWrrCurrent_def lbConnections_def lbLatencyEma_def

lemma cb_keys_distinct [key_simps, simp]:
  "cbState pre p \<noteq> cbFailures pre q" "cbState pre p \<noteq> cbOpenedAt pre q"
  "cbState pre p \<noteq> cbHalfSuccesses pre q" "cbState pre p \<noteq> cbHalfProbes pre q"
  "cbFailures pre p \<noteq> cbState pre q" "cbFailures pre p \<noteq> cbOpenedAt pre q"
  "cbFailures pre p \<noteq> cbHalfSuccesses pre q" "cbFailures pre p \<noteq> cbHalfProbes pre q"
  "cbOpenedAt pre p \<noteq> cbState pre q" "cbOpenedAt pre p \<noteq> cbFailures pre q"
  "cbOpenedAt pre p \<noteq> cbHalfSuccesses pre q" "cbOpenedAt pre p \<noteq> cbHalfProbes pre q"
  "cbHalfSuccesses pre p \<noteq> cbState pre q" "cbHalfSuccesses pre p \<noteq> cbFailures pre q"
  "cbHalfSuccesses pre p \<noteq> cbOpenedAt pre q" "cbHalfSuccesses pre p \<noteq> cbHalfProbes pre q"
  "cbHalfProbes pre p \<noteq> cbState pre q" "cbHalfProbes pre p \<noteq> cbFailures pre q"
  "cbHalfProbes pre p \<noteq> cbOpenedAt pre q" "cbHalfProbes pre p \<noteq> cbHalfSuccesses pre q"
  by (simp_all add: key_defs suffix_neq)

lemma cb_keys_inj [key_simps, simp]:
  "cbState pre p = cbState pre q \<longleftrightarrow> p = q" "cbFailures pre p = cbFailures pre q \<longleftrightarrow> p = q"
  "cbOpenedAt pre p = cbOpenedAt pre q \<longleftrightarrow> p = q"
  "cbHalfSuccesses pre p = cbHalfSuccesses pre q \<longleftrightarrow> p = q"
  "cbHalfProbes pre p = cbHalfProbes pre q \<longleftrightarrow> p = q"
  by (simp_all add: key_defs)

lemma rl_keys_distinct [key_simps, simp]:
  "rateLimitRpm pre a \<noteq> rateLimitTpm pre b" "rateLimitRpm pre a \<noteq> rateLimitTpmSum pre b"
  "rateLimitRpm pre a \<noteq> rateLimitBurst pre b" "rateLimitTpm pre a \<noteq> rateLimitRpm pre b"
  "rateLimitTpm pre a \<noteq> rateLimitTpmSum pre b" "rateLimitTpm pre a \<noteq> rateLimitBurst pre b"
  "rateLimitTpmSum pre a \<noteq> rateLimitRpm pre b" "rateLimitTpmSum pre a \<noteq> rateLimitTpm pre b"
  "rateLimitTpmSum pre a \<noteq> rateLimitBurst pre b" "rateLimitBurst pre a \<noteq> rateLimitRpm pre b"
  "rateLimitBurst pre a \<noteq> rateLimitTpm pre b" "rateLimitBurst pre a \<noteq> rateLimitTpmSum pre b"
  by (simp_all add: key_defs)

lemma rl_keys_inj [key_simps, simp]:
  "rateLimitRpm pre a = rateLimitRpm pre b \<longleftrightarrow> a = b"
  "rateLimitTpm pre a = rateLimitTpm pre b \<longleftrightarrow> a = b"
  "rateLimitTpmSum pre a = rateLimitTpmSum pre b \<longleftrightarrow> a = b"
  "rateLimitBurst pre a = rateLimitBurst pre b \<longleftrightarrow> a = b"
  by (simp_all add: key_defs)

lemma lb_keys_inj [key_simps, simp]:
  "lbConnections pre p = lbConnections pre q \<longleftrightarrow> p = q"
  "lbLatencyEma pre p = lbLatencyEma pre q \<longleftrightarrow> p = q"
  "lbWrrCurrent pre p = lbWrrCurrent pre q \<longleftrightarrow> p = q"
  "cacheEntry pre p = cacheEntry pre q \<longleftrightarrow> p = q" "authKey pre p = authKey pre q \<longleftrightarrow> p = q"
  by (simp_all add: key_defs)

section \<open>Evaluation lemmas\<close>

lemma live_put [simp]:
  "live (put k x ttl d) k' =
     (if k' = k then (case ttl of None \<Rightarrow> Some (x, None)
                      | Some t \<Rightarrow> if clock d \<le> t then Some (x, Some t) else None)
      else live d k')"
  by (auto simp: live_def put_def split: option.splits)

lemma put_put [simp]: "put k x t (put k y u d) = put k x t d"
  by (simp add: put_def)

lemma live_del_keys [simp]: "live (del_keys ks d) k = (if k \<in> set ks then None else live d k)"
  by (auto simp: live_def del_keys_def split: option.splits)

lemma clock_simps [simp]:
  "clock (put k x ttl d) = clock d" "clock (del_keys ks d) = clock d"
  "clock (advance dt d) = clock d + dt" "clock (empty_db t) = t"
  by (simp_all add: put_def del_keys_def advance_def empty_db_def)

lemma live_empty_db [simp]: "live (empty_db t) k = None"
  by (simp add: live_def empty_db_def)

lemma live_advance:
  "live (advance dt d) k =
     (case live d k of
        None \<Rightarrow> (if 0 \<le> dt then None else live (advance dt d) k)
      | Some (x, None) \<Rightarrow> Some (x, None)
      | Some (x, Some t) \<Rightarrow> if clock d + dt \<le> t then Some (x, Some t) else None)"
  by (auto simp: live_def advance_def split: option.splits)

lemma live_deadline: "live d k = Some (x, Some t) \<Longrightarrow> clock d \<le> t"
  by (auto simp: live_def split: option.splits if_splits)

section \<open>Text entries\<close>

text \<open>
  Several components keep serialised values under a family of keys: \<open>text_entries P key d\<close>
  says that every key \<open>key h\<close> is absent or holds a text that satisfies \<open>P h\<close>, and
  \<open>keeps_entries\<close> which commands keep it so.
\<close>

definition text_entry :: "(string \<Rightarrow> bool) \<Rightarrow> (robj \<times> int option) option \<Rightarrow> bool" where
  "text_entry P x = (case x of None \<Rightarrow> True | Some (OStr (VStr w), _) \<Rightarrow> P w | _ \<Rightarrow> False)"

definition text_entries :: "('h \<Rightarrow> string \<Rightarrow> bool) \<Rightarrow> ('h \<Rightarrow> string) \<Rightarrow> db \<Rightarrow> bool" where
  "text_entries P key d = (\<forall>h. text_entry (P h) (live d (key h)))"

definition keeps_entries :: "('h \<Rightarrow> string \<Rightarrow> bool) \<Rightarrow> ('h \<Rightarrow> string) \<Rightarrow> rcmd \<Rightarrow> bool" where
  "keeps_entries P key c = (case c of
     GET k \<Rightarrow> True | DEL ks \<Rightarrow> True | PEXPIRE k ms \<Rightarrow> True | MGET ks \<Rightarrow> True
   | SET_PX k v ms \<Rightarrow> (\<forall>h. k = key h \<longrightarrow> text_entry (P h) (Some (OStr v, None)))
   | INCR k \<Rightarrow> (\<forall>h. k \<noteq> key h)
   | _ \<Rightarrow> False)"

lemma text_entry_E:
  assumes "text_entry P x"
  obtains "x = None" | w ttl where "x = Some (OStr (VStr w), ttl)" "P w"
  using assms by (auto simp: text_entry_def split: option.splits prod.splits robj.splits rval.splits)

lemma text_entry_simps [simp]:
  "text_entry P None" "text_entry P (Some (OStr (VStr w), ttl)) = P w"
  by (simp_all add: text_entry_def)

lemma text_entries_absent: "(\<And>h. live d (key h) = None) \<Longrightarrow> text_entries P key d"
  by (simp add: text_entries_def)

lemma text_entries_advance: "text_entries P key d \<Longrightarrow> 0 \<le> dt \<Longrightarrow> text_entries P key (advance dt d)"
  unfolding text_entries_def
proof (intro allI)
  fix h
  assume "\<forall>h. text_entry (P h) (live d (key h))" "0 \<le> dt"
  then have "text_entry (P h) (live d (key h))" by blast
  then show "text_entry (P h) (live (advance dt d) (key h))"
    by (cases rule: text_entry_E) (use \<open>0 \<le> dt\<close> in \<open>auto simp: live_advance split: option.splits\<close>)
qed

lemma text_entry_ttl: "text_entry P (Some (x, ttl)) = text_entry P (Some (x, None))"
  by (simp add: text_entry_def split: robj.splits rval.splits)

lemma keeps_entries_command:
  assumes "keeps_entries P key c" "text_entries P key d"
  shows "text_entries P key (snd (redis_spec c d))"
proof -
  have "text_entry (P h) (live (snd (redis_spec c d)) (key h))" for h
  proof -
    have "text_entry (P h) (live d (key h))" using assms(2) by (simp add: text_entries_def)
    then show ?thesis using assms(1)
      by (cases rule: text_entry_E)
        (auto simp: keeps_entries_def incr_by_def text_entry_ttl [of _ _ "Some _"] split: rcmd.splits option.splits prod.splits
          robj.splits rval.splits if_splits)
  qed
  then show ?thesis by (simp add: text_entries_def)
qed

context redis_service
begin

lemma round_trip_entries:
  assumes "round_trip E (command c) s = (r, s')" "keeps_entries P key c" "text_entries P key (view s)"
  shows "text_entries P key (view s')"
  using round_trip_atomic [OF assms(1)]
proof (cases rule: atomic_runE)
  case (1 dt)
  have ok: "text_entries P key (advance dt (view s))" by (rule text_entries_advance [OF assms(3) 1(1)])
  have "snd (exec redis_spec (command c) d) = snd (redis_spec c d)" for d
    by (simp add: command_def split: prod.splits rreply.splits)
  with ok keeps_entries_command [OF assms(2) ok] 1(2) show ?thesis by (metis snd_conv)
qed

lemma round_trip_entry:
  assumes "round_trip E (command (GET (key h))) s = (Inr (RBulk (VStr w)), s')" "text_entries P key (view s)"
  shows "P h w"
  using round_trip_atomic [OF assms(1)]
proof (cases rule: atomic_runE)
  case (1 dt)
  have "text_entry (P h) (live (advance dt (view s)) (key h))"
    using text_entries_advance [OF assms(2) 1(1)] by (simp add: text_entries_def)
  then show ?thesis using 1(2)
    by (cases rule: text_entry_E) (auto simp: command_def split: sum.splits)
qed

end

end
