(* ===== verification/Provider_Base.thy ===== *)
theory Provider_Base
  imports Errors
begin

text \<open>
  The provider abstraction of \<open>src/providers/base.ts\<close>: the configuration an adapter instance
  carries, the lookups every other component makes on it, the classification of upstream HTTP
  and transport failures into the gateway's error taxonomy (which decides between failover
  and propagation), and URL joining.
\<close>

section \<open>Configuration\<close>

datatype AdapterType = AdOpenai | AdAnthropic | AdGemini | AdCohere | AdMistral

record ProviderModelInfo =
  mi_modelId :: string
  mi_displayName :: "string option"
  mi_contextWindow :: "int option"
  mi_maxOutputTokens :: "int option"
  mi_inputPricePer1k :: "rat option"
  mi_outputPricePer1k :: "rat option"
  mi_supportsStreaming :: bool
  mi_supportsTools :: bool
  mi_supportsVision :: bool

record BaseProvider =
  p_id :: string
  p_name :: string
  p_adapterType :: AdapterType
  p_baseUrl :: string
  p_apiKey :: string
  p_timeoutMs :: int
  p_weight :: int
  p_priority :: int
  p_models :: "(string \<times> ProviderModelInfo) list"

definition getModel :: "BaseProvider \<Rightarrow> string \<Rightarrow> ProviderModelInfo option" where
  "getModel p modelId = map_of (p_models p) modelId"

definition hasModel :: "BaseProvider \<Rightarrow> string \<Rightarrow> bool" where
  "hasModel p modelId = (getModel p modelId \<noteq> None)"

definition listModels :: "BaseProvider \<Rightarrow> ProviderModelInfo list" where
  "listModels p = map snd (p_models p)"

section \<open>Joining URLs\<close>

text \<open>\<open>base.replace(/\/+$/, '')\<close> and \<open>path.replace(/^\/+/, '')\<close>.\<close>

definition strip_trailing_slashes :: "string \<Rightarrow> string" where
  "strip_trailing_slashes s = rev (dropWhile (\<lambda>c. c = CHR ''/'') (rev s))"

definition joinUrl :: "string \<Rightarrow> string \<Rightarrow> string" where
  "joinUrl base path = strip_trailing_slashes base @ ''/'' @ dropWhile (\<lambda>c. c = CHR ''/'') path"

lemma strip_trailing_slashes_append: "strip_trailing_slashes (s @ replicate n (CHR ''/'')) = strip_trailing_slashes s"
  by (simp add: strip_trailing_slashes_def dropWhile_append)

lemma dropWhile_replicate_append: "P x \<Longrightarrow> dropWhile P (replicate n x @ s) = dropWhile P s"
  by (induction n) auto

lemma joinUrl_seam:
  "joinUrl (base @ replicate m (CHR ''/'')) (replicate n (CHR ''/'') @ path) = joinUrl base path"
  by (simp add: joinUrl_def strip_trailing_slashes_append dropWhile_replicate_append)

section \<open>Classifying upstream failures\<close>

definition GATEWAY_SIDE_UPSTREAM_STATUSES :: "int list" where
  "GATEWAY_SIDE_UPSTREAM_STATUSES = [401, 402, 403, 404]"

text \<open>
  \<open>truncate\<close> appends the ellipsis character, which lies beyond code unit 255 and is written in
  its UTF-8 form here.
\<close>

definition ellipsis :: string where
  "ellipsis = map char_of [226, 128, 166 :: nat]"

definition truncate :: "string \<Rightarrow> nat \<Rightarrow> string" where
  "truncate s n = (if length s > n then take n s @ ellipsis else s)"

text \<open>
  A provider's error body as \<open>JSON.parse\<close> sees it: not JSON, or a value of which the code
  inspects the \<open>error\<close> and \<open>message\<close> fields.
\<close>

datatype error_field = EfText string | EfObject "string option" | EfOther

datatype error_body = NotJson | JsonOther | JsonObject error_field "string option"

definition extractProviderMessage :: "(string \<Rightarrow> error_body) \<Rightarrow> string \<Rightarrow> string" where
  "extractProviderMessage parse bodyText =
     (if bodyText = [] then ''(empty body)''
      else (case parse bodyText of
              JsonObject (EfText e) _ \<Rightarrow> truncate e 500
            | JsonObject (EfObject (Some m)) _ \<Rightarrow> truncate m 500
            | JsonObject _ (Some m) \<Rightarrow> truncate m 500
            | _ \<Rightarrow> truncate bodyText 500))"

definition mapHttpError :: "(string \<Rightarrow> error_body) \<Rightarrow> BaseProvider \<Rightarrow> int \<Rightarrow> string \<Rightarrow> GatewayError" where
  "mapHttpError parse p status bodyText =
     (if status = 408 then UpstreamTimeoutError (Some (p_id p)) no_options
      else (let detail = extractProviderMessage parse bodyText in
        if status \<in> set GATEWAY_SIDE_UPSTREAM_STATUSES then
          ProviderError (''Provider '' @ p_name p @ '' rejected the gateway's request with ''
              @ show_int status @ '': '' @ detail) 502
            (no_options\<lparr>opt_providerId := Some (p_id p), opt_retryable := Some True\<rparr>)
        else
          ProviderError (''Provider '' @ p_name p @ '' returned '' @ show_int status @ '': '' @ detail)
            status (no_options\<lparr>opt_providerId := Some (p_id p)\<rparr>)))"

text \<open>\<open>response.text()\<close> may itself fail, which counts as an empty body.\<close>

record http_response =
  hr_status :: int
  hr_text :: "(thrown, string) result"

definition response_ok :: "http_response \<Rightarrow> bool" where
  "response_ok r = (200 \<le> hr_status r \<and> hr_status r \<le> 299)"

definition ensureOk ::
  "(string \<Rightarrow> error_body) \<Rightarrow> BaseProvider \<Rightarrow> http_response \<Rightarrow> (thrown, http_response) result" where
  "ensureOk parse p response =
     (if response_ok response then Inr response
      else Inl (TGateway (mapHttpError parse p (hr_status response)
                            (case hr_text response of Inl _ \<Rightarrow> [] | Inr t \<Rightarrow> t))))"

definition readJson :: "(string \<Rightarrow> 'j option) \<Rightarrow> BaseProvider \<Rightarrow> http_response \<Rightarrow> (thrown, 'j) result" where
  "readJson json_parse p response =
     (case hr_text response of
        Inl e \<Rightarrow> Inl e
      | Inr text \<Rightarrow>
          (case json_parse text of
             Some j \<Rightarrow> Inr j
           | None \<Rightarrow> Inl (TGateway (ProviderError (''Provider '' @ p_name p @ '' returned non-JSON body.'') 502
               (no_options\<lparr>opt_providerId := Some (p_id p), opt_retryable := Some True\<rparr>)))))"

text \<open>
  One \<open>fetch\<close>: its outcome, and which of the two composed signals has fired when it failed.
  The result says in addition whether the timeout timer has been disarmed.
\<close>

record fetch_attempt =
  fa_outcome :: "(thrown, http_response) result"
  fa_timedOut :: bool
  fa_aborted :: bool

definition upstreamFetch :: "BaseProvider \<Rightarrow> fetch_attempt \<Rightarrow> bool \<Rightarrow> (thrown, http_response) result \<times> bool" where
  "upstreamFetch p f streaming =
     (case fa_outcome f of
        Inr response \<Rightarrow> (Inr response, streaming)
      | Inl e \<Rightarrow>
          (if fa_timedOut f then Inl (TGateway (UpstreamTimeoutError (Some (p_id p)) no_options))
           else if fa_aborted f then Inl e
           else Inl (TGateway (ProviderError
             (''Network error calling provider '' @ p_name p @ '': '' @ toErrorMessage e) 502
             (no_options\<lparr>opt_providerId := Some (p_id p), opt_retryable := Some True\<rparr>))), True))"

text \<open>
  Upstream failures are split exactly as failover needs: a mapped HTTP error is retryable
  (the next provider is tried) for 408, 429, every 5xx and the gateway-side statuses 401,
  402, 403 and 404, and for no other status; and it is then reported to the client with a
  server-side status or 429, never as the client's own 401 to 404.
\<close>

theorem mapHttpError_retryable:
  "(retryable (mapHttpError parse p status body) \<longleftrightarrow>
      status \<in> {408, 429, 401, 402, 403, 404} \<or> status \<ge> 500) \<and>
   statusCode (mapHttpError parse p status body) =
     (if status = 408 then 504 else if status \<in> {401, 402, 403, 404} then 502 else status) \<and>
   wf_error (mapHttpError parse p status body) \<and>
   err_providerId (mapHttpError parse p status body) = Some (p_id p)"
proof -
  have wf: "wf_error (mapHttpError parse p status body)"
    by (simp add: mapHttpError_def Let_def)
  show ?thesis
    by (intro conjI wf)
       (auto simp: mapHttpError_def GATEWAY_SIDE_UPSTREAM_STATUSES_def Let_def gateway_error_defs)
qed

text \<open>
  A failed \<open>fetch\<close> never leaks a raw network error into the router: unless the caller
  itself aborted, the failure is a retryable gateway error, and the timeout wins over an abort.
\<close>

theorem upstreamFetch_failure:
  assumes "fa_outcome f = Inl e"
  shows "\<exists>e'. upstreamFetch p f streaming = (Inl e', True) \<and>
    (if fa_aborted f \<and> \<not> fa_timedOut f then e' = e
     else \<exists>g. e' = TGateway g \<and> retryable g \<and> statusCode g = (if fa_timedOut f then 504 else 502))"
  using assms by (auto simp: upstreamFetch_def gateway_error_defs)

theorem upstreamFetch_failure_witness:
  "\<exists>e'. upstreamFetch \<lparr>p_id = ''a'', p_name = ''a'', p_adapterType = AdOpenai, p_baseUrl = [], p_apiKey = [],
       p_timeoutMs = 1, p_weight = 1, p_priority = 1, p_models = []\<rparr>
     \<lparr>fa_outcome = Inl (TValue ''ECONNRESET''), fa_timedOut = False, fa_aborted = False\<rparr> False = (Inl e', True) \<and>
     (\<exists>g. e' = TGateway g \<and> retryable g \<and> statusCode g = 502)"
  using upstreamFetch_failure [of "\<lparr>fa_outcome = Inl (TValue ''ECONNRESET''), fa_timedOut = False, fa_aborted = False\<rparr>"
      "TValue ''ECONNRESET''"] by simp

end
