(* ===== verification/Load_Balancer.thy ===== *)
theory Load_Balancer
  imports Redis_Service Provider_Base
begin

text \<open>
  The load balancer of \<open>src/loadbalancer/\<close>: the five selection strategies, their Lua scripts
  and the facade.  The process state \<open>'s\<close> holds the Redis connection, the round-robin
  counters and the random source; \<open>lb_env\<close> collects how the code reaches them, together with
  \<open>sha256Hex\<close> and \<open>localeCompare\<close>.  The locale \<open>lb_contract\<close> states what the balancer relies on.
\<close>

section \<open>Environment\<close>

datatype StrategyName = ROUND_ROBIN | WEIGHTED_ROUND_ROBIN | LEAST_CONNECTIONS | LATENCY_BASED | RANDOM

record 's lb_env =
  lb_redis :: "'s redis_env"
  lb_rand :: "nat \<Rightarrow> 's \<Rightarrow> nat \<times> 's"
  lb_counters :: "'s \<Rightarrow> string \<Rightarrow> nat option"
  lb_set_counters :: "(string \<Rightarrow> nat option) \<Rightarrow> 's \<Rightarrow> 's"
  lb_compare :: "string \<Rightarrow> string \<Rightarrow> int"
  lb_sha256 :: "string \<Rightarrow> string"
  lb_prefix :: key_prefix
  lb_alpha :: rat
  lb_penalty_ms :: int

datatype lb_error = EmptyCandidates

type_synonym 's selection = "(lb_error, BaseProvider) result \<times> 's"

section \<open>Shared helpers\<close>

definition candidateSetKey :: "'s lb_env \<Rightarrow> BaseProvider list \<Rightarrow> string" where
  "candidateSetKey L cs = take 16 (lb_sha256 L (join '','' (sort_by (lb_compare L) (map p_id cs))))"

definition cryptoPick :: "'s lb_env \<Rightarrow> BaseProvider list \<Rightarrow> 's \<Rightarrow> 's selection" where
  "cryptoPick L cs s =
     (if cs = [] then (Inl EmptyCandidates, s)
      else (case lb_rand L (length cs) s of (i, s') \<Rightarrow> (Inr (cs ! i), s')))"

definition find_by_id :: "string \<Rightarrow> BaseProvider list \<Rightarrow> BaseProvider option" where
  "find_by_id i cs = find (\<lambda>c. p_id c = i) cs"

definition num_val :: "rat \<Rightarrow> rval" where
  "num_val q = (if of_int \<lfloor>q\<rfloor> = q then VInt \<lfloor>q\<rfloor> else VFloat q)"

section \<open>Random\<close>

definition random_select :: "'s lb_env \<Rightarrow> BaseProvider list \<Rightarrow> 's \<Rightarrow> 's selection" where
  "random_select L cs s = (if cs = [] then (Inl EmptyCandidates, s) else cryptoPick L cs s)"

section \<open>Round robin\<close>

definition MAX_SAFE_INTEGER :: nat where
  "MAX_SAFE_INTEGER = 2 ^ 53 - 1"

definition rr_select :: "'s lb_env \<Rightarrow> BaseProvider list \<Rightarrow> 's \<Rightarrow> 's selection" where
  "rr_select L cs s =
     (if cs = [] then (Inl EmptyCandidates, s)
      else (let key = candidateSetKey L cs;
                current = nullish (lb_counters L s key) 0;
                index = current mod length cs;
                s' = lb_set_counters L ((lb_counters L s)(key \<mapsto> (current + 1) mod MAX_SAFE_INTEGER)) s
            in (Inr (cs ! index), s')))"

section \<open>Weighted round robin\<close>

definition WRR_STATE_TTL_MS :: int where
  "WRR_STATE_TTL_MS = 300000"

fun SMOOTH_WRR_loop ::
  "string \<Rightarrow> (string \<times> int) list \<Rightarrow> int \<Rightarrow> (string \<times> rat) option
     \<Rightarrow> (int \<Rightarrow> (string \<times> rat) option \<Rightarrow> 'a lua) \<Rightarrow> 'a lua" where
  "SMOOTH_WRR_loop key [] tot best k = k tot best"
| "SMOOTH_WRR_loop key ((i, w) # args) tot best k =
     Call (HGET key i) (\<lambda>r. with_num r (\<lambda>cur.
       let cw = cur + of_int w in
       Call (HSET key i (num_val cw)) (\<lambda>_.
         SMOOTH_WRR_loop key args (tot + w)
           (case best of None \<Rightarrow> Some (i, cw)
            | Some (bi, bcw) \<Rightarrow> if cw > bcw then Some (i, cw) else Some (bi, bcw)) k)))"

definition SMOOTH_WRR_LUA :: "string \<Rightarrow> int \<Rightarrow> (string \<times> int) list \<Rightarrow> string option lua" where
  "SMOOTH_WRR_LUA key ttl args =
     SMOOTH_WRR_loop key args 0 None (\<lambda>tot best.
       case best of
         None \<Rightarrow> Return None
       | Some (bestId, _) \<Rightarrow>
           Call (HINCRBY key bestId (- tot)) (\<lambda>_. Call (PEXPIRE key ttl) (\<lambda>_. Return (Some bestId))))"

fun weightedRandom_loop :: "BaseProvider list \<Rightarrow> int \<Rightarrow> BaseProvider option" where
  "weightedRandom_loop [] target = None"
| "weightedRandom_loop (c # cs) target =
     (let target' = target - max 0 (p_weight c)
      in if target' < 0 then Some c else weightedRandom_loop cs target')"

definition weightedRandom :: "'s lb_env \<Rightarrow> BaseProvider list \<Rightarrow> 's \<Rightarrow> BaseProvider \<times> 's" where
  "weightedRandom L cs s =
     (let tot = (\<Sum>c\<leftarrow>cs. max 0 (p_weight c)) in
      if tot \<le> 0 then (case lb_rand L (length cs) s of (i, s') \<Rightarrow> (cs ! i, s'))
      else (case lb_rand L (nat tot) s of (t, s') \<Rightarrow>
              (nullish (weightedRandom_loop cs (int t)) (last cs), s')))"

definition wrr_args :: "BaseProvider list \<Rightarrow> (string \<times> int) list" where
  "wrr_args cs = map (\<lambda>c. (p_id c, max 0 (p_weight c))) cs"

definition wrr_select :: "'s lb_env \<Rightarrow> BaseProvider list \<Rightarrow> 's \<Rightarrow> 's selection" where
  "wrr_select L cs s =
     (if cs = [] then (Inl EmptyCandidates, s)
      else (let key = lbWrrCurrent (lb_prefix L) (candidateSetKey L cs) in
            case RedisScript_run (lb_redis L) ''wrr'' (SMOOTH_WRR_LUA key WRR_STATE_TTL_MS (wrr_args cs)) s of
              (Inr (Some chosenId), s') \<Rightarrow>
                (case find_by_id chosenId cs of
                   Some c \<Rightarrow> (Inr c, s')
                 | None \<Rightarrow> (case weightedRandom L cs s' of (c, s'') \<Rightarrow> (Inr c, s'')))
            | (_, s') \<Rightarrow> (case weightedRandom L cs s' of (c, s'') \<Rightarrow> (Inr c, s''))))"

section \<open>Least connections\<close>

definition CONNECTION_TTL_MS :: int where
  "CONNECTION_TTL_MS = 600000"

fun least_loop ::
  "(string \<times> string) list \<Rightarrow> (rat \<times> string \<times> string) option
     \<Rightarrow> ((rat \<times> string \<times> string) option \<Rightarrow> 'a lua) \<Rightarrow> 'a lua" where
  "least_loop [] best k = k best"
| "least_loop ((key, i) # ks) best k =
     Call (GET key) (\<lambda>r. with_num r (\<lambda>v.
       least_loop ks
         (case best of None \<Rightarrow> Some (v, key, i)
          | Some (mv, mk, mi) \<Rightarrow> if v < mv then Some (v, key, i) else Some (mv, mk, mi)) k))"

definition SELECT_AND_ACQUIRE_LUA :: "int \<Rightarrow> (string \<times> string) list \<Rightarrow> string lua" where
  "SELECT_AND_ACQUIRE_LUA ttl ks =
     least_loop ks None (\<lambda>best. case best of
         None \<Rightarrow> LuaError ''Lua redis lib command arguments must be strings or integers''
       | Some (minVal, minKey, minId) \<Rightarrow>
           Call (INCR minKey) (\<lambda>_. Call (PEXPIRE minKey ttl) (\<lambda>_. Return minId)))"

definition CONN_RELEASE_LUA :: "string \<Rightarrow> int lua" where
  "CONN_RELEASE_LUA key =
     Call (GET key) (\<lambda>r. with_num r (\<lambda>v.
       if v > 0 then Call (DECR key) (\<lambda>n. Return (int_reply n)) else Return 0))"

definition least_keys :: "'s lb_env \<Rightarrow> BaseProvider list \<Rightarrow> (string \<times> string) list" where
  "least_keys L cs = map (\<lambda>c. (lbConnections (lb_prefix L) (p_id c), p_id c)) cs"

definition least_select :: "'s lb_env \<Rightarrow> BaseProvider list \<Rightarrow> 's \<Rightarrow> 's selection" where
  "least_select L cs s =
     (if cs = [] then (Inl EmptyCandidates, s)
      else (case RedisScript_run (lb_redis L) ''least-select''
                   (SELECT_AND_ACQUIRE_LUA CONNECTION_TTL_MS (least_keys L cs)) s of
              (Inr chosenId, s') \<Rightarrow>
                (case find_by_id chosenId cs of Some c \<Rightarrow> (Inr c, s') | None \<Rightarrow> cryptoPick L cs s')
            | (Inl _, s') \<Rightarrow> cryptoPick L cs s'))"

definition least_release :: "'s lb_env \<Rightarrow> string \<Rightarrow> 's \<Rightarrow> 's" where
  "least_release L i s =
     snd (RedisScript_run (lb_redis L) ''least-release'' (CONN_RELEASE_LUA (lbConnections (lb_prefix L) i)) s)"

section \<open>Latency\<close>

definition DEFAULT_EMA_MS :: rat where "DEFAULT_EMA_MS = 100"
definition EMA_TTL_MS :: int where "EMA_TTL_MS = 600000"
definition EPSILON_MS :: rat where "EPSILON_MS = 1 / 10"

definition ema_next :: "rat \<Rightarrow> rat \<Rightarrow> rat \<Rightarrow> rat" where
  "ema_next alpha sample prev = alpha * sample + (1 - alpha) * prev"

definition EMA_UPDATE_LUA :: "string \<Rightarrow> rat \<Rightarrow> rat \<Rightarrow> int \<Rightarrow> rat lua" where
  "EMA_UPDATE_LUA key alpha sample ttl =
     Call (GET key) (\<lambda>prev.
       let store = (\<lambda>ema. Call (SET_PX key (num_val ema) ttl) (\<lambda>_. Return ema))
       in if prev = RNil then store sample
          else with_num prev (\<lambda>p. store (ema_next alpha sample p)))"

text \<open>
  \<open>Number(emaStr)\<close> of a stored text that is no number is \<open>NaN\<close>, which is not finite.
\<close>

definition latency_score :: "rval option \<Rightarrow> int \<Rightarrow> rat" where
  "latency_score emaStr weight =
     (let ema = (case emaStr of None \<Rightarrow> Some DEFAULT_EMA_MS | Some v \<Rightarrow> rval_num v);
          safeEma = (case ema of Some e \<Rightarrow> if e > 0 then e else EPSILON_MS | None \<Rightarrow> EPSILON_MS)
      in of_int (max 0 weight) / safeEma)"

fun latency_loop :: "(BaseProvider \<times> rat) list \<Rightarrow> BaseProvider \<Rightarrow> rat option \<Rightarrow> BaseProvider" where
  "latency_loop [] best bestScore = best"
| "latency_loop ((c, score) # rest) best bestScore =
     (if (case bestScore of None \<Rightarrow> True | Some b \<Rightarrow> score > b)
      then latency_loop rest c (Some score) else latency_loop rest best bestScore)"

definition latency_select :: "'s lb_env \<Rightarrow> BaseProvider list \<Rightarrow> 's \<Rightarrow> 's selection" where
  "latency_select L cs s =
     (if cs = [] then (Inl EmptyCandidates, s)
      else (case round_trip (lb_redis L)
                   (command (MGET (map (\<lambda>c. lbLatencyEma (lb_prefix L) (p_id c)) cs))) s of
              (Inr (RBulks raw), s') \<Rightarrow>
                (let emas = raw @ replicate (length cs - length raw) None
                 in (Inr (latency_loop (map2 (\<lambda>c e. (c, latency_score e (p_weight c))) cs emas) (hd cs) None), s'))
            | (_, s') \<Rightarrow> cryptoPick L cs s'))"

definition updateEma :: "'s lb_env \<Rightarrow> string \<Rightarrow> rat \<Rightarrow> 's \<Rightarrow> 's" where
  "updateEma L i sampleMs s =
     snd (RedisScript_run (lb_redis L) ''ema''
            (EMA_UPDATE_LUA (lbLatencyEma (lb_prefix L) i) (lb_alpha L) sampleMs EMA_TTL_MS) s)"

definition latency_recordSuccess :: "'s lb_env \<Rightarrow> string \<Rightarrow> rat \<Rightarrow> 's \<Rightarrow> 's" where
  "latency_recordSuccess L i latencyMs s = updateEma L i (max 0 latencyMs) s"

definition latency_recordFailure :: "'s lb_env \<Rightarrow> string \<Rightarrow> 's \<Rightarrow> 's" where
  "latency_recordFailure L i s = updateEma L i (of_int (lb_penalty_ms L)) s"

section \<open>The facade\<close>

fun strategy_select :: "StrategyName \<Rightarrow> 's lb_env \<Rightarrow> BaseProvider list \<Rightarrow> 's \<Rightarrow> 's selection" where
  "strategy_select ROUND_ROBIN L cs s = rr_select L cs s"
| "strategy_select WEIGHTED_ROUND_ROBIN L cs s = wrr_select L cs s"
| "strategy_select LEAST_CONNECTIONS L cs s = least_select L cs s"
| "strategy_select LATENCY_BASED L cs s = latency_select L cs s"
| "strategy_select RANDOM L cs s = random_select L cs s"

text \<open>
  The strategies reject with \<open>EmptyCandidatesError\<close> only, which the facade rethrows; every
  other failure is caught inside them.
\<close>

definition lb_select :: "StrategyName \<Rightarrow> 's lb_env \<Rightarrow> BaseProvider list \<Rightarrow> 's \<Rightarrow> 's selection" where
  "lb_select name L cs s = (if cs = [] then (Inl EmptyCandidates, s) else strategy_select name L cs s)"

definition lb_recordSuccess :: "StrategyName \<Rightarrow> 's lb_env \<Rightarrow> string \<Rightarrow> rat \<Rightarrow> 's \<Rightarrow> 's" where
  "lb_recordSuccess name L i latencyMs s =
     (if name = LATENCY_BASED then latency_recordSuccess L i latencyMs s else s)"

definition lb_recordFailure :: "StrategyName \<Rightarrow> 's lb_env \<Rightarrow> string \<Rightarrow> 's \<Rightarrow> 's" where
  "lb_recordFailure name L i s = (if name = LATENCY_BASED then latency_recordFailure L i s else s)"

definition lb_release :: "StrategyName \<Rightarrow> 's lb_env \<Rightarrow> string \<Rightarrow> 's \<Rightarrow> 's" where
  "lb_release name L i s = (if name = LEAST_CONNECTIONS then least_release L i s else s)"

section \<open>Smooth weighted round robin\<close>

text \<open>The abstract balancer: the current weights, and one pick.\<close>

definition arg_weight :: "(string \<times> int) list \<Rightarrow> string \<Rightarrow> int" where
  "arg_weight args i = (case map_of args i of None \<Rightarrow> 0 | Some w \<Rightarrow> w)"

fun wrr_best :: "(string \<times> int) list \<Rightarrow> (string \<Rightarrow> int) \<Rightarrow> (string \<times> int) option \<Rightarrow> (string \<times> int) option" where
  "wrr_best [] cur best = best"
| "wrr_best ((i, w) # args) cur best =
     wrr_best args cur (case best of None \<Rightarrow> Some (i, cur i + w)
                        | Some (bi, bcw) \<Rightarrow> if cur i + w > bcw then Some (i, cur i + w) else Some (bi, bcw))"

definition args_total :: "(string \<times> int) list \<Rightarrow> int" where
  "args_total args = (\<Sum>a\<leftarrow>args. snd a)"

definition wrr_pick :: "(string \<times> int) list \<Rightarrow> (string \<Rightarrow> int) \<Rightarrow> string" where
  "wrr_pick args cur = (case wrr_best args cur None of None \<Rightarrow> '''' | Some (i, _) \<Rightarrow> i)"

definition wrr_after :: "(string \<times> int) list \<Rightarrow> (string \<Rightarrow> int) \<Rightarrow> string \<Rightarrow> int" where
  "wrr_after args cur i =
     cur i + arg_weight args i - (if i = wrr_pick args cur then args_total args else 0)"

fun wrr_picks :: "(string \<times> int) list \<Rightarrow> nat \<Rightarrow> (string \<Rightarrow> int) \<Rightarrow> string list" where
  "wrr_picks args 0 cur = []"
| "wrr_picks args (Suc n) cur = wrr_pick args cur # wrr_picks args n (wrr_after args cur)"

definition arg_ids :: "(string \<times> int) list \<Rightarrow> string list" where
  "arg_ids args = map fst args"

lemma arg_weight_Cons:
  "arg_weight ((j, w) # args) i = (if i = j then w else arg_weight args i)"
  by (simp add: arg_weight_def)

lemma arg_weight_notin: "i \<notin> set (arg_ids args) \<Longrightarrow> arg_weight args i = 0"
  by (auto simp: arg_weight_def arg_ids_def map_of_eq_None_iff [symmetric])

lemma arg_weight_mem: "distinct (arg_ids args) \<Longrightarrow> (i, w) \<in> set args \<Longrightarrow> arg_weight args i = w"
  by (simp add: arg_weight_def arg_ids_def)

lemma args_total_sum:
  "distinct (arg_ids args) \<Longrightarrow> args_total args = (\<Sum>i\<in>set (arg_ids args). arg_weight args i)"
proof (induction args)
  case (Cons a args)
  obtain j w where a: "a = (j, w)" by (cases a)
  from Cons.prems a have "(\<Sum>i\<in>set (arg_ids args). arg_weight (a # args) i) = (\<Sum>i\<in>set (arg_ids args). arg_weight args i)"
    by (intro sum.cong) (auto simp: arg_weight_Cons arg_ids_def)
  with Cons a show ?case by (simp add: args_total_def arg_ids_def arg_weight_Cons)
qed (simp add: args_total_def arg_ids_def)

lemma wrr_best_max:
  assumes "wrr_best args cur best = Some (i, v)"
  shows "((\<exists>w. (i, w) \<in> set args \<and> v = cur i + w) \<or> best = Some (i, v)) \<and>
    (\<forall>(j, w) \<in> set args. cur j + w \<le> v) \<and> (\<forall>bi bv. best = Some (bi, bv) \<longrightarrow> bv \<le> v)"
  using assms
proof (induction args arbitrary: best)
  case (Cons a args)
  obtain j w where a: "a = (j, w)" by (cases a)
  let ?best = "case best of None \<Rightarrow> Some (j, cur j + w)
      | Some (bi, bcw) \<Rightarrow> if cur j + w > bcw then Some (j, cur j + w) else Some (bi, bcw)"
  from Cons.prems a have "wrr_best args cur ?best = Some (i, v)" by simp
  note IH = Cons.IH [OF this]
  show ?case
  proof (cases "best = None \<or> (\<exists>bi bv. best = Some (bi, bv) \<and> cur j + w > bv)")
    case True
    then have b: "?best = Some (j, cur j + w)" by auto
    from IH show ?thesis unfolding b a using True by auto
  next
    case False
    then obtain bi bv where "best = Some (bi, bv)" "cur j + w \<le> bv" by (cases best) auto
    with IH show ?thesis unfolding a by auto
  qed
qed simp

lemma wrr_best_some: "args \<noteq> [] \<or> best \<noteq> None \<Longrightarrow> wrr_best args cur best \<noteq> None"
  by (induction args cur best rule: wrr_best.induct) (auto split: option.splits)

lemma wrr_pick_max:
  assumes "args \<noteq> []" and dist: "distinct (arg_ids args)"
  shows "wrr_pick args cur \<in> set (arg_ids args)"
    and "i \<in> set (arg_ids args) \<Longrightarrow>
      cur i + arg_weight args i \<le> cur (wrr_pick args cur) + arg_weight args (wrr_pick args cur)"
proof -
  obtain b v where b: "wrr_best args cur None = Some (b, v)"
    using wrr_best_some [of args None cur] assms(1) by auto
  then have pick: "wrr_pick args cur = b" by (simp add: wrr_pick_def)
  from wrr_best_max [OF b] obtain wb where m: "(b, wb) \<in> set args" "v = cur b + wb"
    and le: "\<And>j w. (j, w) \<in> set args \<Longrightarrow> cur j + w \<le> v" by auto
  then show "wrr_pick args cur \<in> set (arg_ids args)"
    by (force simp: pick arg_ids_def)
  assume "i \<in> set (arg_ids args)"
  then obtain w where w: "(i, w) \<in> set args" by (auto simp: arg_ids_def)
  with le [OF w] arg_weight_mem [OF dist w] arg_weight_mem [OF dist m(1)] m(2)
  show "cur i + arg_weight args i \<le> cur (wrr_pick args cur) + arg_weight args (wrr_pick args cur)"
    by (simp add: pick)
qed

text \<open>
  The invariant of the smooth algorithm: the current weights of the candidates sum to zero
  and never fall to minus the total.
\<close>

definition wrr_ok :: "(string \<times> int) list \<Rightarrow> (string \<Rightarrow> int) \<Rightarrow> bool" where
  "wrr_ok args cur \<longleftrightarrow> (\<Sum>i\<in>set (arg_ids args). cur i) = 0 \<and>
     (\<forall>i \<in> set (arg_ids args). - args_total args < cur i)"

lemma wrr_ok_after:
  assumes ok: "wrr_ok args cur" and ne: "args \<noteq> []" and dist: "distinct (arg_ids args)"
    and pos: "0 < args_total args" and w: "\<And>i. 0 \<le> arg_weight args i"
  shows "wrr_ok args (wrr_after args cur)"
proof -
  let ?I = "set (arg_ids args)" and ?b = "wrr_pick args cur" and ?W = "args_total args"
  have b: "?b \<in> ?I" by (rule wrr_pick_max(1) [OF ne dist])
  have tot: "(\<Sum>i\<in>?I. cur i + arg_weight args i) = ?W"
    using ok args_total_sum [OF dist] by (simp add: wrr_ok_def sum.distrib)
  have "(\<Sum>i\<in>?I. if i = ?b then ?W else 0) = ?W" using b by simp
  then have "(\<Sum>i\<in>?I. wrr_after args cur i) = 0"
    using tot by (simp add: wrr_after_def sum_subtractf)
  moreover have "0 < cur ?b + arg_weight args ?b"
  proof (rule ccontr)
    assume "\<not> 0 < cur ?b + arg_weight args ?b"
    then have "\<And>i. i \<in> ?I \<Longrightarrow> cur i + arg_weight args i \<le> 0"
      using wrr_pick_max(2) [OF ne dist, of _ cur] by force
    then have "(\<Sum>i\<in>?I. cur i + arg_weight args i) \<le> 0" by (rule sum_nonpos)
    with tot pos show False by simp
  qed
  then have "- ?W < wrr_after args cur i" if "i \<in> ?I" for i
    using ok that w [of i] pos by (auto simp: wrr_ok_def wrr_after_def)
  ultimately show ?thesis by (simp add: wrr_ok_def)
qed

definition count_of :: "string \<Rightarrow> string list \<Rightarrow> int" where
  "count_of i xs = int (length (filter (\<lambda>x. x = i) xs))"

lemma count_of_simps [simp]:
  "count_of i [] = 0" "count_of i (x # xs) = (if x = i then 1 else 0) + count_of i xs"
  by (simp_all add: count_of_def)

fun wrr_state :: "(string \<times> int) list \<Rightarrow> nat \<Rightarrow> (string \<Rightarrow> int) \<Rightarrow> string \<Rightarrow> int" where
  "wrr_state args 0 cur = cur"
| "wrr_state args (Suc n) cur = wrr_state args n (wrr_after args cur)"

lemma wrr_state_account:
  "wrr_state args n cur i =
     cur i + int n * arg_weight args i - args_total args * count_of i (wrr_picks args n cur)"
  by (induction n arbitrary: cur) (auto simp: wrr_after_def algebra_simps)

lemma wrr_state_ok:
  assumes "wrr_ok args cur" "args \<noteq> []" "distinct (arg_ids args)" "0 < args_total args"
    "\<And>i. 0 \<le> arg_weight args i"
  shows "wrr_ok args (wrr_state args n cur)"
  using assms(1)
proof (induction n arbitrary: cur)
  case (Suc n)
  with wrr_ok_after [OF Suc.prems assms(2-)] show ?case by simp
qed simp

lemma wrr_picks_members:
  "args \<noteq> [] \<Longrightarrow> distinct (arg_ids args) \<Longrightarrow> set (wrr_picks args n cur) \<subseteq> set (arg_ids args)"
  by (induction n arbitrary: cur) (auto simp: wrr_pick_max)

lemma length_wrr_picks [simp]: "length (wrr_picks args n cur) = n"
  by (induction n arbitrary: cur) auto

lemma sum_count_of:
  "set xs \<subseteq> I \<Longrightarrow> finite I \<Longrightarrow> (\<Sum>i\<in>I. count_of i xs) = int (length xs)"
proof (induction xs)
  case (Cons x xs)
  have "(\<Sum>i\<in>I. count_of i (x # xs)) = (\<Sum>i\<in>I. (if x = i then 1 else 0)) + (\<Sum>i\<in>I. count_of i xs)"
    by (simp add: sum.distrib)
  with Cons show ?case by simp
qed simp

lemma sum_le_eq:
  fixes f g :: "'a \<Rightarrow> int"
  assumes "finite I" "\<And>i. i \<in> I \<Longrightarrow> f i \<le> g i" "sum f I = sum g I" "i \<in> I"
  shows "f i = g i"
proof (rule ccontr)
  assume "f i \<noteq> g i"
  with assms(2) [OF assms(4)] have "f i < g i" by simp
  with assms(1,2,4) have "sum f I < sum g I" by (intro sum_strict_mono_ex1) auto
  with assms(3) show False by simp
qed

text \<open>A full cycle gives every candidate exactly its weight and restores the weights.\<close>

lemma wrr_cycle:
  assumes ne: "args \<noteq> []" and dist: "distinct (arg_ids args)"
    and pos: "0 < args_total args" and w: "\<And>i. 0 \<le> arg_weight args i"
    and i: "i \<in> set (arg_ids args)"
  shows "count_of i (wrr_picks args (nat (args_total args)) (\<lambda>_. 0)) = arg_weight args i"
    and "wrr_state args (nat (args_total args)) (\<lambda>_. 0) i = 0"
proof -
  let ?W = "args_total args" and ?c = "\<lambda>i. count_of i (wrr_picks args (nat (args_total args)) (\<lambda>_. 0))"
  have ok: "wrr_ok args (wrr_state args (nat ?W) (\<lambda>_. 0))"
    by (rule wrr_state_ok [OF _ ne dist pos w]) (use pos in \<open>simp add: wrr_ok_def\<close>)
  have le: "?c j \<le> arg_weight args j" if "j \<in> set (arg_ids args)" for j
  proof -
    from ok that have "- ?W < ?W * arg_weight args j - ?W * ?c j"
      using pos by (simp add: wrr_ok_def wrr_state_account)
    then have "?W * (?c j) < ?W * (arg_weight args j + 1)" by (simp add: algebra_simps)
    with pos show ?thesis by simp
  qed
  have "(\<Sum>j\<in>set (arg_ids args). ?c j) = (\<Sum>j\<in>set (arg_ids args). arg_weight args j)"
    using sum_count_of [OF wrr_picks_members [OF ne dist], of "nat ?W" "\<lambda>_. 0"] pos args_total_sum [OF dist]
    by simp
  from sum_le_eq [OF _ le this i] show c: "?c i = arg_weight args i" by simp
  show "wrr_state args (nat ?W) (\<lambda>_. 0) i = 0"
    using pos by (simp add: wrr_state_account c)
qed
text \<open>The script on a hash of integer weights: missing fields count as zero.\<close>

definition hash_holds :: "db \<Rightarrow> string \<Rightarrow> (string \<Rightarrow> int) \<Rightarrow> bool" where
  "hash_holds d key cur = (case live d key of
     None \<Rightarrow> (\<forall>i. cur i = 0)
   | Some (OHash h, _) \<Rightarrow> (\<forall>i. h i = Some (VInt (cur i)) \<or> (h i = None \<and> cur i = 0))
   | _ \<Rightarrow> False)"

lemma num_val_int [simp]: "num_val (of_int i) = VInt i" "num_val (of_int i + of_int j) = VInt (i + j)"
  using num_val_def [of "of_int (i + j)"] by (simp_all add: num_val_def)

lemma hash_holds_E:
  assumes "hash_holds d key cur"
  obtains "live d key = None" "\<forall>i. cur i = 0"
  | h ttl where "live d key = Some (OHash h, ttl)" "\<forall>i. h i = Some (VInt (cur i)) \<or> (h i = None \<and> cur i = 0)"
  using assms by (auto simp: hash_holds_def split: option.splits prod.splits robj.splits)

lemma exec_HGET:
  assumes "hash_holds d key cur"
  shows "exec redis_spec (Call (HGET key i) (\<lambda>r. with_num r f)) d = exec redis_spec (f (of_int (cur i))) d"
  using assms
proof (cases rule: hash_holds_E)
  case 1
  then show ?thesis by simp
next
  case (2 h ttl)
  from 2(2) have "h i = Some (VInt (cur i)) \<or> (h i = None \<and> cur i = 0)" by blast
  with 2(1) show ?thesis by (elim disjE) auto
qed

definition hset_db :: "string \<Rightarrow> string \<Rightarrow> int \<Rightarrow> db \<Rightarrow> db" where
  "hset_db key i v d = snd (redis_spec (HSET key i (VInt v)) d)"

lemma exec_HSET:
  assumes "hash_holds d key cur"
  shows "exec redis_spec (Call (HSET key i (VInt v)) (\<lambda>_. p)) d = exec redis_spec p (hset_db key i v d)"
    and "hash_holds (hset_db key i v d) key (cur(i := v))"
    and "clock (hset_db key i v d) = clock d"
  using assms
  by (cases rule: hash_holds_E; auto simp: hset_db_def hash_holds_def dest: live_deadline split: option.splits)+

lemma exec_HINCRBY:
  assumes "hash_holds d key cur"
  shows "exec redis_spec (Call (HINCRBY key i n) (\<lambda>_. p)) d = exec redis_spec p (hset_db key i (cur i + n) d)"
  using assms
proof (cases rule: hash_holds_E)
  case 1
  then show ?thesis by (simp add: hset_db_def)
next
  case (2 h ttl)
  from 2(2) have "h i = Some (VInt (cur i)) \<or> (h i = None \<and> cur i = 0)" by blast
  with 2(1) show ?thesis by (elim disjE) (auto simp: hset_db_def)
qed

definition as_rat :: "(string \<times> int) option \<Rightarrow> (string \<times> rat) option" where
  "as_rat b = (case b of None \<Rightarrow> None | Some (i, v) \<Rightarrow> Some (i, of_int v))"

lemma as_rat_simps [simp]: "as_rat None = None" "as_rat (Some (i, v)) = Some (i, of_int v)"
  by (simp_all add: as_rat_def)

lemma exec_wrr_loop:
  assumes "hash_holds d key cur" and "distinct (arg_ids args)"
  shows "\<exists>d'. exec redis_spec (SMOOTH_WRR_loop key args tot (as_rat best) k) d =
      exec redis_spec (k (tot + args_total args) (as_rat (wrr_best args cur best))) d' \<and>
    hash_holds d' key (\<lambda>i. cur i + arg_weight args i) \<and> clock d' = clock d"
  using assms
proof (induction args arbitrary: d cur tot best)
  case Nil
  then show ?case by (auto simp: args_total_def arg_weight_def)
next
  case (Cons a args)
  obtain i w where a: "a = (i, w)" by (cases a)
  let ?d = "hset_db key i (cur i + w) d" and ?cur = "cur(i := cur i + w)"
  let ?best = "case best of None \<Rightarrow> Some (i, cur i + w)
    | Some (bi, bcw) \<Rightarrow> if cur i + w > bcw then Some (i, cur i + w) else Some (bi, bcw)"
  from Cons.prems(2) a have dist: "distinct (arg_ids args)" and i: "i \<notin> set (arg_ids args)"
    by (auto simp: arg_ids_def)
  have step: "exec redis_spec (SMOOTH_WRR_loop key (a # args) tot (as_rat best) k) d =
      exec redis_spec (SMOOTH_WRR_loop key args (tot + w) (as_rat ?best) k) ?d"
    using exec_HSET(1) [OF Cons.prems(1)]
    by (cases best) (auto simp: a exec_HGET [OF Cons.prems(1)] Let_def simp del: exec.simps(3) of_int_add
        simp flip: of_int_add)
  have cur: "wrr_best args ?cur ?best = wrr_best (a # args) cur best"
  proof -
    have "wrr_best xs ?cur b = wrr_best xs cur b" if "i \<notin> set (arg_ids xs)" for xs b
      using that by (induction xs arbitrary: b) (auto simp: arg_ids_def split: option.split)
    with i show ?thesis by (simp add: a)
  qed
  have aw: "(\<lambda>j. ?cur j + arg_weight args j) = (\<lambda>j. cur j + arg_weight (a # args) j)"
    using arg_weight_notin [OF i] by (auto simp: a arg_weight_Cons)
  from Cons.IH [OF exec_HSET(2) [OF Cons.prems(1), of i "cur i + w"] dist, of "tot + w" ?best]
  show ?case
    unfolding step cur aw exec_HSET(3) [OF Cons.prems(1)]
    by (simp add: a args_total_def add.assoc)
qed

lemma exec_SMOOTH_WRR:
  assumes h: "hash_holds d key cur" and dist: "distinct (arg_ids args)" and ne: "args \<noteq> []" and ttl: "0 < ttl"
  shows "\<exists>d'. exec redis_spec (SMOOTH_WRR_LUA key ttl args) d = (Inr (Some (wrr_pick args cur)), d') \<and>
    hash_holds d' key (wrr_after args cur) \<and> clock d' = clock d \<and>
    (\<exists>x. live d' key = Some (x, Some (clock d + ttl)))"
proof -
  obtain b v where b: "wrr_best args cur None = Some (b, v)"
    using wrr_best_some [of args None cur] ne by auto
  then have pick: "wrr_pick args cur = b" by (simp add: wrr_pick_def)
  let ?cur = "\<lambda>i. cur i + arg_weight args i"
  let ?k = "\<lambda>tot best. case best of None \<Rightarrow> Return None | Some (bestId, _ :: rat) \<Rightarrow>
      Call (HINCRBY key bestId (- tot)) (\<lambda>_. Call (PEXPIRE key ttl) (\<lambda>_. Return (Some bestId)))"
  from exec_wrr_loop [OF h dist, of 0 None ?k] b obtain d1 where
    e: "exec redis_spec (SMOOTH_WRR_LUA key ttl args) d =
      exec redis_spec (Call (HINCRBY key b (- args_total args)) (\<lambda>_. Call (PEXPIRE key ttl) (\<lambda>_. Return (Some b)))) d1"
    and h1: "hash_holds d1 key ?cur" and c1: "clock d1 = clock d"
    by (auto simp: SMOOTH_WRR_LUA_def simp del: exec.simps(3))
  let ?d2 = "hset_db key b (?cur b + - args_total args) d1"
  have h2: "hash_holds ?d2 key (wrr_after args cur)"
  proof -
    have "?cur(b := ?cur b + - args_total args) = wrr_after args cur"
      by (auto simp: wrr_after_def pick)
    with exec_HSET(2) [OF h1, of b "?cur b + - args_total args"] show ?thesis by simp
  qed
  have "\<exists>h t. live ?d2 key = Some (OHash h, t)"
    using h1 by (cases rule: hash_holds_E) (auto simp: hset_db_def dest: live_deadline split: option.splits)
  then obtain hh t where l: "live ?d2 key = Some (OHash hh, t)" by blast
  let ?d3 = "put key (OHash hh) (Some (clock ?d2 + ttl)) ?d2"
  have "exec redis_spec (SMOOTH_WRR_LUA key ttl args) d = (Inr (Some (wrr_pick args cur)), ?d3)"
    using l ttl unfolding e exec_HINCRBY [OF h1] pick by simp
  moreover have "hash_holds ?d3 key (wrr_after args cur)"
    using h2 l ttl by (simp add: hash_holds_def)
  moreover have "clock ?d2 = clock d" using exec_HSET(3) [OF h1] c1 by simp
  ultimately show ?thesis using ttl by auto
qed

text \<open>A series of picks, with a delay before each.\<close>

fun wrr_rounds :: "string \<Rightarrow> (string \<times> int) list \<Rightarrow> int list \<Rightarrow> db \<Rightarrow> (string, string option) result list \<times> db" where
  "wrr_rounds key args [] d = ([], d)"
| "wrr_rounds key args (dt # dts) d =
     (case exec redis_spec (SMOOTH_WRR_LUA key WRR_STATE_TTL_MS args) (advance dt d) of
        (r, d1) \<Rightarrow> (case wrr_rounds key args dts d1 of (rs, d2) \<Rightarrow> (r # rs, d2)))"

lemma wrr_rounds_picks:
  assumes dist: "distinct (arg_ids args)" and ne: "args \<noteq> []"
    and dts: "\<forall>dt \<in> set dts. 0 \<le> dt \<and> dt \<le> WRR_STATE_TTL_MS"
    and h: "hash_holds d key cur" and ttl: "live d key = None \<or> (\<exists>x. live d key = Some (x, Some (clock d + WRR_STATE_TTL_MS)))"
  shows "\<exists>d'. wrr_rounds key args dts d = (map (\<lambda>i. Inr (Some i)) (wrr_picks args (length dts) cur), d') \<and>
    hash_holds d' key (wrr_state args (length dts) cur)"
  using dts h ttl
proof (induction dts arbitrary: d cur)
  case (Cons dt dts)
  have dt: "0 \<le> dt" "dt \<le> WRR_STATE_TTL_MS" using Cons.prems(1) by auto
  have "hash_holds (advance dt d) key cur"
    using Cons.prems(2,3) dt by (auto simp: hash_holds_def live_advance split: option.splits)
  from exec_SMOOTH_WRR [OF this dist ne, of WRR_STATE_TTL_MS] obtain d1 where
    "exec redis_spec (SMOOTH_WRR_LUA key WRR_STATE_TTL_MS args) (advance dt d) = (Inr (Some (wrr_pick args cur)), d1)"
    "hash_holds d1 key (wrr_after args cur)" "\<exists>x. live d1 key = Some (x, Some (clock d1 + WRR_STATE_TTL_MS))"
    by (auto simp: WRR_STATE_TTL_MS_def)
  with Cons.IH [of d1 "wrr_after args cur"] Cons.prems(1) show ?case by auto
qed simp
section \<open>What the balancer relies on\<close>

locale random_source =
  fixes rand :: "nat \<Rightarrow> 's \<Rightarrow> nat \<times> 's"
  assumes rand_range: "0 < n \<Longrightarrow> fst (rand n s) < n"

locale lb_contract = random_source "lb_rand L" + redis_service "lb_redis L" view
  for L :: "'s lb_env" and view :: "'s \<Rightarrow> db" +
  assumes rand_view: "view (snd (lb_rand L n s)) = view s"
    and counters_get: "lb_counters L (lb_set_counters L c s) = c"
    and counters_view: "view (lb_set_counters L c s) = view s"

context random_source
begin

lemma cryptoPick_member:
  assumes "lb_rand L = rand" and "cs \<noteq> []"
  shows "\<exists>c \<in> set cs. fst (cryptoPick L cs s) = Inr c"
  using assms rand_range [of "length cs" s] by (auto simp: cryptoPick_def split: prod.splits)

lemma weightedRandom_loop_member: "weightedRandom_loop cs t = Some c \<Longrightarrow> c \<in> set cs"
  by (induction cs t rule: weightedRandom_loop.induct) (auto simp: Let_def split: if_splits)

lemma weightedRandom_member:
  assumes "lb_rand L = rand" and "cs \<noteq> []"
  shows "fst (weightedRandom L cs s) \<in> set cs"
  using assms rand_range [of "length cs" s]
  by (auto simp: weightedRandom_def Let_def nullish_def dest: weightedRandom_loop_member
      split: prod.splits option.splits)

lemma latency_loop_member:
  "latency_loop xs best sc \<in> insert best (fst ` set xs)"
  by (induction xs best sc rule: latency_loop.induct) auto

lemma strategy_select_member:
  assumes L: "lb_rand L = rand" and ne: "cs \<noteq> []"
  shows "\<exists>c \<in> set cs. fst (strategy_select name L cs s) = Inr c"
proof (cases name)
  case ROUND_ROBIN
  then show ?thesis using ne by (simp add: rr_select_def Let_def)
next
  case WEIGHTED_ROUND_ROBIN
  then show ?thesis
    using ne weightedRandom_member [OF L ne]
    by (auto simp: wrr_select_def Let_def find_by_id_def dest: find_member
        split: prod.splits sum.splits option.splits) (metis fst_conv)+
next
  case LEAST_CONNECTIONS
  then show ?thesis
    using ne cryptoPick_member [OF L ne]
    by (auto simp: least_select_def find_by_id_def dest: find_member split: prod.splits sum.splits option.splits)
next
  case LATENCY_BASED
  have "latency_loop (map2 f cs es) (hd cs) None \<in> set cs" if "\<And>c e. fst (f c e) = c" for f and es :: "rval option list"
    using latency_loop_member [of "map2 f cs es" "hd cs" None] ne that
    by (auto dest!: set_zip_leftD)
  with LATENCY_BASED show ?thesis
    using ne cryptoPick_member [OF L ne]
    by (auto simp: latency_select_def Let_def split: prod.splits sum.splits rreply.splits)
next
  case RANDOM
  then show ?thesis using cryptoPick_member [OF L ne] ne by (simp add: random_select_def)
qed

end

text \<open>An instance: the reference server, in-process counters, and a fixed random stream.\<close>

record lb_process =
  lp_server :: ref_server
  lp_counters :: "string \<Rightarrow> nat option"
  lp_random :: "nat list"

definition lift_env :: "ref_server redis_env \<Rightarrow> lb_process redis_env" where
  "lift_env E = \<lparr>e_call = (\<lambda>c s. case e_call E c (lp_server s) of (r, x) \<Rightarrow> (r, s\<lparr>lp_server := x\<rparr>)),
     e_tick = (\<lambda>s. s\<lparr>lp_server := e_tick E (lp_server s)\<rparr>), e_up = (\<lambda>s. e_up E (lp_server s)),
     e_known = (\<lambda>s. e_known E (lp_server s)), e_sha = (\<lambda>n s. e_sha E n (lp_server s)),
     e_set_sha = (\<lambda>n b s. s\<lparr>lp_server := e_set_sha E n b (lp_server s)\<rparr>)\<rparr>"

definition lp_rand :: "nat \<Rightarrow> lb_process \<Rightarrow> nat \<times> lb_process" where
  "lp_rand n s = (case lp_random s of [] \<Rightarrow> (0, s) | x # xs \<Rightarrow> (if 0 < n then x mod n else 0, s\<lparr>lp_random := xs\<rparr>))"

definition ref_compare :: "string \<Rightarrow> string \<Rightarrow> int" where
  "ref_compare a b = (if a = b then 0 else if a < b then -1 else 1)"

definition ref_lb :: "lb_process lb_env" where
  "ref_lb = \<lparr>lb_redis = lift_env ref_env, lb_rand = lp_rand, lb_counters = lp_counters,
     lb_set_counters = (\<lambda>c s. s\<lparr>lp_counters := c\<rparr>), lb_compare = ref_compare, lb_sha256 = (\<lambda>s. s),
     lb_prefix = ''gw:'', lb_alpha = 3 / 10, lb_penalty_ms = 30000\<rparr>"

definition lp_view :: "lb_process \<Rightarrow> db" where
  "lp_view s = rs_db (lp_server s)"

definition lp_init :: "int \<Rightarrow> lb_process" where
  "lp_init t = \<lparr>lp_server = ref_init t, lp_counters = Map.empty, lp_random = []\<rparr>"

interpretation ref_random: random_source lp_rand
  by unfold_locales (simp add: lp_rand_def split: list.splits)

interpretation ref_balancer: lb_contract ref_lb lp_view
proof
  fix c s
  show "redis_spec c (lp_view s) = (fst (e_call (lb_redis ref_lb) c s), lp_view (snd (e_call (lb_redis ref_lb) c s)))"
    using ref.call_doc [of c "lp_server s"] by (simp add: ref_lb_def lift_env_def lp_view_def split: prod.splits)
next
  fix s
  show "\<exists>dt\<ge>0. lp_view (e_tick (lb_redis ref_lb) s) = advance dt (lp_view s)"
    using ref.tick_doc [of "lp_server s"] by (simp add: ref_lb_def lift_env_def lp_view_def)
next
  fix n b s
  show "lp_view (e_set_sha (lb_redis ref_lb) n b s) = lp_view s"
    using ref.sha_local [of n b "lp_server s"] by (simp add: ref_lb_def lift_env_def lp_view_def)
next
  fix n s
  show "0 < n \<Longrightarrow> fst (lb_rand ref_lb n s) < n"
    using ref_random.rand_range by (simp add: ref_lb_def)
next
  fix n s
  show "lp_view (snd (lb_rand ref_lb n s)) = lp_view s"
    by (simp add: ref_lb_def lp_rand_def lp_view_def split: list.splits)
qed (simp_all add: ref_lb_def lp_view_def)

lemma ref_lb_contract: "lb_contract ref_lb lp_view"
  by (rule ref_balancer.lb_contract_axioms)

section \<open>The facade always picks a candidate\<close>

text \<open>
  Whatever the strategy, the state of Redis and the random source, selection from a
  non-empty list returns a member of the list: no Redis outage, script error, lost script
  or unknown id makes it throw or pick an outsider.  An empty list is rejected without any
  effect.
\<close>

theorem lb_select_member:
  assumes "random_source (lb_rand L)"
  shows "(cs \<noteq> [] \<longrightarrow> (\<exists>c \<in> set cs. fst (lb_select name L cs s) = Inr c)) \<and>
    lb_select name L [] s = (Inl EmptyCandidates, s)"
  using random_source.strategy_select_member [OF assms refl, of cs name s] by (simp add: lb_select_def)

definition demo_provider :: "string \<Rightarrow> int \<Rightarrow> BaseProvider" where
  "demo_provider i w = \<lparr>p_id = i, p_name = i, p_adapterType = AdOpenai, p_baseUrl = [], p_apiKey = [],
     p_timeoutMs = 1000, p_weight = w, p_priority = 1, p_models = []\<rparr>"

definition demo_candidates :: "BaseProvider list" where
  "demo_candidates = [demo_provider ''A'' 5, demo_provider ''B'' 1, demo_provider ''C'' 1]"

theorem lb_select_member_witness:
  "\<exists>c \<in> set demo_candidates. fst (lb_select LATENCY_BASED ref_lb demo_candidates (lp_init 0)) = Inr c"
proof -
  have "demo_candidates \<noteq> []" by (simp add: demo_candidates_def)
  moreover have "random_source (lb_rand ref_lb)" by (simp add: ref_lb_def ref_random.random_source_axioms)
  ultimately show ?thesis using lb_select_member [of ref_lb demo_candidates LATENCY_BASED "lp_init 0"] by blast
qed

section \<open>Weighted fairness\<close>

lemma wrr_args_ids: "arg_ids (wrr_args cs) = map p_id cs"
  by (simp add: arg_ids_def wrr_args_def)

lemma wrr_args_total: "args_total (wrr_args cs) = (\<Sum>c\<leftarrow>cs. max 0 (p_weight c))"
  by (simp add: args_total_def wrr_args_def comp_def)

lemma wrr_args_weight_nonneg: "0 \<le> arg_weight (wrr_args cs) i"
  by (auto simp: arg_weight_def wrr_args_def split: option.splits dest!: map_of_SomeD)

lemma wrr_args_weight:
  assumes "distinct (map p_id cs)" "c \<in> set cs"
  shows "arg_weight (wrr_args cs) (p_id c) = max 0 (p_weight c)"
proof (rule arg_weight_mem)
  show "(p_id c, max 0 (p_weight c)) \<in> set (wrr_args cs)"
    using assms(2) by (force simp: wrr_args_def)
qed (use assms(1) in \<open>simp add: wrr_args_ids\<close>)



section \<open>Least connections\<close>

definition conn_ok :: "db \<Rightarrow> string \<Rightarrow> bool" where
  "conn_ok d key = (case live d key of None \<Rightarrow> True | Some (OStr (VInt n), _) \<Rightarrow> 0 \<le> n | _ \<Rightarrow> False)"

definition conn :: "db \<Rightarrow> string \<Rightarrow> int" where
  "conn d key = (case live d key of Some (OStr (VInt n), _) \<Rightarrow> n | _ \<Rightarrow> 0)"

lemma conn_nonneg: "conn_ok d key \<Longrightarrow> 0 \<le> conn d key"
  by (auto simp: conn_ok_def conn_def split: option.splits prod.splits robj.splits rval.splits)

lemma exec_conn_GET:
  assumes "conn_ok d key"
  shows "exec redis_spec (Call (GET key) (\<lambda>r. with_num r f)) d = exec redis_spec (f (of_int (conn d key))) d"
  using assms by (auto simp: conn_ok_def conn_def split: option.splits prod.splits robj.splits rval.splits)

definition as_conn :: "(int \<times> string \<times> string) option \<Rightarrow> (rat \<times> string \<times> string) option" where
  "as_conn b = (case b of None \<Rightarrow> None | Some (v, x) \<Rightarrow> Some (of_int v, x))"

fun least_best :: "db \<Rightarrow> (string \<times> string) list \<Rightarrow> (int \<times> string \<times> string) option \<Rightarrow> (int \<times> string \<times> string) option" where
  "least_best d [] best = best"
| "least_best d ((key, i) # ks) best =
     least_best d ks (case best of None \<Rightarrow> Some (conn d key, key, i)
       | Some (mv, mk, mi) \<Rightarrow> if conn d key < mv then Some (conn d key, key, i) else Some (mv, mk, mi))"

lemma exec_least_loop:
  assumes "\<forall>x \<in> set ks. conn_ok d (fst x)"
  shows "exec redis_spec (least_loop ks (as_conn best) k) d = exec redis_spec (k (as_conn (least_best d ks best))) d"
  using assms
proof (induction ks arbitrary: best)
  case (Cons x ks)
  obtain key i where x: "x = (key, i)" by (cases x)
  let ?best = "case best of None \<Rightarrow> Some (conn d key, key, i)
    | Some (mv, mk, mi) \<Rightarrow> if conn d key < mv then Some (conn d key, key, i) else Some (mv, mk, mi)"
  have ok: "conn_ok d key" using Cons.prems x by simp
  have "exec redis_spec (least_loop (x # ks) (as_conn best) k) d = exec redis_spec (least_loop ks (as_conn ?best) k) d"
    by (cases best) (auto simp: x exec_conn_GET [OF ok] as_conn_def simp del: exec.simps(3))
  with Cons x show ?case by simp
qed simp

lemma least_best_min:
  assumes "least_best d ks best = Some (v, key, i)"
  shows "((key, i) \<in> set ks \<and> v = conn d key \<or> best = Some (v, key, i)) \<and>
    (\<forall>(k', i') \<in> set ks. v \<le> conn d k') \<and> (\<forall>bv x. best = Some (bv, x) \<longrightarrow> v \<le> bv)"
  using assms
proof (induction ks arbitrary: best)
  case (Cons x ks)
  obtain k' i' where x: "x = (k', i')" by (cases x)
  show ?case
  proof (cases "best = None \<or> (\<exists>mv y. best = Some (mv, y) \<and> conn d k' < mv)")
    case True
    then have "least_best d (x # ks) best = least_best d ks (Some (conn d k', k', i'))"
      by (auto simp: x)
    with Cons.IH [of "Some (conn d k', k', i')"] Cons.prems True show ?thesis by (auto simp: x)
  next
    case False
    then obtain mv y where "best = Some (mv, y)" "mv \<le> conn d k'" by (cases best) auto
    with Cons.IH [of best] Cons.prems show ?thesis by (auto simp: x)
  qed
qed simp

lemma least_best_some: "ks \<noteq> [] \<or> best \<noteq> None \<Longrightarrow> least_best d ks best \<noteq> None"
  by (induction d ks best rule: least_best.induct) (auto split: option.splits)

lemma exec_SELECT_AND_ACQUIRE:
  assumes ok: "\<forall>x \<in> set ks. conn_ok d (fst x)" and ne: "ks \<noteq> []" and ttl: "0 < ttl"
  shows "\<exists>key i. (key, i) \<in> set ks \<and> (\<forall>x \<in> set ks. conn d key \<le> conn d (fst x)) \<and>
    exec redis_spec (SELECT_AND_ACQUIRE_LUA ttl ks) d =
      (Inr i, put key (OStr (VInt (conn d key + 1))) (Some (clock d + ttl)) d)"
proof -
  obtain v key i where b: "least_best d ks None = Some (v, key, i)"
    using least_best_some [of ks None d] ne by auto
  from least_best_min [OF b] have m: "(key, i) \<in> set ks" "v = conn d key"
    and le: "\<forall>x \<in> set ks. conn d key \<le> conn d (fst x)" by auto
  have okk: "conn_ok d key" using ok m by auto
  have e: "exec redis_spec (least_loop ks None k) d = exec redis_spec (k (Some (of_int v, key, i))) d"
    for k :: "(rat \<times> string \<times> string) option \<Rightarrow> string lua"
    using exec_least_loop [OF ok, of None k] b by (simp add: as_conn_def)
  have "exec redis_spec (SELECT_AND_ACQUIRE_LUA ttl ks) d =
      exec redis_spec (Call (INCR key) (\<lambda>_. Call (PEXPIRE key ttl) (\<lambda>_. Return i))) d"
    by (simp add: SELECT_AND_ACQUIRE_LUA_def e)
  also have "\<dots> = (Inr i, put key (OStr (VInt (conn d key + 1))) (Some (clock d + ttl)) d)"
    using okk ttl
    by (auto simp: conn_ok_def conn_def incr_by_def add.commute dest: live_deadline
        split: option.splits prod.splits robj.splits rval.splits)
  finally show ?thesis using m le by blast
qed

lemma exec_CONN_RELEASE:
  assumes "conn_ok d key"
  shows "\<exists>n d'. exec redis_spec (CONN_RELEASE_LUA key) d = (Inr n, d') \<and> clock d' = clock d \<and>
    conn_ok d' key \<and> conn d' key = max 0 (conn d key - 1) \<and> (\<forall>k. k \<noteq> key \<longrightarrow> live d' k = live d k)"
proof (cases "conn d key > 0")
  case True
  then obtain n ttl where "live d key = Some (OStr (VInt n), ttl)" "conn d key = n" "0 < n"
    using assms by (auto simp: conn_ok_def conn_def split: option.splits prod.splits robj.splits rval.splits)
  then show ?thesis
    by (auto simp: CONN_RELEASE_LUA_def incr_by_def conn_ok_def conn_def dest: live_deadline split: option.splits)
next
  case False
  with conn_nonneg [OF assms] have "conn d key = 0" by simp
  then have "exec redis_spec (CONN_RELEASE_LUA key) d = (Inr 0, d)"
    by (simp add: CONN_RELEASE_LUA_def exec_conn_GET [OF assms] del: exec.simps(3))
  with assms \<open>conn d key = 0\<close> show ?thesis by auto
qed

lemma conn_ok_advance: "conn_ok d key \<Longrightarrow> 0 \<le> dt \<Longrightarrow> conn_ok (advance dt d) key"
  by (auto simp: conn_ok_def live_advance split: option.splits)

context lb_contract
begin

lemma least_select_cases:
  assumes sel: "least_select L cs s = (r, s')" and ne: "cs \<noteq> []"
    and ok: "\<forall>c \<in> set cs. conn_ok (view s) (lbConnections (lb_prefix L) (p_id c))"
  shows "\<exists>dt \<ge> 0. let d = advance dt (view s); gauge = (\<lambda>c. lbConnections (lb_prefix L) (p_id c)) in
    view s' = d \<or>
    (\<exists>c \<in> set cs. r = Inr c \<and> (\<forall>c' \<in> set cs. conn d (gauge c) \<le> conn d (gauge c')) \<and>
       view s' = put (gauge c) (OStr (VInt (conn d (gauge c) + 1))) (Some (clock d + CONNECTION_TTL_MS)) d)"
proof -
  let ?g = "\<lambda>c. lbConnections (lb_prefix L) (p_id c)"
  obtain x s1 where rt: "RedisScript_run (lb_redis L) ''least-select''
      (SELECT_AND_ACQUIRE_LUA CONNECTION_TTL_MS (least_keys L cs)) s = (x, s1)" by fastforce
  from RedisScript_run_atomic [OF rt] show ?thesis
  proof (rule atomic_runE)
    fix dt
    let ?d = "advance dt (view s)"
    assume dt: "0 \<le> dt" and out: "(x = Inl Unreachable \<and> view s1 = ?d) \<or>
     (\<exists>y. exec redis_spec (SELECT_AND_ACQUIRE_LUA CONNECTION_TTL_MS (least_keys L cs)) ?d = (y, view s1) \<and>
          x = (case y of Inl e \<Rightarrow> Inl (ScriptError e) | Inr a \<Rightarrow> Inr a))"
    from out show ?thesis
    proof
      assume "x = Inl Unreachable \<and> view s1 = ?d"
      with sel rt ne rand_view [of "length cs" s1] have "view s' = ?d"
        by (auto simp: least_select_def cryptoPick_def split: prod.splits)
      with dt show ?thesis by (auto simp: Let_def)
    next
      assume ran: "\<exists>y. exec redis_spec (SELECT_AND_ACQUIRE_LUA CONNECTION_TTL_MS (least_keys L cs)) ?d = (y, view s1) \<and>
          x = (case y of Inl e \<Rightarrow> Inl (ScriptError e) | Inr a \<Rightarrow> Inr a)"
      have "\<forall>y \<in> set (least_keys L cs). conn_ok ?d (fst y)"
        using ok dt by (auto simp: least_keys_def conn_ok_advance)
      moreover have "least_keys L cs \<noteq> []" using ne by (simp add: least_keys_def)
      ultimately obtain key i where ki: "(key, i) \<in> set (least_keys L cs)"
        "\<forall>y \<in> set (least_keys L cs). conn ?d key \<le> conn ?d (fst y)"
        "exec redis_spec (SELECT_AND_ACQUIRE_LUA CONNECTION_TTL_MS (least_keys L cs)) ?d =
          (Inr i, put key (OStr (VInt (conn ?d key + 1))) (Some (clock ?d + CONNECTION_TTL_MS)) ?d)"
        using exec_SELECT_AND_ACQUIRE [of "least_keys L cs" ?d CONNECTION_TTL_MS] by (auto simp: CONNECTION_TTL_MS_def)
      from ki(1) obtain c0 where c0: "c0 \<in> set cs" "key = ?g c0" "i = p_id c0" by (auto simp: least_keys_def)
      then obtain c where c: "find_by_id i cs = Some c" "c \<in> set cs" "p_id c = i"
        using find_id_member [of c0 cs p_id] by (auto simp: find_by_id_def)
      from ran ki(3) have "x = Inr i"
        "view s1 = put key (OStr (VInt (conn ?d key + 1))) (Some (clock ?d + CONNECTION_TTL_MS)) ?d" by auto
      with sel rt ne c have "r = Inr c" "view s' = put key (OStr (VInt (conn ?d key + 1))) (Some (clock ?d + CONNECTION_TTL_MS)) ?d"
        by (auto simp: least_select_def)
      moreover have "key = ?g c" using c c0 by simp
      moreover have "\<forall>c' \<in> set cs. conn ?d (?g c) \<le> conn ?d (?g c')"
        using ki(2) \<open>key = ?g c\<close> by (auto simp: least_keys_def)
      ultimately show ?thesis using dt c(2) by (intro exI [of _ dt]) (auto simp: Let_def)
    qed
  qed
qed

lemma least_release_cases:
  assumes ok: "conn_ok (view s) (lbConnections (lb_prefix L) i)"
  shows "\<exists>dt \<ge> 0. let d = advance dt (view s); g = lbConnections (lb_prefix L) i; d' = view (least_release L i s) in
    clock d' = clock d \<and> conn_ok d' g \<and> (\<forall>k. k \<noteq> g \<longrightarrow> live d' k = live d k) \<and>
    (d' = d \<or> conn d' g = max 0 (conn d g - 1))"
proof -
  let ?g = "lbConnections (lb_prefix L) i"
  obtain x s1 where rt: "RedisScript_run (lb_redis L) ''least-release'' (CONN_RELEASE_LUA ?g) s = (x, s1)" by fastforce
  from RedisScript_run_atomic [OF rt] show ?thesis
  proof (rule atomic_runE)
    fix dt
    assume dt: "0 \<le> dt" and out: "(x = Inl Unreachable \<and> view s1 = advance dt (view s)) \<or>
     (\<exists>y. exec redis_spec (CONN_RELEASE_LUA ?g) (advance dt (view s)) = (y, view s1) \<and>
          x = (case y of Inl e \<Rightarrow> Inl (ScriptError e) | Inr a \<Rightarrow> Inr a))"
    have ok': "conn_ok (advance dt (view s)) ?g" by (rule conn_ok_advance [OF ok dt])
    with exec_CONN_RELEASE [OF ok'] out rt dt show ?thesis
      by (intro exI [of _ dt]) (auto simp: Let_def least_release_def)
  qed
qed

end

text \<open>
  Least connections picks a candidate with the fewest requests in flight and counts the
  request on that candidate's gauge alone, under a ten minute lease, in one atomic step; or
  Redis could not be reached, no gauge moved and the pick is a random candidate.
\<close>

theorem least_select_least:
  assumes "lb_contract L view" and "cs \<noteq> []"
    and "\<forall>c \<in> set cs. conn_ok (view s) (lbConnections (lb_prefix L) (p_id c))"
    and "least_select L cs s = (r, s')"
  shows "\<exists>dt \<ge> 0. let d = advance dt (view s); gauge = (\<lambda>c. lbConnections (lb_prefix L) (p_id c)) in
    view s' = d \<or>
    (\<exists>c \<in> set cs. r = Inr c \<and> (\<forall>c' \<in> set cs. conn d (gauge c) \<le> conn d (gauge c')) \<and>
       view s' = put (gauge c) (OStr (VInt (conn d (gauge c) + 1))) (Some (clock d + CONNECTION_TTL_MS)) d)"
  by (rule lb_contract.least_select_cases [OF assms(1,4,2,3)])

theorem least_select_least_witness:
  "\<exists>r s'. least_select ref_lb demo_candidates (lp_init 0) = (r, s') \<and>
    (\<exists>dt \<ge> 0. let d = advance dt (empty_db 0); gauge = (\<lambda>c. lbConnections ''gw:'' (p_id c)) in
      lp_view s' = d \<or>
      (\<exists>c \<in> set demo_candidates. r = Inr c \<and> (\<forall>c' \<in> set demo_candidates. conn d (gauge c) \<le> conn d (gauge c')) \<and>
         lp_view s' = put (gauge c) (OStr (VInt (conn d (gauge c) + 1))) (Some (clock d + CONNECTION_TTL_MS)) d))"
proof -
  obtain r s' where r: "least_select ref_lb demo_candidates (lp_init 0) = (r, s')" by fastforce
  have ne: "demo_candidates \<noteq> []" by (simp add: demo_candidates_def)
  have v: "lp_view (lp_init 0) = empty_db 0" by (simp add: lp_view_def lp_init_def ref_init_def)
  have ok: "\<forall>c \<in> set demo_candidates. conn_ok (lp_view (lp_init 0)) (lbConnections (lb_prefix ref_lb) (p_id c))"
    by (simp add: v conn_ok_def)
  have pre: "lb_prefix ref_lb = ''gw:''" by (simp add: ref_lb_def)
  show ?thesis
    using least_select_least [OF ref_lb_contract ne ok r, unfolded v pre] r by blast
qed

datatype lc_op = LcSelect "BaseProvider list" | LcRelease string

fun lc_step :: "'s lb_env \<Rightarrow> lc_op \<Rightarrow> 's \<Rightarrow> 's" where
  "lc_step L (LcSelect cs) s = snd (lb_select LEAST_CONNECTIONS L cs s)"
| "lc_step L (LcRelease i) s = lb_release LEAST_CONNECTIONS L i s"

definition lc_run :: "'s lb_env \<Rightarrow> lc_op list \<Rightarrow> 's \<Rightarrow> 's" where
  "lc_run L xs s = fold (lc_step L) xs s"

lemma conn_ok_put: "0 \<le> n \<Longrightarrow> conn_ok d g \<Longrightarrow> conn_ok (put k (OStr (VInt n)) ttl d) g"
  by (auto simp: conn_ok_def split: option.splits)

lemma conn_ok_cong: "live d' g = live d g \<Longrightarrow> conn_ok d g \<Longrightarrow> conn_ok d' g"
  by (simp add: conn_ok_def)

context lb_contract
begin

lemma lc_step_ok:
  assumes ok: "\<And>i. conn_ok (view s) (lbConnections (lb_prefix L) i)"
  shows "conn_ok (view (lc_step L x s)) (lbConnections (lb_prefix L) j)"
proof (cases x)
  case (LcSelect cs)
  show ?thesis
  proof (cases "cs = []")
    case True
    with LcSelect ok show ?thesis by (simp add: lb_select_def)
  next
    case False
    obtain r s' where r: "least_select L cs s = (r, s')" by fastforce
    from least_select_cases [OF r False] ok obtain dt where dt: "0 \<le> dt" and
      out: "view s' = advance dt (view s) \<or>
        (\<exists>g n ttl. conn_ok (view s) g \<and> view s' = put g (OStr (VInt (conn (advance dt (view s)) g + 1))) ttl (advance dt (view s)))"
      by (fastforce simp: Let_def)
    have "conn_ok (advance dt (view s)) g" if "conn_ok (view s) g" for g
      using that dt by (rule conn_ok_advance)
    with out ok [of j] have "conn_ok (view s') (lbConnections (lb_prefix L) j)"
      by (auto intro!: conn_ok_put simp: conn_nonneg)
    with LcSelect False r show ?thesis by (simp add: lb_select_def)
  qed
next
  case (LcRelease i)
  from least_release_cases [OF ok [of i]] obtain dt where "0 \<le> dt"
    "conn_ok (view (least_release L i s)) (lbConnections (lb_prefix L) i)"
    "\<forall>k. k \<noteq> lbConnections (lb_prefix L) i \<longrightarrow> live (view (least_release L i s)) k = live (advance dt (view s)) k"
    by (auto simp: Let_def)
  with LcRelease conn_ok_advance [OF ok [of j], of dt] show ?thesis
    by (cases "j = i") (auto simp: lb_release_def intro: conn_ok_cong)
qed

lemma lc_run_ok:
  assumes "\<And>i. conn_ok (view s) (lbConnections (lb_prefix L) i)"
  shows "conn_ok (view (lc_run L xs s)) (lbConnections (lb_prefix L) j)"
  using assms
proof (induction xs arbitrary: s)
  case Nil
  then show ?case by (simp add: lc_run_def)
next
  case (Cons x xs)
  have "conn_ok (view (lc_step L x s)) (lbConnections (lb_prefix L) i)" for i
    by (rule lc_step_ok) (rule Cons.prems)
  from Cons.IH [OF this] show ?case by (simp add: lc_run_def)
qed

end

text \<open>
  The in-flight gauges are counters at all times: after any sequence of selections and
  releases, in any order and number (a late or repeated release included) and with any Redis
  outage in between, every gauge is absent or a non-negative integer.
\<close>

theorem least_gauges_safe:
  assumes "lb_contract L view" and "\<And>i. conn_ok (view s) (lbConnections (lb_prefix L) i)"
  shows "conn_ok (view (lc_run L xs s)) (lbConnections (lb_prefix L) j) \<and>
    0 \<le> conn (view (lc_run L xs s)) (lbConnections (lb_prefix L) j)"
  using lb_contract.lc_run_ok [OF assms(1,2)] conn_nonneg by blast

theorem least_gauges_safe_witness:
  "0 \<le> conn (lp_view (lc_run ref_lb [LcSelect demo_candidates, LcRelease ''A'', LcRelease ''A''] (lp_init 0)))
     (lbConnections ''gw:'' ''A'')"
proof -
  have "conn_ok (lp_view (lp_init 0)) (lbConnections (lb_prefix ref_lb) i)" for i
    by (simp add: lp_view_def lp_init_def ref_init_def conn_ok_def)
  from least_gauges_safe [OF ref_lb_contract this] show ?thesis by (simp add: ref_lb_def)
qed

section \<open>Latency\<close>

definition ema_readable :: "db \<Rightarrow> string \<Rightarrow> bool" where
  "ema_readable d key = (case live d key of None \<Rightarrow> True | Some (OStr v, _) \<Rightarrow> rval_num v \<noteq> None | _ \<Rightarrow> False)"

definition ema_of :: "db \<Rightarrow> string \<Rightarrow> rat option" where
  "ema_of d key = (case get_str d key of None \<Rightarrow> None | Some v \<Rightarrow> rval_num v)"

definition ema_stored :: "rat \<Rightarrow> rat \<Rightarrow> rat option \<Rightarrow> rat" where
  "ema_stored alpha x prev = (case prev of None \<Rightarrow> x | Some p \<Rightarrow> ema_next alpha x p)"

lemma exec_EMA_UPDATE:
  assumes "ema_readable d key" and "0 < ttl"
  shows "exec redis_spec (EMA_UPDATE_LUA key alpha x ttl) d =
    (Inr (ema_stored alpha x (ema_of d key)),
     put key (OStr (num_val (ema_stored alpha x (ema_of d key)))) (Some (clock d + ttl)) d)"
  using assms
  by (auto simp: EMA_UPDATE_LUA_def ema_readable_def ema_of_def ema_stored_def get_str_def with_num_def
      tonumber_or_zero_def Let_def split: option.splits prod.splits robj.splits)

lemma ema_next_between:
  assumes "0 \<le> alpha" "alpha \<le> 1"
  shows "min p x \<le> ema_next alpha x p" "ema_next alpha x p \<le> max p x"
proof -
  have "ema_next alpha x p = p + alpha * (x - p)" "ema_next alpha x p = x - (1 - alpha) * (x - p)"
    by (simp_all add: ema_next_def algebra_simps)
  moreover have "0 \<le> alpha * (x - p) \<and> 0 \<le> (1 - alpha) * (x - p)" if "p \<le> x"
    using assms that by simp
  moreover have "alpha * (x - p) \<le> 0 \<and> (1 - alpha) * (x - p) \<le> 0" if "x \<le> p"
    using assms that by (simp add: mult_nonneg_nonpos)
  ultimately show "min p x \<le> ema_next alpha x p" "ema_next alpha x p \<le> max p x"
    by (cases "p \<le> x"; force simp: min_def max_def)+
qed

lemma rval_num_num_val [simp]: "rval_num (num_val q) = Some q"
  by (simp add: rval_num_def num_val_def)

lemma ema_of_put [simp]: "ttl > 0 \<Longrightarrow> ema_of (put key (OStr (num_val q)) (Some (clock d + ttl)) d) key = Some q"
  by (simp add: ema_of_def get_str_def)

definition provider_score :: "'s lb_env \<Rightarrow> db \<Rightarrow> BaseProvider \<Rightarrow> rat" where
  "provider_score L d c = latency_score (get_str d (lbLatencyEma (lb_prefix L) (p_id c))) (p_weight c)"

lemma latency_loop_max:
  "(\<exists>v. ((latency_loop xs best sc, v) \<in> set xs \<or> (latency_loop xs best sc = best \<and> sc = Some v)) \<and>
     (\<forall>x \<in> set xs. snd x \<le> v) \<and> (\<forall>b. sc = Some b \<longrightarrow> b \<le> v)) \<or> (xs = [] \<and> sc = None)"
proof (induction xs best sc rule: latency_loop.induct)
  case (2 c score rest best sc)
  show ?case
  proof (cases "case sc of None \<Rightarrow> True | Some b \<Rightarrow> score > b")
    case True
    with "2.IH"(1) show ?thesis by (cases sc) fastforce+
  next
    case False
    then obtain b where "sc = Some b" "score \<le> b" by (cases sc) auto
    with "2.IH"(2) False show ?thesis by fastforce
  qed
qed auto

lemma latency_score_antimono:
  assumes "0 < p" "p \<le> q"
  shows "latency_score (Some (num_val q)) w \<le> latency_score (Some (num_val p)) w"
  using assms by (auto simp: latency_score_def Let_def intro!: divide_left_mono)

context lb_contract
begin

lemma updateEma_cases:
  assumes "ema_readable (view s) (lbLatencyEma (lb_prefix L) i)"
  shows "\<exists>dt \<ge> 0. let d = advance dt (view s); key = lbLatencyEma (lb_prefix L) i;
      q = ema_stored (lb_alpha L) x (ema_of d key) in
    view (updateEma L i x s) = d \<or>
    view (updateEma L i x s) = put key (OStr (num_val q)) (Some (clock d + EMA_TTL_MS)) d"
proof -
  let ?k = "lbLatencyEma (lb_prefix L) i"
  obtain y s1 where rt: "RedisScript_run (lb_redis L) ''ema'' (EMA_UPDATE_LUA ?k (lb_alpha L) x EMA_TTL_MS) s = (y, s1)"
    by fastforce
  from RedisScript_run_atomic [OF rt] show ?thesis
  proof (rule atomic_runE)
    fix dt
    assume dt: "0 \<le> dt" and out: "(y = Inl Unreachable \<and> view s1 = advance dt (view s)) \<or>
     (\<exists>z. exec redis_spec (EMA_UPDATE_LUA ?k (lb_alpha L) x EMA_TTL_MS) (advance dt (view s)) = (z, view s1) \<and>
          y = (case z of Inl e \<Rightarrow> Inl (ScriptError e) | Inr a \<Rightarrow> Inr a))"
    have "ema_readable (advance dt (view s)) ?k"
      using assms dt by (auto simp: ema_readable_def live_advance split: option.splits)
    from exec_EMA_UPDATE [OF this, of EMA_TTL_MS] out dt rt show ?thesis
      by (intro exI [of _ dt]) (auto simp: updateEma_def EMA_TTL_MS_def Let_def)
  qed
qed

lemma latency_select_cases:
  assumes sel: "latency_select L cs s = (r, s')" and ne: "cs \<noteq> []"
  shows "\<exists>dt \<ge> 0. view s' = advance dt (view s) \<and>
    ((\<exists>c \<in> set cs. r = Inr c \<and> (\<forall>c' \<in> set cs. provider_score L (view s') c' \<le> provider_score L (view s') c)) \<or>
     (\<exists>s1. (r, s') = cryptoPick L cs s1))"
proof -
  let ?keys = "map (\<lambda>c. lbLatencyEma (lb_prefix L) (p_id c)) cs"
  obtain x s1 where rt: "round_trip (lb_redis L) (command (MGET ?keys)) s = (x, s1)" by fastforce
  from round_trip_atomic [OF rt] show ?thesis
  proof (rule atomic_runE)
    fix dt
    let ?d = "advance dt (view s)"
    assume dt: "0 \<le> dt" and out: "(x = Inl Unreachable \<and> view s1 = ?d) \<or>
     (\<exists>z. exec redis_spec (command (MGET ?keys)) ?d = (z, view s1) \<and>
          x = (case z of Inl e \<Rightarrow> Inl (ScriptError e) | Inr a \<Rightarrow> Inr a))"
    from out show ?thesis
    proof
      assume "x = Inl Unreachable \<and> view s1 = ?d"
      with sel rt ne have c: "(r, s') = cryptoPick L cs s1" and v: "view s1 = ?d"
        by (auto simp: latency_select_def)
      with ne rand_view [of "length cs" s1] have "view s' = ?d"
        by (auto simp: cryptoPick_def split: prod.splits)
      with c dt show ?thesis by blast
    next
      let ?pairs = "map (\<lambda>c. (c, provider_score L ?d c)) cs"
      assume "\<exists>z. exec redis_spec (command (MGET ?keys)) ?d = (z, view s1) \<and>
          x = (case z of Inl e \<Rightarrow> Inl (ScriptError e) | Inr a \<Rightarrow> Inr a)"
      then have x: "x = Inr (RBulks (map (get_str ?d) ?keys))" and v: "view s1 = ?d"
        by (auto simp: command_def)
      have "map2 (\<lambda>c e. (c, latency_score e (p_weight c))) cs (map (get_str ?d) ?keys) = ?pairs"
        by (induction cs) (auto simp: provider_score_def)
      with sel rt ne x have "r = Inr (latency_loop ?pairs (hd cs) None)" "s' = s1"
        by (auto simp: latency_select_def Let_def)
      moreover from latency_loop_max [of ?pairs "hd cs" None] ne
      obtain w where "(latency_loop ?pairs (hd cs) None, w) \<in> set ?pairs" "\<forall>x \<in> set ?pairs. snd x \<le> w" by auto
      ultimately show ?thesis using v dt by (intro exI [of _ dt]) fastforce
    qed
  qed
qed

end

text \<open>
  Latency-based selection picks a candidate with the highest score \<open>weight / EMA\<close> as
  stored at the time of the read (missing averages count as 100 ms), without changing any
  key; only when Redis cannot be read is the pick random.
\<close>

theorem latency_select_best:
  assumes "lb_contract L view" and "cs \<noteq> []" and "latency_select L cs s = (r, s')"
  shows "\<exists>dt \<ge> 0. view s' = advance dt (view s) \<and>
    ((\<exists>c \<in> set cs. r = Inr c \<and> (\<forall>c' \<in> set cs. provider_score L (view s') c' \<le> provider_score L (view s') c)) \<or>
     (\<exists>s1. (r, s') = cryptoPick L cs s1))"
  by (rule lb_contract.latency_select_cases [OF assms(1,3,2)])

theorem latency_select_best_witness:
  "\<exists>r s' dt. latency_select ref_lb demo_candidates (lp_init 0) = (r, s') \<and> 0 \<le> dt \<and> lp_view s' = advance dt (empty_db 0)"
proof -
  obtain r s' where r: "latency_select ref_lb demo_candidates (lp_init 0) = (r, s')" by fastforce
  have "demo_candidates \<noteq> []" by (simp add: demo_candidates_def)
  from latency_select_best [OF ref_lb_contract this r] r show ?thesis
    by (auto simp: lp_view_def lp_init_def ref_init_def)
qed

text \<open>
  The moving average stays between the previous average and the sample, and a failure
  demotes: once a provider whose average does not exceed the penalty has failed, its score is
  not higher than before (unless Redis was unreachable, when nothing changed).
\<close>

theorem latency_failure_demotes:
  assumes "lb_contract L view" and "0 \<le> lb_alpha L" and "lb_alpha L \<le> 1"
    and "ema_readable (view s) (lbLatencyEma (lb_prefix L) i)" and "s' = latency_recordFailure L i s"
  shows "\<exists>dt \<ge> 0. let d = advance dt (view s); key = lbLatencyEma (lb_prefix L) i in
    view s' = d \<or>
    (\<forall>p. ema_of d key = Some p \<longrightarrow> 0 < p \<longrightarrow> p \<le> of_int (lb_penalty_ms L) \<longrightarrow>
       (\<exists>q. ema_of (view s') key = Some q \<and> p \<le> q \<and> q \<le> of_int (lb_penalty_ms L) \<and>
          (\<forall>w. latency_score (get_str (view s') key) w \<le> latency_score (Some (num_val p)) w)))"
proof -
  let ?key = "lbLatencyEma (lb_prefix L) i" and ?x = "of_int (lb_penalty_ms L) :: rat"
  from lb_contract.updateEma_cases [OF assms(1,4), of ?x] obtain dt where dt: "0 \<le> dt" and
    out: "view s' = advance dt (view s) \<or> view s' = put ?key
      (OStr (num_val (ema_stored (lb_alpha L) ?x (ema_of (advance dt (view s)) ?key))))
      (Some (clock (advance dt (view s)) + EMA_TTL_MS)) (advance dt (view s))"
    by (auto simp: Let_def assms(5) latency_recordFailure_def)
  have "\<exists>q. ema_of (view s') ?key = Some q \<and> p \<le> q \<and> q \<le> ?x \<and>
      (\<forall>w. latency_score (get_str (view s') ?key) w \<le> latency_score (Some (num_val p)) w)"
    if p: "ema_of (advance dt (view s)) ?key = Some p" "0 < p" "p \<le> ?x"
      and ne: "view s' \<noteq> advance dt (view s)" for p
  proof -
    let ?q = "ema_next (lb_alpha L) ?x p"
    from out ne p(1) have v: "view s' = put ?key (OStr (num_val ?q))
        (Some (clock (advance dt (view s)) + EMA_TTL_MS)) (advance dt (view s))"
      by (simp add: ema_stored_def)
    have "p \<le> ?q" "?q \<le> ?x" using ema_next_between [OF assms(2,3), where p = p and x = ?x] p(3) by simp_all
    moreover have "ema_of (view s') ?key = Some ?q" "get_str (view s') ?key = Some (num_val ?q)"
      unfolding v by (simp_all add: ema_of_def get_str_def EMA_TTL_MS_def)
    ultimately show ?thesis using latency_score_antimono [OF p(2), of ?q] by auto
  qed
  with dt show ?thesis by (intro exI [of _ dt]) (auto simp: Let_def)
qed
theorem latency_failure_demotes_witness:
  "\<exists>dt \<ge> 0. let d = advance dt (lp_view (lp_init 0)); key = lbLatencyEma ''gw:'' ''A'';
      d' = lp_view (latency_recordFailure ref_lb ''A'' (lp_init 0)) in
    d' = d \<or>
    (\<forall>p. ema_of d key = Some p \<longrightarrow> 0 < p \<longrightarrow> p \<le> 30000 \<longrightarrow>
       (\<exists>q. ema_of d' key = Some q \<and> p \<le> q \<and> q \<le> 30000 \<and>
          (\<forall>w. latency_score (get_str d' key) w \<le> latency_score (Some (num_val p)) w)))"
proof -
  have par: "0 \<le> lb_alpha ref_lb" "lb_alpha ref_lb \<le> 1" by (simp_all add: ref_lb_def)
  have r: "ema_readable (lp_view (lp_init 0)) (lbLatencyEma (lb_prefix ref_lb) ''A'')"
    by (simp add: ema_readable_def lp_view_def lp_init_def ref_init_def)
  have c: "lb_prefix ref_lb = ''gw:''" "lb_penalty_ms ref_lb = 30000" by (simp_all add: ref_lb_def)
  from latency_failure_demotes [OF ref_lb_contract par r refl] show ?thesis
    unfolding c Let_def by simp
qed

section \<open>Round robin\<close>

fun rr_picks :: "'s lb_env \<Rightarrow> BaseProvider list \<Rightarrow> nat \<Rightarrow> 's \<Rightarrow> (lb_error, BaseProvider) result list" where
  "rr_picks L cs 0 s = []"
| "rr_picks L cs (Suc n) s = (case rr_select L cs s of (r, s') \<Rightarrow> r # rr_picks L cs n s')"

context lb_contract
begin

lemma rr_picks_cycle:
  assumes "cs \<noteq> []" and "nullish (lb_counters L s (candidateSetKey L cs)) 0 = c" and "c + n < MAX_SAFE_INTEGER"
  shows "rr_picks L cs n s = map (\<lambda>k. Inr (cs ! ((c + k) mod length cs))) [0..<n]"
  using assms(2,3)
proof (induction n arbitrary: s c)
  case (Suc n)
  let ?key = "candidateSetKey L cs"
  let ?s = "lb_set_counters L ((lb_counters L s)(?key \<mapsto> (c + 1) mod MAX_SAFE_INTEGER)) s"
  have "rr_select L cs s = (Inr (cs ! (c mod length cs)), ?s)"
    using assms(1) Suc.prems(1) by (simp add: rr_select_def Let_def)
  moreover have "rr_picks L cs n ?s = map (\<lambda>k. Inr (cs ! ((Suc c + k) mod length cs))) [0..<n]"
    using Suc.prems(2) by (intro Suc.IH) (simp_all add: counters_get)
  moreover have "map f [0..<Suc n] = f 0 # map (\<lambda>k. f (Suc k)) [0..<n]" for f :: "nat \<Rightarrow> (lb_error, BaseProvider) result"
    by (simp add: map_upt_Suc del: upt_Suc)
  ultimately show ?case by (simp del: upt_Suc)
qed simp

end

text \<open>
  Round robin visits every candidate once per cycle, in list order from wherever the
  rotation of the candidate set stands: \<open>length cs\<close> consecutive selections return a
  rotation of the list, as long as the counter does not reach \<open>MAX_SAFE_INTEGER\<close>.
\<close>

theorem rr_cycle:
  assumes "lb_contract L view" and "cs \<noteq> []"
    and "nullish (lb_counters L s (candidateSetKey L cs)) 0 + length cs < MAX_SAFE_INTEGER"
  shows "rr_picks L cs (length cs) s =
    map Inr (rotate (nullish (lb_counters L s (candidateSetKey L cs)) 0) cs)"
proof -
  let ?c = "nullish (lb_counters L s (candidateSetKey L cs)) 0"
  have "rotate ?c cs = map (\<lambda>k. cs ! ((?c + k) mod length cs)) [0..<length cs]"
    by (rule nth_equalityI) (simp_all add: nth_rotate add.commute)
  with lb_contract.rr_picks_cycle [OF assms(1,2) refl assms(3)] show ?thesis by (simp add: comp_def)
qed

theorem rr_cycle_witness:
  "rr_picks ref_lb demo_candidates 3 (lp_init 0) = map Inr demo_candidates"
proof -
  have c: "nullish (lb_counters ref_lb (lp_init 0) (candidateSetKey ref_lb demo_candidates)) 0 = 0"
    and len: "length demo_candidates = 3"
    by (simp_all add: ref_lb_def lp_init_def demo_candidates_def)
  have "demo_candidates \<noteq> []" using len by auto
  from rr_cycle [OF ref_lb_contract this, of "lp_init 0", unfolded c len] show ?thesis
    by (simp add: MAX_SAFE_INTEGER_def)
qed

text \<open>
  The wrap-around does not preserve the rotation phase, contrary to the comment on it:
  \<open>MAX_SAFE_INTEGER\<close> is odd, so with two candidates the selections around the wrap return
  the same candidate twice in a row.
\<close>

lemma rr_wrap_repeats:
  assumes "lb_contract L view" and "lb_counters L s (candidateSetKey L [a, b]) = Some (MAX_SAFE_INTEGER - 1)"
  shows "rr_picks L [a, b] 2 s = [Inr a, Inr a]"
proof -
  have m: "(MAX_SAFE_INTEGER - 1) mod 2 = 0" "Suc (MAX_SAFE_INTEGER - 1) mod MAX_SAFE_INTEGER = 0"
    by (simp_all add: MAX_SAFE_INTEGER_def)
  with assms(2) lb_contract.counters_get [OF assms(1)] show ?thesis
    by (simp add: numeral_2_eq_2 rr_select_def Let_def)
qed

end
