(* ===== verification/Rate_Limiter.thy ===== *)
theory Rate_Limiter
  imports Redis_Service
begin

text \<open>
  The sliding-window limiter of \<open>src/rate-limiter/index.ts\<close>: the Lua script, the \<open>check\<close>
  method that runs it, the invariant that ties the four Redis keys of an API key to the
  requests admitted so far, and the bounds on admitted requests and tokens that follow for
  every history of checks.  Lua numbers are integers here: limits, token counts and
  timestamps are integers in the code, and the token sum stays far below \<open>10^14\<close>, where Lua
  would start to print an exponent.
\<close>

section \<open>The script\<close>

datatype RateLimitReason = RlRpm | RlTpm | RlBurst

record RateLimitResult =
  rr_allowed :: bool
  rr_reason :: "RateLimitReason option"
  rr_limit :: int
  rr_remaining :: int
  rr_resetUnixSec :: int
  rr_retryAfterSec :: int

record RateLimitConfig =
  rl_rpmLimit :: int
  rl_tpmLimit :: int
  rl_estimatedTokens :: rat

definition ONE_MINUTE_MS :: int where
  "ONE_MINUTE_MS = 60000"

definition when_call :: "bool \<Rightarrow> rcmd \<Rightarrow> (rreply \<Rightarrow> 'a lua) \<Rightarrow> 'a lua" where
  "when_call b c k = (if b then Call c k else k RNil)"

text \<open>
  \<open>tonumber(string.match(m, '([^:]+)$'))\<close>: the text after the last colon, read as a decimal
  numeral.
\<close>

definition last_field :: "string \<Rightarrow> string" where
  "last_field m = rev (takeWhile (\<lambda>c. c \<noteq> CHR '':'') (rev m))"

definition member_tokens :: "string \<Rightarrow> int" where
  "member_tokens m = (case read_nat (last_field m) of None \<Rightarrow> 0 | Some t \<Rightarrow> int t)"

definition bulk_texts :: "rreply \<Rightarrow> string list" where
  "bulk_texts r = (case r of
     RBulks vs \<Rightarrow> concat (map (\<lambda>v. case v of Some (VStr m) \<Rightarrow> [m] | _ \<Rightarrow> []) vs) | _ \<Rightarrow> [])"

definition first_score :: "rreply \<Rightarrow> int option" where
  "first_score r = (case r of RScored ((m, sc) # _) \<Rightarrow> Some sc | _ \<Rightarrow> None)"

text \<open>The lines of the script after the window has been measured: decide, record, report.\<close>

definition RATE_LIMIT_retry ::
  "string \<Rightarrow> string \<Rightarrow> string \<Rightarrow> int \<Rightarrow> int \<Rightarrow> int \<Rightarrow> int \<Rightarrow> int \<Rightarrow> string \<Rightarrow> (int \<Rightarrow> 'a lua) \<Rightarrow> 'a lua" where
  "RATE_LIMIT_retry k1 k2 k3 now rpmWindow tpmWindow burstWindow allowed reason k =
     (if allowed = 0 then
        (let (rk, rw) = (if reason = ''tpm'' then (k2, tpmWindow)
                         else if reason = ''burst'' then (k3, burstWindow) else (k1, rpmWindow))
         in Call (ZRANGE_FIRST rk) (\<lambda>o1.
              let r = (case first_score o1 of None \<Rightarrow> 0 | Some sc \<Rightarrow> ceil_div (sc + rw - now) 1000)
              in k (if r < 1 then 1 else r)))
      else k 0)"

definition RATE_LIMIT_report ::
  "string \<Rightarrow> string \<Rightarrow> string \<Rightarrow> int \<Rightarrow> int \<Rightarrow> int \<Rightarrow> int \<Rightarrow> int \<Rightarrow> int \<Rightarrow> int \<Rightarrow> string
     \<Rightarrow> (int \<times> string \<times> int \<times> int \<times> int \<times> int) lua" where
  "RATE_LIMIT_report k1 k2 k3 now rpmWindow rpmLimit tpmWindow burstWindow rpmCount allowed reason =
     (let rpmRemaining = (if rpmLimit - rpmCount < 0 then 0 else rpmLimit - rpmCount) in
      Call (ZRANGE_FIRST k1) (\<lambda>oldest.
        let resetMs = (case first_score oldest of None \<Rightarrow> now + rpmWindow | Some sc \<Rightarrow> sc + rpmWindow);
            resetSec = ceil_div resetMs 1000
        in RATE_LIMIT_retry k1 k2 k3 now rpmWindow tpmWindow burstWindow allowed reason
             (\<lambda>retryAfterSec. Return (allowed, reason, rpmLimit, rpmRemaining, resetSec, retryAfterSec))))"

definition RATE_LIMIT_record ::
  "string \<Rightarrow> string \<Rightarrow> string \<Rightarrow> string \<Rightarrow> int \<Rightarrow> int \<Rightarrow> int \<Rightarrow> int \<Rightarrow> string \<Rightarrow> int \<Rightarrow> int \<Rightarrow> int \<Rightarrow> 'a lua \<Rightarrow> 'a lua"
where
  "RATE_LIMIT_record k1 k2 k3 k4 now rpmWindow tpmWindow reqTokens member burstEnabled burstWindow tpmSum k =
     Call (ZADD k1 now member) (\<lambda>_.
     Call (PEXPIRE k1 (rpmWindow + 1000)) (\<lambda>_.
     Call (ZADD k2 now (member @ '':'' @ show_int reqTokens)) (\<lambda>_.
     Call (PEXPIRE k2 (tpmWindow + 1000)) (\<lambda>_.
     Call (SET_PX k4 (VInt (tpmSum + reqTokens)) (tpmWindow + 1000)) (\<lambda>_.
     when_call (burstEnabled = 1) (ZADD k3 now member) (\<lambda>_.
     when_call (burstEnabled = 1) (PEXPIRE k3 (burstWindow + 1000)) (\<lambda>_. k)))))))"

definition RATE_LIMIT_decide ::
  "int \<Rightarrow> int \<Rightarrow> int \<Rightarrow> int \<Rightarrow> int \<Rightarrow> int \<Rightarrow> int \<Rightarrow> int \<Rightarrow> int \<times> string" where
  "RATE_LIMIT_decide rpmCount rpmLimit burstEnabled burstCount burstLimit tpmSum reqTokens tpmLimit =
     (if rpmCount \<ge> rpmLimit then (0, ''rpm'')
      else if burstEnabled = 1 \<and> burstCount \<ge> burstLimit then (0, ''burst'')
      else if tpmSum + reqTokens > tpmLimit then (0, ''tpm'')
      else (1, ''''))"

definition RATE_LIMIT_settle ::
  "string \<Rightarrow> string \<Rightarrow> string \<Rightarrow> string \<Rightarrow> int \<Rightarrow> int \<Rightarrow> int \<Rightarrow> int \<Rightarrow> int \<Rightarrow> int \<Rightarrow> string \<Rightarrow> int \<Rightarrow> int \<Rightarrow> int
     \<Rightarrow> int \<Rightarrow> int \<Rightarrow> (int \<times> string \<times> int \<times> int \<times> int \<times> int) lua" where
  "RATE_LIMIT_settle k1 k2 k3 k4 now rpmWindow rpmLimit tpmWindow tpmLimit reqTokens member
     burstEnabled burstWindow burstLimit rpmCount tpmSum =
     when_call (burstEnabled = 1) (ZCARD k3) (\<lambda>c3.
       let burstCount = int_reply c3;
           (allowed, reason) =
             RATE_LIMIT_decide rpmCount rpmLimit burstEnabled burstCount burstLimit tpmSum reqTokens tpmLimit
       in if allowed = 1
          then RATE_LIMIT_record k1 k2 k3 k4 now rpmWindow tpmWindow reqTokens member burstEnabled
                 burstWindow tpmSum
                 (RATE_LIMIT_report k1 k2 k3 now rpmWindow rpmLimit tpmWindow burstWindow (rpmCount + 1)
                    allowed reason)
          else RATE_LIMIT_report k1 k2 k3 now rpmWindow rpmLimit tpmWindow burstWindow rpmCount
                 allowed reason)"

definition RATE_LIMIT_LUA ::
  "string \<Rightarrow> string \<Rightarrow> string \<Rightarrow> string \<Rightarrow> int \<Rightarrow> int \<Rightarrow> int \<Rightarrow> int \<Rightarrow> int \<Rightarrow> int \<Rightarrow> string \<Rightarrow> int \<Rightarrow> int \<Rightarrow> int
     \<Rightarrow> (int \<times> string \<times> int \<times> int \<times> int \<times> int) lua" where
  "RATE_LIMIT_LUA k1 k2 k3 k4 now rpmWindow rpmLimit tpmWindow tpmLimit reqTokens member
     burstEnabled burstWindow burstLimit =
     Call (ZREMRANGEBYSCORE k1 0 (now - rpmWindow)) (\<lambda>_.
     when_call (burstEnabled = 1) (ZREMRANGEBYSCORE k3 0 (now - burstWindow)) (\<lambda>_.
     Call (ZCARD k1) (\<lambda>c1.
     Call (GET k4) (\<lambda>s. with_num s (\<lambda>stored.
     Call (ZRANGEBYSCORE k2 0 (now - tpmWindow)) (\<lambda>ex.
       let expired = bulk_texts ex;
           tpmSum0 = \<lfloor>stored\<rfloor> - (\<Sum>m\<leftarrow>expired. member_tokens m) in
     when_call (expired \<noteq> []) (ZREMRANGEBYSCORE k2 0 (now - tpmWindow)) (\<lambda>_.
     Call (ZCARD k2) (\<lambda>c2.
       let tpmSum = (if tpmSum0 < 0 \<or> int_reply c2 = 0 then 0 else tpmSum0) in
       RATE_LIMIT_settle k1 k2 k3 k4 now rpmWindow rpmLimit tpmWindow tpmLimit reqTokens member
         burstEnabled burstWindow burstLimit (int_reply c1) tpmSum))))))))"

section \<open>The class\<close>

definition parseResult :: "int \<times> string \<times> int \<times> int \<times> int \<times> int \<Rightarrow> RateLimitResult" where
  "parseResult raw = (case raw of (allowed, reasonStr, lmt, remaining, reset, retry) \<Rightarrow>
     \<lparr>rr_allowed = (allowed = 1),
      rr_reason = (if reasonStr = ''rpm'' then Some RlRpm else if reasonStr = ''tpm'' then Some RlTpm
                   else if reasonStr = ''burst'' then Some RlBurst else None),
      rr_limit = lmt, rr_remaining = remaining, rr_resetUnixSec = reset, rr_retryAfterSec = retry\<rparr>)"

record rl_settings =
  RATE_LIMIT_ENABLED :: bool
  RATE_LIMIT_BURST_ENABLED :: bool
  RATE_LIMIT_BURST_MULTIPLIER :: rat
  RATE_LIMIT_BURST_WINDOW_MS :: int

text \<open>\<open>Math.max(0, Math.trunc(x))\<close>.\<close>

definition request_tokens :: "rat \<Rightarrow> int" where
  "request_tokens x = max 0 (if x < 0 then \<lceil>x\<rceil> else \<lfloor>x\<rfloor>)"

definition rl_script ::
  "rl_settings \<Rightarrow> key_prefix \<Rightarrow> string \<Rightarrow> RateLimitConfig \<Rightarrow> int \<Rightarrow> string
     \<Rightarrow> (int \<times> string \<times> int \<times> int \<times> int \<times> int) lua" where
  "rl_script cfg pre apiKeyId limits nowMs uuid =
     (let burstEnabled = (if RATE_LIMIT_BURST_ENABLED cfg then 1 else 0);
          burstLimit = js_ceil (of_int (rl_rpmLimit limits) * RATE_LIMIT_BURST_MULTIPLIER cfg);
          member = show_int nowMs @ '':'' @ uuid
      in RATE_LIMIT_LUA (rateLimitRpm pre apiKeyId) (rateLimitTpm pre apiKeyId)
           (rateLimitBurst pre apiKeyId) (rateLimitTpmSum pre apiKeyId)
           nowMs ONE_MINUTE_MS (rl_rpmLimit limits) ONE_MINUTE_MS (rl_tpmLimit limits)
           (request_tokens (rl_estimatedTokens limits)) member burstEnabled
           (RATE_LIMIT_BURST_WINDOW_MS cfg) burstLimit)"

definition rl_check ::
  "'s redis_env \<Rightarrow> rl_settings \<Rightarrow> key_prefix \<Rightarrow> string \<Rightarrow> RateLimitConfig \<Rightarrow> int \<Rightarrow> string \<Rightarrow> 's
     \<Rightarrow> (redis_error, RateLimitResult) result \<times> 's" where
  "rl_check E cfg pre apiKeyId limits nowMs uuid s =
     (if \<not> RATE_LIMIT_ENABLED cfg then
        (Inr \<lparr>rr_allowed = True, rr_reason = None, rr_limit = rl_rpmLimit limits,
              rr_remaining = rl_rpmLimit limits,
              rr_resetUnixSec = ceil_div (nowMs + ONE_MINUTE_MS) 1000, rr_retryAfterSec = 0\<rparr>, s)
      else (case RedisScript_run E ''rate-limit'' (rl_script cfg pre apiKeyId limits nowMs uuid) s of
              (Inl e, s') \<Rightarrow> (Inl e, s') | (Inr raw, s') \<Rightarrow> (Inr (parseResult raw), s')))"

section \<open>The effect of the script on the key space\<close>

definition zset_of :: "db \<Rightarrow> string \<Rightarrow> (string \<times> int) list" where
  "zset_of d k = (case live d k of Some (OZset zs, _) \<Rightarrow> zs | _ \<Rightarrow> [])"

definition ztyped :: "db \<Rightarrow> string \<Rightarrow> bool" where
  "ztyped d k = (case live d k of None \<Rightarrow> True | Some (OZset zs, _) \<Rightarrow> zs \<noteq> [] | _ \<Rightarrow> False)"

definition evict :: "string \<Rightarrow> int \<Rightarrow> db \<Rightarrow> db" where
  "evict k hi d = snd (redis_spec (ZREMRANGEBYSCORE k 0 hi) d)"

definition admit :: "string \<Rightarrow> int \<Rightarrow> string \<Rightarrow> int \<Rightarrow> db \<Rightarrow> db" where
  "admit k sc m ttl d = snd (redis_spec (PEXPIRE k ttl) (snd (redis_spec (ZADD k sc m) d)))"

definition fresh_entries :: "int \<Rightarrow> (string \<times> int) list \<Rightarrow> (string \<times> int) list" where
  "fresh_entries hi zs = filter (\<lambda>e. \<not> in_range 0 hi e) zs"

lemma fresh_entries_subset: "set (fresh_entries hi zs) \<subseteq> set zs"
  by (auto simp: fresh_entries_def)

lemma evict_live:
  assumes "ztyped d k"
  shows "live (evict k hi d) k' =
    (if k' = k \<and> fresh_entries hi (zset_of d k) = [] then None
     else if k' = k then map_option (\<lambda>x. (OZset (fresh_entries hi (zset_of d k)), snd x)) (live d k)
     else live d k')"
  using assms
  by (auto simp: ztyped_def evict_def zset_of_def fresh_entries_def Let_def dest: live_deadline
      split: option.splits robj.splits)

lemma evict_simps:
  assumes "ztyped d k"
  shows "ztyped (evict k hi d) k" "zset_of (evict k hi d) k = fresh_entries hi (zset_of d k)"
    "clock (evict k hi d) = clock d"
    "\<exists>n. redis_spec (ZREMRANGEBYSCORE k 0 hi) d = (RInt n, evict k hi d)"
  using assms
  by (auto simp: ztyped_def evict_live zset_of_def fresh_entries_def split: option.splits robj.splits)
     (auto simp: ztyped_def evict_def Let_def split: option.splits robj.splits)

lemma evict_other:
  assumes "ztyped d k" and "k' \<noteq> k"
  shows "live (evict k hi d) k' = live d k'" "zset_of (evict k hi d) k' = zset_of d k'"
    "ztyped (evict k hi d) k' = ztyped d k'"
  using evict_live [OF assms(1), of hi k'] assms(2) by (simp_all add: zset_of_def ztyped_def)

lemma admit_live:
  assumes "ztyped d k" "0 < ttl"
  shows "live (admit k sc m ttl d) k' =
    (if k' = k then Some (OZset (zadd m sc (zset_of d k)), Some (clock d + ttl)) else live d k')"
  using assms
  by (auto simp: ztyped_def admit_def zset_of_def zadd_def dest: live_deadline
      split: option.splits robj.splits)

lemma zinsert_set [simp]: "set (zinsert e zs) = insert e (set zs)"
  by (induction zs) auto

lemma zinsert_length [simp]: "length (zinsert e zs) = Suc (length zs)"
  by (induction zs) auto

lemma zadd_set [simp]: "set (zadd m sc zs) = insert (m, sc) {e \<in> set zs. fst e \<noteq> m}"
  by (auto simp: zadd_def)

lemma zadd_nonempty [simp]: "zadd m sc zs \<noteq> []"
  by (metis zadd_set insert_not_empty set_empty)

lemma admit_simps:
  assumes "ztyped d k" "0 < ttl"
  shows "ztyped (admit k sc m ttl d) k" "zset_of (admit k sc m ttl d) k = zadd m sc (zset_of d k)"
    "clock (admit k sc m ttl d) = clock d"
  using assms
  by (simp_all add: ztyped_def zset_of_def admit_live)
     (auto simp: ztyped_def admit_def split: option.splits robj.splits)

lemma admit_other:
  assumes "ztyped d k" "0 < ttl" "k' \<noteq> k"
  shows "live (admit k sc m ttl d) k' = live d k'" "zset_of (admit k sc m ttl d) k' = zset_of d k'"
    "ztyped (admit k sc m ttl d) k' = ztyped d k'"
  using assms by (simp_all add: ztyped_def zset_of_def admit_live)

lemma exec_admit:
  assumes "ztyped d k" "0 < ttl"
  shows "exec redis_spec (Call (ZADD k sc m) (\<lambda>_. Call (PEXPIRE k ttl) (\<lambda>_. p))) d =
    exec redis_spec p (admit k sc m ttl d)"
  using assms by (auto simp: ztyped_def admit_def split: option.splits robj.splits)

lemma exec_evict:
  assumes "ztyped d k"
  shows "exec redis_spec (Call (ZREMRANGEBYSCORE k 0 hi) (\<lambda>_. p)) d = exec redis_spec p (evict k hi d)"
  using evict_simps(4) [OF assms, of hi] by auto

lemma exec_zcard:
  assumes "ztyped d k"
  shows "exec redis_spec (Call (ZCARD k) f) d = exec redis_spec (f (RInt (int (length (zset_of d k))))) d"
  using assms by (auto simp: ztyped_def zset_of_def split: option.splits robj.splits)

lemma exec_first:
  assumes "ztyped d k"
  shows "exec redis_spec (Call (ZRANGE_FIRST k) f) d =
    exec redis_spec (f (RScored (take 1 (zset_of d k)))) d"
  using assms by (auto simp: ztyped_def zset_of_def split: option.splits robj.splits)

lemma exec_zrange:
  assumes "ztyped d k"
  shows "exec redis_spec (Call (ZRANGEBYSCORE k lo hi) f) d =
    exec redis_spec (f (RBulks (map (\<lambda>e. Some (VStr (fst e))) (filter (in_range lo hi) (zset_of d k))))) d"
  using assms by (auto simp: ztyped_def zset_of_def split: option.splits robj.splits)

lemma bulk_texts_members [simp]:
  "bulk_texts (RBulks (map (\<lambda>e. Some (VStr (fst e))) zs)) = map fst zs"
  by (induction zs) (auto simp: bulk_texts_def)

definition stored_sum :: "db \<Rightarrow> string \<Rightarrow> int" where
  "stored_sum d k = (case live d k of Some (OStr (VInt i), _) \<Rightarrow> i | _ \<Rightarrow> 0)"

definition sum_typed :: "db \<Rightarrow> string \<Rightarrow> bool" where
  "sum_typed d k = (case live d k of None \<Rightarrow> True | Some (OStr (VInt i), _) \<Rightarrow> True | _ \<Rightarrow> False)"

definition rl_typed :: "key_prefix \<Rightarrow> string \<Rightarrow> db \<Rightarrow> bool" where
  "rl_typed pre a d \<longleftrightarrow> ztyped d (rateLimitRpm pre a) \<and> ztyped d (rateLimitTpm pre a) \<and>
     ztyped d (rateLimitBurst pre a) \<and> sum_typed d (rateLimitTpmSum pre a)"

definition rl_cfg_ok :: "rl_settings \<Rightarrow> bool" where
  "rl_cfg_ok cfg \<longleftrightarrow> 1 \<le> RATE_LIMIT_BURST_MULTIPLIER cfg \<and> 1 \<le> RATE_LIMIT_BURST_WINDOW_MS cfg"

definition rl_sweep :: "rl_settings \<Rightarrow> key_prefix \<Rightarrow> string \<Rightarrow> int \<Rightarrow> db \<Rightarrow> db" where
  "rl_sweep cfg pre a now d =
     (let d1 = evict (rateLimitRpm pre a) (now - ONE_MINUTE_MS) d;
          d2 = (if RATE_LIMIT_BURST_ENABLED cfg
                then evict (rateLimitBurst pre a) (now - RATE_LIMIT_BURST_WINDOW_MS cfg) d1 else d1)
      in evict (rateLimitTpm pre a) (now - ONE_MINUTE_MS) d2)"

definition rl_tpm_sum :: "key_prefix \<Rightarrow> string \<Rightarrow> int \<Rightarrow> db \<Rightarrow> int" where
  "rl_tpm_sum pre a now d =
     (let zs = zset_of d (rateLimitTpm pre a);
          s0 = stored_sum d (rateLimitTpmSum pre a)
               - (\<Sum>e\<leftarrow>filter (in_range 0 (now - ONE_MINUTE_MS)) zs. member_tokens (fst e))
      in if s0 < 0 \<or> fresh_entries (now - ONE_MINUTE_MS) zs = [] then 0 else s0)"

definition rl_verdict :: "rl_settings \<Rightarrow> key_prefix \<Rightarrow> string \<Rightarrow> RateLimitConfig \<Rightarrow> int \<Rightarrow> db \<Rightarrow> int \<times> string" where
  "rl_verdict cfg pre a limits now d =
     RATE_LIMIT_decide (int (length (zset_of (rl_sweep cfg pre a now d) (rateLimitRpm pre a))))
       (rl_rpmLimit limits) (if RATE_LIMIT_BURST_ENABLED cfg then 1 else 0)
       (if RATE_LIMIT_BURST_ENABLED cfg
        then int (length (zset_of (rl_sweep cfg pre a now d) (rateLimitBurst pre a))) else 0)
       (js_ceil (of_int (rl_rpmLimit limits) * RATE_LIMIT_BURST_MULTIPLIER cfg))
       (rl_tpm_sum pre a now d) (request_tokens (rl_estimatedTokens limits)) (rl_tpmLimit limits)"

definition rl_member :: "int \<Rightarrow> string \<Rightarrow> string" where
  "rl_member now uuid = show_int now @ '':'' @ uuid"

definition rl_record ::
  "rl_settings \<Rightarrow> key_prefix \<Rightarrow> string \<Rightarrow> int \<Rightarrow> string \<Rightarrow> int \<Rightarrow> int \<Rightarrow> db \<Rightarrow> db" where
  "rl_record cfg pre a now member tokens tot d =
     (let d1 = admit (rateLimitRpm pre a) now member 61000 d;
          d2 = admit (rateLimitTpm pre a) now (member @ '':'' @ show_int tokens) 61000 d1;
          d3 = put (rateLimitTpmSum pre a) (OStr (VInt (tot + tokens))) (Some (clock d + 61000)) d2
      in if RATE_LIMIT_BURST_ENABLED cfg
         then admit (rateLimitBurst pre a) now member (RATE_LIMIT_BURST_WINDOW_MS cfg + 1000) d3 else d3)"

lemma evict_nothing:
  assumes "ztyped d k" and "filter (in_range 0 hi) (zset_of d k) = []"
  shows "evict k hi d = d"
proof (cases "live d k")
  case None
  then show ?thesis by (simp add: evict_def)
next
  case (Some x)
  then obtain zs ttl where x: "live d k = Some (OZset zs, ttl)" "zs \<noteq> []"
    using assms(1) by (cases x) (auto simp: ztyped_def split: robj.splits)
  then have "filter (\<lambda>e. \<not> in_range 0 hi e) zs = zs"
    using assms(2) by (auto simp: zset_of_def filter_empty_conv filter_id_conv)
  moreover have "keyspace d k = Some (OZset zs, ttl)"
    using x by (auto simp: live_def split: option.splits if_splits)
  ultimately show ?thesis
    using x by (auto simp: evict_def put_def Let_def fun_upd_idem)
qed

lemma exec_stored:
  assumes "sum_typed d k"
  shows "exec redis_spec (Call (GET k) (\<lambda>s. with_num s f)) d =
    exec redis_spec (f (of_int (stored_sum d k))) d"
  using assms by (auto simp: sum_typed_def stored_sum_def split: option.splits robj.splits rval.splits)

lemma ztyped_put_other: "k' \<noteq> k \<Longrightarrow> ztyped (put k x t d) k' = ztyped d k'"
  by (simp add: ztyped_def)

lemma zset_of_put_other: "k' \<noteq> k \<Longrightarrow> zset_of (put k x t d) k' = zset_of d k'"
  by (simp add: zset_of_def)

lemma rl_sweep_simps:
  assumes "rl_typed pre a d"
  shows "rl_typed pre a (rl_sweep cfg pre a now d)" "clock (rl_sweep cfg pre a now d) = clock d"
    "zset_of (rl_sweep cfg pre a now d) (rateLimitRpm pre a) =
       fresh_entries (now - ONE_MINUTE_MS) (zset_of d (rateLimitRpm pre a))"
    "zset_of (rl_sweep cfg pre a now d) (rateLimitTpm pre a) =
       fresh_entries (now - ONE_MINUTE_MS) (zset_of d (rateLimitTpm pre a))"
    "zset_of (rl_sweep cfg pre a now d) (rateLimitBurst pre a) =
       (if RATE_LIMIT_BURST_ENABLED cfg
        then fresh_entries (now - RATE_LIMIT_BURST_WINDOW_MS cfg) (zset_of d (rateLimitBurst pre a))
        else zset_of d (rateLimitBurst pre a))"
    "live (rl_sweep cfg pre a now d) (rateLimitTpmSum pre a) = live d (rateLimitTpmSum pre a)"
  using assms
  by (simp_all add: rl_typed_def rl_sweep_def Let_def evict_simps evict_other sum_typed_def)

definition oldest_score :: "db \<Rightarrow> string \<Rightarrow> int option" where
  "oldest_score d k = first_score (RScored (take 1 (zset_of d k)))"

definition rl_reset_sec :: "key_prefix \<Rightarrow> string \<Rightarrow> int \<Rightarrow> db \<Rightarrow> int" where
  "rl_reset_sec pre a now d =
     ceil_div (nullish (oldest_score d (rateLimitRpm pre a)) now + ONE_MINUTE_MS) 1000"

definition rl_retry_sec :: "rl_settings \<Rightarrow> key_prefix \<Rightarrow> string \<Rightarrow> int \<Rightarrow> string \<Rightarrow> db \<Rightarrow> int" where
  "rl_retry_sec cfg pre a now reason d =
     (let (rk, rw) = (if reason = ''tpm'' then (rateLimitTpm pre a, ONE_MINUTE_MS)
                      else if reason = ''burst'' then (rateLimitBurst pre a, RATE_LIMIT_BURST_WINDOW_MS cfg)
                      else (rateLimitRpm pre a, ONE_MINUTE_MS))
      in max 1 (case oldest_score d rk of None \<Rightarrow> 0 | Some sc \<Rightarrow> ceil_div (sc + rw - now) 1000))"

lemma exec_report:
  assumes "rl_typed pre a d"
  shows "exec redis_spec (RATE_LIMIT_report (rateLimitRpm pre a) (rateLimitTpm pre a) (rateLimitBurst pre a)
      now ONE_MINUTE_MS lmt ONE_MINUTE_MS (RATE_LIMIT_BURST_WINDOW_MS cfg) cnt allowed reason) d =
    (Inr (allowed, reason, lmt, max 0 (lmt - cnt), rl_reset_sec pre a now d,
          if allowed = 0 then rl_retry_sec cfg pre a now reason d else 0), d)"
  using assms
  by (simp add: rl_typed_def RATE_LIMIT_report_def RATE_LIMIT_retry_def Let_def exec_first
      rl_reset_sec_def rl_retry_sec_def oldest_score_def max_def add.commute del: exec.simps(3)
      split: option.splits)

lemma rl_record_typed:
  assumes "rl_typed pre a d" "rl_cfg_ok cfg"
  shows "rl_typed pre a (rl_record cfg pre a now m tok tot d)"
  using assms
  by (simp add: rl_typed_def rl_record_def rl_cfg_ok_def Let_def admit_simps admit_other
      ztyped_put_other sum_typed_def)

lemma exec_record:
  assumes "rl_typed pre a d" "rl_cfg_ok cfg"
  shows "exec redis_spec (RATE_LIMIT_record (rateLimitRpm pre a) (rateLimitTpm pre a) (rateLimitBurst pre a)
      (rateLimitTpmSum pre a) now ONE_MINUTE_MS ONE_MINUTE_MS tok m
      (if RATE_LIMIT_BURST_ENABLED cfg then 1 else 0) (RATE_LIMIT_BURST_WINDOW_MS cfg) tot p) d =
    exec redis_spec p (rl_record cfg pre a now m tok tot d)"
proof -
  have set: "exec redis_spec (Call (SET_PX k v 61000) (\<lambda>_. q)) e =
      exec redis_spec q (put k (OStr v) (Some (clock e + 61000)) e)" for k v q e
    by simp
  have w: "ONE_MINUTE_MS + 1000 = 61000" by (simp add: ONE_MINUTE_MS_def)
  show ?thesis
    using assms
    by (simp add: rl_typed_def rl_cfg_ok_def RATE_LIMIT_record_def rl_record_def Let_def w exec_admit set
        when_call_def admit_simps admit_other ztyped_put_other del: exec.simps(3))
qed

lemma fresh_entries_eq: "filter (in_range 0 hi) zs = [] \<Longrightarrow> fresh_entries hi zs = zs"
  by (auto simp: fresh_entries_def filter_empty_conv filter_id_conv)

lemma exec_evict_expired:
  assumes "ztyped d k"
  shows "exec redis_spec (when_call (filter (in_range 0 hi) (zset_of d k) \<noteq> [])
      (ZREMRANGEBYSCORE k 0 hi) (\<lambda>_. p)) d = exec redis_spec p (evict k hi d)"
  using exec_evict [OF assms] evict_nothing [OF assms, of hi]
  by (auto simp: when_call_def simp del: exec.simps(3))

definition rl_outcome ::
  "rl_settings \<Rightarrow> key_prefix \<Rightarrow> string \<Rightarrow> RateLimitConfig \<Rightarrow> int \<Rightarrow> string \<Rightarrow> db
     \<Rightarrow> (int \<times> string \<times> int \<times> int \<times> int \<times> int) \<times> db" where
  "rl_outcome cfg pre a limits now uuid d =
     (let (allowed, reason) = rl_verdict cfg pre a limits now d;
          d1 = rl_sweep cfg pre a now d;
          cnt = int (length (zset_of d1 (rateLimitRpm pre a)));
          d2 = (if allowed = 1
                then rl_record cfg pre a now (rl_member now uuid)
                       (request_tokens (rl_estimatedTokens limits)) (rl_tpm_sum pre a now d) d1
                else d1)
      in ((allowed, reason, rl_rpmLimit limits,
           max 0 (rl_rpmLimit limits - (if allowed = 1 then cnt + 1 else cnt)), rl_reset_sec pre a now d2,
           if allowed = 0 then rl_retry_sec cfg pre a now reason d2 else 0), d2))"

lemma exec_settle:
  assumes ty: "rl_typed pre a (rl_sweep cfg pre a now d)" and ok: "rl_cfg_ok cfg"
  shows "exec redis_spec (RATE_LIMIT_settle (rateLimitRpm pre a) (rateLimitTpm pre a) (rateLimitBurst pre a)
      (rateLimitTpmSum pre a) now ONE_MINUTE_MS (rl_rpmLimit limits) ONE_MINUTE_MS (rl_tpmLimit limits)
      (request_tokens (rl_estimatedTokens limits)) (rl_member now uuid)
      (if RATE_LIMIT_BURST_ENABLED cfg then 1 else 0) (RATE_LIMIT_BURST_WINDOW_MS cfg)
      (js_ceil (of_int (rl_rpmLimit limits) * RATE_LIMIT_BURST_MULTIPLIER cfg))
      (int (length (zset_of (rl_sweep cfg pre a now d) (rateLimitRpm pre a))))
      (rl_tpm_sum pre a now d)) (rl_sweep cfg pre a now d) =
    (Inr (fst (rl_outcome cfg pre a limits now uuid d)), snd (rl_outcome cfg pre a limits now uuid d))"
proof -
  let ?d = "rl_sweep cfg pre a now d"
  have z3: "ztyped ?d (rateLimitBurst pre a)" using ty by (simp add: rl_typed_def)
  obtain allowed reason where v: "rl_verdict cfg pre a limits now d = (allowed, reason)"
    by (cases "rl_verdict cfg pre a limits now d")
  note rec = exec_record [OF ty ok] and rep = exec_report [OF ty, of now _ cfg]
    and rep2 = exec_report [OF rl_record_typed [OF ty ok], of now _ cfg]
  show ?thesis
  proof (cases "RATE_LIMIT_BURST_ENABLED cfg")
    case True
    with v show ?thesis
      unfolding RATE_LIMIT_settle_def Let_def
      by (simp add: when_call_def exec_zcard [OF z3] rl_verdict_def rl_outcome_def Let_def
          rec [simplified True if_True] rep rep2 del: exec.simps(3))
  next
    case False
    with v show ?thesis
      unfolding RATE_LIMIT_settle_def Let_def
      by (simp add: when_call_def int_reply_def rl_verdict_def rl_outcome_def Let_def
          rec [simplified False if_False] rep rep2 del: exec.simps(3))
  qed
qed

lemma exec_rl_script:
  assumes ty: "rl_typed pre a d" and ok: "rl_cfg_ok cfg"
  shows "exec redis_spec (rl_script cfg pre a limits now uuid) d =
    (Inr (fst (rl_outcome cfg pre a limits now uuid d)), snd (rl_outcome cfg pre a limits now uuid d))"
proof -
  let ?d = "rl_sweep cfg pre a now d"
  define d2 where "d2 = (if RATE_LIMIT_BURST_ENABLED cfg
    then evict (rateLimitBurst pre a) (now - RATE_LIMIT_BURST_WINDOW_MS cfg)
           (evict (rateLimitRpm pre a) (now - ONE_MINUTE_MS) d)
    else evict (rateLimitRpm pre a) (now - ONE_MINUTE_MS) d)"
  have ty': "rl_typed pre a ?d" by (rule rl_sweep_simps(1) [OF ty])
  have ty2: "rl_typed pre a d2"
    "zset_of d2 (rateLimitTpm pre a) = zset_of d (rateLimitTpm pre a)"
    "live d2 (rateLimitTpmSum pre a) = live d (rateLimitTpmSum pre a)"
    "zset_of d2 (rateLimitRpm pre a) = zset_of ?d (rateLimitRpm pre a)"
    using ty by (auto simp: d2_def rl_typed_def rl_sweep_def Let_def evict_simps evict_other sum_typed_def)
  have sw: "evict (rateLimitTpm pre a) (now - ONE_MINUTE_MS) d2 = ?d"
    by (simp add: d2_def rl_sweep_def Let_def)
  have first: "exec redis_spec (Call (ZREMRANGEBYSCORE (rateLimitRpm pre a) 0 (now - ONE_MINUTE_MS)) (\<lambda>_.
      when_call ((if RATE_LIMIT_BURST_ENABLED cfg then 1 else 0) = (1 :: int))
        (ZREMRANGEBYSCORE (rateLimitBurst pre a) 0 (now - RATE_LIMIT_BURST_WINDOW_MS cfg)) (\<lambda>_. p))) d =
      exec redis_spec p d2" for p :: "(int \<times> string \<times> int \<times> int \<times> int \<times> int) lua"
    using ty by (simp add: d2_def rl_typed_def exec_evict when_call_def evict_simps evict_other del: exec.simps(3))
  have stored: "stored_sum d2 (rateLimitTpmSum pre a) = stored_sum d (rateLimitTpmSum pre a)"
    using ty2(3) by (simp add: stored_sum_def)
  note tys = ty' [unfolded rl_typed_def] ty2(1) [unfolded rl_typed_def]
  note z2 = exec_evict_expired [of d2 "rateLimitTpm pre a" "now - ONE_MINUTE_MS", unfolded sw ty2(2)]
  show ?thesis
    unfolding rl_script_def RATE_LIMIT_LUA_def Let_def first exec_settle [OF ty' ok, symmetric]
    using tys
    by (simp add: exec_zcard exec_stored exec_zrange ty2 z2 stored rl_tpm_sum_def Let_def comp_def
        rl_sweep_simps(4) [OF ty] rl_member_def del: exec.simps(3) split del: if_split cong: if_cong)
qed

section \<open>What the keys remember\<close>

text \<open>
  \<open>off\<close> bounds the offset between the server clock and the replicas' clocks from below.  A
  window key remembers every entry whose timestamp is less than a minute older than the
  server clock (less the offset): eviction and expiry only ever forget older ones.
\<close>

definition remembers :: "db \<Rightarrow> string \<Rightarrow> int \<Rightarrow> (string \<times> int) list \<Rightarrow> bool" where
  "remembers d k off xs \<longleftrightarrow> ztyped d k \<and>
     (\<forall>e \<in> set xs. snd e \<le> clock d - off \<and> (clock d - off - ONE_MINUTE_MS < snd e \<longrightarrow> e \<in> set (zset_of d k))) \<and>
     (\<forall>x t. live d k = Some (x, Some t) \<longrightarrow> (\<forall>e \<in> set xs. snd e \<le> t - off - ONE_MINUTE_MS))"

definition sum_covers :: "db \<Rightarrow> string \<Rightarrow> string \<Rightarrow> bool" where
  "sum_covers d k2 k4 \<longleftrightarrow> sum_typed d k4 \<and>
     (\<forall>zs ttl. live d k2 = Some (OZset zs, ttl) \<longrightarrow>
        (\<exists>S. live d k4 = Some (OStr (VInt S), ttl) \<and> (\<Sum>e\<leftarrow>zs. member_tokens (fst e)) \<le> S))"

lemma remembers_advance:
  assumes "remembers d k off xs" "0 \<le> dt"
  shows "remembers (advance dt d) k off xs"
proof (cases "live d k")
  case None
  with assms show ?thesis
    by (auto simp: remembers_def ztyped_def zset_of_def live_advance)
next
  case (Some y)
  then obtain zs ttl where y: "live d k = Some (OZset zs, ttl)" "zs \<noteq> []"
    using assms(1) by (cases y) (auto simp: remembers_def ztyped_def split: robj.splits)
  show ?thesis
  proof (cases ttl)
    case None
    with y assms show ?thesis
      by (fastforce simp: remembers_def ztyped_def zset_of_def live_advance)
  next
    case t: (Some t)
    have le: "snd e \<le> t - off - ONE_MINUTE_MS" if "e \<in> set xs" for e
      using assms(1) y t that by (auto simp: remembers_def)
    show ?thesis
      using y t assms le
      by (fastforce simp: remembers_def ztyped_def zset_of_def live_advance ONE_MINUTE_MS_def)
  qed
qed

lemma remembers_evict:
  assumes "remembers d k off xs" "now \<le> clock d - off"
  shows "remembers (evict k (now - ONE_MINUTE_MS) d) k off xs"
proof -
  have ty: "ztyped d k" using assms(1) by (simp add: remembers_def)
  have "e \<in> set (fresh_entries (now - ONE_MINUTE_MS) (zset_of d k))"
    if "e \<in> set xs" "clock d - off - ONE_MINUTE_MS < snd e" for e
    using that assms by (auto simp: remembers_def fresh_entries_def in_range_def)
  moreover have "snd e \<le> t - off - ONE_MINUTE_MS"
    if "live (evict k (now - ONE_MINUTE_MS) d) k = Some (x, Some t)" "e \<in> set xs" for x t e
  proof -
    from that(1) obtain x' where "live d k = Some (x', Some t)"
      using evict_live [OF ty, of "now - ONE_MINUTE_MS" k] by (auto split: if_splits)
    with assms(1) that(2) show ?thesis by (auto simp: remembers_def)
  qed
  ultimately show ?thesis
    using assms(1) evict_simps [OF ty] by (auto simp: remembers_def)
qed

lemma remembers_admit:
  assumes "remembers d k off xs" "now \<le> clock d - off" "m \<notin> fst ` set xs"
  shows "remembers (admit k now m 61000 d) k off ((m, now) # xs)"
proof -
  have ty: "ztyped d k" using assms(1) by (simp add: remembers_def)
  have "e \<in> set (zadd m now (zset_of d k))"
    if "e \<in> set xs" "clock d - off - ONE_MINUTE_MS < snd e" for e
    using that assms by (auto simp: remembers_def)
  moreover have "\<forall>e \<in> set xs. snd e \<le> clock d - off" using assms(1) by (auto simp: remembers_def)
  ultimately show ?thesis
    using assms(2) admit_simps [OF ty, of 61000] admit_live [OF ty, of 61000 now m k]
    by (fastforce simp: remembers_def ONE_MINUTE_MS_def)
qed

lemma remembers_cong:
  assumes "remembers d k off xs" "live d' k = live d k" "clock d' = clock d"
  shows "remembers d' k off xs"
  using assms by (simp add: remembers_def ztyped_def zset_of_def)

lemma member_tokens_nonneg [simp]: "0 \<le> member_tokens m"
  by (simp add: member_tokens_def split: option.splits)

lemma last_field_append: "CHR '':'' \<notin> set s \<Longrightarrow> last_field (m @ CHR '':'' # s) = s"
  by (simp add: last_field_def takeWhile_tail takeWhile_append)

lemma member_tokens_written: "0 \<le> tok \<Longrightarrow> member_tokens (m @ '':'' @ show_int tok) = tok"
  by (simp add: member_tokens_def last_field_append show_int_def)

lemma colon_suffix_inj:
  assumes "m @ CHR '':'' # s = m' @ CHR '':'' # s'" "CHR '':'' \<notin> set s" "CHR '':'' \<notin> set s'"
  shows "m = m' \<and> s = s'"
proof -
  have "s = s'" using assms last_field_append [of s m] last_field_append [of s' m'] by simp
  with assms(1) show ?thesis by simp
qed

lemma sum_covers_advance:
  assumes "sum_covers d k2 k4" "0 \<le> dt"
  shows "sum_covers (advance dt d) k2 k4"
proof -
  have "sum_typed (advance dt d) k4"
    using assms by (auto simp: sum_covers_def sum_typed_def live_advance split: option.splits)
  moreover have "\<exists>S. live (advance dt d) k4 = Some (OStr (VInt S), ttl) \<and> (\<Sum>e\<leftarrow>zs. member_tokens (fst e)) \<le> S"
    if l: "live (advance dt d) k2 = Some (OZset zs, ttl)" for zs ttl
  proof -
    from l assms(2) have "live d k2 = Some (OZset zs, ttl)" "\<forall>t. ttl = Some t \<longrightarrow> clock d + dt \<le> t"
      by (auto simp: live_advance [of dt d k2] split: option.splits if_splits)
    with assms(1) show ?thesis
      by (cases ttl) (auto simp: sum_covers_def live_advance)
  qed
  ultimately show ?thesis by (simp add: sum_covers_def)
qed

lemma sum_list_filter_le:
  assumes "\<And>x. (0 :: int) \<le> f x"
  shows "(\<Sum>x\<leftarrow>filter P xs. f x) \<le> (\<Sum>x\<leftarrow>xs. f x)"
  by (induction xs) (auto simp: add_increasing assms)

lemma fresh_tokens_le:
  "(\<Sum>e\<leftarrow>zs. member_tokens (fst e)) \<le> S \<Longrightarrow> (\<Sum>e\<leftarrow>fresh_entries hi zs. member_tokens (fst e)) \<le> S"
  unfolding fresh_entries_def
  using sum_list_filter_le [of "\<lambda>e. member_tokens (fst e)" "\<lambda>e. \<not> in_range 0 hi e" zs] by simp

lemma sum_covers_evict:
  assumes "sum_covers d k2 k4" "ztyped d k2" "k4 \<noteq> k2"
  shows "sum_covers (evict k2 hi d) k2 k4"
proof -
  have k4: "live (evict k2 hi d) k4 = live d k4" by (rule evict_other(1) [OF assms(2,3)])
  have "\<exists>S. live d k4 = Some (OStr (VInt S), ttl) \<and> (\<Sum>e\<leftarrow>zs. member_tokens (fst e)) \<le> S"
    if l: "live (evict k2 hi d) k2 = Some (OZset zs, ttl)" for zs ttl
  proof -
    from l evict_live [OF assms(2), of hi k2] obtain x where
      x: "live d k2 = Some (x, ttl)" and zs: "zs = fresh_entries hi (zset_of d k2)"
      by (auto split: if_splits)
    with assms(2) have "live d k2 = Some (OZset (zset_of d k2), ttl)"
      by (auto simp: ztyped_def zset_of_def split: robj.splits)
    with assms(1) obtain S where "live d k4 = Some (OStr (VInt S), ttl)"
      "(\<Sum>e\<leftarrow>zset_of d k2. member_tokens (fst e)) \<le> S"
      by (auto simp: sum_covers_def)
    with zs fresh_tokens_le show ?thesis by auto
  qed
  with assms(1) k4 show ?thesis by (simp add: sum_covers_def sum_typed_def)
qed

lemma sum_covers_tpm_sum:
  assumes "sum_covers d (rateLimitTpm pre a) (rateLimitTpmSum pre a)"
  shows "(\<Sum>e\<leftarrow>fresh_entries (now - ONE_MINUTE_MS) (zset_of d (rateLimitTpm pre a)). member_tokens (fst e))
    \<le> rl_tpm_sum pre a now d"
proof (cases "zset_of d (rateLimitTpm pre a) = []")
  case True
  then show ?thesis by (simp add: rl_tpm_sum_def fresh_entries_def Let_def)
next
  case False
  then obtain ttl where "live d (rateLimitTpm pre a) = Some (OZset (zset_of d (rateLimitTpm pre a)), ttl)"
    by (auto simp: zset_of_def split: option.splits robj.splits)
  with assms have "(\<Sum>e\<leftarrow>zset_of d (rateLimitTpm pre a). member_tokens (fst e))
      \<le> stored_sum d (rateLimitTpmSum pre a)"
    by (fastforce simp: sum_covers_def stored_sum_def)
  then show ?thesis
    using sum_list_filter_split [of "\<lambda>e. member_tokens (fst e)" "zset_of d (rateLimitTpm pre a)"
        "in_range 0 (now - ONE_MINUTE_MS)"]
      sum_list_nonneg_int [of "fresh_entries (now - ONE_MINUTE_MS) (zset_of d (rateLimitTpm pre a))"
        "\<lambda>e. member_tokens (fst e)"]
    by (auto simp: rl_tpm_sum_def fresh_entries_def Let_def)
qed

lemma zinsert_sum: "(\<Sum>e\<leftarrow>zinsert x zs. (f e :: int)) = f x + (\<Sum>e\<leftarrow>zs. f e)"
  by (induction zs) auto

text \<open>An admitted request: its timestamp, its member and its tokens.\<close>

type_synonym admission = "int \<times> string \<times> int"

definition rpm_entries :: "admission list \<Rightarrow> (string \<times> int) list" where
  "rpm_entries H = map (\<lambda>(n, m, t). (m, n)) H"

definition tpm_entries :: "admission list \<Rightarrow> (string \<times> int) list" where
  "tpm_entries H = map (\<lambda>(n, m, t). (m @ '':'' @ show_int t, n)) H"

definition rl_inv :: "key_prefix \<Rightarrow> string \<Rightarrow> int \<Rightarrow> admission list \<Rightarrow> db \<Rightarrow> bool" where
  "rl_inv pre a off H d \<longleftrightarrow>
     remembers d (rateLimitRpm pre a) off (rpm_entries H) \<and>
     remembers d (rateLimitTpm pre a) off (tpm_entries H) \<and>
     ztyped d (rateLimitBurst pre a) \<and> sum_covers d (rateLimitTpm pre a) (rateLimitTpmSum pre a) \<and>
     (\<forall>x \<in> set H. 0 \<le> snd (snd x))"

lemma rl_inv_typed: "rl_inv pre a off H d \<Longrightarrow> rl_typed pre a d"
  by (simp add: rl_inv_def rl_typed_def remembers_def sum_covers_def)

lemma ztyped_advance: "ztyped d k \<Longrightarrow> 0 \<le> dt \<Longrightarrow> ztyped (advance dt d) k"
  by (auto simp: ztyped_def live_advance split: option.splits robj.splits)

lemma rl_inv_advance: "rl_inv pre a off H d \<Longrightarrow> 0 \<le> dt \<Longrightarrow> rl_inv pre a off H (advance dt d)"
  by (simp add: rl_inv_def remembers_advance sum_covers_advance ztyped_advance)

definition rl_keys :: "key_prefix \<Rightarrow> string \<Rightarrow> string set" where
  "rl_keys pre a = {rateLimitRpm pre a, rateLimitTpm pre a, rateLimitBurst pre a, rateLimitTpmSum pre a}"

lemma rl_inv_cong:
  assumes "rl_inv pre a off H d" "\<And>k. k \<in> rl_keys pre a \<Longrightarrow> live d' k = live d k" "clock d' = clock d"
  shows "rl_inv pre a off H d'"
proof -
  have l: "live d' (rateLimitRpm pre a) = live d (rateLimitRpm pre a)"
    "live d' (rateLimitTpm pre a) = live d (rateLimitTpm pre a)"
    "live d' (rateLimitBurst pre a) = live d (rateLimitBurst pre a)"
    "live d' (rateLimitTpmSum pre a) = live d (rateLimitTpmSum pre a)"
    using assms(2) by (auto simp: rl_keys_def)
  then show ?thesis
    using assms(1,3) by (simp add: rl_inv_def remembers_def ztyped_def zset_of_def sum_covers_def sum_typed_def)
qed

lemma rl_sweep_frame:
  assumes "rl_typed pre a d" "k \<notin> rl_keys pre a"
  shows "live (rl_sweep cfg pre a now d) k = live d k"
  using assms by (simp add: rl_typed_def rl_keys_def rl_sweep_def Let_def evict_simps evict_other)

lemma rl_record_frame:
  assumes "rl_typed pre a d" "rl_cfg_ok cfg" "k \<notin> rl_keys pre a"
  shows "live (rl_record cfg pre a now m tok tot d) k = live d k"
  using assms
  by (simp add: rl_typed_def rl_keys_def rl_cfg_ok_def rl_record_def Let_def admit_simps admit_other
      ztyped_put_other)

lemma rl_record_clock:
  assumes "rl_typed pre a d" "rl_cfg_ok cfg"
  shows "clock (rl_record cfg pre a now m tok tot d) = clock d"
  using assms
  by (simp add: rl_typed_def rl_cfg_ok_def rl_record_def Let_def admit_simps admit_other ztyped_put_other)

lemma rl_keys_disjoint: "a \<noteq> b \<Longrightarrow> k \<in> rl_keys pre a \<Longrightarrow> k \<notin> rl_keys pre b"
  by (auto simp: rl_keys_def)

lemma rl_inv_sweep:
  assumes inv: "rl_inv pre a off H d" and now: "now \<le> clock d - off"
  shows "rl_inv pre a off H (rl_sweep cfg pre a now d)"
proof -
  let ?d1 = "evict (rateLimitRpm pre a) (now - ONE_MINUTE_MS) d"
  define d2 where "d2 = (if RATE_LIMIT_BURST_ENABLED cfg
    then evict (rateLimitBurst pre a) (now - RATE_LIMIT_BURST_WINDOW_MS cfg) ?d1 else ?d1)"
  have ty: "ztyped d (rateLimitRpm pre a)" "ztyped d (rateLimitTpm pre a)" "ztyped d (rateLimitBurst pre a)"
    using inv by (auto simp: rl_inv_def remembers_def)
  have r1: "remembers ?d1 (rateLimitRpm pre a) off (rpm_entries H)"
    using remembers_evict inv now by (simp add: rl_inv_def)
  have d2: "clock d2 = clock d" "live d2 (rateLimitRpm pre a) = live ?d1 (rateLimitRpm pre a)"
    "live d2 (rateLimitTpm pre a) = live d (rateLimitTpm pre a)"
    "live d2 (rateLimitTpmSum pre a) = live d (rateLimitTpmSum pre a)" "ztyped d2 (rateLimitBurst pre a)"
    using ty by (simp_all add: d2_def evict_simps evict_other)
  have z2: "ztyped d2 (rateLimitTpm pre a)" using d2(3) ty(2) by (simp add: ztyped_def)
  have s2: "sum_covers d2 (rateLimitTpm pre a) (rateLimitTpmSum pre a)"
    using inv d2 by (simp add: rl_inv_def sum_covers_def sum_typed_def)
  have m2: "remembers d2 (rateLimitTpm pre a) off (tpm_entries H)"
    using inv d2 by (auto simp: rl_inv_def intro: remembers_cong)
  have m1: "remembers d2 (rateLimitRpm pre a) off (rpm_entries H)"
    using r1 d2 ty by (auto simp: evict_simps intro: remembers_cong)
  have sw: "rl_sweep cfg pre a now d = evict (rateLimitTpm pre a) (now - ONE_MINUTE_MS) d2"
    by (simp add: rl_sweep_def d2_def Let_def)
  have "remembers (rl_sweep cfg pre a now d) (rateLimitRpm pre a) off (rpm_entries H)"
    using m1 evict_other(1) [OF z2, of "rateLimitRpm pre a"] evict_simps(3) [OF z2] sw
    by (auto intro: remembers_cong)
  moreover have "remembers (rl_sweep cfg pre a now d) (rateLimitTpm pre a) off (tpm_entries H)"
    unfolding sw using m2 now d2(1) by (simp add: remembers_evict)
  ultimately show ?thesis
    using inv sum_covers_evict [OF s2 z2] evict_other(3) [OF z2, of "rateLimitBurst pre a"] d2(5)
    by (auto simp: rl_inv_def sw)
qed

lemma colon_notin_show_int: "CHR '':'' \<notin> set (show_int i)"
  by (simp add: show_int_def)

lemma tpm_entry_fresh:
  assumes "m \<notin> fst ` set (rpm_entries H)"
  shows "m @ '':'' @ show_int tok \<notin> fst ` set (tpm_entries H)"
proof
  assume "m @ '':'' @ show_int tok \<in> fst ` set (tpm_entries H)"
  then obtain n m' t where H: "(n, m', t) \<in> set H" and "m @ CHR '':'' # show_int tok = m' @ CHR '':'' # show_int t"
    by (auto simp: tpm_entries_def)
  then have "m = m'" using colon_suffix_inj colon_notin_show_int by blast
  with H assms show False by (force simp: rpm_entries_def)
qed

lemma rl_inv_record:
  assumes inv: "rl_inv pre a off H d" and now: "now \<le> clock d - off" and ok: "rl_cfg_ok cfg"
    and m: "m \<notin> fst ` set (rpm_entries H)" and tok: "0 \<le> tok"
    and tot: "(\<Sum>e\<leftarrow>zset_of d (rateLimitTpm pre a). member_tokens (fst e)) \<le> tot"
  shows "rl_inv pre a off ((now, m, tok) # H) (rl_record cfg pre a now m tok tot d)"
proof -
  let ?K1 = "rateLimitRpm pre a" and ?K2 = "rateLimitTpm pre a" and ?K3 = "rateLimitBurst pre a"
    and ?K4 = "rateLimitTpmSum pre a"
  let ?m2 = "m @ '':'' @ show_int tok"
  let ?d1 = "admit ?K1 now m 61000 d" and ?d' = "rl_record cfg pre a now m tok tot d"
  let ?d2 = "admit ?K2 now ?m2 61000 ?d1"
  have ty: "ztyped d ?K1" "ztyped d ?K2" "ztyped d ?K3"
    using inv by (auto simp: rl_inv_def remembers_def)
  have ty1: "ztyped ?d1 ?K2" "ztyped ?d1 ?K3" "clock ?d1 = clock d" "live ?d1 ?K2 = live d ?K2"
    using ty by (simp_all add: admit_simps admit_other)
  have d': "live ?d' ?K1 = live ?d1 ?K1" "live ?d' ?K2 = live ?d2 ?K2" "clock ?d' = clock d"
    "live ?d' ?K4 = Some (OStr (VInt (tot + tok)), Some (clock d + 61000))" "ztyped ?d' ?K3"
    using ty ok by (simp_all add: rl_record_def rl_cfg_ok_def Let_def admit_simps admit_other ztyped_put_other)
  have r1: "remembers ?d1 ?K1 off ((m, now) # rpm_entries H)"
    using inv now m by (auto simp: rl_inv_def intro!: remembers_admit)
  have "remembers ?d1 ?K2 off (tpm_entries H)"
    using inv ty1 by (auto simp: rl_inv_def intro: remembers_cong)
  then have r2: "remembers ?d2 ?K2 off ((?m2, now) # tpm_entries H)"
    using now ty1 tpm_entry_fresh [OF m] by (intro remembers_admit) auto
  have "live ?d2 ?K2 = Some (OZset (zadd ?m2 now (zset_of d ?K2)), Some (clock d + 61000))"
    using admit_live [OF ty1(1), of 61000 now ?m2 ?K2] ty1 by (simp add: zset_of_def)
  moreover have "(\<Sum>e\<leftarrow>zadd ?m2 now (zset_of d ?K2). member_tokens (fst e)) \<le> tot + tok"
    using tot sum_list_filter_le [of "\<lambda>e. member_tokens (fst e)" "\<lambda>e. fst e \<noteq> ?m2" "zset_of d ?K2"]
      member_tokens_written [OF tok, of m]
    by (simp add: zadd_def zinsert_sum)
  ultimately have "sum_covers ?d' ?K2 ?K4"
    using d' by (simp add: sum_covers_def sum_typed_def)
  moreover have "remembers ?d' ?K1 off (rpm_entries ((now, m, tok) # H))"
    using remembers_cong [OF r1 d'(1)] d' ty1 by (simp add: rpm_entries_def)
  moreover have "remembers ?d' ?K2 off (tpm_entries ((now, m, tok) # H))"
    using remembers_cong [OF r2 d'(2)] d' admit_simps(3) [OF ty1(1), of 61000] ty1
    by (simp add: tpm_entries_def)
  ultimately show ?thesis
    using inv tok d' by (simp add: rl_inv_def)
qed

section \<open>Bounds at the moment of admission\<close>

definition in_window :: "int \<Rightarrow> int \<Rightarrow> admission \<Rightarrow> bool" where
  "in_window t w x = (t < fst x \<and> fst x \<le> t + w)"

definition window_count :: "int \<Rightarrow> int \<Rightarrow> admission list \<Rightarrow> int" where
  "window_count t w H = int (length (filter (in_window t w) H))"

definition window_tokens :: "int \<Rightarrow> int \<Rightarrow> admission list \<Rightarrow> int" where
  "window_tokens t w H = (\<Sum>x\<leftarrow>filter (in_window t w) H. snd (snd x))"

lemma sum_set_le_sum_list:
  assumes "A \<subseteq> set xs" "\<And>x. 0 \<le> (f x :: int)"
  shows "sum f A \<le> (\<Sum>x\<leftarrow>xs. f x)"
  using assms(1)
proof (induction xs arbitrary: A)
  case (Cons x xs)
  have "finite A" using Cons.prems by (rule finite_subset) simp
  then have "sum f A \<le> f x + sum f (A - {x})"
    using assms(2) [of x] by (cases "x \<in> A") (auto simp: sum.remove)
  moreover have "sum f (A - {x}) \<le> (\<Sum>x\<leftarrow>xs. f x)"
    using Cons.prems by (intro Cons.IH) auto
  ultimately show ?case by simp
qed simp

lemma card_le_length: "A \<subseteq> set xs \<Longrightarrow> card A \<le> length xs"
  by (rule order_trans [OF card_mono [of "set xs"] card_length]) auto

lemma in_window_remembered:
  assumes inv: "rl_inv pre a off H d" and skew: "clock d - off - \<delta> \<le> now" and now: "now \<le> clock d - off"
    and win: "in_window t (ONE_MINUTE_MS - \<delta>) (now, m, tok)"
    and x: "(n, m', tok') \<in> set H" "in_window t (ONE_MINUTE_MS - \<delta>) (n, m', tok')"
  shows "(m', n) \<in> set (fresh_entries (now - ONE_MINUTE_MS) (zset_of d (rateLimitRpm pre a)))"
    and "(m' @ '':'' @ show_int tok', n)
      \<in> set (fresh_entries (now - ONE_MINUTE_MS) (zset_of d (rateLimitTpm pre a)))"
proof -
  have n: "clock d - off - ONE_MINUTE_MS < n" "now - ONE_MINUTE_MS < n"
    using win x(2) skew now by (auto simp: in_window_def)
  have "(m', n) \<in> set (rpm_entries H)" "(m' @ '':'' @ show_int tok', n) \<in> set (tpm_entries H)"
    using x(1) by (force simp: rpm_entries_def tpm_entries_def)+
  with inv n show "(m', n) \<in> set (fresh_entries (now - ONE_MINUTE_MS) (zset_of d (rateLimitRpm pre a)))"
    "(m' @ '':'' @ show_int tok', n) \<in> set (fresh_entries (now - ONE_MINUTE_MS) (zset_of d (rateLimitTpm pre a)))"
    by (auto simp: rl_inv_def remembers_def fresh_entries_def in_range_def)
qed

definition adm_member :: "admission \<Rightarrow> string" where
  "adm_member x = fst (snd x)"

lemma window_count_le:
  assumes inv: "rl_inv pre a off H d" and skew: "clock d - off - \<delta> \<le> now" and now: "now \<le> clock d - off"
    and win: "in_window t (ONE_MINUTE_MS - \<delta>) (now, m, tok)" and dist: "distinct (map adm_member H)"
  shows "window_count t (ONE_MINUTE_MS - \<delta>) H
    \<le> int (length (fresh_entries (now - ONE_MINUTE_MS) (zset_of d (rateLimitRpm pre a))))"
proof -
  let ?F = "filter (in_window t (ONE_MINUTE_MS - \<delta>)) H"
  let ?f = "\<lambda>x :: admission. (adm_member x, fst x)"
  have "distinct (map adm_member ?F)"
    using dist by (simp add: distinct_map inj_on_def)
  then have "distinct (map ?f ?F)" by (auto simp: distinct_map inj_on_def)
  then have "length ?F = card (?f ` set ?F)" using distinct_card [of "map ?f ?F"] by simp
  also have "\<dots> \<le> length (fresh_entries (now - ONE_MINUTE_MS) (zset_of d (rateLimitRpm pre a)))"
    using in_window_remembered(1) [OF inv skew now win] by (intro card_le_length) (auto simp: adm_member_def)
  finally show ?thesis by (simp add: window_count_def)
qed

lemma window_tokens_le:
  assumes inv: "rl_inv pre a off H d" and skew: "clock d - off - \<delta> \<le> now" and now: "now \<le> clock d - off"
    and win: "in_window t (ONE_MINUTE_MS - \<delta>) (now, m, tok)" and dist: "distinct (map adm_member H)"
  shows "window_tokens t (ONE_MINUTE_MS - \<delta>) H \<le> rl_tpm_sum pre a now d"
proof -
  let ?F = "filter (in_window t (ONE_MINUTE_MS - \<delta>)) H"
  let ?f = "\<lambda>x :: admission. (adm_member x @ '':'' @ show_int (snd (snd x)), fst x)"
  have tok: "member_tokens (fst (?f x)) = snd (snd x)" if "x \<in> set H" for x
    using inv that member_tokens_written [of "snd (snd x)"] by (simp add: rl_inv_def)
  have inj: "inj_on ?f (set ?F)"
  proof (rule inj_onI)
    fix x y
    assume xy: "x \<in> set ?F" "y \<in> set ?F" and "?f x = ?f y"
    then have "adm_member x = adm_member y"
      by (auto dest: colon_suffix_inj [OF _ colon_notin_show_int colon_notin_show_int])
    with xy dist show "x = y" by (auto simp: distinct_map dest: inj_onD)
  qed
  have "distinct ?F" using dist by (simp add: distinct_map)
  then have "(\<Sum>x\<leftarrow>?F. snd (snd x)) = (\<Sum>x\<in>set ?F. snd (snd x))"
    by (simp add: sum_list_distinct_conv_sum_set)
  also have "\<dots> = (\<Sum>x\<in>set ?F. member_tokens (fst (?f x)))"
    using tok by (intro sum.cong) auto
  also have "\<dots> = (\<Sum>e\<in>?f ` set ?F. member_tokens (fst e))"
    using sum.reindex [OF inj, of "\<lambda>e. member_tokens (fst e)"] by (simp add: comp_def)
  also have "\<dots> \<le> (\<Sum>e\<leftarrow>fresh_entries (now - ONE_MINUTE_MS) (zset_of d (rateLimitTpm pre a)). member_tokens (fst e))"
    using in_window_remembered(2) [OF inv skew now win]
    by (intro sum_set_le_sum_list) (auto simp: adm_member_def)
  also have "\<dots> \<le> rl_tpm_sum pre a now d"
    using inv by (intro sum_covers_tpm_sum) (simp add: rl_inv_def)
  finally show ?thesis by (simp add: window_tokens_def)
qed

section \<open>Histories of checks\<close>

record rl_request =
  q_key :: string
  q_limits :: RateLimitConfig
  q_now :: int
  q_uuid :: string

fun rl_steps ::
  "'s redis_env \<Rightarrow> rl_settings \<Rightarrow> key_prefix \<Rightarrow> rl_request list \<Rightarrow> 's
     \<Rightarrow> (rl_request \<times> (redis_error, RateLimitResult) result \<times> 's) list" where
  "rl_steps E cfg pre [] s = []"
| "rl_steps E cfg pre (q # qs) s =
     (case rl_check E cfg pre (q_key q) (q_limits q) (q_now q) (q_uuid q) s of
        (r, s') \<Rightarrow> (q, r, s') # rl_steps E cfg pre qs s')"

definition was_admitted :: "(redis_error, RateLimitResult) result \<Rightarrow> bool" where
  "was_admitted r = (case r of Inl _ \<Rightarrow> False | Inr x \<Rightarrow> rr_allowed x)"

definition q_admission :: "rl_request \<Rightarrow> admission" where
  "q_admission q = (q_now q, rl_member (q_now q) (q_uuid q), request_tokens (rl_estimatedTokens (q_limits q)))"

fun admissions ::
  "string \<Rightarrow> (rl_request \<times> (redis_error, RateLimitResult) result \<times> 's) list \<Rightarrow> admission list" where
  "admissions a [] = []"
| "admissions a ((q, r, s) # xs) =
     (if q_key q = a \<and> was_admitted r then [q_admission q] else []) @ admissions a xs"

text \<open>
  Every check is made while the difference between the server clock and the caller's clock
  lies between \<open>off\<close> and \<open>off + \<delta>\<close>.
\<close>

definition skew_within ::
  "('s \<Rightarrow> db) \<Rightarrow> int \<Rightarrow> int \<Rightarrow> (rl_request \<times> (redis_error, RateLimitResult) result \<times> 's) list \<Rightarrow> bool" where
  "skew_within view off \<delta> xs =
     list_all (\<lambda>(q, r, s'). off \<le> clock (view s') - q_now q \<and> clock (view s') - q_now q \<le> off + \<delta>) xs"

lemma request_tokens_nonneg [simp]: "0 \<le> request_tokens x"
  by (simp add: request_tokens_def)

lemma rl_inv_outcome:
  assumes inv: "\<And>b. rl_inv pre b off (H b) d" and now: "now \<le> clock d - off" and ok: "rl_cfg_ok cfg"
    and out: "rl_outcome cfg pre a limits now uuid d = (raw, d')"
    and m: "rl_member now uuid \<notin> fst ` set (rpm_entries (H a))"
  shows "rl_inv pre b off (if b = a \<and> fst raw = 1
      then (now, rl_member now uuid, request_tokens (rl_estimatedTokens limits)) # H b else H b) d'"
    and "clock d' = clock d" and "(fst raw, fst (snd raw)) = rl_verdict cfg pre a limits now d"
proof -
  let ?d1 = "rl_sweep cfg pre a now d"
  obtain al re where v: "rl_verdict cfg pre a limits now d = (al, re)" by fastforce
  with out have raw: "fst raw = al" "fst (snd raw) = re" and d': "d' = (if al = 1
      then rl_record cfg pre a now (rl_member now uuid) (request_tokens (rl_estimatedTokens limits))
             (rl_tpm_sum pre a now d) ?d1
      else ?d1)"
    by (auto simp: rl_outcome_def Let_def)
  have ty: "rl_typed pre a d" using inv rl_inv_typed by blast
  have ty1: "rl_typed pre a ?d1" and c1: "clock ?d1 = clock d" using rl_sweep_simps [OF ty] by auto
  have i1: "rl_inv pre a off (H a) ?d1" by (rule rl_inv_sweep [OF inv now])
  have "(\<Sum>e\<leftarrow>zset_of ?d1 (rateLimitTpm pre a). member_tokens (fst e)) \<le> rl_tpm_sum pre a now d"
    using sum_covers_tpm_sum [of d pre a now] inv [of a] rl_sweep_simps(4) [OF ty, of cfg now]
    by (simp add: rl_inv_def)
  then have i2: "rl_inv pre a off ((now, rl_member now uuid, request_tokens (rl_estimatedTokens limits)) # H a)
      (rl_record cfg pre a now (rl_member now uuid) (request_tokens (rl_estimatedTokens limits))
        (rl_tpm_sum pre a now d) ?d1)"
    using i1 now c1 ok m by (intro rl_inv_record) auto
  show c: "clock d' = clock d" using d' c1 rl_record_clock [OF ty1 ok] by simp
  have fr: "live d' k = live d k" if "k \<in> rl_keys pre b" "b \<noteq> a" for k b
    using rl_keys_disjoint [OF that(2,1)] d' rl_sweep_frame [OF ty] rl_record_frame [OF ty1 ok] by simp
  show "rl_inv pre b off (if b = a \<and> fst raw = 1
      then (now, rl_member now uuid, request_tokens (rl_estimatedTokens limits)) # H b else H b) d'"
  proof (cases "b = a")
    case True
    then show ?thesis using i1 i2 d' raw by simp
  next
    case False
    then show ?thesis using rl_inv_cong [OF inv [of b]] fr c by simp
  qed
  show "(fst raw, fst (snd raw)) = rl_verdict cfg pre a limits now d" using v raw by simp
qed

lemma verdict_admits:
  assumes "rl_verdict cfg pre a limits now d = (1, reason)" and "rl_typed pre a d"
  shows "int (length (fresh_entries (now - ONE_MINUTE_MS) (zset_of d (rateLimitRpm pre a)))) < rl_rpmLimit limits"
    and "rl_tpm_sum pre a now d + request_tokens (rl_estimatedTokens limits) \<le> rl_tpmLimit limits"
  using assms by (auto simp: rl_verdict_def RATE_LIMIT_decide_def rl_sweep_simps split: if_splits)

lemma parseResult_allowed [simp]: "rr_allowed (parseResult raw) \<longleftrightarrow> fst raw = 1"
  by (cases raw) (auto simp: parseResult_def)

context redis_service
begin

lemma rl_check_view:
  assumes chk: "rl_check E cfg pre a limits now uuid s = (r, s')" and on: "RATE_LIMIT_ENABLED cfg"
    and ok: "rl_cfg_ok cfg" and inv: "\<And>b. rl_inv pre b off (H b) (view s)"
    and now: "now \<le> clock (view s') - off" and m: "rl_member now uuid \<notin> fst ` set (rpm_entries (H a))"
  shows "\<exists>d. clock d = clock (view s') \<and> (\<forall>b. rl_inv pre b off (H b) d) \<and>
    ((\<not> was_admitted r \<and> (\<forall>b. rl_inv pre b off (H b) (view s'))) \<or>
     (was_admitted r \<and> fst (rl_verdict cfg pre a limits now d) = 1 \<and>
      (\<forall>b. rl_inv pre b off (if b = a
         then (now, rl_member now uuid, request_tokens (rl_estimatedTokens limits)) # H b else H b) (view s'))))"
proof -
  obtain r0 where rt: "RedisScript_run E ''rate-limit'' (rl_script cfg pre a limits now uuid) s = (r0, s')"
    and r: "r = (case r0 of Inl e \<Rightarrow> Inl e | Inr raw \<Rightarrow> Inr (parseResult raw))"
    using chk on by (auto simp: rl_check_def split: prod.splits sum.splits)
  from RedisScript_run_atomic [OF rt] obtain dt where dt: "0 \<le> dt" and
    cases: "(r0 = Inl Unreachable \<and> view s' = advance dt (view s)) \<or>
     (\<exists>x. exec redis_spec (rl_script cfg pre a limits now uuid) (advance dt (view s)) = (x, view s') \<and>
          r0 = (case x of Inl e \<Rightarrow> Inl (ScriptError e) | Inr a \<Rightarrow> Inr a))"
    by (rule atomic_runE)
  let ?d = "advance dt (view s)"
  have inv': "rl_inv pre b off (H b) ?d" for b by (rule rl_inv_advance [OF inv dt])
  from cases show ?thesis
  proof
    assume "r0 = Inl Unreachable \<and> view s' = ?d"
    with inv' r show ?thesis by (intro exI [of _ ?d]) (auto simp: was_admitted_def)
  next
    assume "\<exists>x. exec redis_spec (rl_script cfg pre a limits now uuid) ?d = (x, view s') \<and>
          r0 = (case x of Inl e \<Rightarrow> Inl (ScriptError e) | Inr a \<Rightarrow> Inr a)"
    then obtain raw where out: "rl_outcome cfg pre a limits now uuid ?d = (raw, view s')" and "r0 = Inr raw"
      using exec_rl_script [OF rl_inv_typed [OF inv'] ok]
      by (cases "rl_outcome cfg pre a limits now uuid ?d") auto
    with r have adm: "was_admitted r \<longleftrightarrow> fst raw = 1" by (simp add: was_admitted_def)
    have "clock (view s') = clock ?d"
    proof -
      have "clock (snd (rl_outcome cfg pre a limits now uuid ?d)) = clock ?d"
        using rl_sweep_simps [OF rl_inv_typed [OF inv' [of a]]]
          rl_record_clock [OF rl_sweep_simps(1) [OF rl_inv_typed [OF inv' [of a]]] ok]
        by (simp add: rl_outcome_def Let_def split: prod.splits)
      with out show ?thesis by simp
    qed
    with now have now': "now \<le> clock ?d - off" by simp
    note step = rl_inv_outcome [OF inv' now' ok out m]
    from step(3) have "fst (rl_verdict cfg pre a limits now ?d) = fst raw"
      by (metis fst_conv)
    with step(1,2) adm inv' show ?thesis
      by (intro exI [of _ ?d]) (cases "fst raw = 1"; auto)
  qed
qed

lemma rl_steps_bounds:
  assumes on: "RATE_LIMIT_ENABLED cfg" and ok: "rl_cfg_ok cfg"
    and inv: "\<And>b. rl_inv pre b off (H b) (view s)"
    and skew: "skew_within view off \<delta> (rl_steps E cfg pre qs s)"
    and dist: "distinct (map (adm_member \<circ> q_admission) qs)"
    and fresh: "\<And>b q. q \<in> set qs \<Longrightarrow> adm_member (q_admission q) \<notin> adm_member ` set (H b)"
    and distH: "\<And>b. distinct (map adm_member (H b))"
    and lims: "\<And>q. q \<in> set qs \<Longrightarrow> q_key q = a \<Longrightarrow> rl_rpmLimit (q_limits q) \<le> L \<and> rl_tpmLimit (q_limits q) \<le> T"
    and cnt: "window_count t (ONE_MINUTE_MS - \<delta>) (H a) \<le> L" "window_tokens t (ONE_MINUTE_MS - \<delta>) (H a) \<le> T"
  shows "window_count t (ONE_MINUTE_MS - \<delta>) (admissions a (rl_steps E cfg pre qs s) @ H a) \<le> L \<and>
    window_tokens t (ONE_MINUTE_MS - \<delta>) (admissions a (rl_steps E cfg pre qs s) @ H a) \<le> T"
  using inv skew dist fresh distH lims cnt
proof (induction qs arbitrary: s H)
  case Nil
  then show ?case by simp
next
  case (Cons q qs)
  obtain r s' where chk: "rl_check E cfg pre (q_key q) (q_limits q) (q_now q) (q_uuid q) s = (r, s')"
    by fastforce
  let ?adm = "q_admission q" and ?w = "ONE_MINUTE_MS - \<delta>"
  have sk: "q_now q \<le> clock (view s') - off" "clock (view s') - off - \<delta> \<le> q_now q"
    and sk': "skew_within view off \<delta> (rl_steps E cfg pre qs s')"
    using Cons.prems(2) chk by (auto simp: skew_within_def)
  have mem: "rl_member (q_now q) (q_uuid q) \<notin> fst ` set (rpm_entries (H (q_key q)))"
    using Cons.prems(4) [of q "q_key q"] by (force simp: adm_member_def q_admission_def rpm_entries_def)
  from rl_check_view [OF chk on ok Cons.prems(1) sk(1) mem, folded q_admission_def] obtain d where
    d: "clock d = clock (view s')" and invd: "\<forall>b. rl_inv pre b off (H b) d"
    and out: "(\<not> was_admitted r \<and> (\<forall>b. rl_inv pre b off (H b) (view s'))) \<or>
     (was_admitted r \<and> fst (rl_verdict cfg pre (q_key q) (q_limits q) (q_now q) d) = 1 \<and>
      (\<forall>b. rl_inv pre b off (if b = q_key q then ?adm # H b else H b) (view s')))"
    by blast
  show ?case
  proof (cases "was_admitted r")
    case False
    with out have "\<forall>b. rl_inv pre b off (H b) (view s')" by blast
    with Cons.prems sk' show ?thesis
      using Cons.IH [of H s'] chk False by auto
  next
    case True
    let ?H = "\<lambda>b. if b = q_key q then ?adm # H b else H b"
    from True out have inv': "\<And>b. rl_inv pre b off (?H b) (view s')"
      and v: "fst (rl_verdict cfg pre (q_key q) (q_limits q) (q_now q) d) = 1" by auto
    have c: "window_count t ?w (?H a) \<le> L \<and> window_tokens t ?w (?H a) \<le> T"
    proof (cases "a = q_key q \<and> in_window t ?w ?adm")
      case True
      from v obtain reason where "rl_verdict cfg pre a (q_limits q) (q_now q) d = (1, reason)"
        using True by (metis prod.collapse)
      note adm = verdict_admits [OF this rl_inv_typed [OF invd [rule_format]]]
      have w: "in_window t ?w (q_now q, rl_member (q_now q) (q_uuid q), 0)"
        using True by (simp add: q_admission_def in_window_def)
      note b = invd [rule_format, of a] sk(2) [folded d] sk(1) [folded d] w Cons.prems(5) [of a]
      show ?thesis
        using window_count_le [OF b] window_tokens_le [OF b] adm True Cons.prems(6) [of q]
        by (auto simp: window_count_def window_tokens_def q_admission_def)
    next
      case False
      with Cons.prems(7,8) show ?thesis by (auto simp: window_count_def window_tokens_def)
    qed
    have "window_count t ?w (admissions a (rl_steps E cfg pre qs s') @ ?H a) \<le> L \<and>
        window_tokens t ?w (admissions a (rl_steps E cfg pre qs s') @ ?H a) \<le> T"
    proof (rule Cons.IH [OF inv' sk'])
      show "adm_member (q_admission q') \<notin> adm_member ` set (?H b)" if "q' \<in> set qs" for b q'
        using that Cons.prems(3) Cons.prems(4) [of q' b] by (auto simp: image_iff)
      show "distinct (map adm_member (?H b))" for b
        using Cons.prems(4) [of q b] Cons.prems(5) [of b] by auto
    qed (use Cons.prems c in auto)
    with chk True show ?thesis
      by (cases "a = q_key q"; cases "in_window t ?w ?adm")
         (auto simp: window_count_def window_tokens_def)
  qed
qed

end

section \<open>The limits hold\<close>

definition default_rl :: rl_settings where
  "default_rl = \<lparr>RATE_LIMIT_ENABLED = True, RATE_LIMIT_BURST_ENABLED = True,
     RATE_LIMIT_BURST_MULTIPLIER = 2, RATE_LIMIT_BURST_WINDOW_MS = 10000\<rparr>"

lemma default_rl_ok: "rl_cfg_ok default_rl" "RATE_LIMIT_ENABLED default_rl"
  by (simp_all add: rl_cfg_ok_def default_rl_def)

definition rl_fresh :: "key_prefix \<Rightarrow> db \<Rightarrow> bool" where
  "rl_fresh pre d \<longleftrightarrow> (\<forall>a. \<forall>k \<in> rl_keys pre a. live d k = None)"

lemma rl_inv_fresh: "rl_fresh pre d \<Longrightarrow> rl_inv pre a off [] d"
  by (simp add: rl_fresh_def rl_keys_def rl_inv_def remembers_def rpm_entries_def tpm_entries_def
      ztyped_def sum_covers_def sum_typed_def)

definition mk_req :: "int \<Rightarrow> int \<Rightarrow> rat \<Rightarrow> int \<Rightarrow> string \<Rightarrow> rl_request" where
  "mk_req rpm tpm tok now uuid =
     \<lparr>q_key = ''k'', q_limits = \<lparr>rl_rpmLimit = rpm, rl_tpmLimit = tpm, rl_estimatedTokens = tok\<rparr>,
      q_now = now, q_uuid = uuid\<rparr>"

lemma fresh_ref_init: "rl_fresh pre (rs_db (ref_init t))"
  by (simp add: rl_fresh_def ref_init_def)

text \<open>
  C16. The sliding window holds continuously.  For every history of checks by the whole fleet
  (any API keys, any delays, any Redis outages and script reloads), made with clocks that
  agree with the server's up to \<open>\<delta>\<close> milliseconds, every interval of one minute less
  \<open>\<delta>\<close> contains at most \<open>L\<close> admitted requests of a key whose \<open>rpmLimit\<close> never exceeds \<open>L\<close>;
  with exact clocks, every interval of one minute.
\<close>

theorem rl_rpm_bound:
  assumes "redis_service E view" and "RATE_LIMIT_ENABLED cfg" and "rl_cfg_ok cfg" and "rl_fresh pre (view s)"
    and "skew_within view off \<delta> (rl_steps E cfg pre qs s)"
    and "distinct (map (adm_member \<circ> q_admission) qs)"
    and "\<And>q. q \<in> set qs \<Longrightarrow> q_key q = a \<Longrightarrow> rl_rpmLimit (q_limits q) \<le> L" and "0 \<le> L"
  shows "window_count t (ONE_MINUTE_MS - \<delta>) (admissions a (rl_steps E cfg pre qs s)) \<le> L"
proof -
  let ?T = "Max (insert 0 ((\<lambda>q. rl_tpmLimit (q_limits q)) ` set qs))"
  have "rl_tpmLimit (q_limits q) \<le> ?T" if "q \<in> set qs" for q using that by (intro Max_ge) auto
  moreover have "0 \<le> ?T" by (intro Max_ge) auto
  ultimately show ?thesis
    using redis_service.rl_steps_bounds [OF assms(1,2,3), of pre off "\<lambda>_. []" s \<delta> qs a L ?T t]
      assms(4-8) by (auto simp: rl_inv_fresh window_count_def window_tokens_def)
qed

definition rl_demo :: "rl_request list" where
  "rl_demo = [mk_req 1 100 5 1000 ''a'', mk_req 1 100 5 1001 ''b'']"

definition rl_demo_server :: ref_server where
  "rl_demo_server = (ref_init 0)\<lparr>rs_schedule := [(0, True, True), (1000, True, True), (1, True, True)]\<rparr>"

lemma rl_demo_server_db [simp]: "rs_db rl_demo_server = empty_db 0"
  by (simp add: rl_demo_server_def ref_init_def)

lemma rl_demo_skew: "skew_within rs_db 0 0 (rl_steps ref_env default_rl ''gw:'' rl_demo rl_demo_server)"
  by code_simp

lemma rl_demo_distinct: "distinct (map (adm_member \<circ> q_admission) rl_demo)"
  by code_simp

lemma rl_demo_limits:
  "q \<in> set rl_demo \<Longrightarrow> rl_rpmLimit (q_limits q) = 1 \<and> rl_tpmLimit (q_limits q) = 100"
  by (auto simp: rl_demo_def mk_req_def)

theorem rl_rpm_bound_witness:
  "window_count 1000 60000 (admissions ''k'' (rl_steps ref_env default_rl ''gw:'' rl_demo rl_demo_server)) \<le> 1"
  using rl_rpm_bound [OF ref_redis_service default_rl_ok(2,1) _ rl_demo_skew rl_demo_distinct, of "''k''" 1 1000]
    rl_demo_limits
  by (auto simp: ONE_MINUTE_MS_def rl_fresh_def)

text \<open>
  C17. The token limit holds continuously as well: in every such interval the requests
  admitted for a key carry at most \<open>T\<close> estimated tokens in total, although the script keeps
  only a running sum and never adds up the window.
\<close>

theorem rl_tpm_bound:
  assumes "redis_service E view" and "RATE_LIMIT_ENABLED cfg" and "rl_cfg_ok cfg" and "rl_fresh pre (view s)"
    and "skew_within view off \<delta> (rl_steps E cfg pre qs s)"
    and "distinct (map (adm_member \<circ> q_admission) qs)"
    and "\<And>q. q \<in> set qs \<Longrightarrow> q_key q = a \<Longrightarrow> rl_tpmLimit (q_limits q) \<le> T" and "0 \<le> T"
  shows "window_tokens t (ONE_MINUTE_MS - \<delta>) (admissions a (rl_steps E cfg pre qs s)) \<le> T"
proof -
  let ?L = "Max (insert 0 ((\<lambda>q. rl_rpmLimit (q_limits q)) ` set qs))"
  have "rl_rpmLimit (q_limits q) \<le> ?L" if "q \<in> set qs" for q using that by (intro Max_ge) auto
  moreover have "0 \<le> ?L" by (intro Max_ge) auto
  ultimately show ?thesis
    using redis_service.rl_steps_bounds [OF assms(1,2,3), of pre off "\<lambda>_. []" s \<delta> qs a ?L T t]
      assms(4-8) by (auto simp: rl_inv_fresh window_count_def window_tokens_def)
qed

theorem rl_tpm_bound_witness:
  "window_tokens 1000 60000 (admissions ''k'' (rl_steps ref_env default_rl ''gw:'' rl_demo rl_demo_server)) \<le> 100"
  using rl_tpm_bound [OF ref_redis_service default_rl_ok(2,1) _ rl_demo_skew rl_demo_distinct, of "''k''" 100 1000]
    rl_demo_limits
  by (auto simp: ONE_MINUTE_MS_def rl_fresh_def)

section \<open>The running sum after a rejection\<close>

text \<open>
  A rejected check evicts the expired members of the token window but leaves their tokens in
  the running sum, because the sum is written back on admission only.  The key \<open>k\<close> has a limit
  of 100 tokens per minute and has been granted 60 tokens at 1 ms and 30 at 30 s.
\<close>

definition rl_leak_db :: db where
  "rl_leak_db =
     put (rateLimitRpm '''' ''k'') (OZset [(''1:a'', 1), (''30000:b'', 30000)]) (Some 91000)
    (put (rateLimitTpm '''' ''k'') (OZset [(''1:a:60'', 1), (''30000:b:30'', 30000)]) (Some 91000)
    (put (rateLimitTpmSum '''' ''k'') (OStr (VInt 90)) (Some 91000)
    (put (rateLimitBurst '''' ''k'') (OZset [(''1:a'', 1), (''30000:b'', 30000)]) (Some 41000)
      (empty_db 30000))))"

definition tokens_of :: "rat \<Rightarrow> RateLimitConfig" where
  "tokens_of n = \<lparr>rl_rpmLimit = 10, rl_tpmLimit = 100, rl_estimatedTokens = n\<rparr>"

lemma leak_tokens:
  "member_tokens ''1:a:60'' = 60" "member_tokens ''30000:b:30'' = 30"
  by code_simp+

lemma rl_leak_history: "rl_inv '''' ''k'' 0 [(30000, ''30000:b'', 30), (1, ''1:a'', 60)] rl_leak_db"
proof -
  have "show_int 30 = ''30''" "show_int 60 = ''60''" by code_simp+
  then show ?thesis
    by (simp add: rl_inv_def remembers_def rpm_entries_def tpm_entries_def rl_leak_db_def zset_of_def
        ztyped_def sum_covers_def sum_typed_def ONE_MINUTE_MS_def leak_tokens)
qed

lemmas leak_eval =
  rl_leak_db_def rl_verdict_def RATE_LIMIT_decide_def rl_tpm_sum_def tokens_of_def zset_of_def
  ztyped_def stored_sum_def fresh_entries_def in_range_def ONE_MINUTE_MS_def default_rl_def
  request_tokens_def js_ceil_def Let_def leak_tokens rl_outcome_def rl_sweep_def evict_def live_advance

text \<open>
  A request for 80 tokens at 60.002 s is rightly refused: 30 tokens are in the window.  A
  request for 50 tokens one millisecond later fits (80 of 100), and would have been admitted
  had the refused request not come first; after it, it is refused.
\<close>

lemma rl_sum_leaks_on_rejection:
  "let d = advance 30002 rl_leak_db;
       (r1, d1) = rl_outcome default_rl '''' ''k'' (tokens_of 80) 60002 ''c'' d;
       (r2, d2) = rl_outcome default_rl '''' ''k'' (tokens_of 50) 60003 ''d'' (advance 1 d1);
       (r3, d3) = rl_outcome default_rl '''' ''k'' (tokens_of 50) 60003 ''d'' (advance 1 d)
   in fst (snd r1) = ''tpm'' \<and> fst (snd r2) = ''tpm'' \<and> fst r3 = 1 \<and>
      window_tokens (60003 - 60000) 60000 [(30000, ''30000:b'', 30), (1, ''1:a'', 60)] = 30"
  by (simp add: leak_eval window_tokens_def in_window_def)

section \<open>The burst dimension\<close>

text \<open>
  The burst window never decides: whatever the burst key holds is in the request window as
  well, with a deadline no later, so a full burst window means a full request window.
\<close>

definition burst_within :: "key_prefix \<Rightarrow> string \<Rightarrow> db \<Rightarrow> bool" where
  "burst_within pre a d \<longleftrightarrow> rl_typed pre a d \<and>
     (\<forall>zs t. live d (rateLimitBurst pre a) = Some (OZset zs, t) \<longrightarrow> distinct zs \<and>
        (\<exists>zs' t0 t'. live d (rateLimitRpm pre a) = Some (OZset zs', Some t') \<and> set zs \<subseteq> set zs' \<and> t = Some t0 \<and> t0 \<le> t'))"

lemma burst_within_count:
  assumes "burst_within pre a d"
  shows "length (zset_of d (rateLimitBurst pre a)) \<le> length (zset_of d (rateLimitRpm pre a))"
proof (cases "live d (rateLimitBurst pre a)")
  case None
  then show ?thesis by (simp add: zset_of_def)
next
  case (Some x)
  then obtain zs t where "live d (rateLimitBurst pre a) = Some (OZset zs, t)"
    using assms by (cases x) (auto simp: burst_within_def rl_typed_def ztyped_def split: robj.splits)
  with assms show ?thesis
    by (auto simp: burst_within_def zset_of_def distinct_card [symmetric]
        intro: order_trans [OF card_mono card_length])
qed

lemma burst_within_advance:
  assumes "burst_within pre a d" "0 \<le> dt"
  shows "burst_within pre a (advance dt d)"
proof -
  have "rl_typed pre a (advance dt d)"
    using assms by (auto simp: burst_within_def rl_typed_def ztyped_advance sum_typed_def live_advance
        split: option.splits)
  moreover have "distinct zs \<and> (\<exists>zs' t0 t'. live (advance dt d) (rateLimitRpm pre a) = Some (OZset zs', Some t') \<and>
      set zs \<subseteq> set zs' \<and> t = Some t0 \<and> t0 \<le> t')"
    if l: "live (advance dt d) (rateLimitBurst pre a) = Some (OZset zs, t)" for zs t
  proof -
    from l assms(2) have "live d (rateLimitBurst pre a) = Some (OZset zs, t)" "\<forall>u. t = Some u \<longrightarrow> clock d + dt \<le> u"
      by (auto simp: live_advance [of dt d "rateLimitBurst pre a"] split: option.splits if_splits)
    with assms show ?thesis
      by (fastforce simp: burst_within_def live_advance)
  qed
  ultimately show ?thesis by (simp add: burst_within_def)
qed

lemma burst_within_sweep:
  assumes bw: "burst_within pre a d" and on: "RATE_LIMIT_BURST_ENABLED cfg"
    and short: "RATE_LIMIT_BURST_WINDOW_MS cfg \<le> ONE_MINUTE_MS"
  shows "burst_within pre a (rl_sweep cfg pre a now d)"
proof -
  let ?K1 = "rateLimitRpm pre a" and ?K3 = "rateLimitBurst pre a" and ?d = "rl_sweep cfg pre a now d"
  let ?h1 = "now - ONE_MINUTE_MS" and ?h3 = "now - RATE_LIMIT_BURST_WINDOW_MS cfg"
  have ty: "rl_typed pre a d" using bw by (simp add: burst_within_def)
  then have zt: "ztyped d ?K1" "ztyped d ?K3" "ztyped d (rateLimitTpm pre a)" by (auto simp: rl_typed_def)
  have l1: "live ?d ?K1 = live (evict ?K1 ?h1 d) ?K1" and l3: "live ?d ?K3 = live (evict ?K3 ?h3 d) ?K3"
    using zt on by (simp_all add: rl_sweep_def Let_def evict_simps evict_other evict_live)
  have "distinct zs \<and> (\<exists>zs' t0 t'. live ?d ?K1 = Some (OZset zs', Some t') \<and> set zs \<subseteq> set zs' \<and> t = Some t0 \<and> t0 \<le> t')"
    if l: "live ?d ?K3 = Some (OZset zs, t)" for zs t
  proof -
    from l l3 evict_live [OF zt(2), of ?h3 ?K3] obtain y where y: "live d ?K3 = Some (y, t)"
      and zs: "zs = fresh_entries ?h3 (zset_of d ?K3)" "zs \<noteq> []"
      by (auto split: if_splits)
    with zt(2) have "live d ?K3 = Some (OZset (zset_of d ?K3), t)"
      by (auto simp: ztyped_def zset_of_def split: robj.splits)
    with bw obtain zs' t0 t' where b: "distinct (zset_of d ?K3)" "live d ?K1 = Some (OZset zs', Some t')"
      "set (zset_of d ?K3) \<subseteq> set zs'" "t = Some t0" "t0 \<le> t'"
      by (auto simp: burst_within_def)
    have sub: "set zs \<subseteq> set (fresh_entries ?h1 zs')"
      using zs(1) b(3) short by (auto simp: fresh_entries_def in_range_def)
    with zs(2) have "fresh_entries ?h1 zs' \<noteq> []" by auto
    with l1 evict_live [OF zt(1), of ?h1 ?K1] b(2)
    have "live ?d ?K1 = Some (OZset (fresh_entries ?h1 zs'), Some t')" by (simp add: zset_of_def)
    with b sub zs(1) show ?thesis by (simp add: fresh_entries_def)
  qed
  with rl_sweep_simps(1) [OF ty] show ?thesis by (simp add: burst_within_def)
qed

lemma zinsert_distinct: "distinct (zinsert e zs) \<longleftrightarrow> e \<notin> set zs \<and> distinct zs"
  by (induction zs) auto

lemma zadd_distinct: "distinct zs \<Longrightarrow> distinct (zadd m sc zs)"
  by (auto simp: zadd_def zinsert_distinct)

lemma burst_within_record:
  assumes bw: "burst_within pre a d" and on: "RATE_LIMIT_BURST_ENABLED cfg" and ok: "rl_cfg_ok cfg"
    and short: "RATE_LIMIT_BURST_WINDOW_MS cfg \<le> ONE_MINUTE_MS"
  shows "burst_within pre a (rl_record cfg pre a now m tok tot d)"
proof -
  let ?K1 = "rateLimitRpm pre a" and ?K3 = "rateLimitBurst pre a" and ?d = "rl_record cfg pre a now m tok tot d"
  have ty: "rl_typed pre a d" using bw by (simp add: burst_within_def)
  then have zt: "ztyped d ?K1" "ztyped d ?K3" "ztyped d (rateLimitTpm pre a)" by (auto simp: rl_typed_def)
  have l: "live ?d ?K1 = Some (OZset (zadd m now (zset_of d ?K1)), Some (clock d + 61000))"
    "live ?d ?K3 = Some (OZset (zadd m now (zset_of d ?K3)), Some (clock d + RATE_LIMIT_BURST_WINDOW_MS cfg + 1000))"
    using zt on ok
    by (simp_all add: rl_record_def rl_cfg_ok_def Let_def admit_simps admit_other admit_live ztyped_put_other
        zset_of_put_other add.assoc)
  have "distinct (zset_of d ?K3) \<and> set (zset_of d ?K3) \<subseteq> set (zset_of d ?K1)"
  proof (cases "live d ?K3")
    case None
    then show ?thesis by (simp add: zset_of_def)
  next
    case (Some x)
    with zt(2) obtain t where "live d ?K3 = Some (OZset (zset_of d ?K3), t)"
      by (cases x) (auto simp: ztyped_def zset_of_def split: robj.splits)
    with bw obtain zs' t' where "distinct (zset_of d ?K3)" "live d ?K1 = Some (OZset zs', t')"
      "set (zset_of d ?K3) \<subseteq> set zs'" unfolding burst_within_def by blast
    then show ?thesis by (simp add: zset_of_def)
  qed
  with l short rl_record_typed [OF ty ok] show ?thesis
    by (auto simp: burst_within_def zadd_distinct ONE_MINUTE_MS_def)
qed

lemma burst_never_full:
  assumes "burst_within pre a d" "RATE_LIMIT_BURST_ENABLED cfg" "rl_cfg_ok cfg"
    "RATE_LIMIT_BURST_WINDOW_MS cfg \<le> ONE_MINUTE_MS" "0 \<le> rl_rpmLimit limits"
  shows "snd (rl_verdict cfg pre a limits now d) \<noteq> ''burst''"
proof -
  let ?d = "rl_sweep cfg pre a now d"
  have "length (zset_of ?d (rateLimitBurst pre a)) \<le> length (zset_of ?d (rateLimitRpm pre a))"
    by (rule burst_within_count [OF burst_within_sweep [OF assms(1,2,4)]])
  moreover have "rl_rpmLimit limits \<le> js_ceil (of_int (rl_rpmLimit limits) * RATE_LIMIT_BURST_MULTIPLIER cfg)"
  proof -
    have "of_int (rl_rpmLimit limits) * 1 \<le> of_int (rl_rpmLimit limits) * RATE_LIMIT_BURST_MULTIPLIER cfg"
      using assms(3,5) by (intro mult_left_mono) (auto simp: rl_cfg_ok_def)
    then show ?thesis unfolding js_ceil_def by (metis le_of_int_ceiling mult.right_neutral of_int_le_iff order_trans)
  qed
  ultimately show ?thesis
    by (auto simp: rl_verdict_def RATE_LIMIT_decide_def)
qed

context redis_service
begin

lemma rl_steps_no_burst:
  assumes on: "RATE_LIMIT_BURST_ENABLED cfg" and ok: "rl_cfg_ok cfg"
    and short: "RATE_LIMIT_BURST_WINDOW_MS cfg \<le> ONE_MINUTE_MS"
    and lims: "\<And>q. q \<in> set qs \<Longrightarrow> q_key q = a \<and> 0 \<le> rl_rpmLimit (q_limits q)"
    and bw: "burst_within pre a (view s)"
  shows "\<forall>(q, r, s') \<in> set (rl_steps E cfg pre qs s). \<forall>x. r = Inr x \<longrightarrow> rr_reason x \<noteq> Some RlBurst"
  using lims bw
proof (induction qs arbitrary: s)
  case (Cons q qs)
  obtain r s' where chk: "rl_check E cfg pre a (q_limits q) (q_now q) (q_uuid q) s = (r, s')"
    by fastforce
  have key: "q_key q = a" "0 \<le> rl_rpmLimit (q_limits q)" using Cons.prems(1) [of q] by auto
  have "burst_within pre a (view s') \<and> (\<forall>x. r = Inr x \<longrightarrow> rr_reason x \<noteq> Some RlBurst)"
  proof (cases "RATE_LIMIT_ENABLED cfg")
    case False
    with chk Cons.prems(2) show ?thesis by (auto simp: rl_check_def)
  next
    case True
    then obtain r0 where
      rt: "RedisScript_run E ''rate-limit'' (rl_script cfg pre a (q_limits q) (q_now q) (q_uuid q)) s = (r0, s')"
      and r: "r = (case r0 of Inl e \<Rightarrow> Inl e | Inr raw \<Rightarrow> Inr (parseResult raw))"
      using chk by (auto simp: rl_check_def split: prod.splits sum.splits)
    from RedisScript_run_atomic [OF rt] show ?thesis
    proof (rule atomic_runE)
      fix dt
      let ?d = "advance dt (view s)" and ?v = "rl_verdict cfg pre a (q_limits q) (q_now q) (advance dt (view s))"
      assume dt: "0 \<le> dt" and out: "(r0 = Inl Unreachable \<and> view s' = ?d) \<or>
       (\<exists>x. exec redis_spec (rl_script cfg pre a (q_limits q) (q_now q) (q_uuid q)) ?d = (x, view s') \<and>
            r0 = (case x of Inl e \<Rightarrow> Inl (ScriptError e) | Inr a \<Rightarrow> Inr a))"
      have b: "burst_within pre a ?d" by (rule burst_within_advance [OF Cons.prems(2) dt])
      then have ty: "rl_typed pre a ?d" by (simp add: burst_within_def)
      note sw = burst_within_sweep [OF b on short]
      from out show ?thesis
      proof
        assume "\<exists>x. exec redis_spec (rl_script cfg pre a (q_limits q) (q_now q) (q_uuid q)) ?d = (x, view s') \<and>
            r0 = (case x of Inl e \<Rightarrow> Inl (ScriptError e) | Inr a \<Rightarrow> Inr a)"
        then have r0: "r0 = Inr (fst (rl_outcome cfg pre a (q_limits q) (q_now q) (q_uuid q) ?d))"
          and v: "view s' = snd (rl_outcome cfg pre a (q_limits q) (q_now q) (q_uuid q) ?d)"
          by (auto simp: exec_rl_script [OF ty ok])
        have "burst_within pre a (view s')"
          using v sw burst_within_record [OF sw on ok short]
          by (auto simp: rl_outcome_def Let_def split: prod.splits)
        moreover have "snd ?v \<noteq> ''burst''" by (rule burst_never_full [OF b on ok short key(2)])
        ultimately show ?thesis
          using r r0 by (auto simp: rl_outcome_def Let_def parseResult_def split: prod.splits)
      qed (use b r in auto)
    qed
  qed
  with Cons.IH [of s'] Cons.prems(1) chk key show ?case by auto
qed simp

end

text \<open>
  The burst dimension is inert: with a burst window of at most a minute and a multiplier
  of at least one (the configuration schema allows no smaller one, and the defaults are 10 s and
  2), no check of any history is ever refused for the reason \<open>burst\<close>, so enabling it changes no
  decision.
\<close>

theorem rl_burst_inert:
  assumes "redis_service E view" and "RATE_LIMIT_BURST_ENABLED cfg" and "rl_cfg_ok cfg"
    and "RATE_LIMIT_BURST_WINDOW_MS cfg \<le> ONE_MINUTE_MS" and "rl_fresh pre (view s)"
    and "\<And>q. q \<in> set qs \<Longrightarrow> q_key q = a \<and> 0 \<le> rl_rpmLimit (q_limits q)"
    and "(q, Inr x, s') \<in> set (rl_steps E cfg pre qs s)"
  shows "rr_reason x \<noteq> Some RlBurst"
proof -
  have "burst_within pre a (view s)"
    using rl_inv_typed [OF rl_inv_fresh [OF assms(5), of a]] assms(5)
    by (simp add: burst_within_def rl_fresh_def rl_keys_def)
  from redis_service.rl_steps_no_burst [OF assms(1-4,6) this] assms(7) show ?thesis by fastforce
qed

theorem rl_burst_inert_witness:
  "case rl_check ref_env default_rl ''gw:'' ''k'' (q_limits (hd rl_demo)) 1000 ''a'' rl_demo_server of
     (Inr x, _) \<Rightarrow> rr_reason x \<noteq> Some RlBurst | _ \<Rightarrow> True"
proof -
  let ?qs = "[hd rl_demo]"
  obtain r s' where chk: "rl_check ref_env default_rl ''gw:'' ''k'' (q_limits (hd rl_demo)) 1000 ''a'' rl_demo_server = (r, s')"
    by fastforce
  have "rr_reason x \<noteq> Some RlBurst" if "r = Inr x" for x
    by (rule rl_burst_inert [OF ref_redis_service, of default_rl "''gw:''" rl_demo_server ?qs "''k''" "hd rl_demo" x s'])
       (use chk that in \<open>simp_all add: default_rl_def rl_cfg_ok_def ONE_MINUTE_MS_def rl_fresh_def rl_demo_def mk_req_def\<close>)
  with chk show ?thesis by (simp split: sum.splits)
qed

end
