(* ===== verification/Json.thy ===== *)
theory Json
  imports Prelude "HOL-Library.AList"
begin

text \<open>
  JSON as the gateway uses it: the values, the property order of JavaScript objects,
  \<open>JSON.stringify\<close> and \<open>JSON.parse\<close> of the language's standard library, and the canonical
  serialisation of \<open>src/cache/index.ts\<close>.  A number is a decimal \<open>m / 10 ^ k\<close> in lowest terms,
  in the range that JavaScript prints without an exponent; a string is over the code units
  below 256, as everywhere in the development.
\<close>

section \<open>Values\<close>

datatype json =
    JNull | JBool bool | JNum int nat | JStr string | JArr "json list" | JObj "(string \<times> json) list"

text \<open>
  Own properties are enumerated with the array indices first, in ascending order, then the
  other names in the order of their insertion; assigning to an existing name keeps its place.
\<close>

definition array_index :: "string \<Rightarrow> nat option" where
  "array_index k = (case read_nat k of
     Some n \<Rightarrow> if show_nat n = k \<and> n < 2 ^ 32 - 1 then Some n else None | None \<Rightarrow> None)"

definition precedes :: "string \<Rightarrow> string \<Rightarrow> bool" where
  "precedes k k' = (case (array_index k, array_index k') of
     (Some i, Some j) \<Rightarrow> i < j | (Some i, None) \<Rightarrow> True | (None, _) \<Rightarrow> False)"

fun obj_insert :: "string \<Rightarrow> 'a \<Rightarrow> (string \<times> 'a) list \<Rightarrow> (string \<times> 'a) list" where
  "obj_insert k v [] = [(k, v)]"
| "obj_insert k v ((k', v') # ps) =
     (if precedes k k' then (k, v) # (k', v') # ps else (k', v') # obj_insert k v ps)"

definition obj_set :: "string \<Rightarrow> 'a \<Rightarrow> (string \<times> 'a) list \<Rightarrow> (string \<times> 'a) list" where
  "obj_set k v ps = (if map_of ps k = None then obj_insert k v ps else AList.update k v ps)"

lemma map_of_obj_insert: "map_of ps k = None \<Longrightarrow> map_of (obj_insert k v ps) = (map_of ps)(k \<mapsto> v)"
  by (induction ps) (auto simp: fun_upd_twist split: if_splits)

lemma map_of_obj_set [simp]: "map_of (obj_set k v ps) = (map_of ps)(k \<mapsto> v)"
  by (simp add: obj_set_def map_of_obj_insert update_conv')

lemma set_obj_insert: "set (obj_insert k v ps) = insert (k, v) (set ps)"
  by (induction ps) (auto split: if_splits)

lemma distinct_obj_insert:
  "distinct (map fst ps) \<Longrightarrow> k \<notin> fst ` set ps \<Longrightarrow> distinct (map fst (obj_insert k v ps))"
proof (induction ps)
  case (Cons p ps)
  obtain k' v' where p: "p = (k', v')" by (cases p)
  with Cons have "distinct (map fst (obj_insert k v ps))" "k \<noteq> k'" "k \<notin> fst ` set ps" "k' \<notin> fst ` set ps"
    by auto
  then show ?case using p Cons.prems(1) by (auto simp: set_obj_insert)
qed simp

lemma distinct_obj_set:
  "distinct (map fst ps) \<Longrightarrow> distinct (map fst (obj_set k v ps))"
  by (simp add: obj_set_def distinct_obj_insert map_of_eq_None_iff distinct_update)

section \<open>Stringify\<close>

definition hex_digit :: "nat \<Rightarrow> char" where
  "hex_digit d = (if d < 10 then char_of (48 + d) else char_of (87 + d))"

definition hex_value :: "char \<Rightarrow> nat option" where
  "hex_value c = (let n = (of_char c :: nat) in
     if 48 \<le> n \<and> n \<le> 57 then Some (n - 48)
     else if 97 \<le> n \<and> n \<le> 102 then Some (n - 87)
     else if 65 \<le> n \<and> n \<le> 70 then Some (n - 55) else None)"

definition quote_char :: char where "quote_char = CHR 0x22"
definition backslash :: char where "backslash = CHR 0x5C"

definition escape_char :: "char \<Rightarrow> string" where
  "escape_char c = (let n = (of_char c :: nat) in
     if c = quote_char \<or> c = backslash then [backslash, c]
     else if n = 8 then [backslash, CHR ''b''] else if n = 9 then [backslash, CHR ''t'']
     else if n = 10 then [backslash, CHR ''n''] else if n = 12 then [backslash, CHR ''f'']
     else if n = 13 then [backslash, CHR ''r'']
     else if n < 32 then [backslash, CHR ''u'', CHR ''0'', CHR ''0'', hex_digit (n div 16), hex_digit (n mod 16)]
     else [c])"

definition quote :: "string \<Rightarrow> string" where
  "quote s = quote_char # concat (map escape_char s) @ [quote_char]"

definition pad_zeros :: "nat \<Rightarrow> string \<Rightarrow> string" where
  "pad_zeros n s = replicate (n - length s) (CHR ''0'') @ s"

definition show_decimal :: "int \<Rightarrow> nat \<Rightarrow> string" where
  "show_decimal m k =
     (let a = nat \<bar>m\<bar>;
          body = (if k = 0 then show_nat a
                  else show_nat (a div 10 ^ k) @ ''.'' @ pad_zeros k (show_nat (a mod 10 ^ k)))
      in if m < 0 then CHR ''-'' # body else body)"

fun stringify :: "json \<Rightarrow> string" where
  "stringify JNull = ''null''"
| "stringify (JBool b) = (if b then ''true'' else ''false'')"
| "stringify (JNum m k) = show_decimal m k"
| "stringify (JStr s) = quote s"
| "stringify (JArr xs) = ''['' @ join '','' (map stringify xs) @ '']''"
| "stringify (JObj ps) = ''{'' @ join '','' (map (\<lambda>(k, v). quote k @ '':'' @ stringify v) ps) @ ''}''"

section \<open>Parse\<close>

definition is_json_ws :: "char \<Rightarrow> bool" where
  "is_json_ws c = (let n = (of_char c :: nat) in n = 32 \<or> n = 9 \<or> n = 10 \<or> n = 13)"

definition skip_ws :: "string \<Rightarrow> string" where
  "skip_ws s = dropWhile is_json_ws s"

definition simple_escape :: "char \<Rightarrow> char option" where
  "simple_escape c =
     (if c = quote_char \<or> c = backslash \<or> c = CHR ''/'' then Some c
      else if c = CHR ''b'' then Some (char_of (8 :: nat)) else if c = CHR ''t'' then Some (char_of (9 :: nat))
      else if c = CHR ''n'' then Some (char_of (10 :: nat)) else if c = CHR ''f'' then Some (char_of (12 :: nat))
      else if c = CHR ''r'' then Some (char_of (13 :: nat)) else None)"

definition hex4 :: "string \<Rightarrow> nat option" where
  "hex4 s = (case map hex_value s of
     [Some a, Some b, Some c, Some d] \<Rightarrow> Some (((a * 16 + b) * 16 + c) * 16 + d) | _ \<Rightarrow> None)"

text \<open>The text after a backslash: the escaped code unit and the rest.\<close>

definition unescape :: "string \<Rightarrow> (char \<times> string) option" where
  "unescape s = (case s of
     [] \<Rightarrow> None
   | c # t \<Rightarrow>
       if c = CHR ''u'' then
         (case hex4 (take 4 t) of
            Some n \<Rightarrow> if n < 256 then Some (char_of n, drop 4 t) else None
          | None \<Rightarrow> None)
       else (case simple_escape c of Some x \<Rightarrow> Some (x, t) | None \<Rightarrow> None))"

lemma unescape_shorter: "unescape s = Some (c, t) \<Longrightarrow> length t < length s"
  by (auto simp: unescape_def split: list.splits if_splits option.splits)

text \<open>The text after an opening quote: the string and the rest.\<close>

function parse_chars :: "string \<Rightarrow> (string \<times> string) option" where
  "parse_chars [] = None"
| "parse_chars (c # s) =
     (if c = quote_char then Some ([], s)
      else if c = backslash then
        (case unescape s of
           None \<Rightarrow> None
         | Some (x, t) \<Rightarrow> (case parse_chars t of None \<Rightarrow> None | Some (w, r) \<Rightarrow> Some (x # w, r)))
      else if (of_char c :: nat) < 32 then None
      else (case parse_chars s of None \<Rightarrow> None | Some (w, r) \<Rightarrow> Some (c # w, r)))"
  by pat_completeness auto
termination
  by (relation "measure length") (auto dest: unescape_shorter)

definition is_digit :: "char \<Rightarrow> bool" where
  "is_digit c = (char_digit c \<noteq> None)"

fun norm_num :: "int \<Rightarrow> nat \<Rightarrow> json" where
  "norm_num m 0 = JNum m 0"
| "norm_num m (Suc k) = (if m mod 10 = 0 then norm_num (m div 10) k else JNum m (Suc k))"

definition scale_num :: "int \<Rightarrow> nat \<Rightarrow> int \<Rightarrow> json" where
  "scale_num m k e =
     (if int k \<le> e then JNum (m * 10 ^ nat (e - int k)) 0 else norm_num m (nat (int k - e)))"

text \<open>An exponent, if one follows: its value and the rest.\<close>

definition parse_exponent :: "string \<Rightarrow> (int \<times> string) option" where
  "parse_exponent s = (case s of
     c # t \<Rightarrow>
       if c = CHR ''e'' \<or> c = CHR ''E'' then
         (let neg = (t \<noteq> [] \<and> hd t = CHR ''-'');
              u = (if t \<noteq> [] \<and> (hd t = CHR ''-'' \<or> hd t = CHR ''+'') then tl t else t)
          in (case read_nat (takeWhile is_digit u) of
                None \<Rightarrow> None
              | Some n \<Rightarrow> Some (if neg then - int n else int n, dropWhile is_digit u)))
       else Some (0, s)
   | [] \<Rightarrow> Some (0, s))"

definition parse_unsigned :: "bool \<Rightarrow> string \<Rightarrow> (json \<times> string) option" where
  "parse_unsigned neg s =
     (let w = takeWhile is_digit s; t = dropWhile is_digit s;
          frac = (if t \<noteq> [] \<and> hd t = CHR ''.'' then Some (takeWhile is_digit (tl t)) else None);
          u = (if frac = None then t else dropWhile is_digit (tl t));
          f = nullish frac []
      in if w = [] \<or> (length w > 1 \<and> hd w = CHR ''0'') \<or> frac = Some [] then None
         else (case (read_nat (w @ f), parse_exponent u) of
                 (Some n, Some (e, r)) \<Rightarrow> Some (scale_num (if neg then - int n else int n) (length f) e, r)
               | _ \<Rightarrow> None))"

definition parse_number :: "string \<Rightarrow> (json \<times> string) option" where
  "parse_number s = (if s \<noteq> [] \<and> hd s = CHR ''-'' then parse_unsigned True (tl s) else parse_unsigned False s)"

text \<open>
  Values, the rest of an array and the rest of an object; each call but the first consumes a
  character before it, so the length of the text is fuel enough.
\<close>

fun parse_value :: "nat \<Rightarrow> string \<Rightarrow> (json \<times> string) option"
  and parse_items :: "nat \<Rightarrow> json list \<Rightarrow> string \<Rightarrow> (json \<times> string) option"
  and parse_members :: "nat \<Rightarrow> (string \<times> json) list \<Rightarrow> string \<Rightarrow> (json \<times> string) option" where
  "parse_value 0 s = None"
| "parse_value (Suc n) s =
     (case skip_ws s of
        [] \<Rightarrow> None
      | c # t \<Rightarrow>
          if c = CHR ''{'' then
            (case skip_ws t of
               [] \<Rightarrow> None
             | d # u \<Rightarrow> if d = CHR ''}'' then Some (JObj [], u) else parse_members n [] t)
          else if c = CHR ''['' then
            (case skip_ws t of
               [] \<Rightarrow> None
             | d # u \<Rightarrow> if d = CHR '']'' then Some (JArr [], u) else parse_items n [] t)
          else if c = quote_char then
            (case parse_chars t of None \<Rightarrow> None | Some (w, r) \<Rightarrow> Some (JStr w, r))
          else if startsWith (c # t) ''null'' then Some (JNull, drop 4 (c # t))
          else if startsWith (c # t) ''true'' then Some (JBool True, drop 4 (c # t))
          else if startsWith (c # t) ''false'' then Some (JBool False, drop 5 (c # t))
          else parse_number (c # t))"
| "parse_items 0 acc s = None"
| "parse_items (Suc n) acc s =
     (case parse_value n s of
        None \<Rightarrow> None
      | Some (x, r) \<Rightarrow>
          (case skip_ws r of
             [] \<Rightarrow> None
           | c # t \<Rightarrow>
               if c = CHR '','' then parse_items n (acc @ [x]) t
               else if c = CHR '']'' then Some (JArr (acc @ [x]), t) else None))"
| "parse_members 0 acc s = None"
| "parse_members (Suc n) acc s =
     (case skip_ws s of
        [] \<Rightarrow> None
      | q # t \<Rightarrow>
          if q = quote_char then
            (case parse_chars t of
               None \<Rightarrow> None
             | Some (k, r) \<Rightarrow>
                 (case skip_ws r of
                    [] \<Rightarrow> None
                  | c # u \<Rightarrow>
                      if c = CHR '':'' then
                        (case parse_value n u of
                           None \<Rightarrow> None
                         | Some (v, r') \<Rightarrow>
                             (case skip_ws r' of
                                [] \<Rightarrow> None
                              | d # w \<Rightarrow>
                                  if d = CHR '','' then parse_members n (obj_set k v acc) w
                                  else if d = CHR ''}'' then Some (JObj (obj_set k v acc), w) else None))
                      else None))
          else None)"

definition json_parse :: "string \<Rightarrow> json option" where
  "json_parse s = (case parse_value (2 * length s + 2) s of
     Some (j, r) \<Rightarrow> if skip_ws r = [] then Some j else None | None \<Rightarrow> None)"


section \<open>Round trip\<close>

definition wf_num :: "int \<Rightarrow> nat \<Rightarrow> bool" where
  "wf_num m k = (k = 0 \<or> m mod 10 \<noteq> 0)"

definition own_ordered :: "(string \<times> 'a) list \<Rightarrow> bool" where
  "own_ordered ps = (foldl (\<lambda>acc (k, v). obj_set k v acc) [] ps = ps)"

fun wf_json :: "json \<Rightarrow> bool" where
  "wf_json JNull = True"
| "wf_json (JBool b) = True"
| "wf_json (JNum m k) = wf_num m k"
| "wf_json (JStr s) = True"
| "wf_json (JArr xs) = list_all wf_json xs"
| "wf_json (JObj ps) = (own_ordered ps \<and> list_all (\<lambda>p. wf_json (snd p)) ps)"

text \<open>What may follow a value inside a document.\<close>

definition terminated :: "string \<Rightarrow> bool" where
  "terminated r = (case r of [] \<Rightarrow> True | c # _ \<Rightarrow> c = CHR '','' \<or> c = CHR '']'' \<or> c = CHR ''}'')"

subsection \<open>Strings\<close>

lemma hex_value_digit: "d < 16 \<Longrightarrow> hex_value (hex_digit d) = Some d"
  by (simp add: hex_value_def hex_digit_def Let_def)

lemma hex4_byte: "n < 256 \<Longrightarrow> hex4 [CHR ''0'', CHR ''0'', hex_digit (n div 16), hex_digit (n mod 16)] = Some n"
proof -
  assume "n < 256"
  then have "n div 16 < 16" by simp
  moreover have "hex_value (CHR ''0'') = Some 0" by (simp add: hex_value_def)
  ultimately show ?thesis by (simp add: hex4_def hex_value_digit)
qed

lemma char_of_code: "(of_char c :: nat) = n \<Longrightarrow> char_of n = c"
  by auto

lemma parse_escaped:
  "parse_chars (escape_char c @ t) = (case parse_chars t of None \<Rightarrow> None | Some (w, r) \<Rightarrow> Some (c # w, r))"
proof -
  let ?n = "of_char c :: nat"
  have bs: "parse_chars (backslash # u) = (case unescape u of
      None \<Rightarrow> None | Some (x, v) \<Rightarrow> (case parse_chars v of None \<Rightarrow> None | Some (w, r) \<Rightarrow> Some (x # w, r)))" for u
    by (simp add: backslash_def quote_char_def)
  have simple: "unescape (x # t) = Some (y, t)" if "simple_escape x = Some y" "x \<noteq> CHR ''u''" for x y
    using that by (simp add: unescape_def)
  have codes: "?n = k \<Longrightarrow> c = char_of k" for k by auto
  show ?thesis
  proof (cases "c = quote_char \<or> c = backslash")
    case True
    then have "simple_escape c = Some c" "c \<noteq> CHR ''u''"
      by (auto simp: simple_escape_def quote_char_def backslash_def)
    with True show ?thesis by (simp add: escape_char_def bs simple del: parse_chars.simps)
  next
    case plain: False
    show ?thesis
    proof (cases "?n < 32")
      case False
      then show ?thesis using plain by (simp add: escape_char_def Let_def)
    next
      case True
      then have "hex4 [CHR ''0'', CHR ''0'', hex_digit (?n div 16), hex_digit (?n mod 16)] = Some ?n"
        by (intro hex4_byte) simp
      then have u: "unescape (CHR ''u'' # CHR ''0'' # CHR ''0'' # hex_digit (?n div 16) # hex_digit (?n mod 16) # t) = Some (c, t)"
        using True by (simp add: unescape_def)
      have ctl: ?thesis if k: "?n = k" and esc: "escape_char c = [backslash, x]" and se: "simple_escape x = Some (char_of k)"
        and "x \<noteq> CHR ''u''" for k x
        by (simp only: esc append.simps bs simple [OF se that(4)] option.case prod.case codes [OF k, symmetric])
      consider "?n = 8" | "?n = 9" | "?n = 10" | "?n = 12" | "?n = 13" | "?n \<notin> {8, 9, 10, 12, 13}" by blast
      then show ?thesis
      proof cases
        case 6
        with True plain have "escape_char c = [backslash, CHR ''u'', CHR ''0'', CHR ''0'', hex_digit (?n div 16), hex_digit (?n mod 16)]"
          by (simp add: escape_char_def Let_def)
        with u show ?thesis by (simp add: bs del: parse_chars.simps)
      qed (rule ctl, assumption, use plain in \<open>simp add: escape_char_def Let_def\<close>,
           simp_all add: simple_escape_def quote_char_def backslash_def)+
    qed
  qed
qed

lemma parse_quoted: "parse_chars (concat (map escape_char s) @ quote_char # r) = Some (s, r)"
  by (induction s) (simp_all add: parse_escaped)


subsection \<open>Numbers\<close>

lemma show_nat_digits: "\<forall>c \<in> set (show_nat n). is_digit c"
proof (induction n rule: show_nat.induct)
  case (1 n)
  then show ?case by (subst show_nat.simps) (auto simp: is_digit_def)
qed

lemma show_nat_length: "b < 10 ^ k \<Longrightarrow> 0 < k \<Longrightarrow> length (show_nat b) \<le> k"
proof (induction k arbitrary: b)
  case (Suc k)
  show ?case
  proof (cases "b < 10")
    case True
    then show ?thesis by (simp add: show_nat.simps [of b])
  next
    case False
    then have "k \<noteq> 0" using Suc.prems by (cases k) auto
    moreover have "b div 10 < 10 ^ k" using Suc.prems(1) by (simp add: less_mult_imp_div_less mult.commute)
    ultimately show ?thesis using Suc.IH [of "b div 10"] False by (simp add: show_nat.simps [of b])
  qed
qed simp

lemma show_nat_leading: "hd (show_nat n) = CHR ''0'' \<Longrightarrow> length (show_nat n) = 1"
proof (induction n rule: show_nat.induct)
  case (1 n)
  show ?case
  proof (cases "n < 10")
    case True
    then show ?thesis by (simp add: show_nat.simps [of n])
  next
    case False
    with 1 have l: "length (show_nat (n div 10)) = 1" by (simp add: show_nat.simps [of n])
    then have "n div 10 < 10" using False by (cases "n div 10 < 10") (auto simp: show_nat.simps [of "n div 10"])
    then have "hd (show_nat n) = digit_char (n div 10)"
      using False by (simp add: show_nat.simps [of n] show_nat.simps [of "n div 10"])
    with 1(2) have "digit_char (n div 10) = CHR ''0''" by simp
    then have "char_digit (digit_char (n div 10)) = Some 0" by (simp add: char_digit_def)
    with \<open>n div 10 < 10\<close> have "n div 10 = 0" by simp
    with False show ?thesis by simp
  qed
qed

lemma digits_value_shift: "digits_value 0 s = Some v \<Longrightarrow> digits_value acc s = Some (acc * 10 ^ length s + v)"
proof (induction s arbitrary: v rule: rev_induct)
  case (snoc c s)
  then show ?case by (auto simp: digits_value_append algebra_simps split: option.splits)
qed simp

lemma digits_value_zeros: "digits_value 0 (replicate n (CHR ''0'')) = Some 0"
  by (induction n) (simp_all add: char_digit_def)

lemma pad_zeros_value: "digits_value 0 (pad_zeros k (show_nat b)) = Some b"
  by (simp add: pad_zeros_def digits_value_append digits_value_zeros digits_value_show_nat)

lemma pad_zeros_length: "length s \<le> k \<Longrightarrow> length (pad_zeros k s) = k"
  by (simp add: pad_zeros_def)

lemma norm_num_id: "wf_num m k \<Longrightarrow> norm_num m k = JNum m k"
  by (cases k) (simp_all add: wf_num_def)

definition no_number :: "string \<Rightarrow> bool" where
  "no_number r = (case r of [] \<Rightarrow> True | c # _ \<Rightarrow> \<not> is_digit c \<and> c \<noteq> CHR ''.'' \<and> c \<noteq> CHR ''e'' \<and> c \<noteq> CHR ''E'')"

lemma terminated_no_number: "terminated r \<Longrightarrow> no_number r"
  by (auto simp: terminated_def no_number_def is_digit_def char_digit_def split: list.splits)

lemma take_digits:
  assumes "\<forall>c \<in> set w. is_digit c" and "case r of [] \<Rightarrow> True | c # _ \<Rightarrow> \<not> is_digit c"
  shows "takeWhile is_digit (w @ r) = w" and "dropWhile is_digit (w @ r) = r"
  using assms by (induction w) (auto split: list.splits)

lemma parse_unsigned_integer:
  assumes "no_number r"
  shows "parse_unsigned neg (show_nat a @ r) = Some (JNum (if neg then - int a else int a) 0, r)"
proof -
  have e: "parse_exponent r = Some (0, r)" and nd: "\<not> (r \<noteq> [] \<and> hd r = CHR ''.'')"
    and c: "case r of [] \<Rightarrow> True | c # _ \<Rightarrow> \<not> is_digit c"
    using assms by (auto simp: no_number_def parse_exponent_def split: list.splits)
  have lead: "\<not> (1 < length (show_nat a) \<and> hd (show_nat a) = CHR ''0'')"
    using show_nat_leading [of a] by auto
  show ?thesis
    using nd lead by (auto simp: parse_unsigned_def Let_def take_digits [OF show_nat_digits c] e scale_num_def)
qed

lemma parse_unsigned_fraction:
  assumes "no_number r" and b: "b < 10 ^ k" and k: "0 < k"
    and wf: "wf_num (if neg then - int (a * 10 ^ k + b) else int (a * 10 ^ k + b)) k"
  shows "parse_unsigned neg (show_nat a @ CHR ''.'' # pad_zeros k (show_nat b) @ r) =
    Some (JNum (if neg then - int (a * 10 ^ k + b) else int (a * 10 ^ k + b)) k, r)"
proof -
  let ?f = "pad_zeros k (show_nat b)"
  have e: "parse_exponent r = Some (0, r)" and c: "case r of [] \<Rightarrow> True | c # _ \<Rightarrow> \<not> is_digit c"
    using assms(1) by (auto simp: no_number_def parse_exponent_def split: list.splits)
  have l: "length ?f = k" using show_nat_length [OF b k] by (rule pad_zeros_length)
  then have ne: "?f \<noteq> []" using k by auto
  have ds: "\<forall>c \<in> set ?f. is_digit c" using show_nat_digits [of b] by (auto simp: pad_zeros_def is_digit_def char_digit_def)
  have dot: "case CHR ''.'' # ?f @ r of [] \<Rightarrow> True | c # _ \<Rightarrow> \<not> is_digit c" by (simp add: is_digit_def char_digit_def)
  have lead: "\<not> (1 < length (show_nat a) \<and> hd (show_nat a) = CHR ''0'')"
    using show_nat_leading [of a] by auto
  have v: "read_nat (show_nat a @ ?f) = Some (a * 10 ^ k + b)"
    using l by (simp add: read_nat_def digits_value_append digits_value_show_nat digits_value_shift [OF pad_zeros_value])
  have t: "takeWhile is_digit (show_nat a @ CHR ''.'' # ?f @ r) = show_nat a"
    "dropWhile is_digit (show_nat a @ CHR ''.'' # ?f @ r) = CHR ''.'' # ?f @ r"
    "takeWhile is_digit (?f @ r) = ?f" "dropWhile is_digit (?f @ r) = r"
    using take_digits [OF show_nat_digits dot] take_digits [OF ds c] by simp_all
  show ?thesis
    unfolding parse_unsigned_def Let_def t using lead ne k
    by (simp add: v e l scale_num_def norm_num_id [OF wf] t)
qed

lemma digit_not_minus: "hd (show_nat a) \<noteq> CHR ''-''"
proof -
  have "is_digit (hd (show_nat a))" using show_nat_digits [of a] by (simp add: hd_in_set)
  then show ?thesis by (auto simp: is_digit_def char_digit_def)
qed

lemma parse_show_decimal:
  assumes "wf_num m k" and "no_number r"
  shows "parse_number (show_decimal m k @ r) = Some (JNum m k, r)"
proof -
  let ?a = "nat \<bar>m\<bar>"
  let ?body = "if k = 0 then show_nat ?a else show_nat (?a div 10 ^ k) @ ''.'' @ pad_zeros k (show_nat (?a mod 10 ^ k))"
  have m: "(if m < 0 then - int ?a else int ?a) = m" by simp
  have body: "parse_unsigned (m < 0) (?body @ r) = Some (JNum m k, r)"
  proof (cases "k = 0")
    case True
    then show ?thesis using parse_unsigned_integer [OF assms(2), of "m < 0" ?a] m by (simp only: simp_thms if_True)
  next
    case False
    have s: "?a div 10 ^ k * 10 ^ k + ?a mod 10 ^ k = ?a" by (rule div_mult_mod_eq)
    have wf: "wf_num (if m < 0 then - int (?a div 10 ^ k * 10 ^ k + ?a mod 10 ^ k)
        else int (?a div 10 ^ k * 10 ^ k + ?a mod 10 ^ k)) k"
      unfolding s m by (rule assms(1))
    have "parse_unsigned (m < 0) (show_nat (?a div 10 ^ k) @ CHR ''.'' # pad_zeros k (show_nat (?a mod 10 ^ k)) @ r) =
        Some (JNum m k, r)"
      using parse_unsigned_fraction [OF assms(2) _ _ wf] False unfolding s m by simp
    then show ?thesis using False by simp
  qed
  have "hd ?body \<noteq> CHR ''-''" "?body \<noteq> []" using digit_not_minus by (auto simp: hd_append)
  with body show ?thesis
    by (auto simp: parse_number_def show_decimal_def Let_def hd_append split: if_splits)
qed

subsection \<open>Documents\<close>

lemma skip_ws_start [simp]: "\<not> is_json_ws c \<Longrightarrow> skip_ws (c # s) = c # s"
  by (simp add: skip_ws_def)

lemma not_ws [simp]: "\<not> is_json_ws (CHR '','')" "\<not> is_json_ws (CHR '']'')" "\<not> is_json_ws (CHR ''}'')"
  "\<not> is_json_ws (CHR '':'')" "\<not> is_json_ws (CHR ''{'')" "\<not> is_json_ws (CHR ''['')" "\<not> is_json_ws quote_char"
  by (simp_all add: is_json_ws_def Let_def quote_char_def)

definition num_start :: "char \<Rightarrow> bool" where
  "num_start c = (is_digit c \<or> c = CHR ''-'')"

lemma show_decimal_start: "\<exists>c t. show_decimal m k = c # t \<and> num_start c"
proof -
  have "\<exists>c t. show_nat a = c # t \<and> is_digit c" for a
    using show_nat_digits [of a] by (cases "show_nat a") auto
  then show ?thesis unfolding show_decimal_def Let_def num_start_def
    by (metis append_Cons)
qed

lemma num_start_cases:
  assumes "num_start c"
  shows "\<not> is_json_ws c" "c \<noteq> CHR ''{''" "c \<noteq> CHR ''[''" "c \<noteq> quote_char" "c \<noteq> CHR '']''" "c \<noteq> CHR ''n''"
    "c \<noteq> CHR ''t''" "c \<noteq> CHR ''f''"
  using assms by (auto simp: num_start_def is_digit_def char_digit_def is_json_ws_def Let_def quote_char_def split: if_splits)

lemma parse_value_number: "num_start c \<Longrightarrow> parse_value (Suc n) (c # t) = parse_number (c # t)"
  using num_start_cases [of c] by (auto simp: startsWith_def)

text \<open>What the induction on values provides for each part of a value.\<close>

definition parses :: "json \<Rightarrow> bool" where
  "parses j \<longleftrightarrow> (\<forall>n r. terminated r \<longrightarrow> 2 * length (stringify j) \<le> n \<longrightarrow> parse_value n (stringify j @ r) = Some (j, r))"

lemma stringify_start: "\<exists>c t. stringify j = c # t \<and> \<not> is_json_ws c \<and> c \<noteq> CHR '']''"
proof (cases j)
  case (JNum m k)
  then show ?thesis using show_decimal_start [of m k] num_start_cases by force
qed (auto simp: quote_def quote_char_def is_json_ws_def)

lemma parsesI:
  assumes "\<And>n r. terminated r \<Longrightarrow> 2 * length (stringify j) \<le> Suc n \<Longrightarrow>
    parse_value (Suc n) (stringify j @ r) = Some (j, r)"
  shows "parses j"
  unfolding parses_def
proof (intro allI impI)
  fix n r
  assume "terminated r" "2 * length (stringify j) \<le> n"
  moreover have "0 < length (stringify j)" using stringify_start [of j] by auto
  ultimately show "parse_value n (stringify j @ r) = Some (j, r)" using assms by (cases n) (simp_all del: parse_value.simps)
qed

lemma parsesD: "parses j \<Longrightarrow> terminated r \<Longrightarrow> 2 * length (stringify j) \<le> n \<Longrightarrow> parse_value n (stringify j @ r) = Some (j, r)"
  by (simp add: parses_def)

lemma terminated_simps [simp]: "terminated []" "terminated (CHR '','' # r)" "terminated (CHR '']'' # r)" "terminated (CHR ''}'' # r)"
  by (simp_all add: terminated_def)

lemma parse_items_stringify:
  assumes "\<forall>x \<in> set xs. parses x" and "xs \<noteq> []" and "2 * length (join '','' (map stringify xs)) + 1 \<le> n"
  shows "parse_items n acc (join '','' (map stringify xs) @ CHR '']'' # r) = Some (JArr (acc @ xs), r)"
  using assms
proof (induction xs arbitrary: n acc)
  case (Cons x xs)
  then obtain n' where n: "n = Suc n'" by (cases n) auto
  have x: "terminated r' \<Longrightarrow> 2 * length (stringify x) \<le> n' \<Longrightarrow> parse_value n' (stringify x @ r') = Some (x, r')" for r'
    using Cons.prems(1) by (simp add: parses_def)
  show ?case
  proof (cases xs)
    case Nil
    then show ?thesis using Cons.prems(3) n by (simp add: x)
  next
    case (Cons y ys)
    have "length (stringify x) \<ge> 1" using stringify_start [of x] by auto
    with Cons n Cons.prems(3) have "2 * length (join '','' (map stringify xs)) + 1 \<le> n'" "2 * length (stringify x) \<le> n'"
      by auto
    with Cons.IH [of n' "acc @ [x]"] Cons.prems(1) Cons show ?thesis
      by (simp add: n x)
  qed
qed simp

abbreviation member_text :: "string \<times> json \<Rightarrow> string" where
  "member_text p \<equiv> (case p of (k, v) \<Rightarrow> quote k @ '':'' @ stringify v)"

lemma parse_members_stringify:
  assumes "\<forall>p \<in> set ps. parses (snd p)" and "ps \<noteq> []" and "2 * length (join '','' (map member_text ps)) + 1 \<le> n"
  shows "parse_members n acc (join '','' (map member_text ps) @ CHR ''}'' # r) =
    Some (JObj (foldl (\<lambda>acc (k, v). obj_set k v acc) acc ps), r)"
  using assms
proof (induction ps arbitrary: n acc)
  case (Cons p ps)
  obtain k v where p: "p = (k, v)" by (cases p)
  obtain n' where n: "n = Suc n'" using Cons.prems by (cases n) auto
  have v: "terminated r' \<Longrightarrow> 2 * length (stringify v) \<le> n' \<Longrightarrow> parse_value n' (stringify v @ r') = Some (v, r')" for r'
    using Cons.prems(1) by (simp add: parses_def p)
  have q: "parse_chars (concat (map escape_char k) @ quote_char # r') = Some (k, r')" for r' by (rule parse_quoted)
  show ?case
  proof (cases ps)
    case Nil
    then show ?thesis using Cons.prems(3) n by (simp add: p v q quote_def)
  next
    case (Cons y ys)
    with p n Cons.prems(3) have "2 * length (join '','' (map member_text ps)) + 1 \<le> n'" "2 * length (stringify v) \<le> n'"
      by (auto simp: quote_def)
    with Cons.IH [of n' "obj_set k v acc"] Cons.prems(1) Cons show ?thesis
      by (simp add: p n v q quote_def)
  qed
qed simp

lemma join_start: "xs \<noteq> [] \<Longrightarrow> hd xs \<noteq> [] \<Longrightarrow> \<exists>t. join sep xs = hd (hd xs) # t"
  by (cases xs; cases "tl xs") (auto simp: neq_Nil_conv)

lemma parses_wf: "wf_json j \<Longrightarrow> parses j"
proof (induction j)
  case (JNum m k)
  obtain c t where c: "show_decimal m k = c # t" "num_start c" using show_decimal_start by blast
  show ?case
  proof (rule parsesI)
    fix n r
    assume r: "terminated r"
    show "parse_value (Suc n) (stringify (JNum m k) @ r) = Some (JNum m k, r)"
      using parse_value_number [OF c(2), of n "t @ r"] parse_show_decimal [of m k r] JNum terminated_no_number [OF r] c
      by (simp del: parse_value.simps)
  qed
next
  case (JStr s)
  have "quote_char \<noteq> CHR ''{''" "quote_char \<noteq> CHR ''[''" by (simp_all add: quote_char_def)
  then show ?case by (intro parsesI) (simp add: quote_def parse_quoted)
next
  case (JArr xs)
  show ?case
  proof (cases "xs = []")
    case True
    then show ?thesis by (intro parsesI) simp
  next
    case False
    show ?thesis
    proof (rule parsesI)
      fix n r
      assume n: "2 * length (stringify (JArr xs)) \<le> Suc n"
      have "\<forall>x \<in> set xs. parses x" using JArr by (simp add: list_all_iff)
      with n False have items: "parse_items n [] (join '','' (map stringify xs) @ CHR '']'' # r) = Some (JArr xs, r)"
        using parse_items_stringify [of xs n "[]" r] by simp
      obtain c t where "hd (map stringify xs) = c # t" "\<not> is_json_ws c" "c \<noteq> CHR '']''"
        using stringify_start [of "hd xs"] False by (auto simp: hd_map)
      with join_start [of "map stringify xs" "'',''"] False
      obtain t' where "join '','' (map stringify xs) = c # t'" by auto
      with items \<open>\<not> is_json_ws c\<close> \<open>c \<noteq> CHR '']''\<close>
      show "parse_value (Suc n) (stringify (JArr xs) @ r) = Some (JArr xs, r)" by simp
    qed
  qed
next
  case (JObj ps)
  show ?case
  proof (cases "ps = []")
    case True
    then show ?thesis by (intro parsesI) simp
  next
    case False
    show ?thesis
    proof (rule parsesI)
      fix n r
      assume n: "2 * length (stringify (JObj ps)) \<le> Suc n"
      have "\<forall>p \<in> set ps. parses (snd p)" using JObj by (force simp: list_all_iff)
      with n False JObj.prems
      have mem: "parse_members n [] (join '','' (map member_text ps) @ CHR ''}'' # r) = Some (JObj ps, r)"
        using parse_members_stringify [of ps n "[]" r] by (simp add: own_ordered_def)
      obtain t where "hd (map member_text ps) = quote_char # t"
        using False by (simp add: hd_map quote_def split_beta)
      with join_start [of "map member_text ps" "'',''"] False
      obtain t' where "join '','' (map member_text ps) = quote_char # t'" by auto
      moreover have "quote_char \<noteq> CHR ''}''" by (simp add: quote_char_def)
      ultimately show "parse_value (Suc n) (stringify (JObj ps) @ r) = Some (JObj ps, r)" using mem by simp
    qed
  qed
qed (rule parsesI, auto simp: startsWith_def is_json_ws_def quote_char_def)+

lemma json_round_trip:
  assumes "wf_json j"
  shows "json_parse (stringify j) = Some j"
  using parsesD [OF parses_wf [OF assms], of "[]" "2 * length (stringify j) + 2"]
  by (simp add: json_parse_def skip_ws_def del: parse_value.simps)

lemma stringify_inj: "wf_json i \<Longrightarrow> wf_json j \<Longrightarrow> stringify i = stringify j \<Longrightarrow> i = j"
  using json_round_trip by (metis option.inject)

section \<open>Building and reading objects\<close>

text \<open>A finite number, the decimal \<open>m / 10 ^ k\<close>.\<close>

type_synonym decimal = "int \<times> nat"

definition dec_value :: "decimal \<Rightarrow> rat" where
  "dec_value d = of_int (fst d) / 10 ^ snd d"

fun as_str :: "json \<Rightarrow> string option" where
  "as_str (JStr s) = Some s" | "as_str _ = None"

fun as_int :: "json \<Rightarrow> int option" where
  "as_int (JNum m k) = (if k = 0 then Some m else None)" | "as_int _ = None"

fun as_num :: "json \<Rightarrow> decimal option" where
  "as_num (JNum m k) = Some (m, k)" | "as_num _ = None"

fun as_bool :: "json \<Rightarrow> bool option" where
  "as_bool (JBool b) = Some b" | "as_bool _ = None"

fun as_arr :: "json \<Rightarrow> json list option" where
  "as_arr (JArr xs) = Some xs" | "as_arr _ = None"

fun as_obj :: "json \<Rightarrow> (string \<times> json) list option" where
  "as_obj (JObj ps) = Some ps" | "as_obj _ = None"

definition as_list :: "(json \<Rightarrow> 'a option) \<Rightarrow> json \<Rightarrow> 'a list option" where
  "as_list f j = (case j of JArr xs \<Rightarrow> those (map f xs) | _ \<Rightarrow> None)"

definition nullable :: "(json \<Rightarrow> 'a option) \<Rightarrow> json \<Rightarrow> 'a option option" where
  "nullable f j = (if j = JNull then Some None else map_option Some (f j))"

text \<open>A property of an object; a missing one reads as \<open>undefined\<close>, which \<open>JNull\<close> stands for.\<close>

definition field :: "(string \<times> json) list \<Rightarrow> string \<Rightarrow> json" where
  "field ps k = (case map_of ps k of None \<Rightarrow> JNull | Some j \<Rightarrow> j)"

text \<open>A field that is \<open>null\<close> without a value, and one that is absent without a value.\<close>

definition or_null :: "('a \<Rightarrow> json) \<Rightarrow> 'a option \<Rightarrow> json" where
  "or_null f x = (case x of None \<Rightarrow> JNull | Some a \<Rightarrow> f a)"

definition or_absent :: "string \<Rightarrow> ('a \<Rightarrow> json) \<Rightarrow> 'a option \<Rightarrow> (string \<times> json) list" where
  "or_absent k f x = (case x of None \<Rightarrow> [] | Some a \<Rightarrow> [(k, f a)])"

lemma those_map_Some: "(\<And>x. x \<in> set xs \<Longrightarrow> f (g x) = Some x) \<Longrightarrow> those (map f (map g xs)) = Some xs"
  by (induction xs) auto

lemma as_list_JArr: "(\<And>x. x \<in> set xs \<Longrightarrow> f (g x) = Some x) \<Longrightarrow> as_list f (JArr (map g xs)) = Some xs"
  using those_map_Some [of xs f g] by (simp add: as_list_def del: map_map)

lemma nullable_or_null: "(\<And>a. x = Some a \<Longrightarrow> f (g a) = Some a \<and> g a \<noteq> JNull) \<Longrightarrow> nullable f (or_null g x) = Some x"
  by (cases x) (auto simp: nullable_def or_null_def)

lemma field_Cons: "field ((k, v) # ps) k' = (if k' = k then v else field ps k')"
  by (simp add: field_def)

lemma field_Nil [simp]: "field [] k = JNull"
  by (simp add: field_def)

lemma field_or_absent: "field (or_absent k f x @ ps) k' = (if k' = k then (case x of None \<Rightarrow> field ps k' | Some a \<Rightarrow> f a) else field ps k')"
  by (cases x) (simp_all add: or_absent_def field_def)

lemma or_absent_keys: "set (map fst (or_absent k f x)) \<subseteq> {k}"
  by (cases x) (simp_all add: or_absent_def)

text \<open>Names that are no array indices are kept in the order in which they are written.\<close>

lemma own_ordered_append:
  assumes "list_all (\<lambda>p. array_index (fst p) = None) ps" and "distinct (map fst (acc @ ps))"
  shows "foldl (\<lambda>acc (k, v). obj_set k v acc) acc ps = acc @ ps"
  using assms
proof (induction ps arbitrary: acc)
  case (Cons p ps)
  obtain k v where p: "p = (k, v)" by (cases p)
  have "obj_insert k v xs = xs @ [(k, v)]" if "array_index k = None" for xs
    using that by (induction xs) (auto simp: precedes_def)
  moreover have "map_of acc k = None" using Cons.prems(2) by (auto simp: p map_of_eq_None_iff)
  ultimately have "obj_set k v acc = acc @ [(k, v)]" using Cons.prems(1) by (simp add: obj_set_def p)
  with Cons.IH [of "acc @ [(k, v)]"] Cons.prems show ?case by (simp add: p)
qed simp

lemma own_ordered_names:
  "list_all (\<lambda>p. array_index (fst p) = None) ps \<Longrightarrow> distinct (map fst ps) \<Longrightarrow> own_ordered ps"
  using own_ordered_append [of ps "[]"] by (simp add: own_ordered_def)

lemma array_index_name: "s \<noteq> [] \<Longrightarrow> char_digit (hd s) = None \<Longrightarrow> array_index s = None"
  by (cases s) (simp_all add: array_index_def read_nat_def)

section \<open>Numbers that are read are in lowest terms\<close>

lemma wf_norm_num: "\<exists>m' k'. norm_num m k = JNum m' k' \<and> wf_num m' k'"
  by (induction m k rule: norm_num.induct) (auto simp: wf_num_def)

lemma wf_scale_num: "\<exists>m' k'. scale_num m k e = JNum m' k' \<and> wf_num m' k'"
  using wf_norm_num by (auto simp: scale_num_def wf_num_def)

lemma wf_parse_number: "parse_number s = Some (JNum m k, r) \<Longrightarrow> wf_num m k"
  using wf_scale_num
  by (auto simp: parse_number_def parse_unsigned_def Let_def split: if_splits option.splits)
    (metis json.inject(2))+

end
