(* ===== verification/Auth.thy ===== *)
theory Auth
  imports Redis_Service Json
begin

text \<open>
  API-key authentication of \<open>src/auth/middleware.ts\<close>: taking the key from the headers, the
  Redis cache of validated keys with its sliding lifetime, the database lookup behind it, the
  invalidation on revocation and the preHandler.  The hash, the read of the \<open>api_keys\<close> table
  and the two readings of the wall clock are parameters.
\<close>

section \<open>Rows and contexts\<close>

record api_key_row =
  ak_id :: string
  ak_keyHash :: string
  ak_name :: "string option"
  ak_ownerId :: "string option"
  ak_isActive :: bool
  ak_expiresAt :: "int option"
  ak_monthlyBudgetUsd :: "string option"
  ak_allowedModels :: "string list option"
  ak_rpmLimit :: int
  ak_tpmLimit :: int
  ak_createdAt :: int
  ak_updatedAt :: int

record GatewayContext =
  apiKeyId :: string
  ownerId :: "string option"
  gc_name :: "string option"
  rpmLimit :: int
  tpmLimit :: int
  monthlyBudgetUsd :: "decimal option"
  allowedModels :: "string list option"
  expiresAtMs :: "int option"

text \<open>
  \<open>Number(text)\<close> on the text of a numeric column; \<open>NaN\<close>, which \<open>JSON.stringify\<close> writes as
  \<open>null\<close> and which is never reached by a spend, is represented by \<open>None\<close> as well.
\<close>

definition Number_text :: "string \<Rightarrow> decimal option" where
  "Number_text s = (case parse_number s of Some (JNum m k, []) \<Rightarrow> Some (m, k) | _ \<Rightarrow> None)"

definition context_of_row :: "api_key_row \<Rightarrow> GatewayContext" where
  "context_of_row row =
     \<lparr>apiKeyId = ak_id row, ownerId = ak_ownerId row, gc_name = ak_name row,
      rpmLimit = ak_rpmLimit row, tpmLimit = ak_tpmLimit row,
      monthlyBudgetUsd = (case ak_monthlyBudgetUsd row of None \<Rightarrow> None | Some t \<Rightarrow> Number_text t),
      allowedModels = ak_allowedModels row, expiresAtMs = ak_expiresAt row\<rparr>"

definition context_json :: "GatewayContext \<Rightarrow> json" where
  "context_json c = JObj
     [(''apiKeyId'', JStr (apiKeyId c)),
      (''ownerId'', or_null JStr (ownerId c)),
      (''name'', or_null JStr (gc_name c)),
      (''rpmLimit'', JNum (rpmLimit c) 0),
      (''tpmLimit'', JNum (tpmLimit c) 0),
      (''monthlyBudgetUsd'', or_null (\<lambda>(m, k). JNum m k) (monthlyBudgetUsd c)),
      (''allowedModels'', or_null (\<lambda>ms. JArr (map JStr ms)) (allowedModels c)),
      (''expiresAtMs'', or_null (\<lambda>t. JNum t 0) (expiresAtMs c))]"

text \<open>
  The cast \<open>JSON.parse(cached) as GatewayContext\<close>, on the objects that this module writes; any
  other text in the cache, which no replica writes, is treated like an unreadable one.
\<close>

definition as_context :: "json \<Rightarrow> GatewayContext option" where
  "as_context j = (case j of
     JObj ps \<Rightarrow>
       (case (as_str (field ps ''apiKeyId''), nullable as_str (field ps ''ownerId''),
              nullable as_str (field ps ''name''), as_int (field ps ''rpmLimit''),
              as_int (field ps ''tpmLimit''), nullable as_num (field ps ''monthlyBudgetUsd''),
              nullable (as_list as_str) (field ps ''allowedModels''), nullable as_int (field ps ''expiresAtMs'')) of
          (Some i, Some ow, Some nm, Some rpm, Some tpm, Some b, Some al, Some ex) \<Rightarrow>
            Some \<lparr>apiKeyId = i, ownerId = ow, gc_name = nm, rpmLimit = rpm, tpmLimit = tpm,
                  monthlyBudgetUsd = b, allowedModels = al, expiresAtMs = ex\<rparr>
        | _ \<Rightarrow> None)
   | _ \<Rightarrow> None)"

section \<open>The key in the headers\<close>

definition extractApiKey :: "string option \<Rightarrow> string option \<Rightarrow> string option" where
  "extractApiKey authorization x_api_key =
     (case authorization of
        Some auth \<Rightarrow>
          if startsWith (toLowerCase auth) ''bearer '' then
            (let token = trim (drop (length ''Bearer '') auth) in if token = [] then None else Some token)
          else (case x_api_key of Some k \<Rightarrow> if k \<noteq> [] then Some (trim k) else None | None \<Rightarrow> None)
      | None \<Rightarrow> (case x_api_key of Some k \<Rightarrow> if k \<noteq> [] then Some (trim k) else None | None \<Rightarrow> None))"

section \<open>Authentication\<close>

record 's auth_env =
  ae_redis :: "'s redis_env"
  ae_prefix :: key_prefix
  ae_hash :: "string \<Rightarrow> string"
  ae_table :: "'s \<Rightarrow> (thrown, api_key_row list) result \<times> 's"
  ae_ttl :: int

definition auth_error :: "string \<Rightarrow> thrown" where
  "auth_error msg = TGateway (AuthenticationError msg no_options)"

text \<open>
  The fast path: \<open>Some c\<close> when a cached context is served, \<open>None\<close> when the database decides.
  Whatever fails inside the \<open>try\<close> block falls through to the database.
\<close>

definition cache_path ::
  "'s auth_env \<Rightarrow> string \<Rightarrow> int \<Rightarrow> 's \<Rightarrow> GatewayContext option \<times> 's" where
  "cache_path A h now s =
     (let key = authKey (ae_prefix A) h in
      case round_trip (ae_redis A) (command (GET key)) s of
        (Inr (RBulk (VStr cached)), s1) \<Rightarrow>
          (case json_parse cached of
             None \<Rightarrow> (None, s1)
           | Some j \<Rightarrow>
               (case as_context j of
                  None \<Rightarrow> (None, s1)
                | Some c \<Rightarrow>
                    if (case expiresAtMs c of Some t \<Rightarrow> t \<le> now | None \<Rightarrow> False) then
                      (None, snd (round_trip (ae_redis A) (command (DEL [key])) s1))
                    else
                      (case round_trip (ae_redis A) (command (PEXPIRE key (1000 * ae_ttl A))) s1 of
                         (Inl e, s2) \<Rightarrow> (None, s2)
                       | (Inr _, s2) \<Rightarrow> (Some c, s2))))
      | (_, s1) \<Rightarrow> (None, s1))"

definition db_path ::
  "'s auth_env \<Rightarrow> string \<Rightarrow> int \<Rightarrow> 's \<Rightarrow> (thrown, GatewayContext) result \<times> 's" where
  "db_path A h now s =
     (case ae_table A s of
        (Inl e, s1) \<Rightarrow> (Inl e, s1)
      | (Inr rows, s1) \<Rightarrow>
          (case find (\<lambda>r. ak_keyHash r = h \<and> ak_isActive r) rows of
             None \<Rightarrow> (Inl (auth_error ''Invalid API key.''), s1)
           | Some row \<Rightarrow>
               if (case ak_expiresAt row of Some t \<Rightarrow> t \<le> now | None \<Rightarrow> False)
               then (Inl (auth_error ''API key has expired.''), s1)
               else (let c = context_of_row row in
                     (Inr c, snd (round_trip (ae_redis A)
                        (command (SET_PX (authKey (ae_prefix A) h) (VStr (stringify (context_json c))) (1000 * ae_ttl A))) s1)))))"

definition authenticateKey ::
  "'s auth_env \<Rightarrow> string \<Rightarrow> int \<times> int \<Rightarrow> 's \<Rightarrow> (thrown, GatewayContext) result \<times> 's" where
  "authenticateKey A rawKey now s =
     (let h = ae_hash A rawKey in
      case cache_path A h (fst now) s of
        (Some c, s1) \<Rightarrow> (Inr c, s1)
      | (None, s1) \<Rightarrow> db_path A h (snd now) s1)"

definition invalidateAuthCache :: "'s auth_env \<Rightarrow> string \<Rightarrow> 's \<Rightarrow> 's" where
  "invalidateAuthCache A h s = snd (round_trip (ae_redis A) (command (DEL [authKey (ae_prefix A) h])) s)"

definition authPreHandler ::
  "'s auth_env \<Rightarrow> string option \<Rightarrow> string option \<Rightarrow> int \<times> int \<Rightarrow> 's
     \<Rightarrow> (thrown, GatewayContext) result \<times> 's" where
  "authPreHandler A authorization x_api_key now s =
     (case extractApiKey authorization x_api_key of
        None \<Rightarrow> (Inl (auth_error ''Missing API key. Provide a Bearer token or x-api-key header.''), s)
      | Some rawKey \<Rightarrow> authenticateKey A rawKey now s)"

section \<open>What the cache holds\<close>

definition wf_context :: "GatewayContext \<Rightarrow> bool" where
  "wf_context c = (case monthlyBudgetUsd c of None \<Rightarrow> True | Some (m, k) \<Rightarrow> wf_num m k)"

lemma wf_context_of_row: "wf_context (context_of_row row)"
  by (auto simp: wf_context_def context_of_row_def Number_text_def split: option.splits json.splits list.splits
      dest: wf_parse_number)

lemma as_context_json: "as_context (context_json c) = Some c"
  by (cases "ownerId c"; cases "gc_name c"; cases "monthlyBudgetUsd c"; cases "allowedModels c"; cases "expiresAtMs c")
    (auto simp: as_context_def context_json_def field_Cons or_null_def nullable_def as_list_JArr)

lemma own_ordered_context: "own_ordered (case context_json c of JObj ps \<Rightarrow> ps)"
  by (simp add: context_json_def own_ordered_def obj_set_def precedes_def array_index_def read_nat_def char_digit_def)

lemma wf_context_json: "wf_context c \<Longrightarrow> wf_json (context_json c)"
  using own_ordered_context [of c]
  by (auto simp: context_json_def or_null_def wf_context_def wf_num_def list_all_iff split: option.splits)

lemma cached_context: "wf_context c \<Longrightarrow>
  json_parse (stringify (context_json c)) = Some (context_json c) \<and> as_context (context_json c) = Some c"
  by (simp add: json_round_trip wf_context_json as_context_json)


text \<open>
  Every cached entry is the context of a row that the table held, active, under that hash.
\<close>

definition context_entry :: "api_key_row set \<Rightarrow> string \<Rightarrow> string \<Rightarrow> bool" where
  "context_entry T h w =
     (\<exists>row \<in> T. ak_keyHash row = h \<and> ak_isActive row \<and> w = stringify (context_json (context_of_row row)))"

abbreviation cache_holds :: "api_key_row set \<Rightarrow> key_prefix \<Rightarrow> db \<Rightarrow> bool" where
  "cache_holds T pre d \<equiv> text_entries (context_entry T) (authKey pre) d"

locale auth_cache = redis_service "ae_redis A" view
  for A :: "'s auth_env" and view :: "'s \<Rightarrow> db" +
  assumes table_time: "\<exists>dt \<ge> 0. view (snd (ae_table A s)) = advance dt (view s)"
begin

lemma cache_path_sound:
  assumes "cache_path A h now s = (r, s')" and ok: "cache_holds T (ae_prefix A) (view s)"
  shows "cache_holds T (ae_prefix A) (view s')"
    and "r = Some c \<Longrightarrow> \<exists>row \<in> T. ak_keyHash row = h \<and> ak_isActive row \<and> c = context_of_row row \<and>
      (\<forall>t. ak_expiresAt row = Some t \<longrightarrow> now < t)"
proof -
  let ?key = "authKey (ae_prefix A) h"
  obtain r1 s1 where get: "round_trip (ae_redis A) (command (GET ?key)) s = (r1, s1)" by fastforce
  have ok1: "cache_holds T (ae_prefix A) (view s1)"
    by (rule round_trip_entries [OF get _ ok]) (simp add: keeps_entries_def)
  obtain r2 s2 where del: "round_trip (ae_redis A) (command (DEL [?key])) s1 = (r2, s2)" by fastforce
  have ok2: "cache_holds T (ae_prefix A) (view s2)"
    by (rule round_trip_entries [OF del _ ok1]) (simp add: keeps_entries_def)
  obtain r3 s3 where ex: "round_trip (ae_redis A) (command (PEXPIRE ?key (1000 * ae_ttl A))) s1 = (r3, s3)" by fastforce
  have ok3: "cache_holds T (ae_prefix A) (view s3)"
    by (rule round_trip_entries [OF ex _ ok1]) (simp add: keeps_entries_def)
  have hit: "\<exists>row \<in> T. ak_keyHash row = h \<and> ak_isActive row \<and> json_parse w = Some (context_json (context_of_row row)) \<and>
      as_context (context_json (context_of_row row)) = Some (context_of_row row)"
    if "r1 = Inr (RBulk (VStr w))" for w
    using round_trip_entry [OF get [unfolded that] ok] cached_context [OF wf_context_of_row]
    unfolding context_entry_def by blast
  show "cache_holds T (ae_prefix A) (view s')"
    using assms(1) ok1 ok2 ok3
    by (auto simp: cache_path_def Let_def get del ex
        split: sum.splits option.splits if_splits rreply.splits rval.splits)
  show "\<exists>row \<in> T. ak_keyHash row = h \<and> ak_isActive row \<and> c = context_of_row row \<and>
      (\<forall>t. ak_expiresAt row = Some t \<longrightarrow> now < t)" if r: "r = Some c"
  proof -
    obtain w where r1: "r1 = Inr (RBulk (VStr w))"
      using assms(1) r by (auto simp: cache_path_def Let_def get split: sum.splits rreply.splits rval.splits)
    from hit [OF r1] obtain row where row: "row \<in> T" "ak_keyHash row = h" "ak_isActive row"
      "json_parse w = Some (context_json (context_of_row row))"
      "as_context (context_json (context_of_row row)) = Some (context_of_row row)" by blast
    have "expiresAtMs (context_of_row row) = ak_expiresAt row" by (simp add: context_of_row_def)
    with row assms(1) r r1 show ?thesis
      by (intro bexI [of _ row])
        (auto simp: cache_path_def Let_def get del ex split: sum.splits option.splits if_splits)
  qed
qed

lemma db_path_sound:
  assumes "db_path A h now s = (r, s')" and ok: "cache_holds T (ae_prefix A) (view s)"
    and table_rows: "\<And>rows. fst (ae_table A s) = Inr rows \<Longrightarrow> set rows \<subseteq> T"
  shows "cache_holds T (ae_prefix A) (view s')"
    and "r = Inr c \<Longrightarrow> \<exists>row \<in> T. ak_keyHash row = h \<and> ak_isActive row \<and> c = context_of_row row \<and>
      (\<forall>t. ak_expiresAt row = Some t \<longrightarrow> now < t)"
proof -
  obtain q s1 where tab: "ae_table A s = (q, s1)" by fastforce
  have ok1: "cache_holds T (ae_prefix A) (view s1)"
    using table_time [of s] tab text_entries_advance [OF ok] by auto
  have found: "row \<in> T \<and> ak_keyHash row = h \<and> ak_isActive row"
    if "q = Inr rows" "find (\<lambda>r. ak_keyHash r = h \<and> ak_isActive r) rows = Some row" for rows row
    using table_rows [of rows] tab that find_member [OF that(2)] by auto
  have set_ok: "cache_holds T (ae_prefix A) (view (snd (round_trip (ae_redis A)
      (command (SET_PX (authKey (ae_prefix A) h) (VStr (stringify (context_json (context_of_row row)))) ms)) s1)))"
    if "row \<in> T" "ak_keyHash row = h" "ak_isActive row" for row ms
    by (rule round_trip_entries [OF prod.collapse [symmetric] _ ok1]) (use that in \<open>auto simp: keeps_entries_def context_entry_def\<close>)
  have "cache_holds T (ae_prefix A) (view s') \<and> (\<forall>c. r = Inr c \<longrightarrow> (\<exists>row \<in> T. ak_keyHash row = h \<and> ak_isActive row \<and>
      c = context_of_row row \<and> (\<forall>t. ak_expiresAt row = Some t \<longrightarrow> now < t)))"
  proof (cases q)
    case (Inl e)
    then show ?thesis using assms(1) ok1 by (auto simp: db_path_def tab)
  next
    case (Inr rows)
    show ?thesis
    proof (cases "find (\<lambda>r. ak_keyHash r = h \<and> ak_isActive r) rows")
      case None
      with Inr show ?thesis using assms(1) ok1 by (auto simp: db_path_def tab)
    next
      case (Some row)
      note row = found [OF Inr Some]
      show ?thesis
      proof (cases "case ak_expiresAt row of Some t \<Rightarrow> t \<le> now | None \<Rightarrow> False")
        case True
        with Some Inr show ?thesis using assms(1) ok1 by (auto simp: db_path_def tab)
      next
        case False
        with Some Inr assms(1) have r: "r = Inr (context_of_row row)" and s': "s' = snd (round_trip (ae_redis A)
            (command (SET_PX (authKey (ae_prefix A) h) (VStr (stringify (context_json (context_of_row row)))) (1000 * ae_ttl A))) s1)"
          by (simp_all add: db_path_def tab Let_def)
        from False have "\<forall>t. ak_expiresAt row = Some t \<longrightarrow> now < t" by (auto split: option.splits)
        with row set_ok [of row] show ?thesis unfolding r s' by blast
      qed
    qed
  qed
  then show "cache_holds T (ae_prefix A) (view s')"
    and "r = Inr c \<Longrightarrow> \<exists>row \<in> T. ak_keyHash row = h \<and> ak_isActive row \<and> c = context_of_row row \<and>
      (\<forall>t. ak_expiresAt row = Some t \<longrightarrow> now < t)" by blast+
qed

lemma authenticateKey_current:
  assumes "authenticateKey A raw now s = (r, s')" and ok: "cache_holds T (ae_prefix A) (view s)"
    and rows: "\<And>rows. fst (ae_table A (snd (cache_path A (ae_hash A raw) (fst now) s))) = Inr rows \<Longrightarrow> set rows \<subseteq> T"
  shows "cache_holds T (ae_prefix A) (view s')"
    and "r = Inr c \<Longrightarrow> \<exists>row \<in> T. ak_keyHash row = ae_hash A raw \<and> ak_isActive row \<and> c = context_of_row row \<and>
      (\<forall>t. ak_expiresAt row = Some t \<longrightarrow> fst now < t \<or> snd now < t)"
proof -
  obtain q s1 where cp: "cache_path A (ae_hash A raw) (fst now) s = (q, s1)" by fastforce
  note c = cache_path_sound [OF cp ok]
  obtain q' s2 where dp: "db_path A (ae_hash A raw) (snd now) s1 = (q', s2)" by fastforce
  have rows1: "\<And>rows. fst (ae_table A s1) = Inr rows \<Longrightarrow> set rows \<subseteq> T" using rows cp by simp
  note d = db_path_sound [OF dp c(1) rows1]
  show "cache_holds T (ae_prefix A) (view s')"
    using assms(1) cp dp c(1) d(1) by (auto simp: authenticateKey_def Let_def split: option.splits)
  show "\<exists>row \<in> T. ak_keyHash row = ae_hash A raw \<and> ak_isActive row \<and> c = context_of_row row \<and>
      (\<forall>t. ak_expiresAt row = Some t \<longrightarrow> fst now < t \<or> snd now < t)" if "r = Inr c"
    using assms(1) cp dp c(2) d(2) that
    by (fastforce simp: authenticateKey_def Let_def split: option.splits)
qed

lemma invalidateAuthCache_holds:
  "cache_holds T (ae_prefix A) (view s) \<Longrightarrow> cache_holds T (ae_prefix A) (view (invalidateAuthCache A h s))"
  unfolding invalidateAuthCache_def
  by (rule round_trip_entries [OF prod.collapse [symmetric]]) (simp_all add: keeps_entries_def)

end

text \<open>\<open>T\<close> collects the rows that the table held at any time.\<close>

locale auth_service = auth_cache A view
  for A :: "'s auth_env" and view :: "'s \<Rightarrow> db" +
  fixes T :: "api_key_row set"
  assumes table_rows: "fst (ae_table A s) = Inr rows \<Longrightarrow> set rows \<subseteq> T"
begin

lemma authenticateKey_sound:
  assumes "authenticateKey A raw now s = (r, s')" and "cache_holds T (ae_prefix A) (view s)"
  shows "cache_holds T (ae_prefix A) (view s')"
    and "r = Inr c \<Longrightarrow> \<exists>row \<in> T. ak_keyHash row = ae_hash A raw \<and> ak_isActive row \<and> c = context_of_row row \<and>
      (\<forall>t. ak_expiresAt row = Some t \<longrightarrow> fst now < t \<or> snd now < t)"
  by (rule authenticateKey_current(1) [OF assms], erule table_rows)
    (rule authenticateKey_current(2) [OF assms], erule table_rows)

end

section \<open>Histories\<close>

datatype auth_event = Authenticate string "int \<times> int" | Invalidate string

fun auth_step :: "'s auth_env \<Rightarrow> auth_event \<Rightarrow> 's \<Rightarrow> 's" where
  "auth_step A (Authenticate raw now) s = snd (authenticateKey A raw now s)"
| "auth_step A (Invalidate h) s = invalidateAuthCache A h s"

context auth_service
begin

lemma auth_step_holds:
  assumes "cache_holds T (ae_prefix A) (view s)"
  shows "cache_holds T (ae_prefix A) (view (auth_step A x s))"
proof (cases x)
  case (Authenticate raw now)
  with assms show ?thesis
    using authenticateKey_sound(1) [OF prod.collapse [symmetric]] by simp
next
  case (Invalidate h)
  with invalidateAuthCache_holds [OF assms] show ?thesis by simp
qed

lemma auth_run_holds:
  "cache_holds T (ae_prefix A) (view s) \<Longrightarrow> cache_holds T (ae_prefix A) (view (fold (auth_step A) xs s))"
  by (induction xs arbitrary: s) (simp_all add: auth_step_holds)

end

text \<open>
  The authenticator over the reference server, with any table and any hash.
\<close>

definition ref_auth :: "(string \<Rightarrow> string) \<Rightarrow> api_key_row list \<Rightarrow> int \<Rightarrow> ref_server auth_env" where
  "ref_auth hash rows ttl = \<lparr>ae_redis = ref_env, ae_prefix = ''gw:'', ae_hash = hash,
     ae_table = (\<lambda>s. (Inr rows, s)), ae_ttl = ttl\<rparr>"

interpretation ref_auth: auth_service "ref_auth hash rows ttl" rs_db "set rows"
  for hash rows ttl
proof (intro auth_service.intro auth_cache.intro auth_cache_axioms.intro auth_service_axioms.intro)
  show "redis_service (ae_redis (ref_auth hash rows ttl)) rs_db"
    using ref_redis_service by (simp add: ref_auth_def)
  show "\<exists>dt\<ge>0. rs_db (snd (ae_table (ref_auth hash rows ttl) s)) = advance dt (rs_db s)" for s
    by (intro exI [of _ 0]) (simp add: ref_auth_def)
  show "set rs \<subseteq> set rows" if "fst (ae_table (ref_auth hash rows ttl) s) = Inr rs" for s rs
    using that by (simp add: ref_auth_def)
qed


text \<open>
  C6. Authentication is sound: whatever the fleet did before, with any delays, Redis and
  database outages, a request is admitted only with the context of a row that the table held
  under the hash of its key while that row was active, and never once the key has expired.
\<close>

theorem auth_sound:
  assumes "auth_service A view T" and "\<And>h. live (view s) (authKey (ae_prefix A) h) = None"
    and "authPreHandler A authorization x_api_key now (fold (auth_step A) xs s) = (Inr c, s')"
  shows "\<exists>raw. extractApiKey authorization x_api_key = Some raw \<and>
    (\<exists>row \<in> T. ak_keyHash row = ae_hash A raw \<and> ak_isActive row \<and> c = context_of_row row \<and>
      (\<forall>t. ak_expiresAt row = Some t \<longrightarrow> fst now < t \<or> snd now < t))"
proof -
  have "cache_holds T (ae_prefix A) (view s)" using assms(2) by (rule text_entries_absent)
  note ok = auth_service.auth_run_holds [OF assms(1) this, of xs]
  show ?thesis
  proof (cases "extractApiKey authorization x_api_key")
    case None
    with assms(3) show ?thesis by (simp add: authPreHandler_def)
  next
    case (Some raw)
    with assms(3) have "authenticateKey A raw now (fold (auth_step A) xs s) = (Inr c, s')"
      by (simp add: authPreHandler_def)
    from auth_service.authenticateKey_sound(2) [OF assms(1) this ok refl] Some show ?thesis by blast
  qed
qed

definition demo_key_row :: api_key_row where
  "demo_key_row = \<lparr>ak_id = ''k1'', ak_keyHash = ''abc'', ak_name = None, ak_ownerId = None, ak_isActive = True,
     ak_expiresAt = Some 5000, ak_monthlyBudgetUsd = Some ''12.5000'', ak_allowedModels = None,
     ak_rpmLimit = 60, ak_tpmLimit = 1000, ak_createdAt = 0, ak_updatedAt = 0\<rparr>"

theorem auth_sound_witness:
  "\<exists>row \<in> {demo_key_row}. ak_keyHash row = ''abc'' \<and> rpmLimit (context_of_row row) = 60"
proof -
  let ?A = "ref_auth (\<lambda>k. k) [demo_key_row] 300"
  have svc: "auth_service ?A rs_db {demo_key_row}" using ref_auth.auth_service_axioms [of "\<lambda>k. k" "[demo_key_row]" 300] by simp
  have e: "live (rs_db (ref_init 0)) (authKey (ae_prefix ?A) h) = None" for h by (simp add: ref_init_def)
  obtain r s' where run: "authPreHandler ?A (Some ''Bearer abc'') None (1000, 1001) (fold (auth_step ?A) [] (ref_init 0)) = (r, s')"
    by fastforce
  have x: "extractApiKey (Some ''Bearer abc'') None = Some ''abc''" by code_simp
  have row: "ak_keyHash demo_key_row = ''abc''" "ak_isActive demo_key_row" "ak_expiresAt demo_key_row = Some 5000"
    by (simp_all add: demo_key_row_def)
  have miss: "cache_path ?A ''abc'' 1000 (ref_init 0) = (None, ref_init 0)"
    by (simp add: cache_path_def ref_auth_def round_trip_def ref_env_def ref_init_def ref_tick_def ref_call_def command_def Let_def)
  have "fst (db_path ?A ''abc'' 1001 (ref_init 0)) = Inr (context_of_row demo_key_row)"
    by (simp add: db_path_def ref_auth_def row Let_def)
  then have "fst (authPreHandler ?A (Some ''Bearer abc'') None (1000, 1001) (ref_init 0)) = Inr (context_of_row demo_key_row)"
    using miss by (simp add: authPreHandler_def x authenticateKey_def ref_auth_def)
  with run have "r = Inr (context_of_row demo_key_row)" by simp
  with run auth_sound [OF svc e, of "Some ''Bearer abc''" None "(1000, 1001)" "[]" "context_of_row demo_key_row" s']
  have "\<exists>row \<in> {demo_key_row}. ak_keyHash row = ''abc''" by (simp add: x ref_auth_def)
  moreover have "rpmLimit (context_of_row demo_key_row) = 60" by (simp add: context_of_row_def demo_key_row_def)
  ultimately show ?thesis by auto
qed

text \<open>
  A request in time: two round trips, the first after a delay, with Redis up throughout.
\<close>

definition on_time :: "int \<Rightarrow> (int \<times> bool \<times> bool) list" where
  "on_time dt = [(dt, True, True), (0, True, True)]"

fun authenticate_all ::
  "ref_server auth_env \<Rightarrow> string \<Rightarrow> int list \<Rightarrow> ref_server \<Rightarrow> (thrown, GatewayContext) result list" where
  "authenticate_all A raw [] s = []"
| "authenticate_all A raw (dt # dts) s =
     (case authenticateKey A raw (0, 0) (s\<lparr>rs_schedule := on_time dt\<rparr>) of
        (r, s1) \<Rightarrow> r # authenticate_all A raw dts s1)"

lemma cached_hit:
  assumes live: "live (rs_db s) (authKey ''gw:'' (hash raw)) = Some (OStr (VStr (stringify (context_json c))), Some t)"
    and wf: "wf_context c" and ex: "expiresAtMs c = None"
    and dt: "0 \<le> dt" "clock (rs_db s) + dt \<le> t" and ttl: "0 < ttl"
  shows "\<exists>s'. authenticateKey (ref_auth hash rows ttl) raw now (s\<lparr>rs_schedule := on_time dt\<rparr>) = (Inr c, s') \<and>
    live (rs_db s') (authKey ''gw:'' (hash raw)) =
      Some (OStr (VStr (stringify (context_json c))), Some (clock (rs_db s') + 1000 * ttl))"
proof -
  let ?k = "authKey ''gw:'' (hash raw)" and ?v = "OStr (VStr (stringify (context_json c)))"
  have l: "live (advance dt (rs_db s)) ?k = Some (?v, Some t)" using live dt by (simp add: live_advance)
  show ?thesis
    using cached_context [OF wf] l ex ttl dt
    by (simp add: authenticateKey_def cache_path_def ref_auth_def round_trip_def ref_env_def ref_tick_def ref_call_def
        command_def on_time_def Let_def)
qed

text \<open>
  The lifetime of a cached key slides on every hit: as long as a key is used at least once
  per lifetime, the cached context is served, whatever has become of the key in the table.  A
  key deleted there is therefore not bound to stop working within one lifetime.
\<close>

theorem auth_ttl_slides:
  assumes "live (rs_db s) (authKey ''gw:'' (hash raw)) = Some (OStr (VStr (stringify (context_json c))), Some t)"
    and "wf_context c" and "expiresAtMs c = None" and "0 < ttl"
    and "clock (rs_db s) + 1000 * ttl \<le> t" and "\<forall>dt \<in> set dts. 0 \<le> dt \<and> dt \<le> 1000 * ttl"
  shows "authenticate_all (ref_auth hash [] ttl) raw dts s = replicate (length dts) (Inr c)"
  using assms
proof (induction dts arbitrary: s t)
  case (Cons dt dts)
  have "clock (rs_db s) + dt \<le> t" "0 \<le> dt" using Cons.prems(5,6) by auto
  from cached_hit [where hash = hash and raw = raw and rows = "[]" and now = "(0, 0)", OF Cons.prems(1-3) this(2,1) Cons.prems(4)] obtain s' where s':
    "authenticateKey (ref_auth hash [] ttl) raw (0, 0) (s\<lparr>rs_schedule := on_time dt\<rparr>) = (Inr c, s')"
    "live (rs_db s') (authKey ''gw:'' (hash raw)) =
      Some (OStr (VStr (stringify (context_json c))), Some (clock (rs_db s') + 1000 * ttl))" by blast
  from Cons.IH [OF s'(2) Cons.prems(2-4) order_refl] Cons.prems(6) s'(1) show ?case by simp
qed simp

theorem auth_ttl_slides_witness:
  "\<exists>c s. authenticate_all (ref_auth (\<lambda>k. k) [] 300) ''abc'' [300000, 300000, 300000] s = [Inr c, Inr c, Inr c]"
proof -
  let ?c = "context_of_row (demo_key_row\<lparr>ak_expiresAt := None\<rparr>)"
  let ?s = "(ref_init 0)\<lparr>rs_db := put (authKey ''gw:'' ''abc'') (OStr (VStr (stringify (context_json ?c)))) (Some 300000) (empty_db 0)\<rparr>"
  have "authenticate_all (ref_auth (\<lambda>k. k) [] 300) ''abc'' [300000, 300000, 300000] ?s =
      replicate (length [300000, 300000, 300000 :: int]) (Inr ?c)"
    by (rule auth_ttl_slides [where t = 300000, OF _ wf_context_of_row]) (simp_all add: context_of_row_def)
  then show ?thesis by (auto simp: numeral_eq_Suc)
qed

end
