(* ===== verification/OpenAI_Types.thy ===== *)
theory OpenAI_Types
  imports Json
begin

text \<open>
  The public wire protocol of \<open>src/types/openai.ts\<close>: the requests, messages, responses and
  streaming chunks that every other component exchanges, and their JSON form (an optional
  field without a value is absent, a nullable one is \<open>null\<close>).  Unknown request parameters
  survive as \<open>rq_extra\<close> and \<open>eq_extra\<close>, as the \<open>passthrough\<close> schemas provide.
\<close>

section \<open>Messages\<close>

datatype ContentPart = TextPart string | ImagePart string "string option"

datatype MessageContent = ContentText string | ContentParts "ContentPart list"

record ToolCall =
  tc_id :: string
  tc_name :: string
  tc_arguments :: string

text \<open>The content of an assistant message may be absent (\<open>None\<close>) or \<open>null\<close> (\<open>Some None\<close>).\<close>

datatype ChatMessage =
    SystemMessage MessageContent "string option"
  | UserMessage MessageContent "string option"
  | AssistantMessage "MessageContent option option" "string option" "ToolCall list option"
  | ToolMessage MessageContent string

record ToolDefinition =
  td_name :: string
  td_description :: "string option"
  td_parameters :: "(string \<times> json) list option"

datatype ToolChoice = Choice_none | Choice_auto | Choice_required | Choice_function string

section \<open>Requests\<close>

datatype stop_option = StopText string | StopList "string list"

record ChatCompletionRequest =
  rq_model :: string
  rq_messages :: "ChatMessage list"
  rq_temperature :: "decimal option"
  rq_top_p :: "decimal option"
  rq_n :: "int option"
  rq_stream :: "bool option"
  rq_include_usage :: "bool option option"
  rq_stop :: "stop_option option"
  rq_max_tokens :: "int option"
  rq_max_completion_tokens :: "int option"
  rq_presence_penalty :: "decimal option"
  rq_frequency_penalty :: "decimal option"
  rq_logit_bias :: "(string \<times> decimal) list option"
  rq_user :: "string option"
  rq_seed :: "int option"
  rq_tools :: "ToolDefinition list option"
  rq_tool_choice :: "ToolChoice option"
  rq_response_format :: "(string \<times> json) list option"
  rq_extra :: "(string \<times> json) list"

datatype EmbeddingInput = InputText string | InputTexts "string list" | InputTokens "int list" | InputTokenLists "int list list"

record EmbeddingRequest =
  eq_model :: string
  eq_input :: EmbeddingInput
  eq_encoding_format :: "string option"
  eq_dimensions :: "int option"
  eq_user :: "string option"
  eq_extra :: "(string \<times> json) list"

section \<open>Responses\<close>

record CompletionUsage =
  prompt_tokens :: int
  completion_tokens :: int
  total_tokens :: int

datatype FinishReason = Finish_stop | Finish_length | Finish_tool_calls | Finish_content_filter

record ChatCompletionChoice =
  ch_index :: int
  ch_content :: "string option"
  ch_tool_calls :: "ToolCall list option"
  ch_finish_reason :: "FinishReason option"

record ChatCompletionResponse =
  rs_id :: string
  rs_created :: int
  rs_model :: string
  rs_choices :: "ChatCompletionChoice list"
  rs_usage :: CompletionUsage
  rs_system_fingerprint :: "string option"

record EmbeddingResponse =
  er_data :: "json list"
  er_model :: string
  er_prompt_tokens :: int
  er_total_tokens :: int

section \<open>Streaming chunks\<close>

record ToolCallDelta =
  dt_index :: int
  dt_id :: "string option"
  dt_has_type :: bool
  dt_name :: "string option"
  dt_arguments :: "string option"

record ChatCompletionChunkChoice =
  cc_index :: int
  cc_role :: bool
  cc_content :: "string option"
  cc_tool_calls :: "ToolCallDelta list option"
  cc_finish_reason :: "FinishReason option"

text \<open>\<open>choices\<close> may be missing in a chunk that an upstream sent and the gateway passed on.\<close>

record ChatCompletionChunk =
  ck_id :: string
  ck_created :: int
  ck_model :: string
  ck_choices :: "ChatCompletionChunkChoice list option"
  ck_usage :: "CompletionUsage option"
  ck_system_fingerprint :: "string option"

section \<open>JSON form of messages\<close>

fun part_json :: "ContentPart \<Rightarrow> json" where
  "part_json (TextPart t) = JObj [(''type'', JStr ''text''), (''text'', JStr t)]"
| "part_json (ImagePart url detail) =
     JObj [(''type'', JStr ''image_url''),
           (''image_url'', JObj ((''url'', JStr url) # or_absent ''detail'' JStr detail))]"

fun content_json :: "MessageContent \<Rightarrow> json" where
  "content_json (ContentText t) = JStr t"
| "content_json (ContentParts ps) = JArr (map part_json ps)"

definition tool_call_json :: "ToolCall \<Rightarrow> json" where
  "tool_call_json c = JObj [(''id'', JStr (tc_id c)), (''type'', JStr ''function''),
     (''function'', JObj [(''name'', JStr (tc_name c)), (''arguments'', JStr (tc_arguments c))])]"

fun message_json :: "ChatMessage \<Rightarrow> json" where
  "message_json (SystemMessage c n) =
     JObj ([(''role'', JStr ''system''), (''content'', content_json c)] @ or_absent ''name'' JStr n)"
| "message_json (UserMessage c n) =
     JObj ([(''role'', JStr ''user''), (''content'', content_json c)] @ or_absent ''name'' JStr n)"
| "message_json (AssistantMessage c n calls) =
     JObj ([(''role'', JStr ''assistant'')] @ or_absent ''content'' (or_null content_json) c @ or_absent ''name'' JStr n
       @ or_absent ''tool_calls'' (\<lambda>cs. JArr (map tool_call_json cs)) calls)"
| "message_json (ToolMessage c i) =
     JObj [(''role'', JStr ''tool''), (''content'', content_json c), (''tool_call_id'', JStr i)]"

definition int_json :: "int \<Rightarrow> json" where
  "int_json i = JNum i 0"

definition dec_json :: "decimal \<Rightarrow> json" where
  "dec_json d = JNum (fst d) (snd d)"

fun stop_json :: "stop_option \<Rightarrow> json" where
  "stop_json (StopText s) = JStr s"
| "stop_json (StopList ss) = JArr (map JStr ss)"

section \<open>JSON form of responses\<close>

fun finish_text :: "FinishReason \<Rightarrow> string" where
  "finish_text Finish_stop = ''stop''"
| "finish_text Finish_length = ''length''"
| "finish_text Finish_tool_calls = ''tool_calls''"
| "finish_text Finish_content_filter = ''content_filter''"

definition read_finish :: "string \<Rightarrow> FinishReason option" where
  "read_finish s =
     (if s = ''stop'' then Some Finish_stop else if s = ''length'' then Some Finish_length
      else if s = ''tool_calls'' then Some Finish_tool_calls
      else if s = ''content_filter'' then Some Finish_content_filter else None)"

definition usage_json :: "CompletionUsage \<Rightarrow> json" where
  "usage_json u = JObj [(''prompt_tokens'', int_json (prompt_tokens u)),
     (''completion_tokens'', int_json (completion_tokens u)), (''total_tokens'', int_json (total_tokens u))]"

definition choice_json :: "ChatCompletionChoice \<Rightarrow> json" where
  "choice_json c = JObj
     [(''index'', int_json (ch_index c)),
      (''message'', JObj ([(''role'', JStr ''assistant''), (''content'', or_null JStr (ch_content c))]
        @ or_absent ''tool_calls'' (\<lambda>cs. JArr (map tool_call_json cs)) (ch_tool_calls c))),
      (''finish_reason'', or_null (\<lambda>r. JStr (finish_text r)) (ch_finish_reason c)),
      (''logprobs'', JNull)]"

definition response_json :: "ChatCompletionResponse \<Rightarrow> json" where
  "response_json r = JObj
     ([(''id'', JStr (rs_id r)), (''object'', JStr ''chat.completion''), (''created'', int_json (rs_created r)),
       (''model'', JStr (rs_model r)), (''choices'', JArr (map choice_json (rs_choices r))),
       (''usage'', usage_json (rs_usage r))]
      @ or_absent ''system_fingerprint'' JStr (rs_system_fingerprint r))"

text \<open>Reading a response back; \<open>None\<close> for a value that no response serialises to.\<close>

definition as_tool_call :: "json \<Rightarrow> ToolCall option" where
  "as_tool_call j = (case j of
     JObj ps \<Rightarrow>
       (case (as_str (field ps ''id''), as_obj (field ps ''function'')) of
          (Some i, Some fs) \<Rightarrow>
            (case (as_str (field fs ''name''), as_str (field fs ''arguments'')) of
               (Some n, Some a) \<Rightarrow> Some \<lparr>tc_id = i, tc_name = n, tc_arguments = a\<rparr> | _ \<Rightarrow> None)
        | _ \<Rightarrow> None)
   | _ \<Rightarrow> None)"

definition as_usage :: "json \<Rightarrow> CompletionUsage option" where
  "as_usage j = (case j of
     JObj ps \<Rightarrow>
       (case (as_int (field ps ''prompt_tokens''), as_int (field ps ''completion_tokens''), as_int (field ps ''total_tokens'')) of
          (Some p, Some c, Some t) \<Rightarrow> Some \<lparr>prompt_tokens = p, completion_tokens = c, total_tokens = t\<rparr> | _ \<Rightarrow> None)
   | _ \<Rightarrow> None)"

definition as_choice :: "json \<Rightarrow> ChatCompletionChoice option" where
  "as_choice j = (case j of
     JObj ps \<Rightarrow>
       (case (as_int (field ps ''index''), as_obj (field ps ''message''),
              nullable (\<lambda>x. Option.bind (as_str x) read_finish) (field ps ''finish_reason'')) of
          (Some i, Some ms, Some fr) \<Rightarrow>
            (case (nullable as_str (field ms ''content''), nullable (as_list as_tool_call) (field ms ''tool_calls'')) of
               (Some c, Some tcs) \<Rightarrow> Some \<lparr>ch_index = i, ch_content = c, ch_tool_calls = tcs, ch_finish_reason = fr\<rparr>
             | _ \<Rightarrow> None)
        | _ \<Rightarrow> None)
   | _ \<Rightarrow> None)"

definition as_response :: "json \<Rightarrow> ChatCompletionResponse option" where
  "as_response j = (case j of
     JObj ps \<Rightarrow>
       (case (as_str (field ps ''id''), as_int (field ps ''created''), as_str (field ps ''model''),
              as_list as_choice (field ps ''choices''), as_usage (field ps ''usage''),
              nullable as_str (field ps ''system_fingerprint'')) of
          (Some i, Some c, Some m, Some cs, Some u, Some f) \<Rightarrow>
            Some \<lparr>rs_id = i, rs_created = c, rs_model = m, rs_choices = cs, rs_usage = u, rs_system_fingerprint = f\<rparr>
        | _ \<Rightarrow> None)
   | _ \<Rightarrow> None)"

section \<open>Round trips\<close>

lemma read_finish_text [simp]: "read_finish (finish_text r) = Some r"
  by (cases r) (simp_all add: read_finish_def)

lemma as_int_json [simp]: "as_int (int_json i) = Some i"
  by (simp add: int_json_def)

lemma as_tool_call_json [simp]: "as_tool_call (tool_call_json c) = Some c"
  by (simp add: as_tool_call_def tool_call_json_def field_Cons)

lemma as_usage_json [simp]: "as_usage (usage_json u) = Some u"
  by (simp add: as_usage_def usage_json_def field_Cons)

lemma field_single: "field (or_absent k f x) k' = (if k' = k then or_null f x else JNull)"
  by (cases x) (simp_all add: or_absent_def or_null_def field_def)

lemma tool_calls_json: "nullable (as_list as_tool_call) (or_null (\<lambda>cs. JArr (map tool_call_json cs)) x) = Some x"
  by (rule nullable_or_null) (simp add: as_list_JArr)

lemma as_choice_json [simp]: "as_choice (choice_json c) = Some c"
proof -
  have "nullable as_str (or_null JStr (ch_content c)) = Some (ch_content c)"
    by (rule nullable_or_null) simp
  moreover have "nullable (\<lambda>x. Option.bind (as_str x) read_finish) (or_null (\<lambda>r. JStr (finish_text r)) (ch_finish_reason c)) =
      Some (ch_finish_reason c)"
    by (rule nullable_or_null) simp
  ultimately show ?thesis
    by (simp add: as_choice_def choice_json_def field_Cons field_single tool_calls_json)
qed

lemma as_response_json: "as_response (response_json r) = Some r"
proof -
  have "nullable as_str (or_null JStr (rs_system_fingerprint r)) = Some (rs_system_fingerprint r)"
    by (rule nullable_or_null) simp
  then show ?thesis
    by (simp add: as_response_def response_json_def field_Cons field_single as_list_JArr)
qed

lemma wf_int_json [simp]: "wf_json (int_json i)"
  by (simp add: int_json_def wf_num_def)

lemma wf_dec_json [simp]: "wf_json (dec_json d) = wf_num (fst d) (snd d)"
  by (simp add: dec_json_def)

lemma wf_or_null [simp]: "(\<And>a. x = Some a \<Longrightarrow> wf_json (f a)) \<Longrightarrow> wf_json (or_null f x)"
  by (cases x) (simp_all add: or_null_def)

lemma list_all_or_absent: "list_all P (or_absent k f x) = (case x of None \<Rightarrow> True | Some a \<Rightarrow> P (k, f a))"
  by (cases x) (simp_all add: or_absent_def)

lemma fst_or_absent: "map fst (or_absent k f x) = (if x = None then [] else [k])"
  by (cases x) (simp_all add: or_absent_def)

lemmas wf_obj_simps = own_ordered_names array_index_name char_digit_def list_all_append list_all_or_absent
  fst_or_absent list.pred_map comp_def list.pred_True

lemma wf_tool_call_json [simp]: "wf_json (tool_call_json c)"
  by (simp add: tool_call_json_def wf_obj_simps)

lemma wf_choice_json [simp]: "wf_json (choice_json c)"
  by (simp add: choice_json_def wf_obj_simps split: option.split)

lemma wf_usage_json [simp]: "wf_json (usage_json u)"
  by (simp add: usage_json_def wf_obj_simps)

lemma wf_response_json: "wf_json (response_json r)"
  by (simp add: response_json_def wf_obj_simps split: option.split)

end
