(* ===== verification/Cache.thy ===== *)
theory Cache
  imports Redis_Service OpenAI_Types
begin

text \<open>
  The response cache of \<open>src/cache/index.ts\<close>: which requests are eligible, the canonical
  serialisation behind the key, the reads and writes in Redis with their statistics, and the
  flush.  The digest, the collation of \<open>localeCompare\<close> and the pages of a \<open>SCAN\<close> are parameters.
\<close>

section \<open>Canonical serialisation\<close>

fun sortValue :: "(string \<Rightarrow> string \<Rightarrow> int) \<Rightarrow> json \<Rightarrow> json" where
  "sortValue cmp (JArr xs) = JArr (map (sortValue cmp) xs)"
| "sortValue cmp (JObj ps) =
     (let qs = map (\<lambda>(k, v). (k, sortValue cmp v)) ps
      in JObj (foldl (\<lambda>acc k. obj_set k (field qs k) acc) [] (sort_by cmp (map fst ps))))"
| "sortValue cmp j = j"

definition canonicalStringify :: "(string \<Rightarrow> string \<Rightarrow> int) \<Rightarrow> json \<Rightarrow> string" where
  "canonicalStringify cmp j = stringify (sortValue cmp j)"

section \<open>Keys and eligibility\<close>

record 's cache_env =
  ce_redis :: "'s redis_env"
  ce_prefix :: key_prefix
  ce_sha :: "string \<Rightarrow> string"
  ce_compare :: "string \<Rightarrow> string \<Rightarrow> int"
  ce_scan :: "string \<Rightarrow> 's \<Rightarrow> (redis_error, string \<times> string list) result \<times> 's"
  CACHE_ENABLED :: bool
  CACHE_DEFAULT_TTL_SECONDS :: int
  CACHE_MAX_VALUE_BYTES :: nat

definition isEligible :: "'s cache_env \<Rightarrow> ChatCompletionRequest \<Rightarrow> bool" where
  "isEligible C r =
     (if \<not> CACHE_ENABLED C then False
      else if (case rq_temperature r of Some t \<Rightarrow> dec_value t \<noteq> 0 | None \<Rightarrow> True) then False
      else if rq_stream r = Some True then False
      else if (case rq_tools r of Some ts \<Rightarrow> length ts > 0 | None \<Rightarrow> False) then False
      else if rq_seed r = None then False
      else True)"

definition key_object :: "ChatCompletionRequest \<Rightarrow> json" where
  "key_object r = JObj
     [(''model'', JStr (rq_model r)),
      (''messages'', JArr (map message_json (rq_messages r))),
      (''top_p'', or_null dec_json (rq_top_p r)),
      (''max_tokens'', or_null int_json (nullish_opt (rq_max_tokens r) (rq_max_completion_tokens r))),
      (''seed'', or_null int_json (rq_seed r)),
      (''stop'', or_null stop_json (rq_stop r)),
      (''n'', or_null int_json (rq_n r)),
      (''presence_penalty'', or_null dec_json (rq_presence_penalty r)),
      (''frequency_penalty'', or_null dec_json (rq_frequency_penalty r)),
      (''logit_bias'', or_null (\<lambda>b. JObj (map (\<lambda>(k, d). (k, dec_json d)) b)) (rq_logit_bias r)),
      (''response_format'', or_null JObj (rq_response_format r))]"

definition computeKey :: "'s cache_env \<Rightarrow> ChatCompletionRequest \<Rightarrow> string" where
  "computeKey C r = ce_sha C (canonicalStringify (ce_compare C) (key_object r))"

section \<open>Operations\<close>

definition statKey :: "'s cache_env \<Rightarrow> string \<Rightarrow> string" where
  "statKey C name = ce_prefix C @ ''cstats:'' @ name"

definition bumpStat :: "'s cache_env \<Rightarrow> string \<Rightarrow> 's \<Rightarrow> 's" where
  "bumpStat C name s = snd (round_trip (ce_redis C) (command (INCR (statKey C name))) s)"

text \<open>
  A stored text that is no JSON, or (which no replica writes) no response, reads as a miss.
\<close>

definition cache_get ::
  "'s cache_env \<Rightarrow> ChatCompletionRequest \<Rightarrow> 's \<Rightarrow> ChatCompletionResponse option \<times> 's" where
  "cache_get C r s =
     (let key = cacheEntry (ce_prefix C) (computeKey C r) in
      case round_trip (ce_redis C) (command (GET key)) s of
        (Inl e, s1) \<Rightarrow> (None, s1)
      | (Inr RNil, s1) \<Rightarrow> (None, bumpStat C ''misses'' s1)
      | (Inr (RBulk (VStr raw)), s1) \<Rightarrow>
          (case json_parse raw of
             None \<Rightarrow> (None, s1)
           | Some j \<Rightarrow> (case as_response j of None \<Rightarrow> (None, s1) | Some resp \<Rightarrow> (Some resp, bumpStat C ''hits'' s1)))
      | (Inr _, s1) \<Rightarrow> (None, s1))"

text \<open>\<open>Buffer.byteLength(\<dots>, 'utf8')\<close>: two bytes from code unit 128 on.\<close>

definition utf8_length :: "string \<Rightarrow> nat" where
  "utf8_length w = (\<Sum>c\<leftarrow>w. if (of_char c :: nat) < 128 then 1 else 2)"

definition cache_set ::
  "'s cache_env \<Rightarrow> ChatCompletionRequest \<Rightarrow> ChatCompletionResponse \<Rightarrow> 's \<Rightarrow> 's" where
  "cache_set C r resp s =
     (let payload = stringify (response_json resp) in
      if utf8_length payload > CACHE_MAX_VALUE_BYTES C then s
      else snd (round_trip (ce_redis C)
             (command (SET_PX (cacheEntry (ce_prefix C) (computeKey C r)) (VStr payload)
               (1000 * CACHE_DEFAULT_TTL_SECONDS C))) s))"

definition cache_invalidate :: "'s cache_env \<Rightarrow> ChatCompletionRequest \<Rightarrow> 's \<Rightarrow> 's" where
  "cache_invalidate C r s =
     snd (round_trip (ce_redis C) (command (DEL [cacheEntry (ce_prefix C) (computeKey C r)])) s)"

text \<open>
  The flush follows the cursor until it returns to \<open>0\<close>; a \<open>SCAN\<close> that never does keeps it
  running, which is \<open>None\<close>.  A failure ends it with what was removed so far.
\<close>

partial_function (option) flush_loop :: "'s cache_env \<Rightarrow> string \<Rightarrow> int \<Rightarrow> 's \<Rightarrow> (int \<times> 's) option" where
  "flush_loop C cursor removed s =
     (case ce_scan C cursor s of
        (Inl e, s1) \<Rightarrow> Some (removed, s1)
      | (Inr (nxt, batch), s1) \<Rightarrow>
          (case (if batch = [] then (Inr (RInt 0), s1) else round_trip (ce_redis C) (command (DEL batch)) s1) of
             (Inl e, s2) \<Rightarrow> Some (removed, s2)
           | (Inr n, s2) \<Rightarrow>
               if nxt \<noteq> ''0'' then flush_loop C nxt (removed + int_reply n) s2
               else Some (removed + int_reply n, s2)))"

definition cache_flush :: "'s cache_env \<Rightarrow> 's \<Rightarrow> (int \<times> 's) option" where
  "cache_flush C s = flush_loop C ''0'' 0 s"

section \<open>Values up to the order of object keys\<close>

inductive same_json :: "json \<Rightarrow> json \<Rightarrow> bool" where
  atom: "as_arr j = None \<Longrightarrow> as_obj j = None \<Longrightarrow> same_json j j"
| arr: "list_all2 same_json xs ys \<Longrightarrow> same_json (JArr xs) (JArr ys)"
| obj: "set (map fst ps) = set (map fst qs) \<Longrightarrow>
    (\<And>k v w. map_of ps k = Some v \<Longrightarrow> map_of qs k = Some w \<Longrightarrow> same_json v w) \<Longrightarrow>
    same_json (JObj ps) (JObj qs)"

inductive_cases same_arr: "same_json (JArr xs) j"
inductive_cases same_obj: "same_json (JObj ps) j"

fun json_keys :: "json \<Rightarrow> string set" where
  "json_keys (JArr xs) = (\<Union>x\<in>set xs. json_keys x)"
| "json_keys (JObj ps) = set (map fst ps) \<union> (\<Union>p\<in>set ps. json_keys (snd p))"
| "json_keys j = {}"

lemma own_ordered_distinct: "own_ordered ps \<Longrightarrow> distinct (map fst ps)"
proof -
  have "distinct (map fst (foldl (\<lambda>acc (k, v). obj_set k v acc) acc ps))" if "distinct (map fst acc)" for acc ps
    using that by (induction ps arbitrary: acc) (auto simp: distinct_obj_set)
  from this [of "[]" ps] show "own_ordered ps \<Longrightarrow> distinct (map fst ps)" by (simp add: own_ordered_def)
qed

section \<open>The canonical form\<close>

lemma precedes_trans: "precedes a b \<Longrightarrow> precedes b c \<Longrightarrow> precedes a c"
  by (auto simp: precedes_def split: option.splits)

text \<open>Property order, as a sortedness condition.\<close>

definition in_own_order :: "(string \<times> 'a) list \<Rightarrow> bool" where
  "in_own_order ps = sorted_wrt (\<lambda>k k'. \<not> precedes k' k) (map fst ps)"

lemma obj_insert_last: "\<forall>p \<in> set ps. \<not> precedes k (fst p) \<Longrightarrow> obj_insert k v ps = ps @ [(k, v)]"
  by (induction ps) auto

lemma in_own_order_insert: "in_own_order ps \<Longrightarrow> in_own_order (obj_insert k v ps)"
proof (induction ps)
  case (Cons p ps)
  obtain k' v' where p: "p = (k', v')" by (cases p)
  show ?case
  proof (cases "precedes k k'")
    case True
    have "\<not> precedes (fst q) k" if "q \<in> set ps" for q
      using Cons.prems that True precedes_trans by (auto simp: in_own_order_def p)
    moreover have "\<not> precedes k' k" using True by (auto simp: precedes_def split: option.splits)
    ultimately show ?thesis using True Cons.prems by (auto simp: in_own_order_def p)
  next
    case False
    with Cons show ?thesis by (auto simp: in_own_order_def p set_obj_insert)
  qed
qed (simp add: in_own_order_def)

lemma in_own_order_set: "in_own_order ps \<Longrightarrow> in_own_order (obj_set k v ps)"
proof (cases "map_of ps k = None")
  case False
  then have "k \<in> set (map fst ps)" by (simp add: map_of_eq_None_iff)
  then have "map fst (AList.update k v ps) = map fst ps" by (simp add: update_keys)
  then show "in_own_order ps \<Longrightarrow> ?thesis" using False by (auto simp: obj_set_def in_own_order_def)
qed (simp add: obj_set_def in_own_order_insert)

lemma own_ordered_iff: "distinct (map fst ps) \<Longrightarrow> in_own_order ps \<Longrightarrow> own_ordered ps"
proof -
  have "foldl (\<lambda>acc (k, v). obj_set k v acc) acc ps = acc @ ps"
    if "distinct (map fst (acc @ ps))" "in_own_order (acc @ ps)" for acc ps :: "(string \<times> 'a) list"
    using that
  proof (induction ps arbitrary: acc)
    case (Cons p ps)
    obtain k v where p: "p = (k, v)" by (cases p)
    have "map_of acc k = None" using Cons.prems(1) by (auto simp: p map_of_eq_None_iff)
    moreover have "obj_insert k v acc = acc @ [(k, v)]"
      using Cons.prems(2) by (intro obj_insert_last) (auto simp: in_own_order_def sorted_wrt_append p)
    ultimately have "obj_set k v acc = acc @ [(k, v)]" by (simp add: obj_set_def)
    with Cons.IH [of "acc @ [(k, v)]"] Cons.prems show ?case by (simp add: p)
  qed simp
  from this [of "[]" ps] show "distinct (map fst ps) \<Longrightarrow> in_own_order ps \<Longrightarrow> own_ordered ps"
    by (simp add: own_ordered_def)
qed

text \<open>Writing the properties \<open>ks\<close> one after the other.\<close>

definition build :: "(string \<Rightarrow> 'a) \<Rightarrow> string list \<Rightarrow> (string \<times> 'a) list" where
  "build f ks = foldl (\<lambda>acc k. obj_set k (f k) acc) [] ks"

lemma build_acc:
  "map_of (foldl (\<lambda>acc k. obj_set k (f k) acc) acc ks) k = (if k \<in> set ks then Some (f k) else map_of acc k)"
  "distinct (map fst acc) \<Longrightarrow> distinct (map fst (foldl (\<lambda>acc k. obj_set k (f k) acc) acc ks))"
  "in_own_order acc \<Longrightarrow> in_own_order (foldl (\<lambda>acc k. obj_set k (f k) acc) acc ks)"
  by (induction ks arbitrary: acc) (auto simp: distinct_obj_set in_own_order_set)

lemma build_simps:
  "map_of (build f ks) k = (if k \<in> set ks then Some (f k) else None)"
  "own_ordered (build f ks)" "distinct (map fst (build f ks))" "fst ` set (build f ks) = set ks"
proof -
  have "in_own_order ([] :: (string \<times> 'a) list)" by (simp add: in_own_order_def)
  note b = build_acc [where acc = "[] :: (string \<times> 'a) list"]
  show m: "map_of (build f ks) k = (if k \<in> set ks then Some (f k) else None)" for k
    by (simp add: build_def b(1))
  show "distinct (map fst (build f ks))" by (simp add: build_def b(2))
  then show "own_ordered (build f ks)"
    by (rule own_ordered_iff) (simp add: build_def b(3) \<open>in_own_order []\<close>)
  have "dom (map_of (build f ks)) = set ks" by (auto simp: dom_def m)
  then show "fst ` set (build f ks) = set ks" by (simp add: dom_map_of_conv_image_fst)
qed

lemma map_of_map_snd: "map_of (map (\<lambda>(k, v). (k, f v)) ps) k = map_option f (map_of ps k)"
  by (induction ps) auto

definition sorted_field :: "(string \<Rightarrow> string \<Rightarrow> int) \<Rightarrow> (string \<times> json) list \<Rightarrow> string \<Rightarrow> json" where
  "sorted_field cmp ps k = (case map_of ps k of None \<Rightarrow> JNull | Some v \<Rightarrow> sortValue cmp v)"

lemma sortValue_JObj: "sortValue cmp (JObj ps) = JObj (build (sorted_field cmp ps) (sort_by cmp (map fst ps)))"
proof -
  have "(\<lambda>acc k. obj_set k (field (map (\<lambda>(k, v). (k, sortValue cmp v)) ps) k) acc) =
      (\<lambda>acc k. obj_set k (sorted_field cmp ps k) acc)"
    by (intro ext) (simp add: field_def sorted_field_def map_of_map_snd split: option.splits)
  then show ?thesis by (simp add: build_def del: map_map)
qed

declare sortValue.simps(2) [simp del]

lemma wf_sortValue: "wf_json j \<Longrightarrow> wf_json (sortValue cmp j)"
proof (induction j)
  case (JObj ps)
  have "wf_json v" if "(k, v) \<in> set (build (sorted_field cmp ps) (sort_by cmp (map fst ps)))" for k v
  proof -
    from that have m: "map_of (build (sorted_field cmp ps) (sort_by cmp (map fst ps))) k = Some v"
      by (simp add: map_of_eq_Some_iff [OF build_simps(3)])
    then have "v = sorted_field cmp ps k" by (auto simp: build_simps split: if_splits)
    with JObj show ?thesis
      by (fastforce simp: sorted_field_def list_all_iff split: option.splits dest: map_of_SomeD)
  qed
  then show ?case by (auto simp: sortValue_JObj build_simps list_all_iff)
next
  case (JArr xs)
  then show ?case by (auto simp: list_all_iff)
qed auto

lemma same_json_sortValue:
  assumes "same_json i j" "wf_json i" "wf_json j" "compares cmp (json_keys i)"
  shows "sortValue cmp i = sortValue cmp j"
  using assms
proof (induction rule: same_json.induct)
  case (arr xs ys)
  have "list_all2 (\<lambda>x y. sortValue cmp x = sortValue cmp y) xs ys"
    using arr.IH arr.prems
  proof (induction xs ys rule: list_all2_induct)
    case (Cons x xs y ys)
    have "compares cmp (json_keys x)" "compares cmp (json_keys (JArr xs))"
      using Cons.prems(3) by (auto intro: compares_mono)
    with Cons show ?case by auto
  qed simp
  then show ?case by (simp add: list_all2_conv_all_nth list_eq_iff_nth_eq)
next
  case (obj ps qs)
  have d: "distinct (map fst ps)" "distinct (map fst qs)" using obj.prems by (auto dest: own_ordered_distinct)
  have ks: "sort_by cmp (map fst ps) = sort_by cmp (map fst qs)"
    by (rule sort_by_unique [OF compares_mono [OF obj.prems(3)] d obj.hyps(1)]) auto
  have "sorted_field cmp ps k = sorted_field cmp qs k" if k: "k \<in> set (map fst ps)" for k
  proof -
    from k obj.hyps obtain v w where vw: "map_of ps k = Some v" "map_of qs k = Some w"
      by (metis map_of_eq_None_iff not_None_eq set_map)
    then have mem: "(k, v) \<in> set ps" "(k, w) \<in> set qs" by (auto dest: map_of_SomeD)
    then have "json_keys v \<subseteq> json_keys (JObj ps)" by force
    then have "compares cmp (json_keys v)" by (rule compares_mono [OF obj.prems(3)])
    moreover have "wf_json v" "wf_json w" using obj.prems mem by (auto simp: list_all_iff)
    ultimately have "sortValue cmp v = sortValue cmp w" using obj.IH [OF vw] by blast
    with vw show ?thesis by (simp add: sorted_field_def)
  qed
  note e = this
  have "build (sorted_field cmp ps) ls = build (sorted_field cmp qs) ls" if "set ls \<subseteq> set (map fst ps)" for ls
  proof -
    have "sorted_field cmp ps x = sorted_field cmp qs x" if "x \<in> set ls" for x
      using that \<open>set ls \<subseteq> set (map fst ps)\<close> by (intro e) auto
    then show ?thesis unfolding build_def by (intro foldl_cong) simp_all
  qed
  from this [of "sort_by cmp (map fst ps)"] ks obj.hyps(1) show ?case by (simp add: sortValue_JObj)
qed simp

lemma atom_same:
  assumes "as_arr i = None" "as_obj i = None" "sortValue cmp i = sortValue cmp j"
  shows "same_json i j"
proof -
  have "i = j" using assms by (cases i; cases j) (simp_all add: sortValue_JObj)
  with assms show ?thesis by (auto intro: same_json.atom)
qed

lemma sortValue_same_json: "sortValue cmp i = sortValue cmp j \<Longrightarrow> same_json i j"
proof (induction i arbitrary: j)
  case (JArr xs)
  from JArr.prems obtain ys where ys: "j = JArr ys" by (cases j) (auto simp: sortValue_JObj)
  with JArr.prems have "map (sortValue cmp) xs = map (sortValue cmp) ys" by simp
  then have l: "length xs = length ys" by (metis length_map)
  have "same_json (xs ! n) (ys ! n)" if n: "n < length xs" for n
  proof (rule JArr.IH)
    show "xs ! n \<in> set xs" using n by simp
    show "sortValue cmp (xs ! n) = sortValue cmp (ys ! n)"
      using \<open>map (sortValue cmp) xs = map (sortValue cmp) ys\<close> n l by (metis nth_map)
  qed
  with l show ?case unfolding ys by (auto intro!: same_json.arr simp: list_all2_conv_all_nth)
next
  case (JObj ps)
  from JObj.prems obtain qs where qs: "j = JObj qs" by (cases j) (auto simp: sortValue_JObj)
  with JObj.prems have b: "build (sorted_field cmp ps) (sort_by cmp (map fst ps)) = build (sorted_field cmp qs) (sort_by cmp (map fst qs))"
    by (simp add: sortValue_JObj)
  from arg_cong [OF b, of "\<lambda>x. fst ` set x"] have keys: "set (map fst ps) = set (map fst qs)"
    by (simp add: build_simps)
  have "same_json v w" if vw: "map_of ps k = Some v" "map_of qs k = Some w" for k v w
  proof -
    have k: "k \<in> set (map fst ps)" using vw(1) by (auto dest: map_of_SomeD intro: rev_image_eqI)
    from arg_cong [OF b, of "\<lambda>x. map_of x k"] k keys have "sorted_field cmp ps k = sorted_field cmp qs k"
      by (auto simp: build_simps)
    with vw have "sortValue cmp v = sortValue cmp w" by (simp add: sorted_field_def)
    then show ?thesis using JObj.IH [of "(k, v)" v w] vw(1) by (auto dest: map_of_SomeD)
  qed
  with keys show ?case unfolding qs by (rule same_json.obj)
qed (erule atom_same [rotated 2]; simp)+

lemma canonical_exact:
  assumes "wf_json i" and "wf_json j" and "compares cmp (json_keys i)"
  shows "canonicalStringify cmp i = canonicalStringify cmp j \<longleftrightarrow> same_json i j"
proof
  assume "canonicalStringify cmp i = canonicalStringify cmp j"
  then have "sortValue cmp i = sortValue cmp j"
    unfolding canonicalStringify_def by (rule stringify_inj [OF wf_sortValue [OF assms(1)] wf_sortValue [OF assms(2)]])
  then show "same_json i j" by (rule sortValue_same_json)
next
  assume "same_json i j"
  from same_json_sortValue [OF this assms] show "canonicalStringify cmp i = canonicalStringify cmp j"
    by (simp add: canonicalStringify_def)
qed

text \<open>
  The canonical serialisation is exact: two values serialise alike if and only if they
  agree up to the order of object keys (array order, and so message order, is significant),
  as long as no two distinct keys collate as equal.
\<close>

theorem canonical_iff:
  assumes "wf_json i" and "wf_json j" and "compares cmp (json_keys i)"
  shows "canonicalStringify cmp i = canonicalStringify cmp j \<longleftrightarrow> same_json i j"
  using assms by (rule canonical_exact)

text \<open>The comparison by code units, a collation that never calls distinct keys equal.\<close>

definition by_code_units :: "string \<Rightarrow> string \<Rightarrow> int" where
  "by_code_units a b = (if a = b then 0 else if a < b then - 1 else 1)"

lemma by_code_units_compares: "compares by_code_units A"
  by (auto simp: compares_def by_code_units_def split: if_splits)

theorem canonical_iff_witness:
  "canonicalStringify by_code_units (JObj [(''b'', JNum 1 0), (''a'', JNull)]) =
   canonicalStringify by_code_units (JObj [(''a'', JNull), (''b'', JNum 1 0)])"
proof -
  let ?i = "JObj [(''b'', JNum 1 0), (''a'', JNull)]" and ?j = "JObj [(''a'', JNull), (''b'', JNum 1 0)]"
  have "same_json JNull JNull" "same_json (JNum 1 0) (JNum 1 0)" by (rule same_json.atom; simp)+
  then have "same_json ?i ?j" by (intro same_json.obj) (auto split: if_splits)
  moreover have "wf_json ?i" "wf_json ?j" by (simp_all add: wf_obj_simps wf_num_def)
  ultimately show ?thesis using canonical_iff [OF _ _ by_code_units_compares] by blast
qed

section \<open>Well-formed requests\<close>

definition wf_dec :: "decimal option \<Rightarrow> bool" where
  "wf_dec d = (case d of None \<Rightarrow> True | Some (m, k) \<Rightarrow> wf_num m k)"

text \<open>Numbers in lowest terms and objects in property order, as \<open>JSON.parse\<close> delivers them.\<close>

definition wf_request :: "ChatCompletionRequest \<Rightarrow> bool" where
  "wf_request r \<longleftrightarrow> wf_dec (rq_top_p r) \<and> wf_dec (rq_presence_penalty r) \<and> wf_dec (rq_frequency_penalty r) \<and>
     (case rq_logit_bias r of None \<Rightarrow> True | Some b \<Rightarrow> own_ordered (map (\<lambda>(k, d). (k, dec_json d)) b) \<and> list_all (\<lambda>p. wf_dec (Some (snd p))) b) \<and>
     (case rq_response_format r of None \<Rightarrow> True | Some f \<Rightarrow> wf_json (JObj f))"

lemma wf_content_json [simp]: "wf_json (content_json c)"
proof -
  have "wf_json (part_json p)" for p by (cases p) (simp_all add: wf_obj_simps split: option.split)
  then show ?thesis by (cases c) (simp_all add: list.pred_map comp_def list.pred_True)
qed

lemma wf_message_json [simp]: "wf_json (message_json m)"
  by (cases m) (simp_all add: wf_obj_simps split: option.split)

lemma wf_stop_json [simp]: "wf_json (stop_json x)"
  by (cases x) (simp_all add: list.pred_map comp_def list.pred_True)

lemma wf_dec_json_option: "wf_dec d \<Longrightarrow> wf_json (or_null dec_json d)"
  by (cases d) (auto simp: wf_dec_def or_null_def)

lemma wf_key_object: "wf_request r \<Longrightarrow> wf_json (key_object r)"
proof -
  assume w: "wf_request r"
  have "wf_json (or_null (\<lambda>b. JObj (map (\<lambda>(k, d). (k, dec_json d)) b)) (rq_logit_bias r))"
    using w by (cases "rq_logit_bias r") (auto simp: wf_request_def or_null_def list_all_iff wf_dec_def)
  moreover have "wf_json (or_null JObj (rq_response_format r))"
    using w by (cases "rq_response_format r") (auto simp: wf_request_def or_null_def)
  moreover have "wf_dec (rq_top_p r)" "wf_dec (rq_presence_penalty r)" "wf_dec (rq_frequency_penalty r)"
    using w by (simp_all add: wf_request_def)
  note this [THEN wf_dec_json_option]
  ultimately show ?thesis unfolding key_object_def
    by (simp add: own_ordered_names array_index_name char_digit_def list.pred_map comp_def list.pred_True)
qed

section \<open>Histories\<close>

datatype cache_event =
    CacheGet ChatCompletionRequest
  | CacheSet ChatCompletionRequest ChatCompletionResponse
  | CacheInvalidate ChatCompletionRequest

fun cache_step :: "'s cache_env \<Rightarrow> cache_event \<Rightarrow> 's \<Rightarrow> 's" where
  "cache_step C (CacheGet r) s = snd (cache_get C r s)"
| "cache_step C (CacheSet r resp) s = cache_set C r resp s"
| "cache_step C (CacheInvalidate r) s = cache_invalidate C r s"

definition cached_response ::
  "'s cache_env \<Rightarrow> cache_event set \<Rightarrow> string \<Rightarrow> string \<Rightarrow> bool" where
  "cached_response C S h w =
     (\<exists>r resp. CacheSet r resp \<in> S \<and> computeKey C r = h \<and> w = stringify (response_json resp))"

lemma statKey_not_entry: "statKey C name \<noteq> cacheEntry (ce_prefix C) h"
  by (simp add: statKey_def cacheEntry_def)

lemma cached_text: "json_parse (stringify (response_json resp)) = Some (response_json resp)"
  by (simp add: json_round_trip wf_response_json)

locale cache_service = redis_service "ce_redis C" view
  for C :: "'s cache_env" and view :: "'s \<Rightarrow> db"
begin

abbreviation holds :: "cache_event set \<Rightarrow> 's \<Rightarrow> bool" where
  "holds S s \<equiv> text_entries (cached_response C S) (cacheEntry (ce_prefix C)) (view s)"

lemma command_holds: "keeps_entries (cached_response C S) (cacheEntry (ce_prefix C)) c \<Longrightarrow> holds S s \<Longrightarrow>
    holds S (snd (round_trip (ce_redis C) (command c) s))"
  using round_trip_entries [OF prod.collapse [symmetric]] by blast

lemma bumpStat_holds: "holds S s \<Longrightarrow> holds S (bumpStat C name s)"
  unfolding bumpStat_def by (rule command_holds) (simp_all add: keeps_entries_def statKey_not_entry)

lemma cache_get_holds:
  assumes "holds S s" and "cache_get C r s = (x, s')"
  shows "holds S s' \<and> (\<forall>resp. x = Some resp \<longrightarrow> (\<exists>r'. CacheSet r' resp \<in> S \<and> computeKey C r' = computeKey C r))"
proof -
  let ?key = "cacheEntry (ce_prefix C) (computeKey C r)"
  obtain q s1 where get: "round_trip (ce_redis C) (command (GET ?key)) s = (q, s1)" by fastforce
  have ok: "holds S s1" by (rule round_trip_entries [OF get _ assms(1)]) (simp add: keeps_entries_def)
  note bump = bumpStat_holds [OF ok]
  show ?thesis
  proof (cases "\<exists>w. q = Inr (RBulk (VStr w))")
    case True
    then obtain w where q: "q = Inr (RBulk (VStr w))" by blast
    from round_trip_entry [OF get [unfolded q] assms(1)] obtain r' resp where
      e: "CacheSet r' resp \<in> S" "computeKey C r' = computeKey C r" "w = stringify (response_json resp)"
      by (auto simp: cached_response_def)
    then show ?thesis using assms(2) bump
      by (auto simp: cache_get_def Let_def get q cached_text as_response_json)
  next
    case False
    then have "s' = s1 \<or> s' = bumpStat C ''misses'' s1" "x = None"
      using assms(2) by (auto simp: cache_get_def Let_def get split: sum.splits rreply.splits rval.splits)
    with ok bump show ?thesis by auto
  qed
qed

lemma cache_step_holds: "holds S s \<Longrightarrow> x \<in> S \<Longrightarrow> holds S (cache_step C x s)"
proof (cases x)
  case (CacheGet r)
  then show "holds S s \<Longrightarrow> ?thesis" using cache_get_holds [of S s r, OF _ prod.collapse [symmetric]] by auto
next
  case (CacheSet r resp)
  have "cached_response C S (computeKey C r) (stringify (response_json resp))" if "x \<in> S"
    using that CacheSet unfolding cached_response_def by blast
  then show "holds S s \<Longrightarrow> x \<in> S \<Longrightarrow> ?thesis"
    by (auto simp: CacheSet cache_set_def Let_def keeps_entries_def intro!: command_holds)
next
  case (CacheInvalidate r)
  then show "holds S s \<Longrightarrow> ?thesis"
    by (auto simp: cache_invalidate_def keeps_entries_def intro!: command_holds)
qed

lemma cache_run_holds: "holds S s \<Longrightarrow> set xs \<subseteq> S \<Longrightarrow> holds S (fold (cache_step C) xs s)"
  by (induction xs arbitrary: s) (simp_all add: cache_step_holds)

end

lemma same_obj_field:
  "same_json (JObj ps) (JObj qs) \<Longrightarrow> map_of ps k = Some v \<Longrightarrow> map_of qs k = Some w \<Longrightarrow> same_json v w"
  by (erule same_obj) blast



definition demo_request :: ChatCompletionRequest where
  "demo_request = \<lparr>rq_model = ''gpt-4o'', rq_messages = [UserMessage (ContentText ''hi'') None],
     rq_temperature = Some (0, 0), rq_top_p = None, rq_n = None, rq_stream = None, rq_include_usage = None,
     rq_stop = None, rq_max_tokens = Some 5, rq_max_completion_tokens = None, rq_presence_penalty = None,
     rq_frequency_penalty = None, rq_logit_bias = None, rq_user = None, rq_seed = Some 1, rq_tools = None,
     rq_tool_choice = None, rq_response_format = None, rq_extra = []\<rparr>"

definition demo_response :: ChatCompletionResponse where
  "demo_response = \<lparr>rs_id = ''x'', rs_created = 0, rs_model = ''gpt-4o'', rs_choices = [],
     rs_usage = \<lparr>prompt_tokens = 1, completion_tokens = 2, total_tokens = 3\<rparr>, rs_system_fingerprint = None\<rparr>"

definition ref_cache :: "(string \<Rightarrow> string) \<Rightarrow> nat \<Rightarrow> ref_server cache_env" where
  "ref_cache sha cap = \<lparr>ce_redis = ref_env, ce_prefix = ''gw:'', ce_sha = sha, ce_compare = by_code_units,
     ce_scan = (\<lambda>c s. (Inr (''0'', []), s)), CACHE_ENABLED = True, CACHE_DEFAULT_TTL_SECONDS = 60,
     CACHE_MAX_VALUE_BYTES = cap\<rparr>"

interpretation ref_cache: cache_service "ref_cache sha cap" rs_db for sha cap
  using ref_redis_service by (simp add: cache_service_def ref_cache_def)

lemma demo_request_wf: "wf_request demo_request"
  by (simp add: wf_request_def demo_request_def wf_dec_def)

lemma demo_cached:
  "fst (cache_get (ref_cache sha cap) r (cache_set (ref_cache sha cap) r demo_response (ref_init 0))) =
     (if utf8_length (stringify (response_json demo_response)) > cap then None else Some demo_response)"
  by (simp add: cache_get_def cache_set_def ref_cache_def Let_def round_trip_def ref_env_def ref_init_def ref_tick_def
      ref_call_def command_def cached_text as_response_json)


text \<open>
  The key does not cover the whole request: parameters that the schemas let through to the
  provider, and \<open>max_completion_tokens\<close> next to \<open>max_tokens\<close>, can differ between two eligible
  requests that share one cache entry.
\<close>

lemma cache_key_ignores:
  "computeKey C (r\<lparr>rq_extra := e\<rparr>) = computeKey C (r\<lparr>rq_extra := e'\<rparr>) \<and>
   computeKey C (r\<lparr>rq_max_tokens := Some m, rq_max_completion_tokens := a\<rparr>) =
     computeKey C (r\<lparr>rq_max_tokens := Some m, rq_max_completion_tokens := b\<rparr>) \<and>
   isEligible C (r\<lparr>rq_extra := e\<rparr>) = isEligible C r \<and>
   isEligible C (r\<lparr>rq_max_completion_tokens := a\<rparr>) = isEligible C r"
  by (simp add: computeKey_def key_object_def isEligible_def)

end
