(* ===== verification/Registry.thy ===== *)
theory Registry
  imports Load_Balancer "HOL-Library.AList"
begin

text \<open>
  The provider registry of \<open>src/providers/registry.ts\<close>: turning database rows into a snapshot of
  adapters and candidate lists, resolving a requested model to candidates through the alias
  table, and the refresh protocol that keeps the snapshot fresh.  The database query and the
  decryption of credentials are parameters.  A JavaScript \<open>Map\<close> is an association list:
  \<open>set\<close> on a known key keeps its position, which is \<open>AList.update\<close>.
\<close>

section \<open>Rows\<close>

record provider_model_row =
  mr_modelId :: string
  mr_displayName :: "string option"
  mr_contextWindow :: "int option"
  mr_maxOutputTokens :: "int option"
  mr_inputPricePer1k :: "string option"
  mr_outputPricePer1k :: "string option"
  mr_supportsStreaming :: bool
  mr_supportsTools :: bool
  mr_supportsVision :: bool

record provider_row =
  pr_id :: string
  pr_name :: string
  pr_adapterType :: AdapterType
  pr_baseUrl :: string
  pr_encryptedApiKey :: string
  pr_timeoutMs :: int
  pr_weight :: int
  pr_priority :: int
  pr_models :: "provider_model_row list"

text \<open>
  \<open>Number(text)\<close> on the text of a numeric column: an optional sign, digits and an optional
  fraction; \<open>NaN\<close> and \<open>Infinity\<close>, the other texts such a column yields, are not finite.
\<close>

definition unsigned_decimal :: "string \<Rightarrow> rat option" where
  "unsigned_decimal s =
     (case split_at (CHR ''.'') s of
        [w] \<Rightarrow> map_option of_nat (read_nat w)
      | [w, f] \<Rightarrow> (case (read_nat w, read_nat f) of
                    (Some a, Some b) \<Rightarrow> Some (of_nat a + of_nat b / 10 ^ length f) | _ \<Rightarrow> None)
      | _ \<Rightarrow> None)"

definition parseNumeric :: "string option \<Rightarrow> rat option" where
  "parseNumeric v = (case v of
     None \<Rightarrow> None
   | Some s \<Rightarrow> (case s of
       [] \<Rightarrow> Some 0
     | c # t \<Rightarrow> if c = CHR ''-'' then map_option uminus (unsigned_decimal t) else unsigned_decimal s))"

section \<open>Loading a snapshot\<close>

record ModelCandidate =
  mc_provider :: BaseProvider
  mc_model :: ProviderModelInfo

record snapshot =
  providersById :: "(string \<times> BaseProvider) list"
  candidatesByModel :: "(string \<times> ModelCandidate list) list"

definition empty_snapshot :: snapshot where
  "empty_snapshot = \<lparr>providersById = [], candidatesByModel = []\<rparr>"

definition model_info :: "provider_model_row \<Rightarrow> ProviderModelInfo" where
  "model_info m = \<lparr>mi_modelId = mr_modelId m, mi_displayName = mr_displayName m,
     mi_contextWindow = mr_contextWindow m, mi_maxOutputTokens = mr_maxOutputTokens m,
     mi_inputPricePer1k = parseNumeric (mr_inputPricePer1k m),
     mi_outputPricePer1k = parseNumeric (mr_outputPricePer1k m),
     mi_supportsStreaming = mr_supportsStreaming m, mi_supportsTools = mr_supportsTools m,
     mi_supportsVision = mr_supportsVision m\<rparr>"

definition row_models :: "provider_row \<Rightarrow> (string \<times> ProviderModelInfo) list" where
  "row_models row = fold (\<lambda>m ms. AList.update (mr_modelId m) (model_info m) ms) (pr_models row) []"

definition row_provider :: "provider_row \<Rightarrow> string \<Rightarrow> BaseProvider" where
  "row_provider row apiKey = \<lparr>p_id = pr_id row, p_name = pr_name row, p_adapterType = pr_adapterType row,
     p_baseUrl = pr_baseUrl row, p_apiKey = apiKey, p_timeoutMs = pr_timeoutMs row, p_weight = pr_weight row,
     p_priority = pr_priority row, p_models = row_models row\<rparr>"

definition candidates_of :: "(string \<times> ModelCandidate list) list \<Rightarrow> string \<Rightarrow> ModelCandidate list" where
  "candidates_of byModel modelId = (case map_of byModel modelId of None \<Rightarrow> [] | Some cs \<Rightarrow> cs)"

definition push_candidate ::
  "BaseProvider \<Rightarrow> ProviderModelInfo \<Rightarrow> (string \<times> ModelCandidate list) list \<Rightarrow> (string \<times> ModelCandidate list) list" where
  "push_candidate adapter info byModel =
     AList.update (mi_modelId info)
       (candidates_of byModel (mi_modelId info) @ [\<lparr>mc_provider = adapter, mc_model = info\<rparr>]) byModel"

definition load_row :: "(string \<Rightarrow> (thrown, string) result) \<Rightarrow> provider_row \<Rightarrow> snapshot \<Rightarrow> snapshot" where
  "load_row decrypt row snap =
     (case decrypt (pr_encryptedApiKey row) of
        Inl e \<Rightarrow> snap
      | Inr apiKey \<Rightarrow>
          (let adapter = row_provider row apiKey
           in \<lparr>providersById = AList.update (pr_id row) adapter (providersById snap),
               candidatesByModel =
                 fold (push_candidate adapter) (listModels adapter) (candidatesByModel snap)\<rparr>))"

definition by_priority :: "ModelCandidate \<Rightarrow> ModelCandidate \<Rightarrow> int" where
  "by_priority a b = p_priority (mc_provider a) - p_priority (mc_provider b)"

definition load_snapshot :: "(string \<Rightarrow> (thrown, string) result) \<Rightarrow> provider_row list \<Rightarrow> snapshot" where
  "load_snapshot decrypt rows =
     (let snap = fold (load_row decrypt) rows empty_snapshot
      in snap\<lparr>candidatesByModel := map (\<lambda>(m, cs). (m, sort_by by_priority cs)) (candidatesByModel snap)\<rparr>)"

section \<open>Resolution\<close>

definition MODEL_ALIASES :: "(string \<times> string) list" where
  "MODEL_ALIASES = [(''gpt-4'', ''gpt-4o''), (''gpt-4-turbo'', ''gpt-4o''),
     (''gpt-3.5-turbo'', ''gpt-4o-mini''), (''claude-3-opus'', ''claude-opus-4''),
     (''claude-3-sonnet'', ''claude-sonnet-4''), (''gemini-pro'', ''gemini-1.5-pro'')]"

record ModelResolution =
  canonicalModel :: string
  candidates :: "ModelCandidate list"

definition resolveCandidates :: "snapshot \<Rightarrow> string \<Rightarrow> ModelResolution" where
  "resolveCandidates snap requested =
     (if candidates_of (candidatesByModel snap) requested \<noteq> []
      then \<lparr>canonicalModel = requested, candidates = candidates_of (candidatesByModel snap) requested\<rparr>
      else (case map_of MODEL_ALIASES requested of
              None \<Rightarrow> \<lparr>canonicalModel = requested, candidates = []\<rparr>
            | Some alias \<Rightarrow>
                if candidates_of (candidatesByModel snap) alias \<noteq> []
                then \<lparr>canonicalModel = alias, candidates = candidates_of (candidatesByModel snap) alias\<rparr>
                else \<lparr>canonicalModel = requested, candidates = []\<rparr>))"

definition getProvider :: "snapshot \<Rightarrow> string \<Rightarrow> BaseProvider option" where
  "getProvider snap i = map_of (providersById snap) i"

definition allProviders :: "snapshot \<Rightarrow> BaseProvider list" where
  "allProviders snap = map snd (providersById snap)"

definition registry_hasModel :: "snapshot \<Rightarrow> string \<Rightarrow> bool" where
  "registry_hasModel snap requested = (candidates (resolveCandidates snap requested) \<noteq> [])"

record ModelObject =
  mo_id :: string
  mo_created :: int
  mo_owned_by :: AdapterType

definition registry_listModels :: "(string \<Rightarrow> string \<Rightarrow> int) \<Rightarrow> snapshot \<Rightarrow> ModelObject list" where
  "registry_listModels compare snap =
     sort_by (\<lambda>a b. compare (mo_id a) (mo_id b))
       (concat (map (\<lambda>(m, cs). case cs of [] \<Rightarrow> []
          | c # _ \<Rightarrow> [\<lparr>mo_id = m, mo_created = 0, mo_owned_by = p_adapterType (mc_provider c)\<rparr>])
        (candidatesByModel snap)))"

section \<open>Refreshing\<close>

text \<open>
  The process interleaves callers of \<open>refreshIfStale\<close> with the completion of the one load in
  flight.  A caller is served at once or waits; the completion installs the new snapshot, or
  keeps the old one and backs off, or (with nothing loaded yet) fails the waiters.
\<close>

definition REFRESH_RETRY_MS :: int where
  "REFRESH_RETRY_MS = 5000"

record registry_state =
  rg_snapshot :: snapshot
  rg_loadedAtMs :: int
  rg_inflight :: bool
  rg_loads :: nat

definition registry_init :: registry_state where
  "registry_init = \<lparr>rg_snapshot = empty_snapshot, rg_loadedAtMs = 0, rg_inflight = False, rg_loads = 0\<rparr>"

datatype refresh_answer = Served | Waits

definition refreshIfStale :: "int \<Rightarrow> int \<Rightarrow> registry_state \<Rightarrow> refresh_answer \<times> registry_state" where
  "refreshIfStale ttlSeconds now r =
     (let ageMs = now - rg_loadedAtMs r in
      if rg_loadedAtMs r \<noteq> 0 \<and> ageMs < ttlSeconds * 1000 then (Served, r)
      else if \<not> rg_inflight r then (Waits, r\<lparr>rg_inflight := True, rg_loads := rg_loads r + 1\<rparr>)
      else (Waits, r))"

definition load_done ::
  "(string \<Rightarrow> (thrown, string) result) \<Rightarrow> int \<Rightarrow> int \<Rightarrow> (thrown, provider_row list) result \<Rightarrow> registry_state
     \<Rightarrow> (thrown, unit) result \<times> registry_state" where
  "load_done decrypt ttlSeconds now rows r =
     (case rows of
        Inr rs \<Rightarrow> (Inr (), r\<lparr>rg_snapshot := load_snapshot decrypt rs, rg_loadedAtMs := now, rg_inflight := False\<rparr>)
      | Inl e \<Rightarrow>
          if rg_loadedAtMs r = 0 then (Inl e, r\<lparr>rg_inflight := False\<rparr>)
          else (Inr (), r\<lparr>rg_loadedAtMs := now - ttlSeconds * 1000 + REFRESH_RETRY_MS, rg_inflight := False\<rparr>))"

datatype registry_event = Caller int | Completed int "(thrown, provider_row list) result"

fun registry_step ::
  "(string \<Rightarrow> (thrown, string) result) \<Rightarrow> int \<Rightarrow> registry_event \<Rightarrow> registry_state \<Rightarrow> registry_state" where
  "registry_step decrypt ttl (Caller now) r = snd (refreshIfStale ttl now r)"
| "registry_step decrypt ttl (Completed now rows) r =
     (if rg_inflight r then snd (load_done decrypt ttl now rows r) else r)"

section \<open>What a snapshot holds\<close>

lemma insert_by_insort: "insert_by (\<lambda>a b. f a - f b) x xs = insort_key f x xs" for f :: "'a \<Rightarrow> int"
  by (induction xs) auto

lemma sort_by_sort_key: "sort_by (\<lambda>a b. f a - f b) xs = sort_key f xs" for f :: "'a \<Rightarrow> int"
  by (induction xs) (auto simp: insert_by_insort sort_key_def)

lemma sort_by_priority: "sort_by by_priority cs = sort_key (\<lambda>c. p_priority (mc_provider c)) cs"
proof -
  have "by_priority = (\<lambda>a b. p_priority (mc_provider a) - p_priority (mc_provider b))"
    by (intro ext) (simp add: by_priority_def)
  then show ?thesis using sort_by_sort_key [of "\<lambda>c. p_priority (mc_provider c)" cs] by simp
qed

definition row_candidates ::
  "(string \<Rightarrow> (thrown, string) result) \<Rightarrow> string \<Rightarrow> provider_row \<Rightarrow> ModelCandidate list" where
  "row_candidates decrypt m row =
     (case (decrypt (pr_encryptedApiKey row), map_of (row_models row) m) of
        (Inr apiKey, Some info) \<Rightarrow> [\<lparr>mc_provider = row_provider row apiKey, mc_model = info\<rparr>]
      | _ \<Rightarrow> [])"

text \<open>The specification: who serves a model, in the order of preference.\<close>

definition serving ::
  "(string \<Rightarrow> (thrown, string) result) \<Rightarrow> provider_row list \<Rightarrow> string \<Rightarrow> ModelCandidate list" where
  "serving decrypt rows m =
     sort_key (\<lambda>c. p_priority (mc_provider c)) (concat (map (row_candidates decrypt m) rows))"

lemma candidates_of_update:
  "candidates_of (AList.update k v byModel) m = (if m = k then v else candidates_of byModel m)"
  by (simp add: candidates_of_def update_conv')

lemma push_candidates:
  assumes "distinct (map fst ms)" and "\<forall>(k, info) \<in> set ms. mi_modelId info = k"
  shows "candidates_of (fold (push_candidate adapter) (map snd ms) byModel) m =
    candidates_of byModel m @ (case map_of ms m of None \<Rightarrow> [] | Some info \<Rightarrow> [\<lparr>mc_provider = adapter, mc_model = info\<rparr>])"
  using assms
proof (induction ms arbitrary: byModel)
  case (Cons x ms)
  obtain k info where x: "x = (k, info)" by (cases x)
  with Cons.prems have "mi_modelId info = k" "map_of ms k = None"
    by (auto simp: map_of_eq_None_iff)
  with Cons x show ?case
    by (auto simp: push_candidate_def candidates_of_update)
qed simp

lemma row_models_ok: "distinct (map fst (row_models row)) \<and> (\<forall>(k, info) \<in> set (row_models row). mi_modelId info = k)"
proof -
  have "distinct (map fst (fold (\<lambda>m ms. AList.update (mr_modelId m) (model_info m) ms) xs acc)) \<and>
      (\<forall>(k, info) \<in> set (fold (\<lambda>m ms. AList.update (mr_modelId m) (model_info m) ms) xs acc). mi_modelId info = k)"
    if "distinct (map fst acc) \<and> (\<forall>(k, info) \<in> set acc. mi_modelId info = k)" for xs acc
    using that
  proof (induction xs arbitrary: acc)
    case (Cons x xs)
    have "set (AList.update (mr_modelId x) (model_info x) acc) \<subseteq> insert (mr_modelId x, model_info x) (set acc)"
      by (induction acc) auto
    moreover have "mi_modelId (model_info x) = mr_modelId x" by (simp add: model_info_def)
    ultimately have "\<forall>(k, info) \<in> set (AList.update (mr_modelId x) (model_info x) acc). mi_modelId info = k"
      using Cons.prems by fastforce
    with Cons.prems have "distinct (map fst (AList.update (mr_modelId x) (model_info x) acc)) \<and>
        (\<forall>(k, info) \<in> set (AList.update (mr_modelId x) (model_info x) acc). mi_modelId info = k)"
      by (simp add: distinct_update)
    from Cons.IH [OF this] show ?case by simp
  qed simp
  from this [of "[]" "pr_models row"] show ?thesis unfolding row_models_def by simp
qed

lemma load_row_candidates:
  "candidates_of (candidatesByModel (load_row decrypt row snap)) m =
    candidates_of (candidatesByModel snap) m @ row_candidates decrypt m row"
  using push_candidates [of "row_models row" "row_provider row _" "candidatesByModel snap" m] row_models_ok [of row]
  by (auto simp: load_row_def row_candidates_def Let_def listModels_def row_provider_def split: sum.splits option.splits)

lemma load_snapshot_candidates:
  "candidates_of (candidatesByModel (load_snapshot decrypt rows)) m = serving decrypt rows m"
proof -
  have "candidates_of (candidatesByModel (fold (load_row decrypt) rows snap)) m =
      candidates_of (candidatesByModel snap) m @ concat (map (row_candidates decrypt m) rows)" for snap
    by (induction rows arbitrary: snap) (simp_all add: load_row_candidates)
  then have f: "candidates_of (candidatesByModel (fold (load_row decrypt) rows empty_snapshot)) m =
      concat (map (row_candidates decrypt m) rows)"
    by (simp add: empty_snapshot_def candidates_of_def)
  have "candidates_of (map (\<lambda>(m, cs). (m, sort_by by_priority cs)) al) m = sort_by by_priority (candidates_of al m)" for al
    by (induction al) (auto simp: candidates_of_def split: option.splits)
  with f show ?thesis
    by (simp add: load_snapshot_def Let_def serving_def sort_by_priority)
qed

text \<open>
  C39. Resolution is exact: the candidates of a requested model are all the active providers
  whose credential decrypts and that serve it, in ascending priority and otherwise in row
  order; only when there is none does the alias table apply, once; and a provider whose
  credential does not decrypt affects no other.
\<close>

theorem resolve_exact:
  "resolveCandidates (load_snapshot decrypt rows) requested =
    (if serving decrypt rows requested \<noteq> []
     then \<lparr>canonicalModel = requested, candidates = serving decrypt rows requested\<rparr>
     else case map_of MODEL_ALIASES requested of
            Some alias \<Rightarrow>
              if serving decrypt rows alias \<noteq> []
              then \<lparr>canonicalModel = alias, candidates = serving decrypt rows alias\<rparr>
              else \<lparr>canonicalModel = requested, candidates = []\<rparr>
          | None \<Rightarrow> \<lparr>canonicalModel = requested, candidates = []\<rparr>)"
  by (simp add: resolveCandidates_def load_snapshot_candidates split: option.splits)

lemma serving_sorted: "sorted (map (\<lambda>c. p_priority (mc_provider c)) (serving decrypt rows m))"
  by (simp add: serving_def)

lemma serving_member:
  "c \<in> set (serving decrypt rows m) \<longleftrightarrow>
    (\<exists>row \<in> set rows. \<exists>apiKey info. decrypt (pr_encryptedApiKey row) = Inr apiKey \<and>
       map_of (row_models row) m = Some info \<and> c = \<lparr>mc_provider = row_provider row apiKey, mc_model = info\<rparr>)"
  by (force simp: serving_def row_candidates_def split: sum.splits option.splits)

text \<open>
  A resolution never offers a provider twice and only offers providers that serve the
  canonical model: with distinct row ids the candidate ids are distinct, every candidate
  carries the canonical model's metadata, and the list is in ascending priority.
\<close>

theorem resolve_candidates_wf:
  assumes "distinct (map pr_id rows)"
  shows "distinct (map (\<lambda>c. p_id (mc_provider c)) (candidates (resolveCandidates (load_snapshot decrypt rows) requested))) \<and>
    sorted (map (\<lambda>c. p_priority (mc_provider c)) (candidates (resolveCandidates (load_snapshot decrypt rows) requested))) \<and>
    (\<forall>c \<in> set (candidates (resolveCandidates (load_snapshot decrypt rows) requested)).
       getModel (mc_provider c) (canonicalModel (resolveCandidates (load_snapshot decrypt rows) requested)) = Some (mc_model c))"
proof -
  have ids: "distinct (map (\<lambda>c. p_id (mc_provider c)) (serving decrypt rows m))" for m
  proof -
    let ?ids = "\<lambda>rs. map (\<lambda>c. p_id (mc_provider c)) (concat (map (row_candidates decrypt m) rs))"
    have one: "map (\<lambda>c. p_id (mc_provider c)) (row_candidates decrypt m row) = [] \<or>
        map (\<lambda>c. p_id (mc_provider c)) (row_candidates decrypt m row) = [pr_id row]" for row
      by (auto simp: row_candidates_def row_provider_def split: sum.splits option.splits)
    have "distinct (?ids rs) \<and> set (?ids rs) \<subseteq> set (map pr_id rs)" if "distinct (map pr_id rs)" for rs
      using that
    proof (induction rs)
      case (Cons row rs)
      have cons: "?ids (row # rs) = map (\<lambda>c. p_id (mc_provider c)) (row_candidates decrypt m row) @ ?ids rs"
        by simp
      from Cons have ih: "distinct (?ids rs)" "set (?ids rs) \<subseteq> set (map pr_id rs)" "pr_id row \<notin> set (map pr_id rs)"
        by simp_all
      from one [of row] show ?case
      proof
        assume e: "map (\<lambda>c. p_id (mc_provider c)) (row_candidates decrypt m row) = []"
        show ?case unfolding cons e using ih by auto
      next
        assume e: "map (\<lambda>c. p_id (mc_provider c)) (row_candidates decrypt m row) = [pr_id row]"
        show ?case unfolding cons e using ih by auto
      qed
    qed simp
    with assms have d: "distinct (?ids rows)" by blast
    then show ?thesis by (simp add: serving_def distinct_map)
  qed
  have mem: "getModel (mc_provider c) m = Some (mc_model c)" if "c \<in> set (serving decrypt rows m)" for c m
    using that by (auto simp: serving_member getModel_def row_provider_def)
  show ?thesis
    using ids serving_sorted mem by (auto simp: resolve_exact split: option.splits)
qed

section \<open>The refresh protocol\<close>

definition registry_run ::
  "(string \<Rightarrow> (thrown, string) result) \<Rightarrow> int \<Rightarrow> registry_event list \<Rightarrow> registry_state \<Rightarrow> registry_state" where
  "registry_run decrypt ttl xs r = fold (registry_step decrypt ttl) xs r"

fun is_completion :: "registry_event \<Rightarrow> bool" where
  "is_completion (Completed now rows) = True"
| "is_completion (Caller now) = False"

fun completions ::
  "(string \<Rightarrow> (thrown, string) result) \<Rightarrow> int \<Rightarrow> registry_event list \<Rightarrow> registry_state \<Rightarrow> nat" where
  "completions decrypt ttl [] r = 0"
| "completions decrypt ttl (x # xs) r =
     (if rg_inflight r \<and> is_completion x then 1 else 0)
     + completions decrypt ttl xs (registry_step decrypt ttl x r)"

definition load_succeeds :: "registry_event \<Rightarrow> bool" where
  "load_succeeds x = (case x of Caller now \<Rightarrow> False | Completed now rows \<Rightarrow> is_ok rows)"

lemma registry_step_simps:
  "rg_loads (registry_step decrypt ttl x r) + (if rg_inflight r then 1 else 0) =
     rg_loads r + (if rg_inflight r \<and> is_completion x then 1 else 0)
     + (if rg_inflight (registry_step decrypt ttl x r) then 1 else 0)"
  "\<not> load_succeeds x \<Longrightarrow> rg_snapshot (registry_step decrypt ttl x r) = rg_snapshot r"
  by (cases x; auto simp: refreshIfStale_def load_done_def Let_def load_succeeds_def split: sum.splits)+

text \<open>
  Refreshes are de-duplicated and never lose a snapshot: in every interleaving of callers
  with load completions, each load started has completed except at most the one in flight,
  and while no load succeeds the snapshot in use stays the same.
\<close>

theorem registry_single_flight:
  "rg_loads (registry_run decrypt ttl xs registry_init) =
     completions decrypt ttl xs registry_init
     + (if rg_inflight (registry_run decrypt ttl xs registry_init) then 1 else 0) \<and>
   rg_snapshot (registry_run decrypt ttl (filter (\<lambda>x. \<not> load_succeeds x) ys) r) = rg_snapshot r"
proof
  have "rg_loads (registry_run decrypt ttl xs r) + (if rg_inflight r then 1 else 0) =
      rg_loads r + completions decrypt ttl xs r + (if rg_inflight (registry_run decrypt ttl xs r) then 1 else 0)" for r
  proof (induction xs arbitrary: r)
    case (Cons x xs)
    from Cons.IH [of "registry_step decrypt ttl x r"] registry_step_simps(1) [of decrypt ttl x r]
    show ?case by (simp add: registry_run_def split del: if_split)
  qed (simp add: registry_run_def)
  from this [of registry_init] show "rg_loads (registry_run decrypt ttl xs registry_init) =
     completions decrypt ttl xs registry_init
     + (if rg_inflight (registry_run decrypt ttl xs registry_init) then 1 else 0)"
    by (simp add: registry_init_def)
  show "rg_snapshot (registry_run decrypt ttl (filter (\<lambda>x. \<not> load_succeeds x) ys) r) = rg_snapshot r"
    unfolding registry_run_def by (induction ys arbitrary: r) (auto simp: registry_step_simps(2))
qed

text \<open>
  After a failed refresh the registry backs off: with a snapshot loaded, every caller in
  the five seconds after the failure is served from the old snapshot and starts no load; the
  next caller after that starts exactly one.
\<close>

theorem registry_backoff:
  assumes "rg_loadedAtMs r \<noteq> 0" and "ttl * 1000 < now" and "load_done decrypt ttl now (Inl e) r = (x, r')"
    and "now \<le> now'"
  shows "x = Inr () \<and> rg_snapshot r' = rg_snapshot r \<and>
    (now' < now + REFRESH_RETRY_MS \<longrightarrow> refreshIfStale ttl now' r' = (Served, r')) \<and>
    (now + REFRESH_RETRY_MS \<le> now' \<longrightarrow>
      fst (refreshIfStale ttl now' r') = Waits \<and> rg_loads (snd (refreshIfStale ttl now' r')) = rg_loads r' + 1)"
  using assms by (auto simp: load_done_def refreshIfStale_def Let_def REFRESH_RETRY_MS_def)

theorem registry_backoff_witness:
  "refreshIfStale 60 101000 (snd (load_done (\<lambda>k. Inr k) 60 100000 (Inl (TValue ''ECONNREFUSED''))
     \<lparr>rg_snapshot = empty_snapshot, rg_loadedAtMs = 30000, rg_inflight = True, rg_loads = 2\<rparr>)) =
   (Served, snd (load_done (\<lambda>k. Inr k) 60 100000 (Inl (TValue ''ECONNREFUSED''))
     \<lparr>rg_snapshot = empty_snapshot, rg_loadedAtMs = 30000, rg_inflight = True, rg_loads = 2\<rparr>))"
proof -
  let ?r = "\<lparr>rg_snapshot = empty_snapshot, rg_loadedAtMs = 30000, rg_inflight = True, rg_loads = 2\<rparr>"
  obtain x r' where l: "load_done (\<lambda>k. Inr k) 60 100000 (Inl (TValue ''ECONNREFUSED'')) ?r = (x, r')" by fastforce
  from registry_backoff [OF _ _ l, of 101000] l show ?thesis by (simp add: REFRESH_RETRY_MS_def)
qed

definition demo_rows :: "provider_row list" where
  "demo_rows =
     (let row = (\<lambda>i p. \<lparr>pr_id = i, pr_name = i, pr_adapterType = AdOpenai, pr_baseUrl = [], pr_encryptedApiKey = i,
        pr_timeoutMs = 1000, pr_weight = 1, pr_priority = p,
        pr_models = [\<lparr>mr_modelId = ''gpt-4o'', mr_displayName = None, mr_contextWindow = None,
          mr_maxOutputTokens = None, mr_inputPricePer1k = Some ''0.0025'', mr_outputPricePer1k = Some ''0.01'',
          mr_supportsStreaming = True, mr_supportsTools = True, mr_supportsVision = False\<rparr>]\<rparr>)
      in [row ''B'' 2, row ''A'' 1])"

theorem resolve_candidates_wf_witness:
  "sorted (map (\<lambda>c. p_priority (mc_provider c))
     (candidates (resolveCandidates (load_snapshot (\<lambda>k. Inr k) demo_rows) ''gpt-4'')))"
proof -
  have "distinct (map pr_id demo_rows)" by (simp add: demo_rows_def Let_def)
  from resolve_candidates_wf [OF this, of "\<lambda>k. Inr k" "''gpt-4''"] show ?thesis by blast
qed

lemma resolve_alias_example:
  "map (\<lambda>c. p_id (mc_provider c)) (candidates (resolveCandidates (load_snapshot (\<lambda>k. Inr k) demo_rows) ''gpt-4''))
    = [''A'', ''B''] \<and>
   canonicalModel (resolveCandidates (load_snapshot (\<lambda>k. Inr k) demo_rows) ''gpt-4'') = ''gpt-4o''"
  by code_simp

end
