(* ===== verification/Cost_Tracker.thy ===== *)
theory Cost_Tracker
  imports Redis_Service Provider_Base
begin

text \<open>
  Cost tracking and spend control of \<open>src/services/cost-tracker.ts\<close>: the price formula, the
  monthly spend counter in Redis with the budget gate that reads it, and the bounded queue of
  background log writes.  The database insert is a parameter.
\<close>

section \<open>Prices\<close>

record RequestLogEntry =
  le_apiKeyId :: "string option"
  le_providerId :: "string option"
  le_modelId :: "string option"
  le_promptTokens :: "int option"
  le_completionTokens :: "int option"
  le_totalTokens :: "int option"
  le_costUsd :: "rat option"
  le_latencyMs :: "int option"
  le_statusCode :: "int option"
  le_cacheHit :: bool
  le_failoverCount :: nat
  le_errorMessage :: "string option"

definition estimateCost :: "ProviderModelInfo option \<Rightarrow> int \<Rightarrow> int \<Rightarrow> rat" where
  "estimateCost model promptTokens completionTokens =
     (let inputPrice = nullish (case model of None \<Rightarrow> None | Some m \<Rightarrow> mi_inputPricePer1k m) 0;
          outputPrice = nullish (case model of None \<Rightarrow> None | Some m \<Rightarrow> mi_outputPricePer1k m) 0
      in of_int promptTokens / 1000 * inputPrice + of_int completionTokens / 1000 * outputPrice)"

definition prices_ok :: "ProviderModelInfo \<Rightarrow> bool" where
  "prices_ok m = ((case mi_inputPricePer1k m of None \<Rightarrow> True | Some p \<Rightarrow> 0 \<le> p) \<and>
     (case mi_outputPricePer1k m of None \<Rightarrow> True | Some p \<Rightarrow> 0 \<le> p))"

lemma estimateCost_nonneg:
  assumes "\<And>m. model = Some m \<Longrightarrow> prices_ok m" "0 \<le> p" "0 \<le> c"
  shows "0 \<le> estimateCost model p c"
  using assms
  by (cases model) (auto simp: estimateCost_def prices_ok_def nullish_def split: option.splits)

section \<open>Months\<close>

text \<open>
  \<open>new Date(nowMs).toISOString().slice(0, 7)\<close> for an instant from 1970 on: the year and month
  in which a day number lies, by walking the calendar.
\<close>

definition leap_year :: "nat \<Rightarrow> bool" where
  "leap_year y = (y mod 4 = 0 \<and> (y mod 100 \<noteq> 0 \<or> y mod 400 = 0))"

definition days_in_month :: "nat \<Rightarrow> nat \<Rightarrow> nat" where
  "days_in_month y m =
     (if m = 2 then (if leap_year y then 29 else 28) else if m \<in> {4, 6, 9, 11} then 30 else 31)"

lemma days_in_month_pos: "0 < days_in_month y m"
  by (simp add: days_in_month_def)

function month_from :: "nat \<Rightarrow> nat \<Rightarrow> nat \<Rightarrow> nat \<times> nat" where
  "month_from y m day =
     (if day < days_in_month y m then (y, m)
      else (if m = 12 then month_from (y + 1) 1 (day - days_in_month y m)
            else month_from y (m + 1) (day - days_in_month y m)))"
  by pat_completeness auto
termination
  by (relation "measure (\<lambda>(y, m, day). day)") (simp_all add: days_in_month_pos not_less less_le_trans [OF days_in_month_pos])

declare month_from.simps [simp del]

fun pad_left :: "nat \<Rightarrow> string \<Rightarrow> string" where
  "pad_left n s = replicate (n - length s) (CHR ''0'') @ s"

definition year_month :: "int \<Rightarrow> string" where
  "year_month nowMs =
     (case month_from 1970 1 (nat (nowMs div 86400000)) of
        (y, m) \<Rightarrow> pad_left 4 (show_nat y) @ ''-'' @ pad_left 2 (show_nat m))"

lemma month_from_bounds: "1 \<le> m \<Longrightarrow> m \<le> 12 \<Longrightarrow> 1 \<le> snd (month_from y m day) \<and> snd (month_from y m day) \<le> 12"
  by (induction y m day rule: month_from.induct) (subst (1 2) month_from.simps, simp)

section \<open>The spend counter\<close>

definition SPEND_TTL_SECONDS :: int where
  "SPEND_TTL_SECONDS = 40 * 24 * 60 * 60"

definition spendKey :: "key_prefix \<Rightarrow> string \<Rightarrow> int \<Rightarrow> string" where
  "spendKey pre apiKeyId nowMs = pre @ ''spend:'' @ apiKeyId @ '':'' @ year_month nowMs"

text \<open>
  Two commands, one round trip each; a failure of either is swallowed.  \<open>EXPIRE key s\<close> is
  \<open>PEXPIRE key (1000 s)\<close>.
\<close>

definition addSpend :: "'s redis_env \<Rightarrow> key_prefix \<Rightarrow> string \<Rightarrow> rat \<Rightarrow> int \<Rightarrow> 's \<Rightarrow> 's" where
  "addSpend E pre apiKeyId costUsd nowMs s =
     (if costUsd \<le> 0 then s
      else (let key = spendKey pre apiKeyId nowMs in
            case round_trip E (command (INCRBYFLOAT key costUsd)) s of
              (Inl e, s1) \<Rightarrow> s1
            | (Inr _, s1) \<Rightarrow> snd (round_trip E (command (PEXPIRE key (1000 * SPEND_TTL_SECONDS))) s1)))"

text \<open>\<open>None\<close> is \<open>NaN\<close>: a stored text that is no number.\<close>

definition getMonthlySpendUsd :: "'s redis_env \<Rightarrow> key_prefix \<Rightarrow> string \<Rightarrow> int \<Rightarrow> 's \<Rightarrow> rat option \<times> 's" where
  "getMonthlySpendUsd E pre apiKeyId nowMs s =
     (case round_trip E (command (GET (spendKey pre apiKeyId nowMs))) s of
        (Inr (RBulk v), s1) \<Rightarrow> (rval_num v, s1)
      | (_, s1) \<Rightarrow> (Some 0, s1))"

definition isOverBudget ::
  "'s redis_env \<Rightarrow> key_prefix \<Rightarrow> string \<Rightarrow> rat option \<Rightarrow> int \<Rightarrow> 's \<Rightarrow> bool \<times> 's" where
  "isOverBudget E pre apiKeyId monthlyBudgetUsd nowMs s =
     (case monthlyBudgetUsd of
        None \<Rightarrow> (False, s)
      | Some budget \<Rightarrow>
          (case getMonthlySpendUsd E pre apiKeyId nowMs s of
             (Some spend, s1) \<Rightarrow> (spend \<ge> budget, s1)
           | (None, s1) \<Rightarrow> (False, s1)))"

definition spent :: "db \<Rightarrow> string \<Rightarrow> rat" where
  "spent d key = (case get_str d key of None \<Rightarrow> 0 | Some v \<Rightarrow> (case rval_num v of None \<Rightarrow> 0 | Some q \<Rightarrow> q))"

definition spend_ok :: "db \<Rightarrow> string \<Rightarrow> bool" where
  "spend_ok d key = (case live d key of
     None \<Rightarrow> True | Some (OStr v, _) \<Rightarrow> (\<exists>q \<ge> 0. rval_num v = Some q) | _ \<Rightarrow> False)"

lemma spend_ok_E:
  assumes "spend_ok d key"
  obtains "live d key = None" "spent d key = 0"
  | v ttl q where "live d key = Some (OStr v, ttl)" "rval_num v = Some q" "0 \<le> q" "spent d key = q"
  using assms
  by (auto simp: spend_ok_def spent_def get_str_def split: option.splits prod.splits robj.splits)

lemma spend_ok_advance:
  assumes "spend_ok d key" "0 \<le> dt"
  shows "spend_ok (advance dt d) key \<and> spent (advance dt d) key \<le> spent d key"
  using assms(1)
  by (cases rule: spend_ok_E)
     (use assms(2) in \<open>auto simp: spend_ok_def spent_def get_str_def live_advance split: option.splits\<close>)

lemma exec_INCRBYFLOAT:
  assumes "spend_ok d key" "0 < q"
  shows "\<exists>r d'. exec redis_spec (command (INCRBYFLOAT key q)) d = (Inr r, d') \<and> clock d' = clock d \<and>
    spend_ok d' key \<and> spent d' key = spent d key + q \<and> (\<forall>k. k \<noteq> key \<longrightarrow> live d' k = live d k)"
  using assms(1)
  by (cases rule: spend_ok_E)
     (use assms(2) in \<open>auto simp: command_def spend_ok_def spent_def get_str_def rval_num_def add_nonneg_nonneg
        dest: live_deadline split: option.splits\<close>)

lemma exec_EXPIRE:
  assumes "spend_ok d key" "0 < ms"
  shows "\<exists>r d'. exec redis_spec (command (PEXPIRE key ms)) d = (Inr r, d') \<and> clock d' = clock d \<and>
    spend_ok d' key \<and> spent d' key = spent d key \<and> (\<forall>k. k \<noteq> key \<longrightarrow> live d' k = live d k)"
  using assms(1)
  by (cases rule: spend_ok_E) (use assms(2) in \<open>auto simp: command_def spend_ok_def spent_def get_str_def\<close>)

context redis_service
begin

lemma round_trip_spend:
  assumes rt: "round_trip E p s = (r, s')" and ok: "\<And>k. spend_ok (view s) k"
    and step: "\<And>d. (\<And>k. spend_ok d k) \<Longrightarrow> \<exists>a d'. exec redis_spec p d = (Inr a, d') \<and> clock d' = clock d \<and>
      spend_ok d' key \<and> spent d' key = spent d key + q \<and> (\<forall>k. k \<noteq> key \<longrightarrow> live d' k = live d k)"
    and q: "0 \<le> q"
  shows "(\<forall>k. spend_ok (view s') k) \<and> (\<forall>k. spent (view s') k \<le> spent (view s) k + (if k = key then q else 0)) \<and>
    (is_ok r \<or> (\<forall>k. spent (view s') k \<le> spent (view s) k))"
proof (rule atomic_runE [OF round_trip_atomic [OF rt]])
  fix dt
  let ?d = "advance dt (view s)"
  assume dt: "0 \<le> dt" and out: "(r = Inl Unreachable \<and> view s' = ?d) \<or>
     (\<exists>x. exec redis_spec p ?d = (x, view s') \<and> r = (case x of Inl e \<Rightarrow> Inl (ScriptError e) | Inr a \<Rightarrow> Inr a))"
  have adv: "spend_ok ?d k" "spent ?d k \<le> spent (view s) k" for k
    using spend_ok_advance [OF ok dt] by auto
  from out show ?thesis
  proof
    assume "r = Inl Unreachable \<and> view s' = ?d"
    then show ?thesis using adv q by (auto simp: add_increasing2)
  next
    assume "\<exists>x. exec redis_spec p ?d = (x, view s') \<and> r = (case x of Inl e \<Rightarrow> Inl (ScriptError e) | Inr a \<Rightarrow> Inr a)"
    with step [OF adv(1)] have "is_ok r" and v: "spend_ok (view s') key" "spent (view s') key = spent ?d key + q"
      "\<forall>k. k \<noteq> key \<longrightarrow> live (view s') k = live ?d k" by auto
    moreover have "spend_ok (view s') k \<and> spent (view s') k = spent ?d k" if "k \<noteq> key" for k
      using v(3) that adv(1) [of k] by (simp add: spend_ok_def spent_def get_str_def)
    moreover from this have "spend_ok (view s') k" "spent (view s') k \<le> spent (view s) k + (if k = key then q else 0)" for k
      using adv(2) [of k] v by (cases "k = key"; force)+
    ultimately show ?thesis by blast
  qed
qed

lemma addSpend_view:
  assumes ok: "\<And>k. spend_ok (view s) k"
  shows "(\<forall>k. spend_ok (view (addSpend E pre a q now s)) k) \<and>
    (\<forall>k. spent (view (addSpend E pre a q now s)) k
       \<le> spent (view s) k + (if k = spendKey pre a now then max 0 q else 0))"
proof (cases "q \<le> 0")
  case True
  then show ?thesis using ok by (simp add: addSpend_def)
next
  case False
  let ?key = "spendKey pre a now"
  obtain r1 s1 where rt1: "round_trip E (command (INCRBYFLOAT ?key q)) s = (r1, s1)" by fastforce
  obtain r2 s2 where rt2: "round_trip E (command (PEXPIRE ?key (1000 * SPEND_TTL_SECONDS))) s1 = (r2, s2)" by fastforce
  have s: "addSpend E pre a q now s = (if is_ok r1 then s2 else s1)"
    using False rt1 rt2 by (cases r1) (auto simp: addSpend_def Let_def)
  have one: "(\<forall>k. spend_ok (view s1) k) \<and> (\<forall>k. spent (view s1) k \<le> spent (view s) k + (if k = ?key then q else 0)) \<and>
      (is_ok r1 \<or> (\<forall>k. spent (view s1) k \<le> spent (view s) k))"
    by (rule round_trip_spend [OF rt1 ok]) (use False exec_INCRBYFLOAT in auto)
  have "(\<forall>k. spend_ok (view s2) k) \<and> (\<forall>k. spent (view s2) k \<le> spent (view s1) k + (if k = ?key then 0 else 0)) \<and>
      (is_ok r2 \<or> (\<forall>k. spent (view s2) k \<le> spent (view s1) k))"
    by (rule round_trip_spend [OF rt2]) (use one exec_EXPIRE in \<open>auto simp: SPEND_TTL_SECONDS_def\<close>)
  then have two: "spend_ok (view s2) k" "spent (view s2) k \<le> spent (view s1) k" for k by simp_all
  have three: "spent (view s2) k \<le> spent (view s) k + (if k = ?key then q else 0)" for k
    using one two(2) [of k] order_trans by blast
  have mx: "max 0 q = q" using False by simp
  have "spend_ok (view (if is_ok r1 then s2 else s1)) k" for k
    using one two(1) by (cases "is_ok r1") auto
  moreover have "spent (view (if is_ok r1 then s2 else s1)) k \<le> spent (view s) k + (if k = ?key then q else 0)" for k
    using conjunct1 [OF conjunct2 [OF one], rule_format, of k] three [of k] by (cases "is_ok r1") (simp_all split del: if_split)
  ultimately show ?thesis unfolding s mx by blast
qed

end

text \<open>A charge: the key, the cost of a request and the time it is booked at.\<close>

type_synonym charge = "string \<times> rat \<times> int"

definition run_charges :: "'s redis_env \<Rightarrow> key_prefix \<Rightarrow> charge list \<Rightarrow> 's \<Rightarrow> 's" where
  "run_charges E pre xs s = fold (\<lambda>(a, q, now) s. addSpend E pre a q now s) xs s"

definition charged :: "key_prefix \<Rightarrow> charge list \<Rightarrow> string \<Rightarrow> rat" where
  "charged pre xs key = (\<Sum>(a, q, now)\<leftarrow>xs. if spendKey pre a now = key then max 0 q else 0)"

lemma charged_simps [simp]:
  "charged pre [] key = 0"
  "charged pre ((a, q, now) # xs) key = (if spendKey pre a now = key then max 0 q else 0) + charged pre xs key"
  by (simp_all add: charged_def)

context redis_service
begin

lemma run_charges_view:
  assumes "\<And>k. spend_ok (view s) k"
  shows "(\<forall>k. spend_ok (view (run_charges E pre xs s)) k) \<and>
    (\<forall>k. spent (view (run_charges E pre xs s)) k \<le> spent (view s) k + charged pre xs k)"
  using assms
proof (induction xs arbitrary: s)
  case Nil
  then show ?case by (simp add: run_charges_def)
next
  case (Cons x xs)
  obtain a q now where x: "x = (a, q, now)" by (cases x)
  let ?s = "addSpend E pre a q now s"
  from addSpend_view [OF Cons.prems, of pre a q now]
  have ok: "\<And>k. spend_ok (view ?s) k"
    and le: "\<And>k. spent (view ?s) k \<le> spent (view s) k + (if k = spendKey pre a now then max 0 q else 0)" by auto
  have run: "run_charges E pre (x # xs) s = run_charges E pre xs ?s" by (simp add: run_charges_def x)
  have "spent (view (run_charges E pre xs ?s)) k \<le> spent (view s) k + charged pre (x # xs) k" for k
  proof -
    have "spent (view (run_charges E pre xs ?s)) k \<le> spent (view ?s) k + charged pre xs k"
      using Cons.IH [OF ok] by blast
    with le [of k] show ?thesis by (cases "spendKey pre a now = k") (auto simp: x)
  qed
  with Cons.IH [OF ok] show ?case unfolding run by blast
qed

lemma getMonthlySpend_view:
  assumes "getMonthlySpendUsd E pre a now s = (r, s')" and "\<And>k. spend_ok (view s) k"
  shows "\<exists>dt \<ge> 0. view s' = advance dt (view s) \<and> (r = Some (spent (view s') (spendKey pre a now)) \<or> r = Some 0)"
proof -
  let ?key = "spendKey pre a now"
  obtain x s1 where rt: "round_trip E (command (GET ?key)) s = (x, s1)" by fastforce
  show ?thesis
  proof (rule atomic_runE [OF round_trip_atomic [OF rt]])
    fix dt
    let ?d = "advance dt (view s)"
    assume dt: "0 \<le> dt" and out: "(x = Inl Unreachable \<and> view s1 = ?d) \<or>
       (\<exists>y. exec redis_spec (command (GET ?key)) ?d = (y, view s1) \<and>
            x = (case y of Inl e \<Rightarrow> Inl (ScriptError e) | Inr a \<Rightarrow> Inr a))"
    have ok: "spend_ok ?d ?key" using spend_ok_advance [OF assms(2) dt] by blast
    from out assms(1) rt show ?thesis
      by (cases rule: spend_ok_E [OF ok]; intro exI [of _ dt])
         (auto simp: getMonthlySpendUsd_def command_def spent_def dt)
  qed
qed

end



section \<open>The log queue\<close>

text \<open>
  \<open>pendingWrites\<close> is the set of background inserts in flight; a settled insert, successful or
  not, removes itself.  \<open>requestLogsDropped\<close> counts the entries refused.
\<close>

definition MAX_PENDING_LOG_WRITES :: nat where
  "MAX_PENDING_LOG_WRITES = 1000"

record log_queue =
  lq_pending :: "(nat \<times> RequestLogEntry) list"
  lq_next :: nat
  lq_settled :: nat
  lq_dropped :: nat

definition empty_queue :: log_queue where
  "empty_queue = \<lparr>lq_pending = [], lq_next = 0, lq_settled = 0, lq_dropped = 0\<rparr>"

definition enqueueRequest :: "RequestLogEntry \<Rightarrow> log_queue \<Rightarrow> log_queue" where
  "enqueueRequest e q =
     (if length (lq_pending q) \<ge> MAX_PENDING_LOG_WRITES then q\<lparr>lq_dropped := lq_dropped q + 1\<rparr>
      else q\<lparr>lq_pending := lq_pending q @ [(lq_next q, e)], lq_next := lq_next q + 1\<rparr>)"

definition settle :: "nat \<Rightarrow> log_queue \<Rightarrow> log_queue" where
  "settle w q =
     (if w \<in> fst ` set (lq_pending q)
      then q\<lparr>lq_pending := filter (\<lambda>x. fst x \<noteq> w) (lq_pending q), lq_settled := lq_settled q + 1\<rparr> else q)"

text \<open>\<open>flush\<close>: wait for all pending writes until there is none.\<close>

definition flush :: "log_queue \<Rightarrow> log_queue" where
  "flush q = fold settle (map fst (lq_pending q)) q"

datatype log_op = Enqueue RequestLogEntry | Settle nat | Flush

fun log_step :: "log_op \<Rightarrow> log_queue \<Rightarrow> log_queue" where
  "log_step (Enqueue e) q = enqueueRequest e q"
| "log_step (Settle w) q = settle w q"
| "log_step Flush q = flush q"

definition log_ok :: "log_queue \<Rightarrow> bool" where
  "log_ok q \<longleftrightarrow> length (lq_pending q) \<le> MAX_PENDING_LOG_WRITES \<and> distinct (map fst (lq_pending q)) \<and>
     (\<forall>x \<in> set (lq_pending q). fst x < lq_next q) \<and> lq_next q = length (lq_pending q) + lq_settled q"

lemma length_filter_distinct:
  "distinct (map fst xs) \<Longrightarrow> w \<in> fst ` set xs \<Longrightarrow> length xs = Suc (length (filter (\<lambda>x. fst x \<noteq> w) xs))"
proof (induction xs)
  case (Cons x xs)
  show ?case
  proof (cases "fst x = w")
    case True
    with Cons.prems have "\<forall>y \<in> set xs. fst y \<noteq> w" by (simp add: image_iff) metis
    then have "filter (\<lambda>x. fst x \<noteq> w) xs = xs" by (simp add: filter_id_conv)
    with True show ?thesis by simp
  next
    case False
    with Cons show ?thesis by auto
  qed
qed simp

lemma log_ok_settle:
  assumes "log_ok q"
  shows "log_ok (settle w q)"
proof (cases "w \<in> fst ` set (lq_pending q)")
  case True
  with assms have len: "length (lq_pending q) = Suc (length (filter (\<lambda>x. fst x \<noteq> w) (lq_pending q)))"
    by (intro length_filter_distinct) (auto simp: log_ok_def)
  have "log_ok (q\<lparr>lq_pending := filter (\<lambda>x. fst x \<noteq> w) (lq_pending q), lq_settled := lq_settled q + 1\<rparr>)"
    using assms len distinct_map_filter [of fst "lq_pending q" "\<lambda>x. fst x \<noteq> w"] unfolding log_ok_def by fastforce
  with True show ?thesis by (simp add: settle_def)
qed (use assms in \<open>simp add: settle_def\<close>)

lemma log_ok_flush: "log_ok q \<Longrightarrow> log_ok (flush q)"
proof -
  have "log_ok q \<Longrightarrow> log_ok (fold settle ws q)" for ws
    by (induction ws arbitrary: q) (auto intro: log_ok_settle)
  then show "log_ok q \<Longrightarrow> log_ok (flush q)" by (simp add: flush_def)
qed

lemma log_ok_enqueue: "log_ok q \<Longrightarrow> log_ok (enqueueRequest e q)"
  by (fastforce simp: log_ok_def enqueueRequest_def)

lemma settle_pending:
  "set (lq_pending (fold settle ws q)) = {x \<in> set (lq_pending q). fst x \<notin> set ws}"
  by (induction ws arbitrary: q) (auto simp: settle_def)

lemma flush_empties: "lq_pending (flush q) = []"
proof -
  have "set (lq_pending (flush q)) = {}"
    unfolding flush_def settle_pending by auto
  then show ?thesis by simp
qed

definition enqueued :: "log_op list \<Rightarrow> nat" where
  "enqueued xs = length (filter (\<lambda>x. \<exists>e. x = Enqueue e) xs)"

lemma log_account_step:
  "lq_next (log_step x q) + lq_dropped (log_step x q) =
    lq_next q + lq_dropped q + (if \<exists>e. x = Enqueue e then 1 else 0)"
proof -
  have "lq_next (fold settle ws q') = lq_next q' \<and> lq_dropped (fold settle ws q') = lq_dropped q'" for ws q'
    by (induction ws arbitrary: q') (auto simp: settle_def)
  then show ?thesis by (cases x) (auto simp: enqueueRequest_def settle_def flush_def)
qed

text \<open>
  The log queue is bounded and loses nothing silently: after any sequence of enqueues,
  settling writes and flushes at most a thousand writes are in flight, every entry ever
  enqueued is settled, in flight or counted as dropped, and a flush leaves nothing in flight.
\<close>

theorem log_queue_bounded:
  "length (lq_pending (fold log_step xs empty_queue)) \<le> MAX_PENDING_LOG_WRITES \<and>
   enqueued xs = lq_settled (fold log_step xs empty_queue) + length (lq_pending (fold log_step xs empty_queue))
     + lq_dropped (fold log_step xs empty_queue) \<and>
   lq_pending (log_step Flush (fold log_step xs empty_queue)) = []"
proof -
  have "log_ok (fold log_step xs q) \<and>
      lq_next (fold log_step xs q) + lq_dropped (fold log_step xs q) = lq_next q + lq_dropped q + enqueued xs"
    if "log_ok q" for q
    using that
  proof (induction xs arbitrary: q)
    case (Cons x xs)
    have "log_ok (log_step x q)"
      using Cons.prems by (cases x) (auto intro: log_ok_enqueue log_ok_settle log_ok_flush)
    from Cons.IH [OF this] log_account_step [of x q] show ?case by (auto simp: enqueued_def)
  qed (simp add: enqueued_def)
  from this [of empty_queue] show ?thesis
    by (simp add: log_ok_def empty_queue_def flush_empties MAX_PENDING_LOG_WRITES_def)
qed

section \<open>Log rows\<close>

text \<open>
  \<open>Number.prototype.toFixed(6)\<close>: the nearest multiple of a millionth, the larger one on a tie,
  with the sign taken off first.
\<close>

definition toFixed6 :: "rat \<Rightarrow> string" where
  "toFixed6 x =
     (let n = nat \<lfloor>\<bar>x\<bar> * 1000000 + 1 / 2\<rfloor>
      in (if x < 0 then ''-'' else []) @ show_nat (n div 1000000) @ ''.'' @ pad_left 6 (show_nat (n mod 1000000)))"

record request_log_row =
  row_entry :: RequestLogEntry
  row_costUsd :: "string option"

definition log_row :: "RequestLogEntry \<Rightarrow> request_log_row" where
  "log_row e = \<lparr>row_entry = e, row_costUsd = map_option toFixed6 (le_costUsd e)\<rparr>"

text \<open>The insert is a parameter; its failures are logged and swallowed.\<close>

definition recordRequest ::
  "(request_log_row \<Rightarrow> 's \<Rightarrow> (thrown, unit) result \<times> 's) \<Rightarrow> RequestLogEntry \<Rightarrow> 's \<Rightarrow> 's" where
  "recordRequest db_insert e s = (case db_insert (log_row e) s of (Inl _, s') \<Rightarrow> s' | (Inr _, s') \<Rightarrow> s')"

end
