(* ===== verification/Circuit_Breaker.thy ===== *)
theory Circuit_Breaker
  imports Redis_Service
begin

text \<open>
  The distributed circuit breaker of \<open>src/circuit-breaker/index.ts\<close>: its four Lua scripts,
  the class methods that run them, an abstract state machine that the scripts refine, and
  the invariant of the five Redis keys of a breaker under every interleaving of operations
  and every passage of time.
\<close>

section \<open>The scripts\<close>

record CircuitBreakerOptions =
  failureThreshold :: int
  successThreshold :: int
  timeoutMs :: int
  windowMs :: int
  halfOpenMaxProbes :: int

record CircuitDecision =
  cd_state :: string
  cd_allowed :: bool

definition ACQUIRE_LUA ::
  "string \<Rightarrow> string \<Rightarrow> string \<Rightarrow> string \<Rightarrow> int \<Rightarrow> int \<Rightarrow> int \<Rightarrow> (string \<times> int) lua" where
  "ACQUIRE_LUA kState kOpened kProbes kSuccesses now timeout maxProbes =
     Call (GET kState) (\<lambda>r.
       let state = reply_string_or ''CLOSED'' r in
       if state = ''CLOSED'' then Return (''CLOSED'', 1)
       else if state = ''OPEN'' then
         Call (GET kOpened) (\<lambda>r. with_num r (\<lambda>openedAt.
           if of_int now - openedAt \<ge> of_int timeout then
             Call (SET kState (VStr ''HALF_OPEN'')) (\<lambda>_.
             Call (SET_PX kProbes (VInt 1) timeout) (\<lambda>_.
             Call (SET kSuccesses (VInt 0)) (\<lambda>_.
             Return (''HALF_OPEN'', 1))))
           else Return (''OPEN'', 0)))
       else if state = ''HALF_OPEN'' then
         Call (GET kProbes) (\<lambda>r. with_num r (\<lambda>probes.
           if probes < of_int maxProbes then
             Call (INCR kProbes) (\<lambda>_.
             Call (PEXPIRE kProbes timeout) (\<lambda>_.
             Return (''HALF_OPEN'', 1)))
           else Return (''HALF_OPEN'', 0)))
       else Return (state, 1))"

definition SUCCESS_LUA ::
  "string \<Rightarrow> string \<Rightarrow> string \<Rightarrow> string \<Rightarrow> string \<Rightarrow> int \<Rightarrow> string lua" where
  "SUCCESS_LUA kState kFailures kSuccesses kProbes kOpened threshold =
     Call (GET kState) (\<lambda>r.
       let state = reply_string_or ''CLOSED'' r in
       if state = ''HALF_OPEN'' then
         Call (INCR kSuccesses) (\<lambda>s.
           if int_reply s \<ge> threshold then
             Call (SET kState (VStr ''CLOSED'')) (\<lambda>_.
             Call (DEL [kFailures, kSuccesses, kProbes, kOpened]) (\<lambda>_.
             Return ''CLOSED''))
           else
             Call (GET kProbes) (\<lambda>r. with_num r (\<lambda>p.
               if p > 0 then Call (DECR kProbes) (\<lambda>_. Return ''HALF_OPEN'')
               else Return ''HALF_OPEN'')))
       else if state = ''CLOSED'' then
         Call (DEL [kFailures]) (\<lambda>_. Return ''CLOSED'')
       else Return state)"

definition RELEASE_LUA :: "string \<Rightarrow> string \<Rightarrow> string lua" where
  "RELEASE_LUA kState kProbes =
     Call (GET kState) (\<lambda>r.
       let state = reply_string_or ''CLOSED'' r in
       if state = ''HALF_OPEN'' then
         Call (GET kProbes) (\<lambda>r. with_num r (\<lambda>p.
           if p > 0 then Call (DECR kProbes) (\<lambda>_. Return state) else Return state))
       else Return state)"

definition FAILURE_LUA ::
  "string \<Rightarrow> string \<Rightarrow> string \<Rightarrow> string \<Rightarrow> string \<Rightarrow> int \<Rightarrow> int \<Rightarrow> int \<Rightarrow> string lua" where
  "FAILURE_LUA kState kFailures kOpened kProbes kSuccesses now threshold window =
     Call (GET kState) (\<lambda>r.
       let state = reply_string_or ''CLOSED'' r in
       if state = ''OPEN'' then Return ''OPEN''
       else if state = ''HALF_OPEN'' then
         Call (SET kState (VStr ''OPEN'')) (\<lambda>_.
         Call (SET kOpened (VInt now)) (\<lambda>_.
         Call (DEL [kProbes, kSuccesses, kFailures]) (\<lambda>_.
         Return ''OPEN'')))
       else
         Call (INCR kFailures) (\<lambda>f.
         Call (PEXPIRE kFailures window) (\<lambda>_.
           if int_reply f \<ge> threshold then
             Call (SET kState (VStr ''OPEN'')) (\<lambda>_.
             Call (SET kOpened (VInt now)) (\<lambda>_.
             Return ''OPEN''))
           else Return ''CLOSED'')))"

section \<open>The class methods\<close>

definition parseDecision :: "string \<times> int \<Rightarrow> CircuitDecision" where
  "parseDecision raw = \<lparr>cd_state = fst raw, cd_allowed = (snd raw = 1)\<rparr>"

definition acquire_script :: "CircuitBreakerOptions \<Rightarrow> key_prefix \<Rightarrow> string \<Rightarrow> int \<Rightarrow> (string \<times> int) lua" where
  "acquire_script cfg pre p now =
     ACQUIRE_LUA (cbState pre p) (cbOpenedAt pre p) (cbHalfProbes pre p) (cbHalfSuccesses pre p)
       now (timeoutMs cfg) (halfOpenMaxProbes cfg)"

definition success_script :: "CircuitBreakerOptions \<Rightarrow> key_prefix \<Rightarrow> string \<Rightarrow> string lua" where
  "success_script cfg pre p =
     SUCCESS_LUA (cbState pre p) (cbFailures pre p) (cbHalfSuccesses pre p) (cbHalfProbes pre p)
       (cbOpenedAt pre p) (successThreshold cfg)"

definition failure_script :: "CircuitBreakerOptions \<Rightarrow> key_prefix \<Rightarrow> string \<Rightarrow> int \<Rightarrow> string lua" where
  "failure_script cfg pre p now =
     FAILURE_LUA (cbState pre p) (cbFailures pre p) (cbOpenedAt pre p) (cbHalfProbes pre p)
       (cbHalfSuccesses pre p) now (failureThreshold cfg) (windowMs cfg)"

definition release_script :: "key_prefix \<Rightarrow> string \<Rightarrow> string lua" where
  "release_script pre p = RELEASE_LUA (cbState pre p) (cbHalfProbes pre p)"

definition reset_script :: "key_prefix \<Rightarrow> string \<Rightarrow> rreply lua" where
  "reset_script pre p =
     command (DEL [cbState pre p, cbFailures pre p, cbOpenedAt pre p, cbHalfProbes pre p,
                   cbHalfSuccesses pre p])"

definition cb_acquire ::
  "'s redis_env \<Rightarrow> CircuitBreakerOptions \<Rightarrow> key_prefix \<Rightarrow> string \<Rightarrow> int \<Rightarrow> 's
     \<Rightarrow> (redis_error, CircuitDecision) result \<times> 's" where
  "cb_acquire E cfg pre p now s =
     (case RedisScript_run E ''acquire'' (acquire_script cfg pre p now) s of
        (Inl e, s') \<Rightarrow> (Inl e, s') | (Inr raw, s') \<Rightarrow> (Inr (parseDecision raw), s'))"

definition cb_recordSuccess ::
  "'s redis_env \<Rightarrow> CircuitBreakerOptions \<Rightarrow> key_prefix \<Rightarrow> string \<Rightarrow> 's \<Rightarrow> (redis_error, string) result \<times> 's" where
  "cb_recordSuccess E cfg pre p s = RedisScript_run E ''success'' (success_script cfg pre p) s"

definition cb_recordFailure ::
  "'s redis_env \<Rightarrow> CircuitBreakerOptions \<Rightarrow> key_prefix \<Rightarrow> string \<Rightarrow> int \<Rightarrow> 's
     \<Rightarrow> (redis_error, string) result \<times> 's" where
  "cb_recordFailure E cfg pre p now s = RedisScript_run E ''failure'' (failure_script cfg pre p now) s"

definition cb_release ::
  "'s redis_env \<Rightarrow> key_prefix \<Rightarrow> string \<Rightarrow> 's \<Rightarrow> (redis_error, unit) result \<times> 's" where
  "cb_release E pre p s =
     (case RedisScript_run E ''release'' (release_script pre p) s of
        (Inl e, s') \<Rightarrow> (Inl e, s') | (Inr _, s') \<Rightarrow> (Inr (), s'))"

definition cb_reset ::
  "'s redis_env \<Rightarrow> key_prefix \<Rightarrow> string \<Rightarrow> 's \<Rightarrow> (redis_error, unit) result \<times> 's" where
  "cb_reset E pre p s =
     (case round_trip E (reset_script pre p) s of
        (Inl e, s') \<Rightarrow> (Inl e, s') | (Inr _, s') \<Rightarrow> (Inr (), s'))"

record CircuitBreakerStatus =
  cs_providerId :: string
  cs_state :: string
  cs_failures :: rat
  cs_openedAt :: "rat option"

text \<open>\<open>Number(text)\<close> of a stored string that is not a number is \<open>NaN\<close>: no status.\<close>

definition getState_of :: "string \<Rightarrow> rreply \<Rightarrow> CircuitBreakerStatus option" where
  "getState_of p r = (case r of
     RBulks [st, f, opened] \<Rightarrow>
       (case (case f of None \<Rightarrow> Some 0 | Some v \<Rightarrow> rval_num v,
              case opened of None \<Rightarrow> Some None | Some v \<Rightarrow> map_option Some (rval_num v)) of
          (Some n, Some t) \<Rightarrow>
            Some \<lparr>cs_providerId = p,
                  cs_state = (case st of Some (VStr s) \<Rightarrow> s | Some (VInt i) \<Rightarrow> show_int i | _ \<Rightarrow> ''CLOSED''),
                  cs_failures = n, cs_openedAt = t\<rparr>
        | _ \<Rightarrow> None)
   | _ \<Rightarrow> None)"

definition cb_getState ::
  "'s redis_env \<Rightarrow> key_prefix \<Rightarrow> string \<Rightarrow> 's
     \<Rightarrow> (redis_error, CircuitBreakerStatus option) result \<times> 's" where
  "cb_getState E pre p s =
     (case round_trip E (command (MGET [cbState pre p, cbFailures pre p, cbOpenedAt pre p])) s of
        (Inl e, s') \<Rightarrow> (Inl e, s') | (Inr r, s') \<Rightarrow> (Inr (getState_of p r), s'))"

section \<open>The abstract breaker\<close>

text \<open>
  What the scripts implement: a closed breaker counts consecutive failures, an open one
  remembers when it opened, a half-open one counts admitted probes and probe successes.
\<close>

datatype breaker = Closed int | Open int | HalfOpen int int

fun spec_acquire :: "CircuitBreakerOptions \<Rightarrow> int \<Rightarrow> breaker \<Rightarrow> bool \<times> breaker" where
  "spec_acquire cfg now (Closed f) = (True, Closed f)"
| "spec_acquire cfg now (Open t) =
     (if now - t \<ge> timeoutMs cfg then (True, HalfOpen 1 0) else (False, Open t))"
| "spec_acquire cfg now (HalfOpen n k) =
     (if n < halfOpenMaxProbes cfg then (True, HalfOpen (n + 1) k) else (False, HalfOpen n k))"

fun spec_success :: "CircuitBreakerOptions \<Rightarrow> breaker \<Rightarrow> breaker" where
  "spec_success cfg (Closed f) = Closed 0"
| "spec_success cfg (Open t) = Open t"
| "spec_success cfg (HalfOpen n k) =
     (if k + 1 \<ge> successThreshold cfg then Closed 0 else HalfOpen (max 0 (n - 1)) (k + 1))"

fun spec_failure :: "CircuitBreakerOptions \<Rightarrow> int \<Rightarrow> breaker \<Rightarrow> breaker" where
  "spec_failure cfg now (Closed f) =
     (if f + 1 \<ge> failureThreshold cfg then Open now else Closed (f + 1))"
| "spec_failure cfg now (Open t) = Open t"
| "spec_failure cfg now (HalfOpen n k) = Open now"

fun spec_release :: "breaker \<Rightarrow> breaker" where
  "spec_release (HalfOpen n k) = HalfOpen (max 0 (n - 1)) k"
| "spec_release b = b"

text \<open>What the passage of time may do: leased counters run out.\<close>

inductive lapse :: "breaker \<Rightarrow> breaker \<Rightarrow> bool" where
  lapse_none: "lapse b b"
| lapse_failures: "lapse (Closed f) (Closed 0)"
| lapse_probes: "lapse (HalfOpen n k) (HalfOpen 0 k)"

inductive_simps lapse_simps: "lapse (Closed f) b" "lapse (Open t) b" "lapse (HalfOpen n k) b"

fun state_name :: "breaker \<Rightarrow> string" where
  "state_name (Closed f) = ''CLOSED''"
| "state_name (Open t) = ''OPEN''"
| "state_name (HalfOpen n k) = ''HALF_OPEN''"

section \<open>Abstraction and invariant\<close>

definition cb_int :: "db \<Rightarrow> string \<Rightarrow> int" where
  "cb_int d k = (case live d k of Some (OStr (VInt i), _) \<Rightarrow> i | _ \<Rightarrow> 0)"

definition cb_state_of :: "key_prefix \<Rightarrow> string \<Rightarrow> db \<Rightarrow> string" where
  "cb_state_of pre p d = (case live d (cbState pre p) of Some (OStr (VStr s), _) \<Rightarrow> s | _ \<Rightarrow> ''CLOSED'')"

definition cb_abs :: "key_prefix \<Rightarrow> string \<Rightarrow> db \<Rightarrow> breaker" where
  "cb_abs pre p d =
     (if cb_state_of pre p d = ''OPEN'' then Open (cb_int d (cbOpenedAt pre p))
      else if cb_state_of pre p d = ''HALF_OPEN''
      then HalfOpen (cb_int d (cbHalfProbes pre p)) (cb_int d (cbHalfSuccesses pre p))
      else Closed (cb_int d (cbFailures pre p)))"

text \<open>Each key is absent or holds a value of its type with the lease it is given.\<close>

definition state_ok :: "key_prefix \<Rightarrow> string \<Rightarrow> db \<Rightarrow> bool" where
  "state_ok pre p d = (live d (cbState pre p) = None \<or>
     (\<exists>s \<in> {''CLOSED'', ''OPEN'', ''HALF_OPEN''}. live d (cbState pre p) = Some (OStr (VStr s), None)))"

definition plain_counter :: "db \<Rightarrow> string \<Rightarrow> bool" where
  "plain_counter d k = (live d k = None \<or> (\<exists>n. live d k = Some (OStr (VInt n), None)))"

definition leased_counter :: "db \<Rightarrow> string \<Rightarrow> int \<Rightarrow> int \<Rightarrow> bool" where
  "leased_counter d k hi lease = (live d k = None \<or>
     (\<exists>n t. live d k = Some (OStr (VInt n), Some t) \<and> 0 \<le> n \<and> n \<le> hi \<and> t \<le> clock d + lease))"

definition cb_inv :: "CircuitBreakerOptions \<Rightarrow> key_prefix \<Rightarrow> string \<Rightarrow> db \<Rightarrow> bool" where
  "cb_inv cfg pre p d \<longleftrightarrow>
     state_ok pre p d \<and> plain_counter d (cbOpenedAt pre p) \<and> plain_counter d (cbHalfSuccesses pre p) \<and>
     leased_counter d (cbHalfProbes pre p) (halfOpenMaxProbes cfg) (timeoutMs cfg) \<and>
     leased_counter d (cbFailures pre p) (failureThreshold cfg) (windowMs cfg) \<and>
     (cb_state_of pre p d = ''CLOSED'' \<longrightarrow> cb_int d (cbFailures pre p) < failureThreshold cfg) \<and>
     (cb_state_of pre p d = ''HALF_OPEN'' \<longrightarrow>
        0 \<le> cb_int d (cbHalfSuccesses pre p) \<and>
        cb_int d (cbHalfSuccesses pre p) < successThreshold cfg) \<and>
     (cb_state_of pre p d \<noteq> ''HALF_OPEN'' \<longrightarrow>
        live d (cbHalfProbes pre p) = None \<and> live d (cbHalfSuccesses pre p) = None)"

definition cb_config_ok :: "CircuitBreakerOptions \<Rightarrow> bool" where
  "cb_config_ok cfg \<longleftrightarrow> failureThreshold cfg \<ge> 1 \<and> successThreshold cfg \<ge> 1 \<and>
     timeoutMs cfg \<ge> 1 \<and> windowMs cfg \<ge> 1 \<and> halfOpenMaxProbes cfg \<ge> 1"

definition cb_keys :: "key_prefix \<Rightarrow> string \<Rightarrow> string set" where
  "cb_keys pre p = {cbState pre p, cbFailures pre p, cbOpenedAt pre p, cbHalfProbes pre p,
                    cbHalfSuccesses pre p}"

text \<open>A frame: only the keys of one breaker change, and the clock stands still.\<close>

definition only_changes :: "string set \<Rightarrow> db \<Rightarrow> db \<Rightarrow> bool" where
  "only_changes K d d' \<longleftrightarrow> clock d' = clock d \<and> (\<forall>k. k \<notin> K \<longrightarrow> live d' k = live d k)"

lemmas cb_script_defs =
  acquire_script_def ACQUIRE_LUA_def success_script_def SUCCESS_LUA_def failure_script_def
  FAILURE_LUA_def release_script_def RELEASE_LUA_def reset_script_def command_def Let_def

lemmas cb_inv_defs =
  cb_inv_def state_ok_def plain_counter_def leased_counter_def cb_state_of_def cb_int_def

lemma cb_keys_disjoint: "p \<noteq> q \<Longrightarrow> k \<in> cb_keys pre p \<Longrightarrow> k \<notin> cb_keys pre q"
  by (auto simp: cb_keys_def)

text \<open>The three shapes of a breaker that satisfies the invariant.\<close>

lemma cb_inv_cases:
  assumes "cb_inv cfg pre p d"
  obtains
    (closed) "cb_state_of pre p d = ''CLOSED''" "cb_abs pre p d = Closed (cb_int d (cbFailures pre p))"
      "live d (cbState pre p) \<in> {None, Some (OStr (VStr ''CLOSED''), None)}"
      "live d (cbHalfProbes pre p) = None" "live d (cbHalfSuccesses pre p) = None"
  | (opened) "cb_state_of pre p d = ''OPEN''" "cb_abs pre p d = Open (cb_int d (cbOpenedAt pre p))"
      "live d (cbState pre p) = Some (OStr (VStr ''OPEN''), None)"
      "live d (cbHalfProbes pre p) = None" "live d (cbHalfSuccesses pre p) = None"
  | (half) "cb_state_of pre p d = ''HALF_OPEN''"
      "cb_abs pre p d = HalfOpen (cb_int d (cbHalfProbes pre p)) (cb_int d (cbHalfSuccesses pre p))"
      "live d (cbState pre p) = Some (OStr (VStr ''HALF_OPEN''), None)"
  using assms by (auto simp: cb_inv_def state_ok_def cb_abs_def cb_state_of_def)

lemma leased_cases:
  assumes "leased_counter d k hi lease"
  obtains (absent) "live d k = None" "cb_int d k = 0"
  | (present) n t where "live d k = Some (OStr (VInt n), Some t)" "cb_int d k = n" "0 \<le> n" "n \<le> hi"
      "t \<le> clock d + lease" "clock d \<le> t"
  using assms by (auto simp: leased_counter_def cb_int_def dest: live_deadline)

lemma plain_cases:
  assumes "plain_counter d k"
  obtains (absent) "live d k = None" "cb_int d k = 0"
  | (present) n where "live d k = Some (OStr (VInt n), None)" "cb_int d k = n"
  using assms by (auto simp: plain_counter_def cb_int_def)

section \<open>The scripts refine the abstract breaker\<close>

definition cb_refines ::
  "CircuitBreakerOptions \<Rightarrow> key_prefix \<Rightarrow> string \<Rightarrow> db \<Rightarrow> breaker \<Rightarrow> db \<Rightarrow> bool" where
  "cb_refines cfg pre p d b d' \<longleftrightarrow>
     cb_inv cfg pre p d' \<and> cb_abs pre p d' = b \<and> only_changes (cb_keys pre p) d d'"

definition script_refines ::
  "CircuitBreakerOptions \<Rightarrow> key_prefix \<Rightarrow> string \<Rightarrow> db \<Rightarrow> 'a lua \<Rightarrow> 'a \<Rightarrow> breaker \<Rightarrow> bool" where
  "script_refines cfg pre p d m a b \<longleftrightarrow>
     (case exec redis_spec m d of (r, d') \<Rightarrow> r = Inr a \<and> cb_refines cfg pre p d b d')"

lemmas cb_refines_defs = script_refines_def cb_refines_def only_changes_def cb_keys_def cb_abs_def cb_inv_defs

text \<open>Evaluation of the key predicates after a write, with untouched keys left folded.\<close>

named_theorems cb_frame \<open>the breaker's key predicates after a write\<close>

lemma cb_put_other [cb_frame]:
  assumes "k' \<noteq> k"
  shows "plain_counter (put k x ttl d) k' = plain_counter d k'"
    and "leased_counter (put k x ttl d) k' hi lease = leased_counter d k' hi lease"
    and "cb_int (put k x ttl d) k' = cb_int d k'"
  using assms by (simp_all add: plain_counter_def leased_counter_def cb_int_def)

lemma cb_del_keys [cb_frame]:
  "plain_counter (del_keys ks d) k = (k \<in> set ks \<or> plain_counter d k)"
  "leased_counter (del_keys ks d) k hi lease = (k \<in> set ks \<or> leased_counter d k hi lease)"
  "cb_int (del_keys ks d) k = (if k \<in> set ks then 0 else cb_int d k)"
  by (auto simp: plain_counter_def leased_counter_def cb_int_def)

lemma cb_put_same [cb_frame]:
  "plain_counter (put k (OStr (VInt n)) None d) k"
  "0 \<le> n \<Longrightarrow> n \<le> hi \<Longrightarrow> t \<le> clock d + lease \<Longrightarrow>
     leased_counter (put k (OStr (VInt n)) (Some t) d) k hi lease"
  "cb_int (put k (OStr (VInt n)) None d) k = n"
  "clock d \<le> t \<Longrightarrow> cb_int (put k (OStr (VInt n)) (Some t) d) k = n"
  by (auto simp: plain_counter_def leased_counter_def cb_int_def)

lemma cb_state_put [cb_frame]:
  "cb_state_of pre p (put (cbState pre p) (OStr (VStr s)) None d) = s"
  "k \<noteq> cbState pre p \<Longrightarrow> cb_state_of pre p (put k x ttl d) = cb_state_of pre p d"
  "cbState pre p \<notin> set ks \<Longrightarrow> cb_state_of pre p (del_keys ks d) = cb_state_of pre p d"
  by (simp_all add: cb_state_of_def)

lemma state_ok_put [cb_frame]:
  "s \<in> {''CLOSED'', ''OPEN'', ''HALF_OPEN''} \<Longrightarrow> state_ok pre p (put (cbState pre p) (OStr (VStr s)) None d)"
  "k \<noteq> cbState pre p \<Longrightarrow> state_ok pre p (put k x ttl d) = state_ok pre p d"
  "cbState pre p \<notin> set ks \<Longrightarrow> state_ok pre p (del_keys ks d) = state_ok pre p d"
  by (auto simp: state_ok_def)

lemma get_state:
  assumes "state_ok pre p d"
  obtains r where "redis_spec (GET (cbState pre p)) d = (r, d)" "\<And>e. r \<noteq> RErr e"
    "reply_string_or ''CLOSED'' r = cb_state_of pre p d"
  using assms by (fastforce simp: state_ok_def cb_state_of_def)

lemma exec_get_state:
  assumes "state_ok pre p d"
    and "\<And>r. reply_string_or ''CLOSED'' r = cb_state_of pre p d \<Longrightarrow> exec redis_spec (f r) d = out"
  shows "exec redis_spec (Call (GET (cbState pre p)) f) d = out"
proof -
  obtain r where r: "redis_spec (GET (cbState pre p)) d = (r, d)" "\<And>e. r \<noteq> RErr e"
    "reply_string_or ''CLOSED'' r = cb_state_of pre p d"
    using get_state [OF assms(1)] by blast
  then show ?thesis using assms(2) [of r] by (cases r) auto
qed

lemma get_leased:
  assumes "leased_counter d k hi lease"
  shows "exec redis_spec (Call (GET k) (\<lambda>r. with_num r f)) d = exec redis_spec (f (of_int (cb_int d k))) d"
  using assms by (cases rule: leased_cases) auto

lemma get_plain:
  assumes "plain_counter d k"
  shows "exec redis_spec (Call (GET k) (\<lambda>r. with_num r f)) d = exec redis_spec (f (of_int (cb_int d k))) d"
  using assms by (cases rule: plain_cases) auto

lemma incr_plain:
  assumes "plain_counter d k"
  shows "redis_spec (INCR k) d = (RInt (cb_int d k + 1), put k (OStr (VInt (cb_int d k + 1))) None d)"
  using assms by (cases rule: plain_cases) (auto simp: incr_by_def)

lemma exec_incr_lease:
  assumes "leased_counter d k hi lease" "0 < w"
  shows "exec redis_spec (Call (INCR k) (\<lambda>f. Call (PEXPIRE k w) (\<lambda>_. g f))) d =
    exec redis_spec (g (RInt (cb_int d k + 1))) (put k (OStr (VInt (cb_int d k + 1))) (Some (clock d + w)) d)"
  using assms by (cases rule: leased_cases) (auto simp: incr_by_def)

lemma exec_acquire:
  assumes inv: "cb_inv cfg pre p d" and ok: "cb_config_ok cfg"
  shows "script_refines cfg pre p d (acquire_script cfg pre p now)
           (state_name (snd (spec_acquire cfg now (cb_abs pre p d))),
            if fst (spec_acquire cfg now (cb_abs pre p d)) then 1 else 0)
           (snd (spec_acquire cfg now (cb_abs pre p d)))"
  using inv
proof (cases rule: cb_inv_cases)
  case closed
  then show ?thesis
    using inv by (auto simp: cb_script_defs script_refines_def cb_refines_def only_changes_def)
next
  case opened
  have at: "plain_counter d (cbOpenedAt pre p)" and f: "leased_counter d (cbFailures pre p) (failureThreshold cfg) (windowMs cfg)"
    using inv by (auto simp: cb_inv_def)
  from at show ?thesis
  proof (cases rule: plain_cases)
    case absent
    with opened f ok inv show ?thesis
      by (auto simp: cb_script_defs cb_refines_defs cb_config_ok_def)
  next
    case (present n)
    with opened f ok inv show ?thesis
      by (auto simp: cb_script_defs cb_refines_defs cb_config_ok_def)
  qed
next
  case half
  have "leased_counter d (cbHalfProbes pre p) (halfOpenMaxProbes cfg) (timeoutMs cfg)"
    using inv by (auto simp: cb_inv_def)
  then show ?thesis
  proof (cases rule: leased_cases)
    case absent
    with half ok inv show ?thesis
      by (auto simp: cb_script_defs cb_refines_defs cb_config_ok_def incr_by_def)
  next
    case (present n t)
    with half ok inv show ?thesis
      by (auto simp: cb_script_defs cb_refines_defs cb_config_ok_def incr_by_def)
  qed
qed

lemma exec_success:
  assumes inv: "cb_inv cfg pre p d" and ok: "cb_config_ok cfg"
  shows "script_refines cfg pre p d (success_script cfg pre p) (state_name (spec_success cfg (cb_abs pre p d)))
           (spec_success cfg (cb_abs pre p d))"
  using inv
proof (cases rule: cb_inv_cases)
  case closed
  note parts = inv [unfolded cb_inv_def]
  have "exec redis_spec (success_script cfg pre p) d = (Inr ''CLOSED'', del_keys [cbFailures pre p] d)"
    unfolding success_script_def SUCCESS_LUA_def
    by (rule exec_get_state) (use parts closed in \<open>simp_all add: Let_def\<close>)
  then show ?thesis using parts closed ok
    by (simp add: script_refines_def cb_refines_def cb_inv_def cb_abs_def cb_frame
        cb_config_ok_def only_changes_def cb_keys_def)
next
  case opened
  then show ?thesis
    using inv by (auto simp: cb_script_defs script_refines_def cb_refines_def only_changes_def)
next
  case half
  have pr: "leased_counter d (cbHalfProbes pre p) (halfOpenMaxProbes cfg) (timeoutMs cfg)"
    and su: "plain_counter d (cbHalfSuccesses pre p)"
    using inv by (auto simp: cb_inv_def)
  from su show ?thesis
  proof (cases rule: plain_cases)
    case su': absent
    from pr half su' inv ok show ?thesis
      by (cases rule: leased_cases)
        (auto simp: cb_script_defs cb_refines_defs cb_config_ok_def incr_by_def)
  next
    case su': (present k)
    from pr half su' inv ok show ?thesis
      by (cases rule: leased_cases)
        (auto simp: cb_script_defs cb_refines_defs cb_config_ok_def incr_by_def)
  qed
qed

lemma exec_failure:
  assumes inv: "cb_inv cfg pre p d" and ok: "cb_config_ok cfg"
  shows "script_refines cfg pre p d (failure_script cfg pre p now) (state_name (spec_failure cfg now (cb_abs pre p d)))
           (spec_failure cfg now (cb_abs pre p d))"
  using inv
proof (cases rule: cb_inv_cases)
  case closed
  note parts = inv [unfolded cb_inv_def]
  let ?f = "cb_int d (cbFailures pre p) + 1"
  let ?d = "put (cbFailures pre p) (OStr (VInt ?f)) (Some (clock d + windowMs cfg)) d"
  let ?d' = "put (cbOpenedAt pre p) (OStr (VInt now)) None (put (cbState pre p) (OStr (VStr ''OPEN'')) None ?d)"
  have f: "leased_counter d (cbFailures pre p) (failureThreshold cfg) (windowMs cfg)" and "0 \<le> ?f"
    using parts by (auto simp: leased_counter_def cb_int_def)
  have "exec redis_spec (failure_script cfg pre p now) d =
      (if ?f \<ge> failureThreshold cfg then (Inr ''OPEN'', ?d') else (Inr ''CLOSED'', ?d))"
    unfolding failure_script_def FAILURE_LUA_def
    by (rule exec_get_state)
      (use parts closed f ok in \<open>simp_all add: Let_def cb_config_ok_def exec_incr_lease [OF f]
         del: exec.simps(3)\<close>, simp add: Let_def)
  then show ?thesis using parts closed ok \<open>0 \<le> ?f\<close>
    by (simp add: script_refines_def cb_refines_def cb_inv_def cb_abs_def cb_frame
        cb_config_ok_def only_changes_def cb_keys_def)
next
  case opened
  then show ?thesis
    using inv by (auto simp: cb_script_defs script_refines_def cb_refines_def only_changes_def)
next
  case half
  then show ?thesis
    using inv ok by (auto simp: cb_script_defs cb_refines_defs cb_config_ok_def)
qed

lemma exec_release:
  assumes inv: "cb_inv cfg pre p d"
  shows "script_refines cfg pre p d (release_script pre p) (state_name (spec_release (cb_abs pre p d)))
           (spec_release (cb_abs pre p d))"
  using inv
proof (cases rule: cb_inv_cases)
  case closed
  then show ?thesis
    using inv by (auto simp: cb_script_defs script_refines_def cb_refines_def only_changes_def)
next
  case opened
  then show ?thesis
    using inv by (auto simp: cb_script_defs script_refines_def cb_refines_def only_changes_def)
next
  case half
  have "leased_counter d (cbHalfProbes pre p) (halfOpenMaxProbes cfg) (timeoutMs cfg)"
    using inv by (auto simp: cb_inv_def)
  then show ?thesis using half inv
    by (cases rule: leased_cases)
      (auto simp: cb_script_defs cb_refines_defs incr_by_def)
qed

lemma exec_reset:
  assumes "cb_config_ok cfg"
  shows "\<exists>r. script_refines cfg pre p d (reset_script pre p) r (Closed 0)"
  using assms by (auto simp: cb_script_defs cb_refines_defs cb_config_ok_def)

text \<open>Time can only run leased counters out.\<close>

lemma leased_advance:
  assumes "leased_counter d k hi lease" "0 \<le> dt"
  shows "leased_counter (advance dt d) k hi lease"
    and "cb_int (advance dt d) k = cb_int d k \<or> cb_int (advance dt d) k = 0"
proof -
  show "leased_counter (advance dt d) k hi lease"
    using assms by (cases rule: leased_cases) (auto simp: leased_counter_def live_advance)
  show "cb_int (advance dt d) k = cb_int d k \<or> cb_int (advance dt d) k = 0"
    using assms by (cases rule: leased_cases) (auto simp: cb_int_def live_advance)
qed

lemma plain_advance:
  assumes "plain_counter d k" "0 \<le> dt"
  shows "plain_counter (advance dt d) k" and "cb_int (advance dt d) k = cb_int d k"
proof -
  show "plain_counter (advance dt d) k"
    using assms by (cases rule: plain_cases) (auto simp: plain_counter_def live_advance)
  show "cb_int (advance dt d) k = cb_int d k"
    using assms by (cases rule: plain_cases) (auto simp: cb_int_def live_advance)
qed

lemma cb_state_advance: "state_ok pre p d \<Longrightarrow> 0 \<le> dt \<Longrightarrow> cb_state_of pre p (advance dt d) = cb_state_of pre p d"
  by (auto simp: state_ok_def cb_state_of_def live_advance)

lemma live_advance_None: "live d k = None \<Longrightarrow> 0 \<le> dt \<Longrightarrow> live (advance dt d) k = None"
  by (simp add: live_advance)

lemma cb_inv_advance:
  assumes inv: "cb_inv cfg pre p d" and dt: "0 \<le> dt" and ok: "cb_config_ok cfg"
  shows "cb_inv cfg pre p (advance dt d)"
proof -
  note parts = inv [unfolded cb_inv_def]
  have st: "state_ok pre p (advance dt d)"
    using parts dt by (auto simp: state_ok_def live_advance)
  have "cb_state_of pre p (advance dt d) = cb_state_of pre p d"
    using parts dt by (simp add: cb_state_advance)
  moreover have "cb_int (advance dt d) (cbFailures pre p) < failureThreshold cfg"
    if "cb_int d (cbFailures pre p) < failureThreshold cfg"
    using that leased_advance(2) [OF _ dt] parts ok unfolding cb_config_ok_def by fastforce
  moreover have "cb_int (advance dt d) (cbHalfSuccesses pre p) = cb_int d (cbHalfSuccesses pre p)"
    using parts dt by (simp add: plain_advance)
  ultimately show ?thesis
    using parts dt st
    by (auto simp: cb_inv_def leased_advance plain_advance live_advance_None)
qed

lemma cb_abs_advance:
  assumes inv: "cb_inv cfg pre p d" and dt: "0 \<le> dt"
  shows "lapse (cb_abs pre p d) (cb_abs pre p (advance dt d))"
proof -
  note parts = inv [unfolded cb_inv_def]
  have "cb_state_of pre p (advance dt d) = cb_state_of pre p d"
    "cb_int (advance dt d) (cbOpenedAt pre p) = cb_int d (cbOpenedAt pre p)"
    "cb_int (advance dt d) (cbHalfSuccesses pre p) = cb_int d (cbHalfSuccesses pre p)"
    using parts dt by (simp_all add: cb_state_advance plain_advance)
  moreover have
    "cb_int (advance dt d) (cbFailures pre p) \<in> {cb_int d (cbFailures pre p), 0}"
    "cb_int (advance dt d) (cbHalfProbes pre p) \<in> {cb_int d (cbHalfProbes pre p), 0}"
    using parts leased_advance(2) [OF _ dt] by blast+
  ultimately show ?thesis
    by (auto simp: cb_abs_def intro: lapse.intros)
qed

lemma only_changes_other:
  assumes "only_changes (cb_keys pre p) d d'" "q \<noteq> p"
  shows "cb_inv cfg pre q d' = cb_inv cfg pre q d" and "cb_abs pre q d' = cb_abs pre q d"
proof -
  have live: "live d' k = live d k" if "k \<in> cb_keys pre q" for k
    using assms that cb_keys_disjoint [of q p k pre] by (auto simp: only_changes_def)
  have eqs: "live d' (cbState pre q) = live d (cbState pre q)"
    "live d' (cbFailures pre q) = live d (cbFailures pre q)"
    "live d' (cbOpenedAt pre q) = live d (cbOpenedAt pre q)"
    "live d' (cbHalfProbes pre q) = live d (cbHalfProbes pre q)"
    "live d' (cbHalfSuccesses pre q) = live d (cbHalfSuccesses pre q)" "clock d' = clock d"
    using assms(1) by (simp_all add: live cb_keys_def only_changes_def)
  show "cb_inv cfg pre q d' = cb_inv cfg pre q d"
    by (simp add: cb_inv_defs eqs)
  show "cb_abs pre q d' = cb_abs pre q d"
    by (simp add: cb_abs_def cb_state_of_def cb_int_def eqs)
qed

section \<open>Runs over a Redis service\<close>

text \<open>
  The operations that the replicas of the gateway issue.  Scripts are atomic on the server,
  so a fleet's history is a list of operations on arbitrary providers.
\<close>

datatype cb_op =
    OpAcquire string int | OpSuccess string | OpFailure string int | OpRelease string | OpReset string

fun op_provider :: "cb_op \<Rightarrow> string" where
  "op_provider (OpAcquire p now) = p"
| "op_provider (OpSuccess p) = p"
| "op_provider (OpFailure p now) = p"
| "op_provider (OpRelease p) = p"
| "op_provider (OpReset p) = p"

fun cb_run_op :: "'s redis_env \<Rightarrow> CircuitBreakerOptions \<Rightarrow> key_prefix \<Rightarrow> cb_op \<Rightarrow> 's \<Rightarrow> 's" where
  "cb_run_op E cfg pre (OpAcquire p now) s = snd (cb_acquire E cfg pre p now s)"
| "cb_run_op E cfg pre (OpSuccess p) s = snd (cb_recordSuccess E cfg pre p s)"
| "cb_run_op E cfg pre (OpFailure p now) s = snd (cb_recordFailure E cfg pre p now s)"
| "cb_run_op E cfg pre (OpRelease p) s = snd (cb_release E pre p s)"
| "cb_run_op E cfg pre (OpReset p) s = snd (cb_reset E pre p s)"

fun cb_run_ops :: "'s redis_env \<Rightarrow> CircuitBreakerOptions \<Rightarrow> key_prefix \<Rightarrow> cb_op list \<Rightarrow> 's \<Rightarrow> 's" where
  "cb_run_ops E cfg pre [] s = s"
| "cb_run_ops E cfg pre (x # xs) s = cb_run_ops E cfg pre xs (cb_run_op E cfg pre x s)"

text \<open>The abstract effect of an operation on the breaker of its own provider.\<close>

fun spec_op :: "CircuitBreakerOptions \<Rightarrow> cb_op \<Rightarrow> breaker \<Rightarrow> breaker" where
  "spec_op cfg (OpAcquire p now) b = snd (spec_acquire cfg now b)"
| "spec_op cfg (OpSuccess p) b = spec_success cfg b"
| "spec_op cfg (OpFailure p now) b = spec_failure cfg now b"
| "spec_op cfg (OpRelease p) b = spec_release b"
| "spec_op cfg (OpReset p) b = Closed 0"

text \<open>
  One step of the abstract breaker of provider \<open>q\<close>: time passes, and then the operation
  takes effect if it concerns \<open>q\<close> and reaches the server.
\<close>

inductive breaker_step :: "CircuitBreakerOptions \<Rightarrow> string \<Rightarrow> cb_op \<Rightarrow> breaker \<Rightarrow> breaker \<Rightarrow> bool"
  for cfg q where
  only_time: "lapse b b' \<Longrightarrow> breaker_step cfg q x b b'"
| effect: "op_provider x = q \<Longrightarrow> lapse b b1 \<Longrightarrow> breaker_step cfg q x b (spec_op cfg x b1)"

inductive breaker_run :: "CircuitBreakerOptions \<Rightarrow> string \<Rightarrow> cb_op list \<Rightarrow> breaker \<Rightarrow> breaker \<Rightarrow> bool"
  for cfg q where
  run_nil: "breaker_run cfg q [] b b"
| run_cons: "breaker_step cfg q x b b1 \<Longrightarrow> breaker_run cfg q xs b1 b2 \<Longrightarrow> breaker_run cfg q (x # xs) b b2"

context redis_service
begin

lemma script_run_refines:
  assumes rt: "RedisScript_run E name m s = (r, s')"
    and inv: "cb_inv cfg pre p (view s)" and ok: "cb_config_ok cfg"
    and ref: "\<And>d. cb_inv cfg pre p d \<Longrightarrow> script_refines cfg pre p d m (a (cb_abs pre p d)) (f (cb_abs pre p d))"
  shows "\<exists>dt b. 0 \<le> dt \<and> lapse (cb_abs pre p (view s)) b \<and> cb_abs pre p (advance dt (view s)) = b \<and>
    ((r = Inl Unreachable \<and> view s' = advance dt (view s)) \<or>
     (r = Inr (a b) \<and> cb_refines cfg pre p (advance dt (view s)) (f b) (view s')))"
  using RedisScript_run_atomic [OF rt]
proof (rule atomic_runE)
  fix dt
  assume dt: "0 \<le> dt" and
    out: "(r = Inl Unreachable \<and> view s' = advance dt (view s)) \<or>
     (\<exists>x. exec redis_spec m (advance dt (view s)) = (x, view s') \<and>
          r = (case x of Inl e \<Rightarrow> Inl (ScriptError e) | Inr a \<Rightarrow> Inr a))"
  let ?d = "advance dt (view s)"
  have "cb_inv cfg pre p ?d" using cb_inv_advance [OF inv dt ok] .
  then have "script_refines cfg pre p ?d m (a (cb_abs pre p ?d)) (f (cb_abs pre p ?d))"
    by (rule ref)
  moreover have "lapse (cb_abs pre p (view s)) (cb_abs pre p ?d)"
    by (rule cb_abs_advance [OF inv dt])
  ultimately show ?thesis
    using out dt by (auto simp: script_refines_def)
qed

lemma cb_acquire_cases:
  assumes "cb_acquire E cfg pre p now s = (r, s')" and "cb_inv cfg pre p (view s)" and "cb_config_ok cfg"
  shows "\<exists>dt b. 0 \<le> dt \<and> lapse (cb_abs pre p (view s)) b \<and> cb_abs pre p (advance dt (view s)) = b \<and>
    ((r = Inl Unreachable \<and> view s' = advance dt (view s)) \<or>
     (r = Inr \<lparr>cd_state = state_name (snd (spec_acquire cfg now b)),
               cd_allowed = fst (spec_acquire cfg now b)\<rparr> \<and>
      cb_refines cfg pre p (advance dt (view s)) (snd (spec_acquire cfg now b)) (view s')))"
proof -
  obtain r0 where rt: "RedisScript_run E ''acquire'' (acquire_script cfg pre p now) s = (r0, s')"
    and r: "r = (case r0 of Inl e \<Rightarrow> Inl e | Inr raw \<Rightarrow> Inr (parseDecision raw))"
    using assms(1) by (auto simp: cb_acquire_def split: prod.splits sum.splits)
  have sc: "script_refines cfg pre p d (acquire_script cfg pre p now)
      (state_name (snd (spec_acquire cfg now (cb_abs pre p d))),
       if fst (spec_acquire cfg now (cb_abs pre p d)) then 1 else 0)
      (snd (spec_acquire cfg now (cb_abs pre p d)))" if "cb_inv cfg pre p d" for d
    using exec_acquire [OF that assms(3)] .
  from script_run_refines [OF rt assms(2,3), of
      "\<lambda>b. (state_name (snd (spec_acquire cfg now b)), if fst (spec_acquire cfg now b) then 1 else 0)"
      "\<lambda>b. snd (spec_acquire cfg now b)", OF sc]
  show ?thesis
    unfolding r by (fastforce simp: parseDecision_def)
qed

lemma cb_run_op_view:
  assumes inv: "cb_inv cfg pre (op_provider x) (view s)" and ok: "cb_config_ok cfg"
  shows "\<exists>dt b. 0 \<le> dt \<and> lapse (cb_abs pre (op_provider x) (view s)) b \<and>
    cb_abs pre (op_provider x) (advance dt (view s)) = b \<and>
    (view (cb_run_op E cfg pre x s) = advance dt (view s) \<or>
     cb_refines cfg pre (op_provider x) (advance dt (view s)) (spec_op cfg x b) (view (cb_run_op E cfg pre x s)))"
proof (cases x)
  case (OpAcquire p now)
  obtain r s' where "cb_acquire E cfg pre p now s = (r, s')" by fastforce
  with cb_acquire_cases [OF this] inv ok OpAcquire show ?thesis by fastforce
next
  case (OpSuccess p)
  obtain r s' where "RedisScript_run E ''success'' (success_script cfg pre p) s = (r, s')" by fastforce
  with script_run_refines [OF this _ ok, of pre p "\<lambda>b. state_name (spec_success cfg b)" "spec_success cfg"]
    exec_success inv ok OpSuccess show ?thesis by (fastforce simp: cb_recordSuccess_def)
next
  case (OpFailure p now)
  obtain r s' where "RedisScript_run E ''failure'' (failure_script cfg pre p now) s = (r, s')" by fastforce
  with script_run_refines [OF this _ ok, of pre p "\<lambda>b. state_name (spec_failure cfg now b)" "spec_failure cfg now"]
    exec_failure inv ok OpFailure show ?thesis by (fastforce simp: cb_recordFailure_def)
next
  case (OpRelease p)
  obtain r s' where rt: "RedisScript_run E ''release'' (release_script pre p) s = (r, s')" by fastforce
  then have "snd (cb_release E pre p s) = s'"
    by (auto simp: cb_release_def split: sum.splits)
  with script_run_refines [OF rt _ ok, of pre p "\<lambda>b. state_name (spec_release b)" spec_release]
    exec_release inv OpRelease show ?thesis by fastforce
next
  case (OpReset p)
  obtain r s' where rt: "round_trip E (reset_script pre p) s = (r, s')" by fastforce
  then have s': "snd (cb_reset E pre p s) = s'"
    by (auto simp: cb_reset_def split: sum.splits)
  from round_trip_atomic [OF rt] show ?thesis
  proof (rule atomic_runE)
    fix dt
    assume dt: "0 \<le> dt" and out: "(r = Inl Unreachable \<and> view s' = advance dt (view s)) \<or>
     (\<exists>y. exec redis_spec (reset_script pre p) (advance dt (view s)) = (y, view s') \<and>
          r = (case y of Inl e \<Rightarrow> Inl (ScriptError e) | Inr a \<Rightarrow> Inr a))"
    with exec_reset [OF ok, of pre p "advance dt (view s)"]
    have "view s' = advance dt (view s) \<or>
        cb_refines cfg pre p (advance dt (view s)) (Closed 0) (view s')"
      by (auto simp: script_refines_def)
    with dt cb_abs_advance [OF inv dt] OpReset s' show ?thesis by auto
  qed
qed

lemma cb_run_op_inv:
  assumes inv: "\<And>p. cb_inv cfg pre p (view s)" and ok: "cb_config_ok cfg"
  shows "cb_inv cfg pre q (view (cb_run_op E cfg pre x s))"
    and "breaker_step cfg q x (cb_abs pre q (view s)) (cb_abs pre q (view (cb_run_op E cfg pre x s)))"
proof -
  let ?p = "op_provider x" and ?v = "view (cb_run_op E cfg pre x s)"
  from cb_run_op_view [OF inv ok, of x]
  obtain dt b where dt: "0 \<le> dt" and b: "lapse (cb_abs pre ?p (view s)) b"
    and bd: "cb_abs pre ?p (advance dt (view s)) = b"
    and out: "?v = advance dt (view s) \<or> cb_refines cfg pre ?p (advance dt (view s)) (spec_op cfg x b) ?v"
    by blast
  have adv: "cb_inv cfg pre q (advance dt (view s))" "lapse (cb_abs pre q (view s)) (cb_abs pre q (advance dt (view s)))"
    using cb_inv_advance [OF inv dt ok] cb_abs_advance [OF inv dt] by auto
  have "cb_inv cfg pre q ?v \<and> breaker_step cfg q x (cb_abs pre q (view s)) (cb_abs pre q ?v)"
  proof (cases "q = ?p \<and> ?v \<noteq> advance dt (view s)")
    case True
    with out have "cb_refines cfg pre q (advance dt (view s)) (spec_op cfg x b) ?v"
      by auto
    with True b show ?thesis by (auto simp: cb_refines_def intro: breaker_step.effect)
  next
    case False
    then show ?thesis
    proof (cases "?v = advance dt (view s)")
      case True
      with adv show ?thesis by (auto intro: breaker_step.only_time)
    next
      case changed: False
      with False out have "q \<noteq> ?p" "only_changes (cb_keys pre ?p) (advance dt (view s)) ?v"
        by (auto simp: cb_refines_def)
      with adv only_changes_other [of pre ?p "advance dt (view s)" ?v q] show ?thesis
        by (auto intro: breaker_step.only_time)
    qed
  qed
  then show "cb_inv cfg pre q ?v"
    and "breaker_step cfg q x (cb_abs pre q (view s)) (cb_abs pre q ?v)" by auto
qed

lemma cb_run_ops_inv:
  assumes "\<And>p. cb_inv cfg pre p (view s)" "cb_config_ok cfg"
  shows "cb_inv cfg pre q (view (cb_run_ops E cfg pre xs s)) \<and>
    breaker_run cfg q xs (cb_abs pre q (view s)) (cb_abs pre q (view (cb_run_ops E cfg pre xs s)))"
  using assms
proof (induction xs arbitrary: s)
  case Nil
  then show ?case by (auto intro: breaker_run.run_nil)
next
  case (Cons x xs)
  have "\<And>p. cb_inv cfg pre p (view (cb_run_op E cfg pre x s))"
    by (rule cb_run_op_inv(1) [OF Cons.prems])
  from Cons.IH [OF this Cons.prems(2)] cb_run_op_inv(2) [OF Cons.prems, of q x]
  show ?case by (auto intro: breaker_run.run_cons)
qed

end

section \<open>Consequences\<close>

definition failure_count :: "string \<Rightarrow> cb_op list \<Rightarrow> int" where
  "failure_count q xs = int (length (filter (\<lambda>x. \<exists>now. x = OpFailure q now) xs))"

lemma failure_count_simps [simp]:
  "failure_count q [] = 0"
  "failure_count q (x # xs) = (if \<exists>now. x = OpFailure q now then 1 else 0) + failure_count q xs"
  by (simp_all add: failure_count_def)

lemma failure_count_nonneg: "0 \<le> failure_count q xs"
  by (simp add: failure_count_def)

lemma breaker_step_closed:
  assumes "breaker_step cfg q x (Closed f) b" "0 \<le> f"
    and "f + failure_count q [x] < failureThreshold cfg"
  shows "\<exists>f'. b = Closed f' \<and> 0 \<le> f' \<and> f' \<le> f + failure_count q [x]"
  using assms by (cases; cases x) (auto simp: lapse_simps split: if_splits)

lemma breaker_run_closed:
  assumes "breaker_run cfg q xs b b'" "b = Closed f" "0 \<le> f" "f + failure_count q xs < failureThreshold cfg"
  shows "\<exists>f'. b' = Closed f' \<and> 0 \<le> f' \<and> f' \<le> f + failure_count q xs"
  using assms
proof (induction arbitrary: f rule: breaker_run.induct)
  case (run_cons x b b1 xs b2)
  have "f + failure_count q [x] < failureThreshold cfg"
    using run_cons.prems failure_count_nonneg [of q xs] by simp
  with run_cons breaker_step_closed [of cfg q x f b1]
  obtain f1 where f1: "b1 = Closed f1" "0 \<le> f1" "f1 \<le> f + failure_count q [x]"
    by auto
  with run_cons.prems have "f1 + failure_count q xs < failureThreshold cfg"
    by simp
  from run_cons.IH [OF f1(1,2) this] f1 show ?case by auto
qed auto

lemma cb_inv_empty: "cb_config_ok cfg \<Longrightarrow> cb_inv cfg pre p (empty_db t)"
  by (simp add: cb_inv_defs cb_config_ok_def)

lemma cb_abs_empty: "cb_abs pre p (empty_db t) = Closed 0"
  by (simp add: cb_abs_def cb_state_of_def cb_int_def)

definition default_cb :: CircuitBreakerOptions where
  "default_cb = \<lparr>failureThreshold = 5, successThreshold = 2, timeoutMs = 30000, windowMs = 60000,
     halfOpenMaxProbes = 1\<rparr>"

lemma default_cb_ok: "cb_config_ok default_cb"
  by (simp add: cb_config_ok_def default_cb_def)

lemmas ref_eval =
  ref_init_def ref_env_def ref_call_def ref_tick_def round_trip_def evalsha_def script_load_def RedisScript_run_def Let_def

lemmas cb_eval =
  ref_eval cb_acquire_def cb_recordSuccess_def cb_recordFailure_def cb_release_def cb_reset_def
  cb_script_defs parseDecision_def incr_by_def default_cb_def

text \<open>
  C15. Whatever the replicas do, in any interleaving, with any passage of time and any
  Redis outage, the keys of every breaker stay well formed (in particular the recorded
  probes never exceed \<open>halfOpenMaxProbes\<close>, the probe counter always carries a lease of at
  most \<open>timeoutMs\<close>, and a closed breaker has recorded fewer than \<open>failureThreshold\<close>
  failures) and the breaker moves only as the CLOSED / OPEN / HALF\_OPEN machine allows:
  the four Lua scripts refine it.
\<close>

theorem cb_fleet_refines:
  assumes "redis_service E view" and "cb_config_ok cfg" and "\<And>p. cb_inv cfg pre p (view s)"
  shows "cb_inv cfg pre q (view (cb_run_ops E cfg pre xs s)) \<and>
    breaker_run cfg q xs (cb_abs pre q (view s)) (cb_abs pre q (view (cb_run_ops E cfg pre xs s)))"
  by (rule redis_service.cb_run_ops_inv [OF assms(1,3,2)])

theorem cb_fleet_refines_witness:
  "breaker_run default_cb ''p'' [OpFailure ''p'' 1, OpAcquire ''p'' 2, OpSuccess ''p''] (Closed 0)
     (cb_abs ''gw:'' ''p'' (rs_db (cb_run_ops ref_env default_cb ''gw:''
        [OpFailure ''p'' 1, OpAcquire ''p'' 2, OpSuccess ''p''] (ref_init 0))))"
  using cb_fleet_refines [OF ref_redis_service default_cb_ok, of "''gw:''" "ref_init 0" "''p''"
      "[OpFailure ''p'' 1, OpAcquire ''p'' 2, OpSuccess ''p'']"]
    cb_inv_empty [OF default_cb_ok]
  by (simp add: ref_init_def cb_abs_empty)

text \<open>
  An open breaker refuses every request until \<open>timeoutMs\<close> has elapsed since it
  opened, and the refused requests leave it open with the same timestamp: either Redis
  is unreachable or the decision is OPEN and not allowed.
\<close>

theorem cb_open_rejects:
  assumes "redis_service E view" and "cb_config_ok cfg" and "cb_inv cfg pre p (view s)"
    and "cb_abs pre p (view s) = Open t" and "now - t < timeoutMs cfg"
    and "cb_acquire E cfg pre p now s = (r, s')"
  shows "(r = Inl Unreachable \<or> r = Inr \<lparr>cd_state = ''OPEN'', cd_allowed = False\<rparr>) \<and>
    cb_abs pre p (view s') = Open t"
  using redis_service.cb_acquire_cases [OF assms(1,6,3,2)] assms(4,5)
  by (auto simp: lapse_simps cb_refines_def)

theorem cb_open_rejects_witness:
  "let s = cb_run_ops ref_env default_cb ''gw:'' (replicate 5 (OpFailure ''p'' 100)) (ref_init 0);
       (r, s') = cb_acquire ref_env default_cb ''gw:'' ''p'' 30099 s
   in cb_abs ''gw:'' ''p'' (rs_db s) = Open 100 \<and>
      (r = Inl Unreachable \<or> r = Inr \<lparr>cd_state = ''OPEN'', cd_allowed = False\<rparr>)"
proof -
  let ?s = "cb_run_ops ref_env default_cb ''gw:'' (replicate 5 (OpFailure ''p'' 100)) (ref_init 0)"
  obtain r s' where acq: "cb_acquire ref_env default_cb ''gw:'' ''p'' 30099 ?s = (r, s')"
    by fastforce
  have inv: "cb_inv default_cb ''gw:'' ''p'' (rs_db ?s)"
    using cb_inv_empty [OF default_cb_ok]
    by (intro conjunct1 [OF ref.cb_run_ops_inv]) (auto simp: default_cb_ok ref_init_def)
  have op: "cb_abs ''gw:'' ''p'' (rs_db ?s) = Open 100"
    by (simp add: cb_eval numeral_eq_Suc cb_abs_def cb_state_of_def cb_int_def)
  from cb_open_rejects [OF ref_redis_service default_cb_ok inv op _ acq] acq op
  show ?thesis by (simp add: default_cb_def Let_def)
qed

text \<open>
  A breaker never opens early: starting closed and empty, fewer than
  \<open>failureThreshold\<close> reported failures of a provider, however they are interleaved with
  other operations of the fleet, leave its breaker closed.
\<close>

theorem cb_no_early_open:
  assumes "redis_service E view" and "cb_config_ok cfg" and "\<And>p. cb_inv cfg pre p (view s)"
    and "cb_abs pre q (view s) = Closed 0" and "failure_count q xs < failureThreshold cfg"
  shows "\<exists>f. cb_abs pre q (view (cb_run_ops E cfg pre xs s)) = Closed f \<and> f \<le> failure_count q xs"
  using redis_service.cb_run_ops_inv [OF assms(1,3,2), of q xs] assms(4,5)
    breaker_run_closed [of cfg q xs "Closed 0" "cb_abs pre q (view (cb_run_ops E cfg pre xs s))" 0]
  by auto

theorem cb_no_early_open_witness:
  "\<exists>f. cb_abs ''gw:'' ''p'' (rs_db (cb_run_ops ref_env default_cb ''gw:''
      [OpFailure ''p'' 1, OpFailure ''q'' 1, OpFailure ''p'' 2] (ref_init 0))) = Closed f \<and> f \<le> 2"
  using cb_no_early_open [OF ref_redis_service default_cb_ok, of "''gw:''" "ref_init 0" "''p''"
      "[OpFailure ''p'' 1, OpFailure ''q'' 1, OpFailure ''p'' 2]"] cb_inv_empty [OF default_cb_ok]
  by (simp add: ref_init_def cb_abs_empty default_cb_def)

text \<open>
  A half-open breaker can never wedge: once the server clock has advanced by more than
  \<open>timeoutMs\<close> with no operation on it, the next acquisition that reaches Redis is admitted,
  whatever became of the earlier probes.
\<close>

theorem cb_half_open_recovers:
  assumes "redis_service E view" and "cb_config_ok cfg" and "cb_inv cfg pre p (view s)"
    and "cb_abs pre p (view s) = HalfOpen n k"
    and "view s1 = advance dt (view s)" and "dt > timeoutMs cfg"
    and "cb_acquire E cfg pre p now s1 = (r, s')"
  shows "r = Inl Unreachable \<or> (\<exists>dec. r = Inr dec \<and> cd_allowed dec)"
proof -
  have dt: "0 \<le> dt" and max: "0 < halfOpenMaxProbes cfg"
    using assms(2,6) by (auto simp: cb_config_ok_def)
  have inv1: "cb_inv cfg pre p (view s1)"
    using cb_inv_advance [OF assms(3) dt assms(2)] assms(5) by simp
  have "leased_counter (view s) (cbHalfProbes pre p) (halfOpenMaxProbes cfg) (timeoutMs cfg)"
    using assms(3) by (simp add: cb_inv_def)
  then have "cb_int (view s1) (cbHalfProbes pre p) = 0"
    using assms(5,6) dt by (cases rule: leased_cases) (auto simp: cb_int_def live_advance)
  moreover have "cb_state_of pre p (view s1) = ''HALF_OPEN''"
    using assms(3,4,5) dt by (auto simp: cb_inv_def cb_state_advance cb_abs_def split: if_splits)
  ultimately obtain k' where "cb_abs pre p (view s1) = HalfOpen 0 k'"
    by (simp add: cb_abs_def)
  with redis_service.cb_acquire_cases [OF assms(1,7) inv1 assms(2)] max show ?thesis
    by (auto simp: lapse_simps)
qed

theorem cb_half_open_recovers_witness:
  "\<exists>(s :: ref_server) s1 r s'. cb_abs ''gw:'' ''p'' (rs_db s) = HalfOpen 1 0 \<and> rs_db s1 = advance 30001 (rs_db s) \<and>
     cb_acquire ref_env default_cb ''gw:'' ''p'' 70000 s1 = (r, s') \<and>
     (r = Inl Unreachable \<or> (\<exists>dec. r = Inr dec \<and> cd_allowed dec))"
proof -
  define s where "s = cb_run_ops ref_env default_cb ''gw:''
     (replicate 5 (OpFailure ''p'' 100) @ [OpAcquire ''p'' 30100]) (ref_init 0)"
  define s1 where "s1 = s\<lparr>rs_db := advance 30001 (rs_db s)\<rparr>"
  obtain r s' where acq: "cb_acquire ref_env default_cb ''gw:'' ''p'' 70000 s1 = (r, s')"
    by (cases "cb_acquire ref_env default_cb ''gw:'' ''p'' 70000 s1") simp
  have inv: "cb_inv default_cb ''gw:'' ''p'' (rs_db s)"
    using cb_inv_empty [OF default_cb_ok] unfolding s_def
    by (intro conjunct1 [OF ref.cb_run_ops_inv]) (auto simp: default_cb_ok ref_init_def)
  have half: "cb_abs ''gw:'' ''p'' (rs_db s) = HalfOpen 1 0"
    by (simp add: s_def cb_eval numeral_eq_Suc cb_abs_def cb_state_of_def cb_int_def)
  have adv: "rs_db s1 = advance 30001 (rs_db s)" by (simp add: s1_def)
  have long: "30001 > timeoutMs default_cb" by (simp add: default_cb_def)
  have "r = Inl Unreachable \<or> (\<exists>dec. r = Inr dec \<and> cd_allowed dec)"
    by (rule cb_half_open_recovers [OF ref_redis_service default_cb_ok inv half adv long acq])
  with acq half adv show ?thesis by blast
qed

text \<open>
  The probe cap is a cap on the recorded counter only.  With the default of one probe, a
  success reported late by a request that was admitted before the breaker opened gives the
  slot of the probe in flight back, and a second probe is admitted next to it.
\<close>

lemma cb_probe_cap_exceeded:
  "let s = cb_run_ops ref_env default_cb ''gw:'' (replicate 5 (OpFailure ''p'' 0)) (ref_init 0);
       (r1, s1) = cb_acquire ref_env default_cb ''gw:'' ''p'' 30000 s;
       (_, s2) = cb_recordSuccess ref_env default_cb ''gw:'' ''p'' s1;
       (r2, s3) = cb_acquire ref_env default_cb ''gw:'' ''p'' 30001 s2
   in halfOpenMaxProbes default_cb = 1 \<and>
      r1 = Inr \<lparr>cd_state = ''HALF_OPEN'', cd_allowed = True\<rparr> \<and>
      r2 = Inr \<lparr>cd_state = ''HALF_OPEN'', cd_allowed = True\<rparr>"
  by (simp add: cb_eval numeral_eq_Suc)

end
