(* ===== verification/Router.thy ===== *)
theory Router
  imports Auth Cache Registry Cost_Tracker Circuit_Breaker
begin

text \<open>
  The request lifecycle of \<open>src/services/router.ts\<close>: resolution and authorisation, the cache,
  the budget gate, the failover loop over the load balancer and the circuit breaker, and the
  accounting of plain, streamed and embedding requests.  The router is written against the
  record \<open>router_deps\<close>, the model of \<open>RouterDeps\<close> (with the clock, the metrics and the calls of
  the adapters); \<open>gateway_deps\<close> fills it with the models of the real components.
\<close>

section \<open>Dependencies\<close>

datatype CacheStatus = CS_HIT | CS_MISS | CS_BYPASS | CS_SKIP

datatype metric =
    M_provider_error string string
  | M_failover
  | M_cache CacheStatus
  | M_provider_request string string string
  | M_provider_duration string string rat
  | M_tokens string string string int
  | M_cost string string rat
  | M_ttfb string string rat

record 's router_deps =
  rd_refreshIfStale :: "'s \<Rightarrow> (thrown, unit) result \<times> 's"
  rd_resolveCandidates :: "'s \<Rightarrow> string \<Rightarrow> ModelResolution"
  rd_select :: "BaseProvider list \<Rightarrow> 's \<Rightarrow> (thrown, BaseProvider) result \<times> 's"
  rd_lb_release :: "string \<Rightarrow> 's \<Rightarrow> 's"
  rd_lb_recordFailure :: "string \<Rightarrow> 's \<Rightarrow> 's"
  rd_lb_recordSuccess :: "string \<Rightarrow> rat \<Rightarrow> 's \<Rightarrow> 's"
  rd_cb_acquire :: "string \<Rightarrow> 's \<Rightarrow> (redis_error, CircuitDecision) result \<times> 's"
  rd_cb_recordSuccess :: "string \<Rightarrow> 's \<Rightarrow> 's"
  rd_cb_recordFailure :: "string \<Rightarrow> 's \<Rightarrow> 's"
  rd_cb_release :: "string \<Rightarrow> 's \<Rightarrow> 's"
  rd_isEligible :: "ChatCompletionRequest \<Rightarrow> bool"
  rd_cache_get :: "ChatCompletionRequest \<Rightarrow> 's \<Rightarrow> ChatCompletionResponse option \<times> 's"
  rd_cache_set :: "ChatCompletionRequest \<Rightarrow> ChatCompletionResponse \<Rightarrow> 's \<Rightarrow> 's"
  rd_isOverBudget :: "string \<Rightarrow> rat option \<Rightarrow> 's \<Rightarrow> bool \<times> 's"
  rd_addSpend :: "string \<Rightarrow> rat \<Rightarrow> 's \<Rightarrow> 's"
  rd_enqueueRequest :: "RequestLogEntry \<Rightarrow> 's \<Rightarrow> 's"
  rd_metric :: "metric \<Rightarrow> 's \<Rightarrow> 's"
  rd_now :: "'s \<Rightarrow> int"
  rd_chat :: "BaseProvider \<Rightarrow> ChatCompletionRequest \<Rightarrow> 's \<Rightarrow> (thrown, ChatCompletionResponse) result \<times> 's"
  rd_embed :: "BaseProvider \<Rightarrow> EmbeddingRequest \<Rightarrow> 's \<Rightarrow> (thrown, EmbeddingResponse) result \<times> 's"
  rd_chatStream :: "BaseProvider \<Rightarrow> ChatCompletionRequest \<Rightarrow> 's \<Rightarrow> nat \<times> 's"
  rd_next :: "nat \<Rightarrow> 's \<Rightarrow> (thrown, ChatCompletionChunk option) result \<times> 's"
  rd_countTokens :: "BaseProvider \<Rightarrow> ChatMessage list \<Rightarrow> string \<Rightarrow> int"

text \<open>
  The bookkeeping calls of the breaker are shown without their result: the router swallows
  their failures (\<open>swallowBreakerError\<close>).  \<open>rd_chatStream\<close> creates the async iterator of a
  stream, identified by a number, and \<open>rd_next\<close> awaits its next chunk.
\<close>

record RouterMeta =
  rm_provider :: "string option"
  rm_providerId :: "string option"
  rm_model :: string
  rm_cacheStatus :: CacheStatus
  rm_latencyMs :: rat
  rm_failoverCount :: nat

section \<open>Failover\<close>

record 'v served =
  sv_provider :: BaseProvider
  sv_value :: 'v
  sv_failoverCount :: nat

definition acquire_or_open :: "'s router_deps \<Rightarrow> string \<Rightarrow> 's \<Rightarrow> CircuitDecision \<times> 's" where
  "acquire_or_open D i s =
     (case rd_cb_acquire D i s of
        (Inr d, s1) \<Rightarrow> (d, s1)
      | (Inl e, s1) \<Rightarrow> (\<lparr>cd_state = ''CLOSED'', cd_allowed = True\<rparr>, s1))"

datatype 'v attempt = Served 'v | Propagate GatewayError | TryNext

definition attempt_call ::
  "'s router_deps \<Rightarrow> (BaseProvider \<Rightarrow> 's \<Rightarrow> (thrown, 'v) result \<times> 's) \<Rightarrow> BaseProvider \<Rightarrow> 's \<Rightarrow> 'v attempt \<times> 's" where
  "attempt_call D call p s =
     (case call p s of
        (Inr v, s1) \<Rightarrow> (Served v, rd_cb_recordSuccess D (p_id p) s1)
      | (Inl e, s1) \<Rightarrow>
          (let g = GatewayError_from e in
           if \<not> retryable g then
             (Propagate g, rd_cb_release D (p_id p) (rd_metric D (M_provider_error (p_name p) ''client_error'') s1))
           else
             (TryNext, rd_metric D M_failover (rd_metric D (M_provider_error (p_name p) ''upstream_error'')
               (rd_lb_recordFailure D (p_id p) (rd_cb_recordFailure D (p_id p) s1))))))"

partial_function (option) failover_loop ::
  "'s router_deps \<Rightarrow> (BaseProvider \<Rightarrow> 's \<Rightarrow> (thrown, 'v) result \<times> 's) \<Rightarrow> BaseProvider list \<Rightarrow> nat \<Rightarrow> 's
     \<Rightarrow> ((thrown, 'v served) result \<times> 's) option" where
  "failover_loop D call remaining attempts s =
     (if remaining = [] then Some (Inl (TGateway (AllProvidersFailedError attempts no_options)), s)
      else case rd_select D remaining s of
        (Inl e, s1) \<Rightarrow> Some (Inl e, s1)
      | (Inr p, s1) \<Rightarrow>
          (let remaining' = filter (\<lambda>q. p_id q \<noteq> p_id p) remaining in
           case acquire_or_open D (p_id p) s1 of
             (d, s2) \<Rightarrow>
               if \<not> cd_allowed d then
                 failover_loop D call remaining' attempts
                   (rd_lb_release D (p_id p) (rd_metric D (M_provider_error (p_name p) ''circuit_open'') s2))
               else (case attempt_call D call p s2 of
                   (Served v, s3) \<Rightarrow>
                     Some (Inr \<lparr>sv_provider = p, sv_value = v, sv_failoverCount = attempts\<rparr>, rd_lb_release D (p_id p) s3)
                 | (Propagate g, s3) \<Rightarrow> Some (Inl (TGateway g), rd_lb_release D (p_id p) s3)
                 | (TryNext, s3) \<Rightarrow> failover_loop D call remaining' (attempts + 1) (rd_lb_release D (p_id p) s3))))"

definition runFailover ::
  "'s router_deps \<Rightarrow> ModelCandidate list \<Rightarrow> (BaseProvider \<Rightarrow> 's \<Rightarrow> (thrown, 'v) result \<times> 's) \<Rightarrow> 's
     \<Rightarrow> ((thrown, 'v served) result \<times> 's) option" where
  "runFailover D cs call s = failover_loop D call (map mc_provider cs) 0 s"

section \<open>Admission\<close>

definition in_quotes :: "string \<Rightarrow> string" where
  "in_quotes w = CHR 0x27 # w @ [CHR 0x27]"

definition authorizeModel :: "GatewayContext \<Rightarrow> string \<Rightarrow> string \<Rightarrow> (thrown, unit) result" where
  "authorizeModel ctx requested canonical =
     (case allowedModels ctx of
        None \<Rightarrow> Inr ()
      | Some allowed \<Rightarrow>
          if length allowed = 0 then Inr ()
          else if requested \<notin> set allowed \<and> canonical \<notin> set allowed then
            Inl (TGateway (PermissionError (''API key is not permitted to use model '' @ in_quotes requested @ ''.'')
              (no_options\<lparr>opt_param := Some ''model''\<rparr>)))
          else Inr ())"

definition not_available :: "string \<Rightarrow> thrown" where
  "not_available m = TGateway (NotFoundError (''The model '' @ in_quotes m @ '' does not exist or is not available.'')
     (no_options\<lparr>opt_param := Some ''model''\<rparr>))"

definition resolveAndAuthorize ::
  "'s router_deps \<Rightarrow> string \<Rightarrow> GatewayContext \<Rightarrow> 's \<Rightarrow> (thrown, ModelResolution) result" where
  "resolveAndAuthorize D model ctx s =
     (let resolution = rd_resolveCandidates D s model in
      if length (candidates resolution) = 0 then Inl (not_available model)
      else (case authorizeModel ctx model (canonicalModel resolution) of
              Inl e \<Rightarrow> Inl e | Inr _ \<Rightarrow> Inr resolution))"

definition enforceBudget :: "'s router_deps \<Rightarrow> GatewayContext \<Rightarrow> 's \<Rightarrow> (thrown, unit) result \<times> 's" where
  "enforceBudget D ctx s =
     (case rd_isOverBudget D (apiKeyId ctx) (map_option dec_value (monthlyBudgetUsd ctx)) s of
        (True, s1) \<Rightarrow>
          (Inl (TGateway (InsufficientQuotaError ''Monthly budget exceeded for this API key.'' no_options)), s1)
      | (False, s1) \<Rightarrow> (Inr (), s1))"

section \<open>Accounting\<close>

definition recordProviderMetrics ::
  "'s router_deps \<Rightarrow> BaseProvider \<Rightarrow> string \<Rightarrow> int \<Rightarrow> int \<Rightarrow> int \<Rightarrow> rat \<Rightarrow> string \<Rightarrow> 's \<Rightarrow> 's" where
  "recordProviderMetrics D p model latencyMs promptTokens completionTokens cost outcome s =
     (let s1 = rd_metric D (M_provider_request (p_name p) model outcome) s;
          s2 = rd_metric D (M_provider_duration (p_name p) model (of_int latencyMs / 1000)) s1;
          s3 = rd_metric D (M_tokens (p_name p) model ''prompt'' promptTokens) s2;
          s4 = rd_metric D (M_tokens (p_name p) model ''completion'' completionTokens) s3;
          s5 = (if cost > 0 then rd_metric D (M_cost (p_name p) model cost) s4 else s4)
      in rd_lb_recordSuccess D (p_id p) (of_int latencyMs) s5)"

definition log_entry ::
  "GatewayContext \<Rightarrow> string option \<Rightarrow> string \<Rightarrow> int \<Rightarrow> int \<Rightarrow> int \<Rightarrow> rat \<Rightarrow> int \<Rightarrow> int \<Rightarrow> bool \<Rightarrow> nat \<Rightarrow> string option
     \<Rightarrow> RequestLogEntry" where
  "log_entry ctx pid model promptTokens completionTokens totalTokens cost latencyMs status hit failovers err =
     \<lparr>le_apiKeyId = Some (apiKeyId ctx), le_providerId = pid, le_modelId = Some model,
      le_promptTokens = Some promptTokens, le_completionTokens = Some completionTokens,
      le_totalTokens = Some totalTokens, le_costUsd = Some cost, le_latencyMs = Some latencyMs,
      le_statusCode = Some status, le_cacheHit = hit, le_failoverCount = failovers, le_errorMessage = err\<rparr>"

text \<open>The common tail of a provider call: metrics, spend, log entry.\<close>

definition account ::
  "'s router_deps \<Rightarrow> GatewayContext \<Rightarrow> BaseProvider \<Rightarrow> string \<Rightarrow> int \<Rightarrow> int \<Rightarrow> int \<Rightarrow> int \<Rightarrow> nat \<Rightarrow> bool \<Rightarrow> 's \<Rightarrow> 's" where
  "account D ctx p model promptTokens completionTokens totalTokens latencyMs failovers errored s =
     (let cost = estimateCost (getModel p model) promptTokens completionTokens;
          s1 = recordProviderMetrics D p model latencyMs promptTokens completionTokens cost
                 (if errored then ''error'' else ''success'') s;
          s2 = rd_addSpend D (apiKeyId ctx) cost s1
      in rd_enqueueRequest D
           (log_entry ctx (Some (p_id p)) model promptTokens completionTokens totalTokens cost latencyMs
              (if errored then 502 else 200) False failovers (if errored then Some ''stream interrupted'' else None)) s2)"

section \<open>Chat completions\<close>

definition timed_chat ::
  "'s router_deps \<Rightarrow> ChatCompletionRequest \<Rightarrow> BaseProvider \<Rightarrow> 's \<Rightarrow> (thrown, ChatCompletionResponse \<times> int) result \<times> 's" where
  "timed_chat D upstream p s =
     (let start = rd_now D s in
      case rd_chat D p upstream s of
        (Inl e, s1) \<Rightarrow> (Inl e, s1)
      | (Inr r, s1) \<Rightarrow> (Inr (r, rd_now D s1 - start), s1))"

text \<open>The cached answer: logged, free of charge.\<close>

definition serve_cached ::
  "'s router_deps \<Rightarrow> GatewayContext \<Rightarrow> string \<Rightarrow> ChatCompletionResponse \<Rightarrow> 's
     \<Rightarrow> (ChatCompletionResponse \<times> RouterMeta) \<times> 's" where
  "serve_cached D ctx model cached s =
     ((cached, \<lparr>rm_provider = None, rm_providerId = None, rm_model = model, rm_cacheStatus = CS_HIT,
         rm_latencyMs = 0, rm_failoverCount = 0\<rparr>),
      rd_enqueueRequest D
        (log_entry ctx None model (prompt_tokens (rs_usage cached)) (completion_tokens (rs_usage cached))
           (total_tokens (rs_usage cached)) 0 0 200 True 0 None)
        (rd_metric D (M_cache CS_HIT) s))"

definition serve_upstream ::
  "'s router_deps \<Rightarrow> ChatCompletionRequest \<Rightarrow> GatewayContext \<Rightarrow> bool \<Rightarrow> ModelResolution \<Rightarrow> 's
     \<Rightarrow> ((thrown, ChatCompletionResponse \<times> RouterMeta) result \<times> 's) option" where
  "serve_upstream D request ctx bypass res s =
     (let model = canonicalModel res; eligible = rd_isEligible D request in
      case runFailover D (candidates res) (timed_chat D (request\<lparr>rq_model := model\<rparr>)) s of
        None \<Rightarrow> None
      | Some (Inl e, s1) \<Rightarrow> Some (Inl e, s1)
      | Some (Inr v, s1) \<Rightarrow>
          (let p = sv_provider v; response = fst (sv_value v); latency = snd (sv_value v); u = rs_usage response;
               s2 = account D ctx p model (prompt_tokens u) (completion_tokens u) (total_tokens u) latency
                      (sv_failoverCount v) False s1;
               status = (if eligible \<and> \<not> bypass then CS_MISS else CS_SKIP);
               s3 = (if eligible \<and> \<not> bypass then rd_cache_set D request response s2 else s2);
               s4 = rd_metric D (M_cache status) s3
           in Some (Inr (response, \<lparr>rm_provider = Some (p_name p), rm_providerId = Some (p_id p), rm_model = model,
                rm_cacheStatus = status, rm_latencyMs = of_int latency, rm_failoverCount = sv_failoverCount v\<rparr>), s4)))"

definition chatCompletion ::
  "'s router_deps \<Rightarrow> ChatCompletionRequest \<Rightarrow> GatewayContext \<Rightarrow> bool \<Rightarrow> 's
     \<Rightarrow> ((thrown, ChatCompletionResponse \<times> RouterMeta) result \<times> 's) option" where
  "chatCompletion D request ctx bypass s =
     (case rd_refreshIfStale D s of
        (Inl e, s1) \<Rightarrow> Some (Inl e, s1)
      | (Inr _, s1) \<Rightarrow>
          (case resolveAndAuthorize D (rq_model request) ctx s1 of
             Inl e \<Rightarrow> Some (Inl e, s1)
           | Inr res \<Rightarrow>
               (case (if rd_isEligible D request \<and> bypass then (None, rd_metric D (M_cache CS_BYPASS) s1)
                      else if rd_isEligible D request then rd_cache_get D request s1 else (None, s1)) of
                  (Some cached, s2) \<Rightarrow>
                    (case serve_cached D ctx (canonicalModel res) cached s2 of (x, s3) \<Rightarrow> Some (Inr x, s3))
                | (None, s2) \<Rightarrow>
                    (case enforceBudget D ctx s2 of
                       (Inl e, s3) \<Rightarrow> Some (Inl e, s3)
                     | (Inr _, s3) \<Rightarrow> serve_upstream D request ctx bypass res s3))))"

section \<open>Embeddings\<close>

definition timed_embed ::
  "'s router_deps \<Rightarrow> EmbeddingRequest \<Rightarrow> BaseProvider \<Rightarrow> 's \<Rightarrow> (thrown, EmbeddingResponse \<times> int) result \<times> 's" where
  "timed_embed D upstream p s =
     (let start = rd_now D s in
      case rd_embed D p upstream s of
        (Inl e, s1) \<Rightarrow> (Inl e, s1)
      | (Inr r, s1) \<Rightarrow> (Inr (r, rd_now D s1 - start), s1))"

definition embeddings ::
  "'s router_deps \<Rightarrow> EmbeddingRequest \<Rightarrow> GatewayContext \<Rightarrow> 's
     \<Rightarrow> ((thrown, EmbeddingResponse \<times> RouterMeta) result \<times> 's) option" where
  "embeddings D request ctx s =
     (case rd_refreshIfStale D s of
        (Inl e, s1) \<Rightarrow> Some (Inl e, s1)
      | (Inr _, s1) \<Rightarrow>
          (case resolveAndAuthorize D (eq_model request) ctx s1 of
             Inl e \<Rightarrow> Some (Inl e, s1)
           | Inr res \<Rightarrow>
               (case enforceBudget D ctx s1 of
                  (Inl e, s2) \<Rightarrow> Some (Inl e, s2)
                | (Inr _, s2) \<Rightarrow>
                    (let model = canonicalModel res in
                     case runFailover D (candidates res) (timed_embed D (request\<lparr>eq_model := model\<rparr>)) s2 of
                       None \<Rightarrow> None
                     | Some (Inl e, s3) \<Rightarrow> Some (Inl e, s3)
                     | Some (Inr v, s3) \<Rightarrow>
                         (let p = sv_provider v; response = fst (sv_value v); latency = snd (sv_value v) in
                          Some (Inr (response, \<lparr>rm_provider = Some (p_name p), rm_providerId = Some (p_id p),
                                  rm_model = model, rm_cacheStatus = CS_SKIP, rm_latencyMs = of_int latency,
                                  rm_failoverCount = sv_failoverCount v\<rparr>),
                                account D ctx p model (er_prompt_tokens response) 0 (er_total_tokens response) latency
                                  (sv_failoverCount v) False s3))))))"

section \<open>Streaming\<close>

definition countDeltaTokens :: "ChatCompletionChunk \<Rightarrow> int" where
  "countDeltaTokens ck =
     (case ck_choices ck of
        Some (c # _) \<Rightarrow>
          (case cc_content c of
             Some w \<Rightarrow> if length w > 0 then max 1 (js_round (of_nat (length w) / 4)) else 0
           | None \<Rightarrow> 0)
      | _ \<Rightarrow> 0)"

definition isUsageOnlyChunk :: "ChatCompletionChunk \<Rightarrow> bool" where
  "isUsageOnlyChunk ck = ((ck_choices ck = None \<or> ck_choices ck = Some []) \<and> ck_usage ck \<noteq> None)"

record tally =
  ta_promptTokens :: int
  ta_completionTokens :: int
  ta_usageFromStream :: bool

definition applyUsage :: "ChatCompletionChunk \<Rightarrow> tally \<Rightarrow> tally" where
  "applyUsage ck t =
     (case ck_usage ck of
        Some u \<Rightarrow> \<lparr>ta_promptTokens = prompt_tokens u, ta_completionTokens = completion_tokens u, ta_usageFromStream = True\<rparr>
      | None \<Rightarrow> t)"

text \<open>One received chunk; the first one is counted while no usage has arrived, like the others.\<close>

definition absorb :: "ChatCompletionChunk \<Rightarrow> tally \<Rightarrow> tally" where
  "absorb ck t =
     applyUsage ck (if \<not> ta_usageFromStream t
                    then t\<lparr>ta_completionTokens := ta_completionTokens t + countDeltaTokens ck\<rparr> else t)"

record prepared_stream =
  ps_provider :: BaseProvider
  ps_iterator :: nat
  ps_first :: "ChatCompletionChunk option"
  ps_start :: int
  ps_failoverCount :: nat
  ps_model :: string

definition open_stream ::
  "'s router_deps \<Rightarrow> ChatCompletionRequest \<Rightarrow> BaseProvider \<Rightarrow> 's
     \<Rightarrow> (thrown, nat \<times> ChatCompletionChunk option \<times> int) result \<times> 's" where
  "open_stream D upstream p s =
     (let start = rd_now D s in
      case rd_chatStream D p upstream s of
        (it, s1) \<Rightarrow>
          (case rd_next D it s1 of
             (Inl e, s2) \<Rightarrow> (Inl e, s2)
           | (Inr first, s2) \<Rightarrow> (Inr (it, first, start), s2)))"

definition upstream_stream_request :: "ChatCompletionRequest \<Rightarrow> string \<Rightarrow> ChatCompletionRequest" where
  "upstream_stream_request request model =
     request\<lparr>rq_model := model, rq_stream := Some True, rq_include_usage := Some (Some True)\<rparr>"

definition prepareStream ::
  "'s router_deps \<Rightarrow> ChatCompletionRequest \<Rightarrow> GatewayContext \<Rightarrow> 's
     \<Rightarrow> ((thrown, RouterMeta \<times> prepared_stream) result \<times> 's) option" where
  "prepareStream D request ctx s =
     (case rd_refreshIfStale D s of
        (Inl e, s1) \<Rightarrow> Some (Inl e, s1)
      | (Inr _, s1) \<Rightarrow>
          (case resolveAndAuthorize D (rq_model request) ctx s1 of
             Inl e \<Rightarrow> Some (Inl e, s1)
           | Inr res \<Rightarrow>
               (case enforceBudget D ctx s1 of
                  (Inl e, s2) \<Rightarrow> Some (Inl e, s2)
                | (Inr _, s2) \<Rightarrow>
                    (let model = canonicalModel res in
                     case runFailover D (candidates res) (open_stream D (upstream_stream_request request model)) s2 of
                       None \<Rightarrow> None
                     | Some (Inl e, s3) \<Rightarrow> Some (Inl e, s3)
                     | Some (Inr v, s3) \<Rightarrow>
                         (case sv_value v of (it, first, start) \<Rightarrow>
                          let p = sv_provider v;
                              ttfb = of_int (rd_now D s3 - start) / 1000;
                              s4 = rd_metric D (M_ttfb (p_name p) model ttfb) s3;
                              s5 = rd_metric D (M_cache CS_SKIP) s4
                          in Some (Inr (\<lparr>rm_provider = Some (p_name p), rm_providerId = Some (p_id p), rm_model = model,
                                  rm_cacheStatus = CS_SKIP, rm_latencyMs = ttfb * 1000,
                                  rm_failoverCount = sv_failoverCount v\<rparr>,
                                \<lparr>ps_provider = p, ps_iterator = it, ps_first = first, ps_start = start,
                                 ps_failoverCount = sv_failoverCount v, ps_model = model\<rparr>), s5))))))"

text \<open>
  The generator, driven by its consumer: \<open>wants n\<close> tells whether the consumer asks for another
  chunk after having received \<open>n\<close>; when it does not, it returns the generator at that \<open>yield\<close>,
  which runs the \<open>finally\<close> block without an error.  \<open>Ended\<close> is the normal end, \<open>Broken e\<close> an
  upstream error, \<open>Returned\<close> an early return.
\<close>

datatype stream_end = Ended | Broken thrown | Returned

definition clientWantsUsage :: "ChatCompletionRequest \<Rightarrow> bool" where
  "clientWantsUsage request = (rq_include_usage request = Some (Some True))"

definition forwards :: "ChatCompletionRequest \<Rightarrow> ChatCompletionChunk \<Rightarrow> bool" where
  "forwards request ck = (clientWantsUsage request \<or> \<not> isUsageOnlyChunk ck)"

text \<open>\<open>(end, yielded, tally)\<close> when the body of the \<open>try\<close> is left.\<close>

partial_function (option) stream_loop ::
  "'s router_deps \<Rightarrow> ChatCompletionRequest \<Rightarrow> (nat \<Rightarrow> bool) \<Rightarrow> nat \<Rightarrow> ChatCompletionChunk list \<Rightarrow> tally \<Rightarrow> 's
     \<Rightarrow> ((stream_end \<times> ChatCompletionChunk list \<times> tally) \<times> 's) option" where
  "stream_loop D request wants it yielded t s =
     (case rd_next D it s of
        (Inl e, s1) \<Rightarrow> Some ((Broken e, yielded, t), s1)
      | (Inr None, s1) \<Rightarrow> Some ((Ended, yielded, t), s1)
      | (Inr (Some ck), s1) \<Rightarrow>
          (if \<not> forwards request ck then stream_loop D request wants it yielded (absorb ck t) s1
           else if \<not> wants (length yielded + 1) then Some ((Returned, yielded @ [ck], absorb ck t), s1)
           else stream_loop D request wants it (yielded @ [ck]) (absorb ck t) s1))"

definition stream_body ::
  "'s router_deps \<Rightarrow> ChatCompletionRequest \<Rightarrow> (nat \<Rightarrow> bool) \<Rightarrow> prepared_stream \<Rightarrow> 's
     \<Rightarrow> ((stream_end \<times> ChatCompletionChunk list \<times> tally) \<times> 's) option" where
  "stream_body D request wants ps s =
     (let t0 = \<lparr>ta_promptTokens = rd_countTokens D (ps_provider ps) (rq_messages request) (ps_model ps),
                ta_completionTokens = 0, ta_usageFromStream = False\<rparr> in
      case ps_first ps of
        None \<Rightarrow> stream_loop D request wants (ps_iterator ps) [] t0 s
      | Some ck \<Rightarrow>
          (if \<not> forwards request ck then stream_loop D request wants (ps_iterator ps) [] (absorb ck t0) s
           else if \<not> wants 1 then Some ((Returned, [ck], absorb ck t0), s)
           else stream_loop D request wants (ps_iterator ps) [ck] (absorb ck t0) s))"

definition run_stream ::
  "'s router_deps \<Rightarrow> ChatCompletionRequest \<Rightarrow> GatewayContext \<Rightarrow> (nat \<Rightarrow> bool) \<Rightarrow> prepared_stream \<Rightarrow> 's
     \<Rightarrow> ((stream_end \<times> ChatCompletionChunk list) \<times> 's) option" where
  "run_stream D request ctx wants ps s =
     (case stream_body D request wants ps s of
        None \<Rightarrow> None
      | Some ((e, yielded, t), s1) \<Rightarrow>
          Some ((e, yielded),
            account D ctx (ps_provider ps) (ps_model ps) (ta_promptTokens t) (ta_completionTokens t)
              (ta_promptTokens t + ta_completionTokens t) (rd_now D s1 - ps_start ps) (ps_failoverCount ps)
              (case e of Broken _ \<Rightarrow> True | _ \<Rightarrow> False) s1))"

section \<open>The production wiring\<close>

text \<open>
  \<open>initRouter\<close> receives the process singletons.  What those are built on that is not part of
  the repository or is another process' business (the wall clock, the wait for a shared
  registry refresh, the metrics registry, the adapters' network calls) are fields.
\<close>

record 's gateway =
  gw_strategy :: StrategyName
  gw_lb :: "'s lb_env"
  gw_breaker :: CircuitBreakerOptions
  gw_cache :: "'s cache_env"
  gw_clock :: "'s \<Rightarrow> int"
  gw_snapshot :: "'s \<Rightarrow> snapshot"
  gw_refresh :: "'s \<Rightarrow> (thrown, unit) result \<times> 's"
  gw_queue :: "'s \<Rightarrow> log_queue"
  gw_set_queue :: "log_queue \<Rightarrow> 's \<Rightarrow> 's"
  gw_metric :: "metric \<Rightarrow> 's \<Rightarrow> 's"
  gw_chat :: "BaseProvider \<Rightarrow> ChatCompletionRequest \<Rightarrow> 's \<Rightarrow> (thrown, ChatCompletionResponse) result \<times> 's"
  gw_embed :: "BaseProvider \<Rightarrow> EmbeddingRequest \<Rightarrow> 's \<Rightarrow> (thrown, EmbeddingResponse) result \<times> 's"
  gw_chatStream :: "BaseProvider \<Rightarrow> ChatCompletionRequest \<Rightarrow> 's \<Rightarrow> nat \<times> 's"
  gw_next :: "nat \<Rightarrow> 's \<Rightarrow> (thrown, ChatCompletionChunk option) result \<times> 's"
  gw_countTokens :: "BaseProvider \<Rightarrow> ChatMessage list \<Rightarrow> string \<Rightarrow> int"

definition thrown_selection :: "'s selection \<Rightarrow> (thrown, BaseProvider) result \<times> 's" where
  "thrown_selection x = (case x of
     (Inl EmptyCandidates, s) \<Rightarrow> (Inl (TError (plain_error ''EmptyCandidatesError'' ''Load balancer received an empty candidate list.'')), s)
   | (Inr p, s) \<Rightarrow> (Inr p, s))"

definition gateway_deps :: "'s gateway \<Rightarrow> 's router_deps" where
  "gateway_deps G =
     (let L = gw_lb G; E = lb_redis L; pre = lb_prefix L; name = gw_strategy G; now = gw_clock G in
      \<lparr>rd_refreshIfStale = gw_refresh G,
       rd_resolveCandidates = (\<lambda>s m. resolveCandidates (gw_snapshot G s) m),
       rd_select = (\<lambda>cs s. thrown_selection (lb_select name L cs s)),
       rd_lb_release = lb_release name L,
       rd_lb_recordFailure = lb_recordFailure name L,
       rd_lb_recordSuccess = lb_recordSuccess name L,
       rd_cb_acquire = (\<lambda>i s. cb_acquire E (gw_breaker G) pre i (now s) s),
       rd_cb_recordSuccess = (\<lambda>i s. snd (cb_recordSuccess E (gw_breaker G) pre i s)),
       rd_cb_recordFailure = (\<lambda>i s. snd (cb_recordFailure E (gw_breaker G) pre i (now s) s)),
       rd_cb_release = (\<lambda>i s. snd (cb_release E pre i s)),
       rd_isEligible = isEligible (gw_cache G),
       rd_cache_get = cache_get (gw_cache G),
       rd_cache_set = cache_set (gw_cache G),
       rd_isOverBudget = (\<lambda>a b s. isOverBudget E pre a b (now s) s),
       rd_addSpend = (\<lambda>a c s. addSpend E pre a c (now s) s),
       rd_enqueueRequest = (\<lambda>e s. gw_set_queue G (enqueueRequest e (gw_queue G s)) s),
       rd_metric = gw_metric G,
       rd_now = now,
       rd_chat = gw_chat G,
       rd_embed = gw_embed G,
       rd_chatStream = gw_chatStream G,
       rd_next = gw_next G,
       rd_countTokens = gw_countTokens G\<rparr>)"

end
