(* ===== verification/Failover.thy ===== *)
theory Failover
  imports Router
begin

text \<open>
  The failover loop and the accounting of the router (\<open>src/services/router.ts\<close>): the loop ends
  for every load balancer that picks candidates, and the sequence of its calls to the
  components, recorded by a logging wrapper around the dependencies, has a fixed shape.
\<close>

section \<open>What failover needs of the load balancer\<close>

locale failover =
  fixes D :: "'s router_deps"
  assumes select_member: "cs \<noteq> [] \<Longrightarrow> \<exists>p \<in> set cs. fst (rd_select D cs s) = Inr p"

text \<open>The real load balancer provides it, whatever its strategy.\<close>

locale gateway_service =
  fixes G :: "'s gateway"
  assumes gateway_random: "random_source (lb_rand (gw_lb G))"

sublocale gateway_service \<subseteq> failover "gateway_deps G"
proof
  fix cs :: "BaseProvider list" and s
  assume ne: "cs \<noteq> []"
  obtain x s' where x: "strategy_select (gw_strategy G) (gw_lb G) cs s = (x, s')" by fastforce
  with random_source.strategy_select_member [OF gateway_random refl ne, of "gw_strategy G" s]
  show "\<exists>p \<in> set cs. fst (rd_select (gateway_deps G) cs s) = Inr p"
    using ne by (auto simp: gateway_deps_def Let_def lb_select_def thrown_selection_def)
qed

section \<open>Recording the calls\<close>

datatype router_event =
    Ev_select string
  | Ev_acquire string bool
  | Ev_call string
  | Ev_success string
  | Ev_failure string
  | Ev_cb_release string
  | Ev_lb_failure string
  | Ev_lb_release string
  | Ev_budget
  | Ev_spend string rat
  | Ev_log RequestLogEntry

type_synonym 's traced = "'s \<times> router_event list"

definition recorded :: "('a \<Rightarrow> router_event list) \<Rightarrow> ('s \<Rightarrow> 'a \<times> 's) \<Rightarrow> 's traced \<Rightarrow> 'a \<times> 's traced" where
  "recorded ev f st = (case f (fst st) of (a, s') \<Rightarrow> (a, (s', snd st @ ev a)))"

definition recorded_effect :: "router_event list \<Rightarrow> ('s \<Rightarrow> 's) \<Rightarrow> 's traced \<Rightarrow> 's traced" where
  "recorded_effect ev f st = (f (fst st), snd st @ ev)"

definition traced_deps :: "'s router_deps \<Rightarrow> 's traced router_deps" where
  "traced_deps D =
     \<lparr>rd_refreshIfStale = recorded (\<lambda>_. []) (rd_refreshIfStale D),
      rd_resolveCandidates = (\<lambda>st. rd_resolveCandidates D (fst st)),
      rd_select = (\<lambda>cs. recorded (\<lambda>r. case r of Inr p \<Rightarrow> [Ev_select (p_id p)] | Inl e \<Rightarrow> []) (rd_select D cs)),
      rd_lb_release = (\<lambda>i. recorded_effect [Ev_lb_release i] (rd_lb_release D i)),
      rd_lb_recordFailure = (\<lambda>i. recorded_effect [Ev_lb_failure i] (rd_lb_recordFailure D i)),
      rd_lb_recordSuccess = (\<lambda>i ms. recorded_effect [] (rd_lb_recordSuccess D i ms)),
      rd_cb_acquire = (\<lambda>i. recorded (\<lambda>r. [Ev_acquire i (case r of Inr d \<Rightarrow> cd_allowed d | Inl e \<Rightarrow> True)]) (rd_cb_acquire D i)),
      rd_cb_recordSuccess = (\<lambda>i. recorded_effect [Ev_success i] (rd_cb_recordSuccess D i)),
      rd_cb_recordFailure = (\<lambda>i. recorded_effect [Ev_failure i] (rd_cb_recordFailure D i)),
      rd_cb_release = (\<lambda>i. recorded_effect [Ev_cb_release i] (rd_cb_release D i)),
      rd_isEligible = rd_isEligible D,
      rd_cache_get = (\<lambda>r. recorded (\<lambda>_. []) (rd_cache_get D r)),
      rd_cache_set = (\<lambda>r x. recorded_effect [] (rd_cache_set D r x)),
      rd_isOverBudget = (\<lambda>a b. recorded (\<lambda>_. [Ev_budget]) (rd_isOverBudget D a b)),
      rd_addSpend = (\<lambda>a c. recorded_effect [Ev_spend a c] (rd_addSpend D a c)),
      rd_enqueueRequest = (\<lambda>e. recorded_effect [Ev_log e] (rd_enqueueRequest D e)),
      rd_metric = (\<lambda>m. recorded_effect [] (rd_metric D m)),
      rd_now = (\<lambda>st. rd_now D (fst st)),
      rd_chat = (\<lambda>p r. recorded (\<lambda>_. [Ev_call (p_id p)]) (rd_chat D p r)),
      rd_embed = (\<lambda>p r. recorded (\<lambda>_. [Ev_call (p_id p)]) (rd_embed D p r)),
      rd_chatStream = (\<lambda>p r. recorded (\<lambda>_. [Ev_call (p_id p)]) (rd_chatStream D p r)),
      rd_next = (\<lambda>it. recorded (\<lambda>_. []) (rd_next D it)),
      rd_countTokens = rd_countTokens D\<rparr>"

definition traced_call ::
  "(BaseProvider \<Rightarrow> 's \<Rightarrow> (thrown, 'v) result \<times> 's) \<Rightarrow> BaseProvider \<Rightarrow> 's traced \<Rightarrow> (thrown, 'v) result \<times> 's traced" where
  "traced_call call p = recorded (\<lambda>_. [Ev_call (p_id p)]) (call p)"

lemmas recorded_defs = recorded_def recorded_effect_def traced_call_def

lemma traced_timed_chat: "timed_chat (traced_deps D) r = traced_call (timed_chat D r)"
  by (intro ext) (auto simp: timed_chat_def traced_deps_def recorded_defs Let_def split: prod.splits sum.splits)

lemma traced_timed_embed: "timed_embed (traced_deps D) r = traced_call (timed_embed D r)"
  by (intro ext) (auto simp: timed_embed_def traced_deps_def recorded_defs Let_def split: prod.splits sum.splits)

lemma traced_open_stream: "open_stream (traced_deps D) r = traced_call (open_stream D r)"
  by (intro ext) (auto simp: open_stream_def traced_deps_def recorded_defs Let_def split: prod.splits sum.splits)

section \<open>Rounds\<close>

text \<open>
  One round of the loop deals with one candidate: its breaker is open, its call fails in a
  retryable way, it serves the request, or its failure is the client's.
\<close>

datatype outcome = Skipped | Failed | ServedBy | Propagated

fun round_events :: "string \<times> outcome \<Rightarrow> router_event list" where
  "round_events (i, Skipped) = [Ev_select i, Ev_acquire i False, Ev_lb_release i]"
| "round_events (i, Failed) =
     [Ev_select i, Ev_acquire i True, Ev_call i, Ev_failure i, Ev_lb_failure i, Ev_lb_release i]"
| "round_events (i, ServedBy) = [Ev_select i, Ev_acquire i True, Ev_call i, Ev_success i, Ev_lb_release i]"
| "round_events (i, Propagated) = [Ev_select i, Ev_acquire i True, Ev_call i, Ev_cb_release i, Ev_lb_release i]"

text \<open>The rounds that lead from the remaining candidates to a result.\<close>

fun explains :: "(string \<times> outcome) list \<Rightarrow> BaseProvider list \<Rightarrow> nat \<Rightarrow> (thrown, 'v served) result \<Rightarrow> bool" where
  "explains [] cs n r = (cs = [] \<and> r = Inl (TGateway (AllProvidersFailedError n no_options)))"
| "explains ((i, x) # rounds) cs n r =
     (i \<in> p_id ` set cs \<and>
      (case x of
         Skipped \<Rightarrow> explains rounds (filter (\<lambda>q. p_id q \<noteq> i) cs) n r
       | Failed \<Rightarrow> explains rounds (filter (\<lambda>q. p_id q \<noteq> i) cs) (n + 1) r
       | ServedBy \<Rightarrow> rounds = [] \<and> (\<exists>v. r = Inr v \<and> sv_provider v \<in> set cs \<and> p_id (sv_provider v) = i \<and> sv_failoverCount v = n)
       | Propagated \<Rightarrow> rounds = [] \<and> (\<exists>g. r = Inl (TGateway g) \<and> \<not> retryable g)))"

declare failover_loop.simps [simp del]

lemma failover_step:
  assumes "rd_select D cs s = (Inr p, s1)" and "acquire_or_open D (p_id p) s1 = (d, s2)" and "cs \<noteq> []"
  shows "failover_loop D call cs n s =
    (if \<not> cd_allowed d then
       failover_loop D call (filter (\<lambda>q. p_id q \<noteq> p_id p) cs) n
         (rd_lb_release D (p_id p) (rd_metric D (M_provider_error (p_name p) ''circuit_open'') s2))
     else (case attempt_call D call p s2 of
         (Served v, s3) \<Rightarrow> Some (Inr \<lparr>sv_provider = p, sv_value = v, sv_failoverCount = n\<rparr>, rd_lb_release D (p_id p) s3)
       | (Propagate g, s3) \<Rightarrow> Some (Inl (TGateway g), rd_lb_release D (p_id p) s3)
       | (TryNext, s3) \<Rightarrow>
           failover_loop D call (filter (\<lambda>q. p_id q \<noteq> p_id p) cs) (n + 1) (rd_lb_release D (p_id p) s3)))"
  using assms by (subst failover_loop.simps) (simp add: Let_def)

fun attempt_events :: "string \<Rightarrow> 'v attempt \<Rightarrow> router_event list" where
  "attempt_events i (Served v) = [Ev_call i, Ev_success i]"
| "attempt_events i (Propagate g) = [Ev_call i, Ev_cb_release i]"
| "attempt_events i TryNext = [Ev_call i, Ev_failure i, Ev_lb_failure i]"

lemma traced_simps:
  "rd_lb_release (traced_deps D) i (s, t) = (rd_lb_release D i s, t @ [Ev_lb_release i])"
  "rd_metric (traced_deps D) m (s, t) = (rd_metric D m s, t)"
  "rd_select D cs s = (Inr p, s1) \<Longrightarrow> rd_select (traced_deps D) cs (s, t) = (Inr p, (s1, t @ [Ev_select (p_id p)]))"
  "acquire_or_open D i s = (d, s2) \<Longrightarrow>
     acquire_or_open (traced_deps D) i (s, t) = (d, (s2, t @ [Ev_acquire i (cd_allowed d)]))"
  "attempt_call D call p s = (x, s3) \<Longrightarrow>
     attempt_call (traced_deps D) (traced_call call) p (s, t) = (x, (s3, t @ attempt_events (p_id p) x))"
  by (auto simp: acquire_or_open_def attempt_call_def traced_deps_def recorded_defs Let_def split: prod.splits sum.splits)

lemma attempt_propagates: "attempt_call D call p s = (Propagate g, s') \<Longrightarrow> \<not> retryable g"
  by (auto simp: attempt_call_def Let_def split: prod.splits sum.splits if_splits)

context failover
begin

text \<open>One statement for the loop, its trace and its result.\<close>

definition runs_as ::
  "(BaseProvider \<Rightarrow> 's \<Rightarrow> (thrown, 'v) result \<times> 's) \<Rightarrow> BaseProvider list \<Rightarrow> nat \<Rightarrow> 's \<Rightarrow> router_event list
     \<Rightarrow> (string \<times> outcome) list \<Rightarrow> (thrown, 'v served) result \<Rightarrow> 's \<Rightarrow> bool" where
  "runs_as call cs n s tr rounds r s' \<longleftrightarrow>
     failover_loop (traced_deps D) (traced_call call) cs n (s, tr) = Some (r, (s', tr @ concat (map round_events rounds))) \<and>
     failover_loop D call cs n s = Some (r, s') \<and> explains rounds cs n r"

lemma runs_as_step:
  assumes sel: "rd_select D cs s = (Inr p, s1)" and p: "p \<in> set cs"
    and acq: "acquire_or_open D (p_id p) s1 = (d, s2)" and att: "attempt_call D call p s2 = (x, s3)"
  defines "rest \<equiv> filter (\<lambda>q. p_id q \<noteq> p_id p) cs"
  defines "skip \<equiv> rd_lb_release D (p_id p) (rd_metric D (M_provider_error (p_name p) ''circuit_open'') s2)"
    and "next \<equiv> rd_lb_release D (p_id p) s3"
  shows "\<not> cd_allowed d \<Longrightarrow> runs_as call rest n skip (tr @ round_events (p_id p, Skipped)) rounds r s' \<Longrightarrow>
      runs_as call cs n s tr ((p_id p, Skipped) # rounds) r s'"
    and "cd_allowed d \<Longrightarrow> x = TryNext \<Longrightarrow> runs_as call rest (n + 1) next (tr @ round_events (p_id p, Failed)) rounds r s' \<Longrightarrow>
      runs_as call cs n s tr ((p_id p, Failed) # rounds) r s'"
    and "cd_allowed d \<Longrightarrow> x = Served v \<Longrightarrow>
      runs_as call cs n s tr [(p_id p, ServedBy)] (Inr \<lparr>sv_provider = p, sv_value = v, sv_failoverCount = n\<rparr>) next"
    and "cd_allowed d \<Longrightarrow> x = Propagate g \<Longrightarrow> runs_as call cs n s tr [(p_id p, Propagated)] (Inl (TGateway g)) next"
proof -
  have ne: "cs \<noteq> []" using p by auto
  note plain = failover_step [OF sel acq ne, of call n]
    and logged = failover_step [OF traced_simps(3) [OF sel] traced_simps(4) [OF acq] ne, of "traced_call call" n tr]
  note facts = plain logged p attempt_propagates [of D call p s2 g s3] att
  note eqs = runs_as_def rest_def skip_def next_def traced_simps(1,2) traced_simps(5) [OF att]
  show "\<not> cd_allowed d \<Longrightarrow> runs_as call rest n skip (tr @ round_events (p_id p, Skipped)) rounds r s' \<Longrightarrow>
      runs_as call cs n s tr ((p_id p, Skipped) # rounds) r s'"
    and "cd_allowed d \<Longrightarrow> x = TryNext \<Longrightarrow> runs_as call rest (n + 1) next (tr @ round_events (p_id p, Failed)) rounds r s' \<Longrightarrow>
      runs_as call cs n s tr ((p_id p, Failed) # rounds) r s'"
    and "cd_allowed d \<Longrightarrow> x = Served v \<Longrightarrow>
      runs_as call cs n s tr [(p_id p, ServedBy)] (Inr \<lparr>sv_provider = p, sv_value = v, sv_failoverCount = n\<rparr>) next"
    and "cd_allowed d \<Longrightarrow> x = Propagate g \<Longrightarrow> runs_as call cs n s tr [(p_id p, Propagated)] (Inl (TGateway g)) next"
    using facts by (auto simp: eqs)
qed

lemma failover_rounds: "\<exists>r s' rounds. runs_as call cs n s tr rounds r s'"
proof (induction "length cs" arbitrary: cs n s tr rule: less_induct)
  case less
  show ?case
  proof (cases "cs = []")
    case True
    then have "runs_as call cs n s tr [] (Inl (TGateway (AllProvidersFailedError n no_options))) s"
      by (simp add: runs_as_def failover_loop.simps)
    then show ?thesis by blast
  next
    case False
    from select_member [OF this, of s] obtain p s1 where sel: "rd_select D cs s = (Inr p, s1)" and p: "p \<in> set cs"
      by (metis prod.collapse)
    then have shorter: "length (filter (\<lambda>q. p_id q \<noteq> p_id p) cs) < length cs"
      by (intro length_filter_le_strict) auto
    obtain d s2 where acq: "acquire_or_open D (p_id p) s1 = (d, s2)" by fastforce
    obtain x s3 where att: "attempt_call D call p s2 = (x, s3)" by fastforce
    note step = runs_as_step [OF sel p acq att]
    show ?thesis
    proof (cases "cd_allowed d")
      case False
      with less [OF shorter] step(1) show ?thesis by meson
    next
      case True
      show ?thesis
      proof (cases x)
        case TryNext
        with True less [OF shorter] step(2) show ?thesis by meson
      qed (use True step(3,4) in blast)+
    qed
  qed
qed

end

section \<open>What a run of the loop amounts to\<close>

definition failures :: "(string \<times> outcome) list \<Rightarrow> nat" where
  "failures rounds = length (filter (\<lambda>x. snd x = Failed) rounds)"

text \<open>
  The candidates that were passed over were skipped or failed; the last round decides, or the
  candidates are exhausted.
\<close>

definition verdict :: "BaseProvider list \<Rightarrow> nat \<Rightarrow> (string \<times> outcome) list \<Rightarrow> (thrown, 'v served) result \<Rightarrow> bool" where
  "verdict cs n rounds r = (case r of
     Inr v \<Rightarrow> sv_provider v \<in> set cs \<and>
       (\<exists>before. rounds = before @ [(p_id (sv_provider v), ServedBy)] \<and> snd ` set before \<subseteq> {Skipped, Failed} \<and>
         sv_failoverCount v = n + failures before)
   | Inl e \<Rightarrow>
       (\<exists>before i g. rounds = before @ [(i, Propagated)] \<and> snd ` set before \<subseteq> {Skipped, Failed} \<and>
         e = TGateway g \<and> \<not> retryable g) \<or>
       (snd ` set rounds \<subseteq> {Skipped, Failed} \<and> fst ` set rounds = p_id ` set cs \<and>
         e = TGateway (AllProvidersFailedError (n + failures rounds) no_options)))"

lemma failures_Cons: "failures ((i, x) # rounds) = (if x = Failed then 1 else 0) + failures rounds"
  by (simp add: failures_def)

lemma verdict_Cons:
  assumes "verdict (filter (\<lambda>q. p_id q \<noteq> i) cs) (n + (if x = Failed then 1 else 0)) rounds r"
    and "x = Skipped \<or> x = Failed" and "i \<in> p_id ` set cs"
  shows "verdict cs n ((i, x) # rounds) r"
proof (cases r)
  case (Inr v)
  with assms(1) obtain bef where "sv_provider v \<in> set cs" "rounds = bef @ [(p_id (sv_provider v), ServedBy)]"
    "snd ` set bef \<subseteq> {Skipped, Failed}" "sv_failoverCount v = n + (if x = Failed then 1 else 0) + failures bef"
    by (auto simp: verdict_def)
  with assms(2) Inr show ?thesis unfolding verdict_def
    by (auto simp: failures_Cons intro!: exI [of _ "(i, x) # bef"])
next
  case (Inl e)
  with assms(1) consider
    (propagated) bef j g where "rounds = bef @ [(j, Propagated)]" "snd ` set bef \<subseteq> {Skipped, Failed}" "e = TGateway g" "\<not> retryable g"
  | (exhausted) "snd ` set rounds \<subseteq> {Skipped, Failed}" "fst ` set rounds = p_id ` set (filter (\<lambda>q. p_id q \<noteq> i) cs)"
      "e = TGateway (AllProvidersFailedError (n + (if x = Failed then 1 else 0) + failures rounds) no_options)"
    by (auto simp: verdict_def)
  then show ?thesis
  proof cases
    case propagated
    then have "(i, x) # rounds = ((i, x) # bef) @ [(j, Propagated)]" "snd ` set ((i, x) # bef) \<subseteq> {Skipped, Failed}"
      using assms(2) by auto
    with propagated(3,4) Inl show ?thesis unfolding verdict_def by (simp only: sum.case) blast
  next
    case exhausted
    have "fst ` set ((i, x) # rounds) = p_id ` set cs" using exhausted(2) assms(3) by auto
    with exhausted(1,3) assms(2) Inl show ?thesis by (simp add: verdict_def failures_Cons)
  qed
qed

lemma explains_verdict:
  "explains rounds cs n r \<Longrightarrow> distinct (map fst rounds) \<and> fst ` set rounds \<subseteq> p_id ` set cs \<and> verdict cs n rounds r"
proof (induction rounds arbitrary: cs n)
  case Nil
  then show ?case by (auto simp: verdict_def failures_def)
next
  case (Cons a rounds)
  obtain i x where a: "a = (i, x)" by (cases a)
  let ?rest = "filter (\<lambda>q. p_id q \<noteq> i) cs"
  have i: "i \<in> p_id ` set cs" using Cons.prems by (simp add: a)
  have more: ?case if ex: "explains rounds ?rest (n + (if x = Failed then 1 else 0)) r" and x: "x = Skipped \<or> x = Failed"
  proof -
    from Cons.IH [OF ex] have ih: "distinct (map fst rounds)" "fst ` set rounds \<subseteq> p_id ` set ?rest"
      "verdict ?rest (n + (if x = Failed then 1 else 0)) rounds r" by blast+
    from ih(1,2) i verdict_Cons [OF ih(3) x i] show ?thesis by (auto simp: a)
  qed
  show ?case
  proof (cases x)
    case ServedBy
    with Cons.prems a i show ?thesis by (auto simp: verdict_def failures_def)
  next
    case Propagated
    with Cons.prems a i show ?thesis by (auto simp: verdict_def)
  qed (use more Cons.prems a in auto)
qed

context failover
begin

lemma runFailover_rounds:
  obtains r s' rounds where
    "runFailover (traced_deps D) cs (traced_call call) (s, tr) = Some (r, (s', tr @ concat (map round_events rounds)))"
    "runFailover D cs call s = Some (r, s')" "distinct (map fst rounds)"
    "fst ` set rounds \<subseteq> p_id ` set (map mc_provider cs)" "verdict (map mc_provider cs) 0 rounds r"
proof -
  from failover_rounds [of call "map mc_provider cs" 0 s tr] obtain r s' rounds where
    "runs_as call (map mc_provider cs) 0 s tr rounds r s'" by blast
  then show ?thesis using explains_verdict [of rounds "map mc_provider cs" 0 r] that
    by (auto simp: runs_as_def runFailover_def)
qed

end

section \<open>Accounting\<close>

definition billed :: "router_event list \<Rightarrow> router_event list" where
  "billed tr = filter (\<lambda>e. case e of Ev_spend a c \<Rightarrow> True | Ev_log l \<Rightarrow> True | _ \<Rightarrow> False) tr"

definition provider_calls :: "router_event list \<Rightarrow> router_event list" where
  "provider_calls tr = filter (\<lambda>e. case e of Ev_call i \<Rightarrow> True | _ \<Rightarrow> False) tr"

lemma billed_simps [simp]:
  "billed [] = []" "billed (xs @ ys) = billed xs @ billed ys"
  "billed (Ev_spend a c # xs) = Ev_spend a c # billed xs" "billed (Ev_log l # xs) = Ev_log l # billed xs"
  "billed (Ev_budget # xs) = billed xs"
  by (simp_all add: billed_def)

lemma billed_rounds [simp]: "billed (concat (map round_events rounds)) = []"
proof (induction rounds)
  case (Cons a rounds)
  obtain i x where "a = (i, x)" by (cases a)
  then show ?case using Cons by (cases x) (simp_all add: billed_def)
qed simp

definition usage_cost :: "BaseProvider \<Rightarrow> string \<Rightarrow> CompletionUsage \<Rightarrow> rat" where
  "usage_cost p model u = estimateCost (getModel p model) (prompt_tokens u) (completion_tokens u)"

text \<open>What a served request books: the spend and the log entry.\<close>

definition charge ::
  "GatewayContext \<Rightarrow> BaseProvider \<Rightarrow> string \<Rightarrow> CompletionUsage \<Rightarrow> int \<Rightarrow> nat \<Rightarrow> router_event list" where
  "charge ctx p model u latency n =
     [Ev_spend (apiKeyId ctx) (usage_cost p model u),
      Ev_log (log_entry ctx (Some (p_id p)) model (prompt_tokens u) (completion_tokens u) (total_tokens u)
        (usage_cost p model u) latency 200 False n None)]"

definition cached_log :: "GatewayContext \<Rightarrow> string \<Rightarrow> CompletionUsage \<Rightarrow> router_event list" where
  "cached_log ctx model u =
     [Ev_log (log_entry ctx None model (prompt_tokens u) (completion_tokens u) (total_tokens u) 0 0 200 True 0 None)]"

lemma traced_account:
  "account (traced_deps D) ctx p model pt ct tt lat n err (s, t) =
     (account D ctx p model pt ct tt lat n err s,
      t @ [Ev_spend (apiKeyId ctx) (estimateCost (getModel p model) pt ct),
           Ev_log (log_entry ctx (Some (p_id p)) model pt ct tt (estimateCost (getModel p model) pt ct) lat
             (if err then 502 else 200) False n (if err then Some ''stream interrupted'' else None))])"
  by (simp add: account_def recordProviderMetrics_def traced_deps_def recorded_defs Let_def)

text \<open>A gateway on the reference server, for any strategy, snapshot and adapters.\<close>

definition ref_gateway ::
  "StrategyName \<Rightarrow> snapshot \<Rightarrow> (BaseProvider \<Rightarrow> (thrown, ChatCompletionResponse) result)
     \<Rightarrow> (thrown, ChatCompletionChunk option) result \<Rightarrow> lb_process gateway" where
  "ref_gateway name snap answer chunk =
     \<lparr>gw_strategy = name, gw_lb = ref_lb,
      gw_breaker = \<lparr>failureThreshold = 5, successThreshold = 2, timeoutMs = 30000, windowMs = 60000, halfOpenMaxProbes = 1\<rparr>,
      gw_cache = \<lparr>ce_redis = lift_env ref_env, ce_prefix = ''gw:'', ce_sha = (\<lambda>x. x), ce_compare = by_code_units,
        ce_scan = (\<lambda>c s. (Inr (''0'', []), s)), CACHE_ENABLED = False, CACHE_DEFAULT_TTL_SECONDS = 60, CACHE_MAX_VALUE_BYTES = 1000\<rparr>,
      gw_clock = (\<lambda>s. clock (lp_view s)), gw_snapshot = (\<lambda>s. snap), gw_refresh = (\<lambda>s. (Inr (), s)),
      gw_queue = (\<lambda>s. empty_queue), gw_set_queue = (\<lambda>q s. s), gw_metric = (\<lambda>m s. s),
      gw_chat = (\<lambda>p r s. (answer p, s)), gw_embed = (\<lambda>p r s. (Inl (TValue ''no embeddings''), s)),
      gw_chatStream = (\<lambda>p r s. (0, s)), gw_next = (\<lambda>it s. (chunk, s)), gw_countTokens = (\<lambda>p ms m. 7)\<rparr>"

interpretation ref_gateway: gateway_service "ref_gateway name snap answer chunk" for name snap answer chunk
  by unfold_locales (simp add: ref_gateway_def ref_lb_def ref_random.rand_range)

context gateway_service
begin

lemma is_failover: "failover (gateway_deps G)"
  by (rule failover_axioms)

end


definition two_candidates :: "ModelCandidate list" where
  "two_candidates = map (\<lambda>p. \<lparr>mc_provider = p, mc_model = \<lparr>mi_modelId = ''m'', mi_displayName = None,
     mi_contextWindow = None, mi_maxOutputTokens = None, mi_inputPricePer1k = None, mi_outputPricePer1k = None,
     mi_supportsStreaming = True, mi_supportsTools = True, mi_supportsVision = False\<rparr>\<rparr>)
     [demo_provider ''A'' 1, demo_provider ''B'' 1]"


context failover
begin

lemma serve_upstream_accounting:
  "\<exists>x s' tr'. serve_upstream (traced_deps D) request ctx bypass res (s, tr) = Some (x, (s', tr @ tr')) \<and>
    (case x of
       Inl e \<Rightarrow> billed tr' = []
     | Inr (response, meta) \<Rightarrow> rm_cacheStatus meta \<in> {CS_MISS, CS_SKIP} \<and>
         (\<exists>p \<in> mc_provider ` set (candidates res). rm_providerId meta = Some (p_id p) \<and> rm_model meta = canonicalModel res \<and>
           (\<exists>latency. billed tr' = charge ctx p (rm_model meta) (rs_usage response) latency (rm_failoverCount meta))))"
proof (rule runFailover_rounds [of "candidates res" "timed_chat D (request\<lparr>rq_model := canonicalModel res\<rparr>)" s tr])
  fix r s' and rounds :: "(string \<times> outcome) list"
  assume run: "runFailover (traced_deps D) (candidates res) (traced_call (timed_chat D (request\<lparr>rq_model := canonicalModel res\<rparr>)))
      (s, tr) = Some (r, (s', tr @ concat (map round_events rounds)))"
    and verdict: "verdict (map mc_provider (candidates res)) 0 rounds r"
  show ?thesis
  proof (cases r)
    case (Inl e)
    with run show ?thesis
      by (intro exI [of _ "Inl e"] exI [of _ s'] exI [of _ "concat (map round_events rounds)"])
        (simp add: serve_upstream_def traced_timed_chat Let_def)
  next
    case (Inr v)
    let ?p = "sv_provider v" and ?u = "rs_usage (fst (sv_value v))"
    have p: "?p \<in> mc_provider ` set (candidates res)" using verdict Inr by (simp add: verdict_def)
    have other: "rd_isEligible (traced_deps D) = rd_isEligible D" "rd_metric (traced_deps D) m (s, t) = (rd_metric D m s, t)"
      "rd_cache_set (traced_deps D) q x (s, t) = (rd_cache_set D q x s, t)" for m s t q x
      by (simp_all add: traced_deps_def recorded_defs)
    define status where "status = (if rd_isEligible D request \<and> \<not> bypass then CS_MISS else CS_SKIP)"
    define meta where "meta = \<lparr>rm_provider = Some (p_name ?p), rm_providerId = Some (p_id ?p), rm_model = canonicalModel res,
      rm_cacheStatus = status, rm_latencyMs = of_int (snd (sv_value v)), rm_failoverCount = sv_failoverCount v\<rparr>"
    define evs where "evs = concat (map round_events rounds) @
      charge ctx ?p (canonicalModel res) ?u (snd (sv_value v)) (sv_failoverCount v)"
    have "\<exists>s'. serve_upstream (traced_deps D) request ctx bypass res (s, tr) = Some (Inr (fst (sv_value v), meta), (s', tr @ evs))"
      using run Inr
      by (simp add: serve_upstream_def traced_timed_chat traced_account other Let_def evs_def charge_def usage_cost_def
          meta_def status_def)
    then obtain s'' where "serve_upstream (traced_deps D) request ctx bypass res (s, tr) =
        Some (Inr (fst (sv_value v), meta), (s'', tr @ evs))" by blast
    moreover have "billed evs = charge ctx ?p (rm_model meta) ?u (snd (sv_value v)) (rm_failoverCount meta)"
      by (simp add: evs_def meta_def charge_def)
    moreover have "rm_cacheStatus meta \<in> {CS_MISS, CS_SKIP}" "rm_providerId meta = Some (p_id ?p)" "rm_model meta = canonicalModel res"
      by (simp_all add: meta_def status_def)
    moreover from calculation have "\<exists>p \<in> mc_provider ` set (candidates res). rm_providerId meta = Some (p_id p) \<and>
        rm_model meta = canonicalModel res \<and> (\<exists>latency. billed evs = charge ctx p (rm_model meta) ?u latency (rm_failoverCount meta))"
      by (intro bexI [OF _ p]) blast
    ultimately show ?thesis by (intro exI conjI) (assumption, simp)
  qed
qed

end

lemma lookup_quiet:
  "\<exists>c s2. (if rd_isEligible (traced_deps D) r \<and> bypass then (None, rd_metric (traced_deps D) m (s1, t))
     else if rd_isEligible (traced_deps D) r then rd_cache_get (traced_deps D) r (s1, t) else (None, (s1, t))) = (c, (s2, t))"
  by (cases "rd_cache_get D r s1") (simp add: traced_deps_def recorded_defs)


definition demo_context :: GatewayContext where
  "demo_context = \<lparr>apiKeyId = ''k1'', ownerId = None, gc_name = None, rpmLimit = 60, tpmLimit = 1000,
     monthlyBudgetUsd = None, allowedModels = None, expiresAtMs = None\<rparr>"


context failover
begin

lemma runFailover_total: obtains r s' where "runFailover D cs call s = Some (r, s')"
  by (rule runFailover_rounds [of cs call s "[]"])

lemma runFailover_defined: "runFailover D cs call s \<noteq> None"
  by (rule runFailover_total [of cs call s]) simp

lemma serve_upstream_total: "serve_upstream D request ctx bypass res s \<noteq> None"
proof (rule runFailover_total [of "candidates res" "timed_chat D (request\<lparr>rq_model := canonicalModel res\<rparr>)" s])
  fix r s'
  assume "runFailover D (candidates res) (timed_chat D (request\<lparr>rq_model := canonicalModel res\<rparr>)) s = Some (r, s')"
  then show ?thesis by (cases r) (simp_all add: serve_upstream_def Let_def)
qed

lemma total:
  "chatCompletion D request ctx bypass s \<noteq> None" "embeddings D erequest ctx s \<noteq> None" "prepareStream D request ctx s \<noteq> None"
proof -
  show "chatCompletion D request ctx bypass s \<noteq> None"
    unfolding chatCompletion_def using serve_upstream_total
    by (simp add: serve_cached_def split: prod.split sum.split option.split)
  show "embeddings D erequest ctx s \<noteq> None"
    unfolding embeddings_def Let_def
    by (simp add: runFailover_defined split: prod.split sum.split option.split)
  show "prepareStream D request ctx s \<noteq> None"
    unfolding prepareStream_def Let_def
    by (simp add: runFailover_defined split: prod.split sum.split option.split)
qed

end

text \<open>
  C19. The production router always answers: with the real load balancer (any strategy), breaker,
  cache and cost tracker, in any state of Redis, chat completions, embeddings and the
  preparation of streams end with a value or an error, never in an endless failover.
\<close>

theorem router_total:
  assumes "random_source (lb_rand (gw_lb G))"
  shows "chatCompletion (gateway_deps G) request ctx bypass s \<noteq> None \<and>
    embeddings (gateway_deps G) erequest ctx s \<noteq> None \<and> prepareStream (gateway_deps G) request ctx s \<noteq> None"
proof -
  have "gateway_service G" using assms by (simp add: gateway_service_def)
  then have "failover (gateway_deps G)" by (rule gateway_service.is_failover)
  then show ?thesis by (intro conjI) (rule failover.total, assumption)+
qed

theorem router_total_witness:
  "chatCompletion (gateway_deps (ref_gateway LEAST_CONNECTIONS empty_snapshot (\<lambda>p. Inr demo_response) (Inr None)))
     demo_request demo_context False (lp_init 0) \<noteq> None"
proof -
  have "random_source (lb_rand (gw_lb (ref_gateway LEAST_CONNECTIONS empty_snapshot (\<lambda>p. Inr demo_response) (Inr None))))"
    by (simp add: ref_gateway_def ref_lb_def ref_random.random_source_axioms)
  from router_total [OF this] show ?thesis by blast
qed

section \<open>Admission\<close>

text \<open>In this state the caller may not use the model, or has spent its budget.\<close>

definition barred :: "'s router_deps \<Rightarrow> string \<Rightarrow> GatewayContext \<Rightarrow> 's \<Rightarrow> bool" where
  "barred D model ctx s \<longleftrightarrow>
     \<not> is_ok (resolveAndAuthorize D model ctx s) \<or>
     fst (rd_isOverBudget D (apiKeyId ctx) (map_option dec_value (monthlyBudgetUsd ctx)) s)"

definition no_upstream :: "((thrown, 'a) result \<times> 's traced) option \<Rightarrow> bool" where
  "no_upstream x = (case x of None \<Rightarrow> False | Some (r, (s, tr)) \<Rightarrow> provider_calls tr = [] \<and> \<not> is_ok r)"

lemma traced_resolve: "resolveAndAuthorize (traced_deps D) m ctx (s, t) = resolveAndAuthorize D m ctx s"
  by (simp add: resolveAndAuthorize_def traced_deps_def Let_def)

lemma traced_budget:
  "fst (rd_isOverBudget D (apiKeyId ctx) (map_option dec_value (monthlyBudgetUsd ctx)) s) \<Longrightarrow>
     \<exists>e s'. enforceBudget (traced_deps D) ctx (s, t) = (Inl e, (s', t @ [Ev_budget]))"
  by (cases "rd_isOverBudget D (apiKeyId ctx) (map_option dec_value (monthlyBudgetUsd ctx)) s")
    (simp add: enforceBudget_def traced_deps_def recorded_defs)



section \<open>Streams\<close>

text \<open>What a stream is charged for: the last usage the provider reported, or the estimates.\<close>

definition reported_usage :: "ChatCompletionChunk list \<Rightarrow> CompletionUsage option" where
  "reported_usage cks = (case filter (\<lambda>ck. ck_usage ck \<noteq> None) cks of [] \<Rightarrow> None | us \<Rightarrow> ck_usage (last us))"

definition stream_tokens :: "int \<Rightarrow> ChatCompletionChunk list \<Rightarrow> int \<times> int" where
  "stream_tokens estimate cks = (case reported_usage cks of
     Some u \<Rightarrow> (prompt_tokens u, completion_tokens u)
   | None \<Rightarrow> (estimate, \<Sum>ck\<leftarrow>cks. countDeltaTokens ck))"

lemma reported_usage_snoc: "reported_usage (cks @ [ck]) = (case ck_usage ck of Some u \<Rightarrow> Some u | None \<Rightarrow> reported_usage cks)"
  by (cases "filter (\<lambda>ck. ck_usage ck \<noteq> None) cks") (auto simp: reported_usage_def split: option.splits list.splits)

lemma tally_spec:
  "fold absorb cks \<lparr>ta_promptTokens = p0, ta_completionTokens = 0, ta_usageFromStream = False\<rparr> =
     \<lparr>ta_promptTokens = fst (stream_tokens p0 cks), ta_completionTokens = snd (stream_tokens p0 cks),
      ta_usageFromStream = (reported_usage cks \<noteq> None)\<rparr>"
proof (induction cks rule: rev_induct)
  case Nil
  then show ?case by (simp add: stream_tokens_def reported_usage_def)
next
  case (snoc ck cks)
  then show ?case
    by (auto simp: absorb_def applyUsage_def stream_tokens_def reported_usage_snoc split: option.splits)
qed

lemma stream_loop_trace:
  assumes "stream_loop D' request wants it yielded t st = Some y" and "D' = traced_deps D"
  shows "case y of ((e, ys, t'), st') \<Rightarrow> snd st' = snd st \<and>
    (\<exists>received. ys = yielded @ filter (forwards request) received \<and> t' = fold absorb received t)"
proof -
  have "D' = traced_deps D \<longrightarrow> (case y of ((e, ys, t'), st') \<Rightarrow> snd st' = snd st \<and>
    (\<exists>received. ys = yielded @ filter (forwards request) received \<and> t' = fold absorb received t))"
  proof (rule stream_loop.raw_induct [OF _ assms(1)], rule impI)
    fix loop D'' request wants it yielded t y and st :: "'a traced"
    assume IH: "\<And>D'' request wants it yielded t st y. loop D'' request wants it yielded t st = Some y \<Longrightarrow>
        D'' = traced_deps D \<longrightarrow> (case y of ((e, ys, t'), st') \<Rightarrow> snd st' = snd st \<and>
          (\<exists>received. ys = yielded @ filter (forwards request) received \<and> t' = fold absorb received t))"
      and y: "(case rd_next D'' it st of
        (Inl e, s1) \<Rightarrow> Some ((Broken e, yielded, t), s1)
      | (Inr None, s1) \<Rightarrow> Some ((Ended, yielded, t), s1)
      | (Inr (Some ck), s1) \<Rightarrow>
          (if \<not> forwards request ck then loop D'' request wants it yielded (absorb ck t) s1
           else if \<not> wants (length yielded + 1) then Some ((Returned, yielded @ [ck], absorb ck t), s1)
           else loop D'' request wants it (yielded @ [ck]) (absorb ck t) s1)) = Some y"
      and D'': "D'' = traced_deps D"
    obtain x st1 where nxt: "rd_next D'' it st = (x, st1)" by (rule prod.exhaust)
    then have tr: "snd st1 = snd st" using D'' by (auto simp: traced_deps_def recorded_defs split: prod.splits)
    consider (stop) e where "y = ((e, yielded, t), st1)"
      | (return) ck where "forwards request ck" "y = ((Returned, yielded @ [ck], absorb ck t), st1)"
      | (skip) ck where "\<not> forwards request ck" "loop D'' request wants it yielded (absorb ck t) st1 = Some y"
      | (yield) ck where "forwards request ck" "loop D'' request wants it (yielded @ [ck]) (absorb ck t) st1 = Some y"
      using y nxt by (auto split: sum.splits option.splits if_splits)
    then show "case y of ((e, ys, t'), st') \<Rightarrow> snd st' = snd st \<and>
        (\<exists>received. ys = yielded @ filter (forwards request) received \<and> t' = fold absorb received t)"
    proof cases
      case stop
      with tr show ?thesis by (auto intro: exI [of _ "[]"])
    next
      case (return ck)
      with tr show ?thesis by (auto intro!: exI [of _ "[ck]"])
    next
      case (skip ck)
      from IH [OF skip(2)] D'' obtain e ys t' st' received where "y = ((e, ys, t'), st')" "snd st' = snd st1"
        "ys = yielded @ filter (forwards request) received" "t' = fold absorb received (absorb ck t)"
        by (auto split: prod.splits)
      with skip(1) tr show ?thesis by (auto intro!: exI [of _ "ck # received"])
    next
      case (yield ck)
      from IH [OF yield(2)] D'' obtain e ys t' st' received where "y = ((e, ys, t'), st')" "snd st' = snd st1"
        "ys = (yielded @ [ck]) @ filter (forwards request) received" "t' = fold absorb received (absorb ck t)"
        by (auto split: prod.splits)
      with yield(1) tr show ?thesis by (auto intro!: exI [of _ "ck # received"])
    qed
  qed
  with assms(2) show ?thesis by blast
qed

lemma stream_body_trace:
  assumes "stream_body (traced_deps D) request wants ps st = Some ((e, ys, t), st')"
  shows "snd st' = snd st \<and> (\<exists>received. (\<forall>ck. ps_first ps = Some ck \<longrightarrow> received \<noteq> [] \<and> hd received = ck) \<and>
    ys = filter (forwards request) received \<and>
    t = fold absorb received \<lparr>ta_promptTokens = rd_countTokens D (ps_provider ps) (rq_messages request) (ps_model ps),
          ta_completionTokens = 0, ta_usageFromStream = False\<rparr>)"
proof -
  let ?t0 = "\<lparr>ta_promptTokens = rd_countTokens D (ps_provider ps) (rq_messages request) (ps_model ps),
    ta_completionTokens = 0, ta_usageFromStream = False\<rparr>"
  have ct: "rd_countTokens (traced_deps D) = rd_countTokens D" by (simp add: traced_deps_def)
  have loop: "snd st2 = snd st1 \<and> (\<exists>received. ys' = ys0 @ filter (forwards request) received \<and> t' = fold absorb received t1)"
    if "stream_loop (traced_deps D) request wants i0 ys0 t1 st1 = Some ((e', ys', t'), st2)" for i0 ys0 t1 e' ys' t' and st1 st2 :: "_ traced"
    using stream_loop_trace [OF that refl] by simp
  show ?thesis
  proof (cases "ps_first ps")
    case None
    with assms show ?thesis by (auto simp: stream_body_def ct Let_def dest!: loop)
  next
    case (Some ck)
    let ?ys = "filter (forwards request) [ck]"
    from assms Some have "(e = Returned \<and> ys = ?ys \<and> t = absorb ck ?t0 \<and> st' = st) \<or>
        stream_loop (traced_deps D) request wants (ps_iterator ps) ?ys (absorb ck ?t0) st = Some ((e, ys, t), st')"
      by (auto simp: stream_body_def ct Let_def split: if_splits)
    then show ?thesis
    proof
      assume "e = Returned \<and> ys = ?ys \<and> t = absorb ck ?t0 \<and> st' = st"
      with Some show ?thesis by (intro conjI exI [of _ "[ck]"]) auto
    next
      assume "stream_loop (traced_deps D) request wants (ps_iterator ps) ?ys (absorb ck ?t0) st = Some ((e, ys, t), st')"
      from loop [OF this] obtain received where "snd st' = snd st" "ys = ?ys @ filter (forwards request) received"
        "t = fold absorb received (absorb ck ?t0)" by blast
      with Some show ?thesis by (intro conjI exI [of _ "ck # received"]) auto
    qed
  qed
qed


definition demo_chunk :: "string option \<Rightarrow> CompletionUsage option \<Rightarrow> ChatCompletionChunk" where
  "demo_chunk text usage = \<lparr>ck_id = ''x'', ck_created = 0, ck_model = ''m'',
     ck_choices = Some (case text of None \<Rightarrow> []
       | Some w \<Rightarrow> [\<lparr>cc_index = 0, cc_role = False, cc_content = Some w, cc_tool_calls = None, cc_finish_reason = None\<rparr>]),
     ck_usage = usage, ck_system_fingerprint = None\<rparr>"


end
