(* ===== verification/Retry.thy ===== *)
theory Retry
  imports Errors
begin

text \<open>
  The retry helper of \<open>src/utils/retry.ts\<close>: the classification of errors, the backoff with
  full jitter and the attempt loop, with cancellation.  The operation, the abort signal, the
  timer and the jitter source are functions of the state; the loop ends after at most
  \<open>maxAttempts\<close> attempts, so it is a total function.
\<close>

section \<open>Classification\<close>

definition RETRYABLE_STATUS_CODES :: "int set" where
  "RETRYABLE_STATUS_CODES = {429, 500, 502, 503, 504}"

definition isRetryableStatusCode :: "int \<Rightarrow> bool" where
  "isRetryableStatusCode status = (status \<in> RETRYABLE_STATUS_CODES)"

fun isAbortError :: "thrown \<Rightarrow> bool" where
  "isAbortError (TError e) = (je_name e = ''AbortError'')"
| "isAbortError _ = False"

fun extractStatus :: "thrown \<Rightarrow> int option" where
  "extractStatus (TGateway g) = Some (statusCode g)"
| "extractStatus (TError e) = nullish_opt (je_statusCode e) (je_status e)"
| "extractStatus (TObject w e) = nullish_opt (je_statusCode e) (je_status e)"
| "extractStatus (TValue w) = None"

definition defaultIsRetryable :: "thrown \<Rightarrow> bool" where
  "defaultIsRetryable e =
     (if isAbortError e then False
      else (case e of
              TGateway g \<Rightarrow> retryable g
            | _ \<Rightarrow> (case extractStatus e of Some status \<Rightarrow> isRetryableStatusCode status | None \<Rightarrow> True)))"

text \<open>The rejection for an aborted signal: its reason, if that is an error.\<close>

fun abortError :: "thrown \<Rightarrow> thrown" where
  "abortError (TGateway g) = TGateway g"
| "abortError (TError e) = TError e"
| "abortError _ = TError (plain_error ''AbortError'' ''The operation was aborted.'')"

section \<open>The loop\<close>

datatype retry_failure = RetryError int "thrown option" | Rethrown thrown

text \<open>
  \<open>ro_signal\<close> is the signal's reason once it is aborted; \<open>ro_wait\<close> waits for a timer and
  answers with the reason when the abort event comes first.
\<close>

record 's RetryOptions =
  ro_maxAttempts :: "int option"
  ro_baseDelayMs :: "int option"
  ro_maxDelayMs :: "int option"
  ro_signal :: "('s \<Rightarrow> thrown option) option"
  ro_isRetryable :: "(thrown \<Rightarrow> bool) option"
  ro_onRetry :: "int \<Rightarrow> int \<Rightarrow> thrown \<Rightarrow> 's \<Rightarrow> 's"
  ro_jitterFraction :: "'s \<Rightarrow> rat \<times> 's"
  ro_wait :: "int \<Rightarrow> 's \<Rightarrow> thrown option \<times> 's"

record retry_config =
  RETRY_MAX_ATTEMPTS :: int
  RETRY_BASE_DELAY_MS :: int
  RETRY_MAX_DELAY_MS :: int

definition signal_reason :: "'s RetryOptions \<Rightarrow> 's \<Rightarrow> thrown option" where
  "signal_reason R s = (case ro_signal R of None \<Rightarrow> None | Some aborted \<Rightarrow> aborted s)"

definition delay :: "'s RetryOptions \<Rightarrow> int \<Rightarrow> 's \<Rightarrow> (thrown, unit) result \<times> 's" where
  "delay R ms s =
     (case signal_reason R s of
        Some reason \<Rightarrow> (Inl (abortError reason), s)
      | None \<Rightarrow>
          (case ro_wait R ms s of
             (Some reason, s') \<Rightarrow> if ro_signal R \<noteq> None then (Inl (abortError reason), s') else (Inr (), s')
           | (None, s') \<Rightarrow> (Inr (), s')))"

definition cryptoJitterFraction :: "(int \<Rightarrow> 's \<Rightarrow> int \<times> 's) \<Rightarrow> 's \<Rightarrow> rat \<times> 's" where
  "cryptoJitterFraction secureRandomInt s =
     (case secureRandomInt 1000000 s of (n, s') \<Rightarrow> (of_int n / 1000000, s'))"

definition exponentialCap :: "int \<Rightarrow> int \<Rightarrow> int \<Rightarrow> int" where
  "exponentialCap maxDelayMs baseDelayMs attempt = min maxDelayMs (baseDelayMs * 2 ^ nat (attempt - 1))"

function retry_loop ::
  "'s RetryOptions \<Rightarrow> (thrown \<Rightarrow> bool) \<Rightarrow> int \<Rightarrow> int \<Rightarrow> int \<Rightarrow> (int \<Rightarrow> 's \<Rightarrow> (thrown, 'v) result \<times> 's)
     \<Rightarrow> int \<Rightarrow> thrown option \<Rightarrow> 's \<Rightarrow> (retry_failure, 'v) result \<times> 's" where
  "retry_loop R isRetryable maxAttempts baseDelayMs maxDelayMs fn attempt lastError s =
     (if \<not> attempt \<le> maxAttempts then (Inl (RetryError maxAttempts lastError), s)
      else (case signal_reason R s of
        Some reason \<Rightarrow> (Inl (Rethrown (abortError reason)), s)
      | None \<Rightarrow>
          (case fn attempt s of
             (Inr v, s1) \<Rightarrow> (Inr v, s1)
           | (Inl e, s1) \<Rightarrow>
               if isAbortError e then (Inl (Rethrown e), s1)
               else if \<not> (isRetryable e \<and> attempt < maxAttempts) then
                 (if isRetryable e then (Inl (RetryError attempt (Some e)), s1) else (Inl (Rethrown e), s1))
               else
                 (case ro_jitterFraction R s1 of
                    (j, s2) \<Rightarrow>
                      (let delayMs = js_floor (j * of_int (exponentialCap maxDelayMs baseDelayMs attempt));
                           s3 = ro_onRetry R attempt delayMs e s2
                       in case delay R delayMs s3 of
                            (Inl a, s4) \<Rightarrow> (Inl (Rethrown a), s4)
                          | (Inr _, s4) \<Rightarrow>
                              retry_loop R isRetryable maxAttempts baseDelayMs maxDelayMs fn (attempt + 1) (Some e) s4)))))"
  by pat_completeness auto
termination
  by (relation "measure (\<lambda>(R, isRetryable, maxAttempts, b, m, fn, attempt, l, s). nat (maxAttempts + 1 - attempt))") auto

definition retry ::
  "retry_config \<Rightarrow> 's RetryOptions \<Rightarrow> (int \<Rightarrow> 's \<Rightarrow> (thrown, 'v) result \<times> 's) \<Rightarrow> 's \<Rightarrow> (retry_failure, 'v) result \<times> 's" where
  "retry C R fn s =
     retry_loop R (nullish (ro_isRetryable R) defaultIsRetryable) (nullish (ro_maxAttempts R) (RETRY_MAX_ATTEMPTS C))
       (nullish (ro_baseDelayMs R) (RETRY_BASE_DELAY_MS C)) (nullish (ro_maxDelayMs R) (RETRY_MAX_DELAY_MS C)) fn 1 None s"

section \<open>What the loop does\<close>

text \<open>A log of the attempts and of the waits, kept beside the state.\<close>

datatype retry_event = Attempt int | Backoff int

definition logged_options :: "'s RetryOptions \<Rightarrow> ('s \<times> retry_event list) RetryOptions" where
  "logged_options R =
     \<lparr>ro_maxAttempts = ro_maxAttempts R, ro_baseDelayMs = ro_baseDelayMs R, ro_maxDelayMs = ro_maxDelayMs R,
      ro_signal = map_option (\<lambda>f st. f (fst st)) (ro_signal R), ro_isRetryable = ro_isRetryable R,
      ro_onRetry = (\<lambda>k d e st. (ro_onRetry R k d e (fst st), snd st @ [Backoff d])),
      ro_jitterFraction = (\<lambda>st. case ro_jitterFraction R (fst st) of (j, s') \<Rightarrow> (j, (s', snd st))),
      ro_wait = (\<lambda>ms st. case ro_wait R ms (fst st) of (a, s') \<Rightarrow> (a, (s', snd st)))\<rparr>"

definition logged_fn :: "(int \<Rightarrow> 's \<Rightarrow> 'a \<times> 's) \<Rightarrow> int \<Rightarrow> 's \<times> retry_event list \<Rightarrow> 'a \<times> ('s \<times> retry_event list)" where
  "logged_fn fn k st = (case fn k (fst st) of (a, s') \<Rightarrow> (a, (s', snd st @ [Attempt k])))"

text \<open>The shape of a run from attempt \<open>k\<close>: attempts in order, backoffs in between, within their caps.\<close>

fun backoff_run :: "int \<Rightarrow> int \<Rightarrow> int \<Rightarrow> retry_event list \<Rightarrow> bool" where
  "backoff_run m b k [] = True"
| "backoff_run m b k [Attempt i] = (i = k)"
| "backoff_run m b k (Attempt i # Backoff d # tr) =
     (i = k \<and> 0 \<le> d \<and> d \<le> exponentialCap m b k \<and> backoff_run m b (k + 1) tr)"
| "backoff_run m b k _ = False"

definition attempts :: "retry_event list \<Rightarrow> int" where
  "attempts tr = int (length (filter (\<lambda>x. case x of Attempt i \<Rightarrow> True | _ \<Rightarrow> False) tr))"

lemma attempts_simps [simp]:
  "attempts [] = 0" "attempts (Attempt i # tr) = attempts tr + 1" "attempts (Backoff d # tr) = attempts tr"
  by (simp_all add: attempts_def)

text \<open>How a run may end, given its number of attempts.\<close>

definition explained :: "(thrown \<Rightarrow> bool) \<Rightarrow> int \<Rightarrow> int \<Rightarrow> (retry_failure, 'v) result \<Rightarrow> bool" where
  "explained isRetryable maxAttempts n r = (case r of
     Inr v \<Rightarrow> 1 \<le> n
   | Inl (RetryError k e) \<Rightarrow> k = maxAttempts \<and> n = maxAttempts \<and> (\<exists>x. e = Some x \<and> isRetryable x \<and> \<not> isAbortError x)
   | Inl (Rethrown e) \<Rightarrow> isAbortError e \<or> (1 \<le> n \<and> \<not> isRetryable e) \<or> (\<exists>reason. e = abortError reason))"

lemma floor_fraction:
  assumes "0 \<le> j" "j < (1 :: rat)" "0 \<le> c"
  shows "0 \<le> js_floor (j * of_int c)" "js_floor (j * of_int c) \<le> c"
proof -
  have "j * of_int c \<le> 1 * of_int c" using assms by (intro mult_right_mono) auto
  then show "js_floor (j * of_int c) \<le> c" by (simp add: js_floor_def floor_le_iff)
  show "0 \<le> js_floor (j * of_int c)" using assms by (simp add: js_floor_def)
qed

lemma logged_simps:
  "signal_reason (logged_options R) (s, tr) = signal_reason R s"
  "delay (logged_options R) ms (s, tr) = (case delay R ms s of (x, s') \<Rightarrow> (x, (s', tr)))"
  "ro_onRetry (logged_options R) k d e (s, tr) = (ro_onRetry R k d e s, tr @ [Backoff d])"
  by (simp_all add: logged_options_def signal_reason_def delay_def split: option.split prod.split)

lemma delay_rejects: "delay R ms s = (Inl e, s') \<Longrightarrow> \<exists>reason. e = abortError reason"
  by (auto simp: delay_def split: option.splits prod.splits if_splits)

declare retry_loop.simps [simp del]

lemma retry_loop_run:
  assumes jitter: "\<And>s. 0 \<le> fst (ro_jitterFraction R s) \<and> fst (ro_jitterFraction R s) < 1"
    and caps: "0 \<le> b" "0 \<le> m"
    and "k \<le> maxAttempts" "1 \<le> k"
  shows "\<exists>r s' tr'. retry_loop (logged_options R) isRetryable maxAttempts b m (logged_fn fn) k l (s, tr) = (r, (s', tr @ tr')) \<and>
    backoff_run m b k tr' \<and> attempts tr' \<le> maxAttempts + 1 - k \<and> explained isRetryable maxAttempts (k - 1 + attempts tr') r"
  using assms(4,5)
proof (induction "nat (maxAttempts - k)" arbitrary: k l s tr)
  have step: "\<exists>r s' tr'. retry_loop (logged_options R) isRetryable maxAttempts b m (logged_fn fn) k l (s, tr) = (r, (s', tr @ tr')) \<and>
      backoff_run m b k tr' \<and> attempts tr' \<le> maxAttempts + 1 - k \<and> explained isRetryable maxAttempts (k - 1 + attempts tr') r"
    if k: "k \<le> maxAttempts" "1 \<le> k" and rest: "\<And>l s tr. k < maxAttempts \<Longrightarrow>
      \<exists>r s' tr'. retry_loop (logged_options R) isRetryable maxAttempts b m (logged_fn fn) (k + 1) l (s, tr) = (r, (s', tr @ tr')) \<and>
        backoff_run m b (k + 1) tr' \<and> attempts tr' \<le> maxAttempts + 1 - (k + 1) \<and>
        explained isRetryable maxAttempts (k + 1 - 1 + attempts tr') r" for k l s tr
  proof (cases "signal_reason R s")
    case (Some reason)
    with k show ?thesis by (subst retry_loop.simps) (auto simp: logged_simps explained_def intro!: exI [of _ "[]"])
  next
    case None
    obtain a s1 where fn: "fn k s = (a, s1)" by fastforce
    let ?j = "fst (ro_jitterFraction R s1)" and ?s2 = "snd (ro_jitterFraction R s1)"
    let ?d = "js_floor (?j * of_int (exponentialCap m b k))"
    have cap: "0 \<le> exponentialCap m b k" using caps by (simp add: exponentialCap_def)
    have d: "0 \<le> ?d" "?d \<le> exponentialCap m b k"
      using jitter [of s1] by (auto intro!: floor_fraction cap)
    have jit: "ro_jitterFraction (logged_options R) (s1, t) = (?j, (?s2, t))" for t
      by (simp add: logged_options_def split: prod.split)
    show ?thesis
    proof (cases "\<exists>e. a = Inl e \<and> \<not> isAbortError e \<and> isRetryable e \<and> k < maxAttempts")
      case False
      then show ?thesis using k None fn
        by (subst retry_loop.simps, cases a)
          (auto simp: logged_simps logged_fn_def explained_def intro!: exI [of _ "[Attempt k]"])
    next
      case True
      then obtain e where a: "a = Inl e" "\<not> isAbortError e" "isRetryable e" "k < maxAttempts" by blast
      obtain x s4 where del: "delay R ?d (ro_onRetry R k ?d e ?s2) = (x, s4)" by fastforce
      let ?tr = "tr @ [Attempt k, Backoff ?d]"
      have next_round: "retry_loop (logged_options R) isRetryable maxAttempts b m (logged_fn fn) k l (s, tr) =
        (case x of Inl a \<Rightarrow> (Inl (Rethrown a), (s4, ?tr))
         | Inr _ \<Rightarrow> retry_loop (logged_options R) isRetryable maxAttempts b m (logged_fn fn) (k + 1) (Some e) (s4, ?tr))"
        using k None fn a del
        by (subst retry_loop.simps) (simp add: logged_simps logged_fn_def jit Let_def del split: sum.split)
      show ?thesis
      proof (cases x)
        case (Inl e')
        with del obtain reason where "e' = abortError reason" by (auto dest: delay_rejects)
        with Inl k d show ?thesis unfolding next_round
          by (auto simp: explained_def intro!: exI [of _ "[Attempt k, Backoff ?d]"])
      next
        case (Inr u)
        from rest [OF a(4), of "Some e" s4 ?tr] obtain r s' tr' where
          "retry_loop (logged_options R) isRetryable maxAttempts b m (logged_fn fn) (k + 1) (Some e) (s4, ?tr) = (r, (s', ?tr @ tr'))"
          "backoff_run m b (k + 1) tr'" "attempts tr' \<le> maxAttempts + 1 - (k + 1)"
          "explained isRetryable maxAttempts (k + 1 - 1 + attempts tr') r" by blast
        with Inr d show ?thesis unfolding next_round
          by (intro exI [of _ r] exI [of _ s'] exI [of _ "[Attempt k, Backoff ?d] @ tr'"])
            (simp add: algebra_simps)
      qed
    qed
  qed
  {
    case (0 k l s tr)
    then have "maxAttempts \<le> k" by simp
    with 0(2,3) show ?case by - (rule step, simp_all)
  next
    case (Suc n k l s tr)
    show ?case
    proof (rule step)
      fix l s tr
      assume "k < maxAttempts"
      with Suc.hyps(2) Suc.prems show "\<exists>r s' tr'. retry_loop (logged_options R) isRetryable maxAttempts b m (logged_fn fn) (k + 1) l (s, tr) = (r, (s', tr @ tr')) \<and>
          backoff_run m b (k + 1) tr' \<and> attempts tr' \<le> maxAttempts + 1 - (k + 1) \<and>
          explained isRetryable maxAttempts (k + 1 - 1 + attempts tr') r"
        by (intro Suc.hyps(1)) auto
    qed (fact Suc.prems)+
  }
qed

text \<open>
  Retrying is bounded.  With a positive number of attempts and a jitter in [0, 1), the
  operation runs at most \<open>maxAttempts\<close> times, on attempt numbers 1, 2, 3 and so on, with one backoff
  between two attempts, each of at most \<open>min(maxDelay, base * 2^(attempt - 1))\<close> milliseconds;
  \<open>RetryError\<close> is thrown exactly after the last attempt failed in a retryable way, and any other
  failure is a cancellation or an error that is not retryable.
\<close>

theorem retry_bounded:
  assumes "1 \<le> nullish (ro_maxAttempts R) (RETRY_MAX_ATTEMPTS C)"
    and "0 \<le> nullish (ro_baseDelayMs R) (RETRY_BASE_DELAY_MS C)" and "0 \<le> nullish (ro_maxDelayMs R) (RETRY_MAX_DELAY_MS C)"
    and "\<forall>s. 0 \<le> fst (ro_jitterFraction R s) \<and> fst (ro_jitterFraction R s) < 1"
  shows "\<exists>r s' tr. retry C (logged_options R) (logged_fn fn) (s, []) = (r, (s', tr)) \<and>
    backoff_run (nullish (ro_maxDelayMs R) (RETRY_MAX_DELAY_MS C)) (nullish (ro_baseDelayMs R) (RETRY_BASE_DELAY_MS C)) 1 tr \<and>
    attempts tr \<le> nullish (ro_maxAttempts R) (RETRY_MAX_ATTEMPTS C) \<and>
    explained (nullish (ro_isRetryable R) defaultIsRetryable) (nullish (ro_maxAttempts R) (RETRY_MAX_ATTEMPTS C)) (attempts tr) r"
proof -
  have opts: "ro_maxAttempts (logged_options R) = ro_maxAttempts R" "ro_baseDelayMs (logged_options R) = ro_baseDelayMs R"
    "ro_maxDelayMs (logged_options R) = ro_maxDelayMs R" "ro_isRetryable (logged_options R) = ro_isRetryable R"
    by (simp_all add: logged_options_def)
  from retry_loop_run [of R "nullish (ro_baseDelayMs R) (RETRY_BASE_DELAY_MS C)" "nullish (ro_maxDelayMs R) (RETRY_MAX_DELAY_MS C)"
      1 "nullish (ro_maxAttempts R) (RETRY_MAX_ATTEMPTS C)" "nullish (ro_isRetryable R) defaultIsRetryable" fn None s "[]"] assms
  show ?thesis unfolding retry_def opts by simp
qed

text \<open>A gateway that is down for two calls and a jitter of one half.\<close>

definition demo_retry :: "nat RetryOptions" where
  "demo_retry = \<lparr>ro_maxAttempts = Some 3, ro_baseDelayMs = Some 100, ro_maxDelayMs = Some 150, ro_signal = None,
     ro_isRetryable = None, ro_onRetry = (\<lambda>k d e s. s), ro_jitterFraction = (\<lambda>s. (1 / 2, s)), ro_wait = (\<lambda>ms s. (None, s))\<rparr>"

definition demo_down :: "int \<Rightarrow> nat \<Rightarrow> (thrown, string) result \<times> nat" where
  "demo_down k s = (if s = 0 then Inr ''ok'' else Inl (TValue ''down''), s - 1)"

theorem retry_bounded_witness:
  "\<exists>tr. snd (retry \<lparr>RETRY_MAX_ATTEMPTS = 3, RETRY_BASE_DELAY_MS = 100, RETRY_MAX_DELAY_MS = 150\<rparr>
      (logged_options demo_retry) (logged_fn demo_down) (2, [])) = (0, tr) \<and>
    attempts tr = 3 \<and> backoff_run 150 100 1 tr"
proof -
  let ?C = "\<lparr>RETRY_MAX_ATTEMPTS = 3, RETRY_BASE_DELAY_MS = 100, RETRY_MAX_DELAY_MS = 150\<rparr>"
  have "retry ?C (logged_options demo_retry) (logged_fn demo_down) (2, []) =
      (Inr ''ok'', (0, [Attempt 1, Backoff 50, Attempt 2, Backoff 75, Attempt 3]))"
    by (simp add: retry_def demo_retry_def logged_options_def logged_fn_def demo_down_def retry_loop.simps signal_reason_def
        delay_def defaultIsRetryable_def exponentialCap_def js_floor_def)
  moreover have "\<exists>r s' tr. retry ?C (logged_options demo_retry) (logged_fn demo_down) (2, []) = (r, (s', tr)) \<and>
      backoff_run 150 100 1 tr"
    using retry_bounded [of demo_retry ?C demo_down 2] by (fastforce simp: demo_retry_def)
  ultimately show ?thesis by auto
qed

end
