(* ===== verification/Sse.thy ===== *)
theory Sse
  imports OpenAI_Types Errors "HOL-Library.Word"
begin

text \<open>
  The transport of \<open>src/utils/stream.ts\<close>: the incremental parser of server-sent events over a
  byte stream, the builders of OpenAI chunks, and the serialisation of frames.  The streaming
  \<open>TextDecoder\<close> of the platform (UTF-8, ill-formed input replaced, a leading byte order mark
  dropped) is modelled byte by byte; a code point that the model's 8-bit strings do not have
  becomes the substitute character 26.
\<close>

section \<open>The text decoder\<close>

record utf8_decoder =
  u_needed :: nat
  u_seen :: nat
  u_point :: nat
  u_lower :: nat
  u_upper :: nat
  u_started :: bool

definition new_decoder :: utf8_decoder where
  "new_decoder = \<lparr>u_needed = 0, u_seen = 0, u_point = 0, u_lower = 128, u_upper = 191, u_started = False\<rparr>"

definition point_text :: "nat \<Rightarrow> string" where
  "point_text n = (if n < 256 then [char_of n] else if n < 65536 then [CHR 0x1A] else [CHR 0x1A, CHR 0x1A])"

definition emit_point :: "nat \<Rightarrow> utf8_decoder \<Rightarrow> string \<times> utf8_decoder" where
  "emit_point n d = (if \<not> u_started d \<and> n = 0xFEFF then [] else point_text n, d\<lparr>u_started := True\<rparr>)"

definition reset_sequence :: "utf8_decoder \<Rightarrow> utf8_decoder" where
  "reset_sequence d = d\<lparr>u_needed := 0, u_seen := 0, u_point := 0, u_lower := 128, u_upper := 191\<rparr>"

definition first_byte :: "utf8_decoder \<Rightarrow> nat \<Rightarrow> string \<times> utf8_decoder" where
  "first_byte d b =
     (if b < 128 then emit_point b d
      else if 0xC2 \<le> b \<and> b \<le> 0xDF then ([], d\<lparr>u_needed := 1, u_point := b mod 32\<rparr>)
      else if 0xE0 \<le> b \<and> b \<le> 0xEF then
        ([], d\<lparr>u_needed := 2, u_point := b mod 16, u_lower := (if b = 0xE0 then 0xA0 else 128),
              u_upper := (if b = 0xED then 0x9F else 191)\<rparr>)
      else if 0xF0 \<le> b \<and> b \<le> 0xF4 then
        ([], d\<lparr>u_needed := 3, u_point := b mod 8, u_lower := (if b = 0xF0 then 0x90 else 128),
              u_upper := (if b = 0xF4 then 0x8F else 191)\<rparr>)
      else emit_point 0xFFFD d)"

definition utf8_step :: "utf8_decoder \<Rightarrow> 8 word \<Rightarrow> string \<times> utf8_decoder" where
  "utf8_step d w =
     (let b = unat w in
      if u_needed d = 0 then first_byte d b
      else if \<not> (u_lower d \<le> b \<and> b \<le> u_upper d) then
        (let (t, d1) = emit_point 0xFFFD (reset_sequence d); (t', d2) = first_byte d1 b in (t @ t', d2))
      else (let d1 = d\<lparr>u_lower := 128, u_upper := 191, u_point := u_point d * 64 + b mod 64, u_seen := u_seen d + 1\<rparr> in
            if u_seen d1 \<noteq> u_needed d1 then ([], d1)
            else emit_point (u_point d1) (reset_sequence d1)))"

text \<open>\<open>decode(bytes, {stream: true})\<close> and the final \<open>decode()\<close>.\<close>

fun decode_bytes :: "utf8_decoder \<Rightarrow> 8 word list \<Rightarrow> string \<times> utf8_decoder" where
  "decode_bytes d [] = ([], d)"
| "decode_bytes d (b # bs) =
     (let (t, d1) = utf8_step d b; (t', d2) = decode_bytes d1 bs in (t @ t', d2))"

definition decode_flush :: "utf8_decoder \<Rightarrow> string" where
  "decode_flush d = (if u_needed d \<noteq> 0 then fst (emit_point 0xFFFD d) else [])"

definition utf8_char :: "char \<Rightarrow> 8 word list" where
  "utf8_char c = (let n = (of_char c :: nat) in
     if n < 128 then [of_nat n] else [of_nat (0xC0 + n div 64), of_nat (0x80 + n mod 64)])"

definition utf8_encode :: "string \<Rightarrow> 8 word list" where
  "utf8_encode w = concat (map utf8_char w)"

section \<open>The parser\<close>

definition newline :: char where "newline = CHR 0x0A"
definition carriage_return :: char where "carriage_return = CHR 0x0D"

record SSEEvent =
  sse_event :: "string option"
  sse_data :: string

record sse_pending =
  dataLines :: "string list"
  eventName :: "string option"

definition nothing_pending :: sse_pending where
  "nothing_pending = \<lparr>dataLines = [], eventName = None\<rparr>"

definition sse_flush :: "sse_pending \<Rightarrow> SSEEvent option \<times> sse_pending" where
  "sse_flush p =
     (if dataLines p = [] \<and> eventName p = None then (None, p)
      else (Some \<lparr>sse_event = eventName p, sse_data = join [newline] (dataLines p)\<rparr>, nothing_pending))"

definition stripTrailingCR :: "string \<Rightarrow> string" where
  "stripTrailingCR line = (if endsWith line [carriage_return] then butlast line else line)"

definition parseField :: "string \<Rightarrow> string \<times> string" where
  "parseField line =
     (case indexOf line (CHR '':'') of
        None \<Rightarrow> (line, [])
      | Some colon \<Rightarrow>
          (let val = drop (colon + 1) line
           in (take colon line, if startsWith val '' '' then drop 1 val else val)))"

definition processLine :: "sse_pending \<Rightarrow> string \<Rightarrow> SSEEvent option \<times> sse_pending" where
  "processLine p rawLine =
     (let line = stripTrailingCR rawLine in
      if line = [] then sse_flush p
      else if \<not> startsWith line '':'' then
        (case parseField line of (fld, val) \<Rightarrow>
           if fld = ''data'' then (None, p\<lparr>dataLines := dataLines p @ [val]\<rparr>)
           else if fld = ''event'' then (None, p\<lparr>eventName := Some val\<rparr>)
           else (None, p))
      else (None, p))"

definition event_list :: "SSEEvent option \<Rightarrow> SSEEvent list" where
  "event_list e = (case e of None \<Rightarrow> [] | Some x \<Rightarrow> [x])"

text \<open>The inner loop: every complete line of the buffer.\<close>

function drain :: "sse_pending \<Rightarrow> string \<Rightarrow> SSEEvent list \<times> string \<times> sse_pending" where
  "drain p buffer =
     (case indexOf buffer newline of
        None \<Rightarrow> ([], buffer, p)
      | Some newlineIndex \<Rightarrow>
          (let (e, p1) = processLine p (take newlineIndex buffer);
               (es, buffer', p2) = drain p1 (drop (newlineIndex + 1) buffer)
           in (event_list e @ es, buffer', p2)))"
  by pat_completeness auto
termination by (relation "measure (\<lambda>(p, b). length b)") (auto dest: indexOf_Some)

declare drain.simps [simp del]

text \<open>The outer loop over the reads.\<close>

fun read_loop ::
  "sse_pending \<Rightarrow> string \<Rightarrow> utf8_decoder \<Rightarrow> 8 word list list \<Rightarrow> SSEEvent list \<times> sse_pending \<times> string \<times> utf8_decoder" where
  "read_loop p buffer d [] = ([], p, buffer, d)"
| "read_loop p buffer d (r # rs) =
     (let (t, d1) = decode_bytes d r;
          (es, buffer1, p1) = drain p (buffer @ t);
          (es', rest) = read_loop p1 buffer1 d1 rs
      in (es @ es', rest))"

text \<open>
  The events that a body yields, in order, and the error that ends it, if any: the reads of
  the body are a list, followed by its end or by a rejected read.
\<close>

definition parseSSEStream :: "8 word list list \<Rightarrow> thrown option \<Rightarrow> SSEEvent list \<times> thrown option" where
  "parseSSEStream reads failure =
     (case read_loop nothing_pending [] new_decoder reads of (es, p, buffer, d) \<Rightarrow>
        (case failure of
           Some e \<Rightarrow> (es, Some e)
         | None \<Rightarrow>
             (let buffer' = buffer @ decode_flush d;
                  (e1, p1) = (if buffer' \<noteq> [] then processLine p buffer' else (None, p));
                  (e2, p2) = sse_flush p1
              in (es @ event_list e1 @ event_list e2, None))))"

definition iterateSSEData :: "8 word list list \<Rightarrow> thrown option \<Rightarrow> string list \<times> thrown option" where
  "iterateSSEData reads failure = (case parseSSEStream reads failure of (es, f) \<Rightarrow> (map sse_data es, f))"

section \<open>Chunks\<close>

definition createCompletionId :: "string \<Rightarrow> string" where
  "createCompletionId uuid = ''chatcmpl-'' @ filter (\<lambda>c. c \<noteq> CHR ''-'') uuid"

definition nowUnixSeconds :: "int \<Rightarrow> int" where
  "nowUnixSeconds now = js_floor (of_int now / 1000)"

definition no_delta :: ChatCompletionChunkChoice where
  "no_delta = \<lparr>cc_index = 0, cc_role = False, cc_content = None, cc_tool_calls = None, cc_finish_reason = None\<rparr>"

definition make_chunk :: "string \<Rightarrow> int \<Rightarrow> string \<Rightarrow> ChatCompletionChunkChoice list \<Rightarrow> CompletionUsage option \<Rightarrow> ChatCompletionChunk" where
  "make_chunk i created model cs u =
     \<lparr>ck_id = i, ck_created = created, ck_model = model, ck_choices = Some cs, ck_usage = u, ck_system_fingerprint = None\<rparr>"

definition makeRoleChunk :: "string \<Rightarrow> int \<Rightarrow> string \<Rightarrow> ChatCompletionChunk" where
  "makeRoleChunk i created model = make_chunk i created model [no_delta\<lparr>cc_role := True\<rparr>] None"

definition makeContentChunk :: "string \<Rightarrow> int \<Rightarrow> string \<Rightarrow> string \<Rightarrow> ChatCompletionChunk" where
  "makeContentChunk i created model content = make_chunk i created model [no_delta\<lparr>cc_content := Some content\<rparr>] None"

definition makeToolCallChunk :: "string \<Rightarrow> int \<Rightarrow> string \<Rightarrow> ToolCallDelta \<Rightarrow> ChatCompletionChunk" where
  "makeToolCallChunk i created model c = make_chunk i created model [no_delta\<lparr>cc_tool_calls := Some [c]\<rparr>] None"

definition makeFinishChunk :: "string \<Rightarrow> int \<Rightarrow> string \<Rightarrow> FinishReason \<Rightarrow> ChatCompletionChunk" where
  "makeFinishChunk i created model r = make_chunk i created model [no_delta\<lparr>cc_finish_reason := Some r\<rparr>] None"

definition makeUsageChunk :: "string \<Rightarrow> int \<Rightarrow> string \<Rightarrow> CompletionUsage \<Rightarrow> ChatCompletionChunk" where
  "makeUsageChunk i created model u = make_chunk i created model [] (Some u)"

lemmas make_chunk_defs = makeRoleChunk_def makeContentChunk_def makeToolCallChunk_def makeFinishChunk_def
  makeUsageChunk_def make_chunk_def no_delta_def

section \<open>Frames\<close>

definition DATA_PREFIX :: string where "DATA_PREFIX = ''data: ''"
definition EVENT_DELIMITER :: string where "EVENT_DELIMITER = [newline, newline]"
definition SSE_DONE :: string where "SSE_DONE = ''[DONE]''"

definition serializeSSE :: "json \<Rightarrow> string" where
  "serializeSSE payload = DATA_PREFIX @ stringify payload @ EVENT_DELIMITER"

definition SSE_DONE_FRAME :: string where
  "SSE_DONE_FRAME = DATA_PREFIX @ SSE_DONE @ EVENT_DELIMITER"

section \<open>The parser depends on the text only\<close>

text \<open>The reference: split the decoded text at its newlines and process line by line.\<close>

fun run_lines :: "sse_pending \<Rightarrow> string list \<Rightarrow> SSEEvent list \<times> sse_pending" where
  "run_lines p [] = ([], p)"
| "run_lines p (l # ls) =
     (let (e, p1) = processLine p l; (es, p2) = run_lines p1 ls in (event_list e @ es, p2))"

definition sse_text :: "string \<Rightarrow> SSEEvent list" where
  "sse_text w =
     (let ls = split_at newline w;
          (es, p) = run_lines nothing_pending (if last ls = [] then butlast ls else ls)
      in es @ event_list (fst (sse_flush p)))"

definition utf8_text :: "8 word list \<Rightarrow> string" where
  "utf8_text bs = (case decode_bytes new_decoder bs of (t, d) \<Rightarrow> t @ decode_flush d)"

lemma decode_bytes_append:
  "decode_bytes d (bs @ cs) =
     (case decode_bytes d bs of (t, d1) \<Rightarrow> case decode_bytes d1 cs of (t', d2) \<Rightarrow> (t @ t', d2))"
  by (induction bs arbitrary: d) (auto simp: Let_def split: prod.split)

lemma run_lines_append:
  "run_lines p (ls @ ks) =
     (case run_lines p ls of (es, p1) \<Rightarrow> case run_lines p1 ks of (es', p2) \<Rightarrow> (es @ es', p2))"
  by (induction ls arbitrary: p) (auto simp: Let_def split: prod.split)

lemma split_at_append:
  "split_at c (u @ v) = butlast (split_at c u) @ split_at c (last (split_at c u) @ v)"
proof (induction u)
  case (Cons x u)
  obtain w ws where u: "split_at c u = w # ws" by (cases "split_at c u") simp_all
  with Cons show ?case by (cases ws) (auto split: list.split)
qed simp

lemma last_split_at: "c \<notin> set (last (split_at c w))"
proof (induction w)
  case (Cons x w)
  then show ?case by (cases "split_at c w") auto
qed simp

lemma drain_spec:
  "drain p buffer =
     (let ls = split_at newline buffer; (es, p') = run_lines p (butlast ls) in (es, last ls, p'))"
proof (induction p buffer rule: drain.induct)
  case (1 p buffer)
  show ?case
  proof (cases "indexOf buffer newline")
    case None
    then have "split_at newline buffer = [buffer]" by (simp add: split_at_single indexOf_None)
    with None show ?thesis by (subst drain.simps) simp
  next
    case (Some i)
    obtain e p1 where pl: "processLine p (take i buffer) = (e, p1)" by fastforce
    from indexOf_Some [OF Some] have "split_at newline buffer = take i buffer # split_at newline (drop (i + 1) buffer)"
      by (metis Suc_eq_plus1 split_at_word)
    with Some 1 [OF Some pl [symmetric] refl] pl show ?thesis
      by (subst drain.simps) (simp add: Let_def split: prod.split)
  qed
qed

lemma read_loop_spec:
  "newline \<notin> set buffer \<Longrightarrow> read_loop p buffer d rs =
     (case decode_bytes d (concat rs) of (t, d') \<Rightarrow>
        case run_lines p (butlast (split_at newline (buffer @ t))) of (es, p') \<Rightarrow>
          (es, p', last (split_at newline (buffer @ t)), d'))"
proof (induction rs arbitrary: p buffer d)
  case Nil
  then show ?case by (simp add: split_at_single)
next
  case (Cons r rs)
  obtain t d1 where r: "decode_bytes d r = (t, d1)" by fastforce
  obtain t' d2 where rs: "decode_bytes d1 (concat rs) = (t', d2)" by fastforce
  let ?ls = "split_at newline (buffer @ t)"
  have "split_at newline (buffer @ t @ t') = butlast ?ls @ split_at newline (last ?ls @ t')"
    using split_at_append [of newline "buffer @ t" t'] by simp
  with Cons.IH [OF last_split_at] show ?case
    by (simp add: r rs drain_spec decode_bytes_append run_lines_append butlast_append Let_def split: prod.split)
qed

lemma parse_reads:
  "parseSSEStream reads None = (sse_text (utf8_text (concat reads)), None)"
proof -
  obtain t d where dec: "decode_bytes new_decoder (concat reads) = (t, d)" by fastforce
  let ?ls = "split_at newline t" and ?f = "decode_flush d"
  obtain es p where run: "run_lines nothing_pending (butlast ?ls) = (es, p)" by fastforce
  have loop: "read_loop nothing_pending [] new_decoder reads = (es, p, last ?ls, d)"
    by (simp add: read_loop_spec dec run)
  have "newline \<notin> set ?f" by (simp add: decode_flush_def emit_point_def point_text_def newline_def)
  then have "newline \<notin> set (last ?ls @ ?f)" using last_split_at [of newline t] by simp
  then have "split_at newline (t @ ?f) = butlast ?ls @ [last ?ls @ ?f]"
    by (simp add: split_at_append [of newline t] split_at_single)
  then show ?thesis
    by (simp add: parseSSEStream_def loop sse_text_def utf8_text_def dec run run_lines_append event_list_def Let_def split: prod.split)
qed

text \<open>
  C20. How the network cuts the body does not matter.  However a byte stream is split into reads,
  even within a line or within a multi-byte character, and however it ends, the parser yields
  the events of the same bytes in one read; and a stream that ends normally yields exactly the
  events of its decoded text, line by line, an unterminated last line included.
\<close>

theorem sse_chunking:
  "parseSSEStream reads failure = parseSSEStream [concat reads] failure \<and>
   parseSSEStream reads None = (sse_text (utf8_text (concat reads)), None)"
proof -
  have "newline \<notin> set ([] :: string)" by simp
  from read_loop_spec [OF this] have "read_loop nothing_pending [] new_decoder reads = read_loop nothing_pending [] new_decoder [concat reads]"
    by (simp only: concat.simps append_Nil2)
  then show ?thesis using parse_reads [of reads] by (simp only: parseSSEStream_def)
qed

section \<open>Frames survive the transport\<close>

lemma unat_byte: "n < 256 \<Longrightarrow> unat (of_nat n :: 8 word) = n"
  by (simp add: unsigned_of_nat take_bit_eq_mod)

lemma emit_small: "n < 256 \<Longrightarrow> emit_point n d = ([char_of n], d\<lparr>u_started := True\<rparr>)"
  unfolding emit_point_def point_text_def by (cases "n = 0xFEFF") simp_all

lemma lead_byte:
  assumes "u_needed d = 0" and "q = 2 \<or> q = 3"
  shows "utf8_step d (of_nat (192 + q)) = ([], d\<lparr>u_needed := 1, u_point := q\<rparr>)"
proof -
  have "unat (of_nat (192 + q) :: 8 word) = 192 + q" using assms(2) by (intro unat_byte) auto
  then show ?thesis using assms by (auto simp: utf8_step_def first_byte_def simp del: of_nat_add)
qed

definition idle :: "bool \<Rightarrow> utf8_decoder" where
  "idle started = new_decoder\<lparr>u_started := started\<rparr>"

lemma idle_simps:
  "u_needed (idle b) = 0" "idle False = new_decoder"
  by (simp_all add: idle_def new_decoder_def)

lemma trail_byte:
  assumes r: "r < 64" and q: "q * 64 + r < 256"
  shows "utf8_step ((idle b)\<lparr>u_needed := 1, u_point := q\<rparr>) (of_nat (128 + r)) = ([char_of (q * 64 + r)], idle True)"
proof -
  have b: "unat (of_nat (128 + r) :: 8 word) = 128 + r" using r by (intro unat_byte) simp
  have m: "(128 + r) mod 64 = r" using r by (subst mod_add_left_eq [symmetric]) simp
  have le: "128 + r \<le> 191" "128 \<le> 128 + r" using r by simp_all
  have "utf8_step ((idle b)\<lparr>u_needed := 1, u_point := q\<rparr>) (of_nat (128 + r)) =
      emit_point (q * 64 + r) (reset_sequence ((idle b)\<lparr>u_needed := 1, u_point := q * 64 + r, u_seen := 1\<rparr>))"
    unfolding utf8_step_def b m Let_def idle_def new_decoder_def
    by (simp only: utf8_decoder.simps le not_True_eq_False if_False simp_thms) simp
  then show ?thesis unfolding emit_small [OF q] by (simp add: reset_sequence_def idle_def new_decoder_def)
qed

lemma decode_char: "decode_bytes (idle b) (utf8_char c) = ([c], idle True)"
proof -
  define n where "n = (of_char c :: nat)"
  have n: "n < 256" by (simp add: n_def)
  have c: "char_of n = c" by (simp add: n_def)
  show ?thesis
  proof (cases "n < 128")
    case True
    then have "utf8_char c = [of_nat n]" by (simp add: utf8_char_def n_def [symmetric])
    moreover have "utf8_step (idle b) (of_nat n) = ([c], idle True)"
      unfolding utf8_step_def unat_byte [OF n] first_byte_def Let_def
      using True by (simp add: emit_small [OF n] c idle_simps, simp add: idle_def)
    ultimately show ?thesis by simp
  next
    case False
    then have hi: "n div 64 = 2 \<or> n div 64 = 3" using n by linarith
    have "n div 64 * 64 + n mod 64 = n" by simp
    then have "utf8_step ((idle b)\<lparr>u_needed := 1, u_point := n div 64\<rparr>) (of_nat (128 + n mod 64)) = ([c], idle True)"
      using trail_byte [of "n mod 64" "n div 64" b] n c by simp
    moreover have "utf8_char c = [of_nat (192 + n div 64), of_nat (128 + n mod 64)]"
      using False by (simp add: utf8_char_def n_def [symmetric])
    ultimately show ?thesis using lead_byte [OF idle_simps(1) hi, of b] by (simp del: of_nat_add)
  qed
qed

lemma utf8_round_trip: "utf8_text (utf8_encode w) = w"
proof -
  have "decode_bytes (idle b) (utf8_encode w) = (w, idle (b \<or> w \<noteq> []))" for b
  proof (induction w arbitrary: b)
    case Nil
    then show ?case by (simp add: utf8_encode_def)
  next
    case (Cons c w)
    from Cons.IH [of True] show ?case by (simp add: utf8_encode_def decode_bytes_append decode_char)
  qed
  from this [of False] show ?thesis by (simp add: utf8_text_def idle_simps decode_flush_def)
qed

text \<open>JSON text holds no control characters.\<close>

definition printable :: "string \<Rightarrow> bool" where
  "printable w \<longleftrightarrow> (\<forall>c \<in> set w. (of_char c :: nat) \<ge> 32)"

lemma printable_simps [simp]:
  "printable []" "printable (c # w) \<longleftrightarrow> (of_char c :: nat) \<ge> 32 \<and> printable w"
  "printable (v @ w) \<longleftrightarrow> printable v \<and> printable w" "printable (replicate n (CHR ''0''))"
  by (auto simp: printable_def)

lemma printable_join: "printable sep \<Longrightarrow> \<forall>w \<in> set ws. printable w \<Longrightarrow> printable (join sep ws)"
  by (induction sep ws rule: join.induct) simp_all

lemma printable_quote: "printable (quote w)"
proof -
  have "printable (escape_char c)" for c
    unfolding escape_char_def by (simp add: Let_def quote_char_def backslash_def hex_digit_def)
  then show ?thesis by (induction w) (simp_all add: quote_def quote_char_def)
qed

lemma printable_digit: "d < 10 \<Longrightarrow> (of_char (digit_char d) :: nat) \<ge> 32"
  by (simp add: digit_char_def)

lemma printable_show_nat: "printable (show_nat n)"
  by (induction n rule: show_nat.induct) (subst show_nat.simps, simp add: printable_digit)

lemma printable_stringify: "printable (stringify j)"
proof (induction j)
  case (JNum m k)
  then show ?case by (simp add: show_decimal_def pad_zeros_def printable_show_nat Let_def)
next
  case (JArr xs)
  then show ?case by (auto intro!: printable_join)
next
  case (JObj ps)
  then show ?case by (fastforce intro!: printable_join simp: printable_quote)
qed (simp_all add: printable_quote)

lemma stringify_nonempty: "stringify j \<noteq> []"
  by (cases j) (auto simp: quote_def show_decimal_def Let_def)

lemma data_line:
  assumes "printable w" and "w \<noteq> []"
  shows "processLine p (DATA_PREFIX @ w) = (None, p\<lparr>dataLines := dataLines p @ [w]\<rparr>)"
proof -
  have "last w \<in> set w" using assms(2) by simp
  then have "last w \<noteq> carriage_return" using assms(1) by (auto simp: printable_def carriage_return_def)
  then have "\<not> endsWith (DATA_PREFIX @ w) [carriage_return]"
    using assms(2) by (cases w rule: rev_cases) (auto simp: endsWith_def startsWith_def)
  then show ?thesis by (simp add: processLine_def stripTrailingCR_def parseField_def DATA_PREFIX_def startsWith_def)
qed

lemma empty_line: "processLine p [] = sse_flush p"
  by (simp add: processLine_def stripTrailingCR_def endsWith_def)

definition data_event :: "string \<Rightarrow> SSEEvent" where
  "data_event w = \<lparr>sse_event = None, sse_data = w\<rparr>"

lemma frames_text:
  assumes "\<forall>w \<in> set ws. printable w \<and> w \<noteq> []"
  shows "sse_text (concat (map (\<lambda>w. DATA_PREFIX @ w @ EVENT_DELIMITER) ws)) = map data_event ws"
proof -
  let ?lines = "\<lambda>ws. concat (map (\<lambda>w. [DATA_PREFIX @ w, []]) ws)"
  have "split_at newline (concat (map (\<lambda>w. DATA_PREFIX @ w @ EVENT_DELIMITER) ws)) = ?lines ws @ [[]]"
    using assms
  proof (induction ws)
    case (Cons w ws)
    then have "newline \<notin> set (DATA_PREFIX @ w)"
      by (auto simp: printable_def newline_def DATA_PREFIX_def)
    from split_at_word [OF this] Cons show ?case by (simp add: EVENT_DELIMITER_def)
  qed simp
  moreover have "run_lines nothing_pending (?lines ws) = (map data_event ws, nothing_pending)"
    using assms
    by (induction ws) (simp_all add: data_line empty_line sse_flush_def nothing_pending_def event_list_def data_event_def)
  ultimately show ?thesis by (simp add: sse_text_def sse_flush_def nothing_pending_def event_list_def)
qed

text \<open>
  What the gateway streams is read back exactly.  The frames of a list of payloads, followed
  by the terminal frame, written as UTF-8 and cut into reads in any way, are parsed into one
  event per payload, in order, and one for the sentinel; each payload's text parses back to the
  payload.
\<close>

theorem sse_round_trip:
  assumes "list_all wf_json payloads"
    and "concat reads = utf8_encode (concat (map serializeSSE payloads) @ SSE_DONE_FRAME)"
  shows "iterateSSEData reads None = (map stringify payloads @ [SSE_DONE], None) \<and>
    map json_parse (butlast (fst (iterateSSEData reads None))) = map Some payloads"
proof -
  let ?ws = "map stringify payloads @ [SSE_DONE]"
  have "\<forall>w \<in> set ?ws. printable w \<and> w \<noteq> []" by (auto simp: printable_stringify stringify_nonempty SSE_DONE_def)
  from frames_text [OF this] have "sse_text (concat (map serializeSSE payloads) @ SSE_DONE_FRAME) = map data_event ?ws"
    by (simp add: serializeSSE_def [abs_def] SSE_DONE_FRAME_def comp_def)
  then have "iterateSSEData reads None = (?ws, None)"
    unfolding iterateSSEData_def parse_reads assms(2) utf8_round_trip by (simp add: data_event_def comp_def)
  moreover have "map json_parse (map stringify payloads) = map Some payloads"
    using assms(1) by (simp add: list_all_iff json_round_trip)
  ultimately show ?thesis by simp
qed

theorem sse_round_trip_witness:
  "iterateSSEData (map (\<lambda>b. [b]) (utf8_encode (serializeSSE (JObj [(''a'', JStr ''x'')]) @ SSE_DONE_FRAME))) None =
     ([stringify (JObj [(''a'', JStr ''x'')]), SSE_DONE], None)"
proof -
  let ?p = "[JObj [(''a'', JStr ''x'')]]"
  have "list_all wf_json ?p" by (simp add: own_ordered_names array_index_name char_digit_def)
  from sse_round_trip [OF this, of "map (\<lambda>b. [b]) (utf8_encode (concat (map serializeSSE ?p) @ SSE_DONE_FRAME))"]
  show ?thesis by simp
qed

end
