(* ===== verification/Upstream.thy ===== *)
theory Upstream
  imports Provider_Base Sse
begin

text \<open>
  What the adapters share: schema combinators in the style of the zod schemas of the
  repository, the JSON form of requests, and the exchange with an upstream (a POST with a JSON
  body, its failures, its JSON or streamed answer).  The network is a parameter: a function
  from the HTTP request to the outcome of \<open>fetch\<close> and to the reads of a streamed body.
\<close>

section \<open>Schemas\<close>

text \<open>
  A schema is a partial function on values, a field schema one on objects: a required field, an
  \<open>optional\<close> one (absent, but not \<open>null\<close>) and a \<open>nullable().optional()\<close> one.
\<close>

definition z_required :: "(json \<Rightarrow> 'a option) \<Rightarrow> (string \<times> json) list \<Rightarrow> string \<Rightarrow> 'a option" where
  "z_required f ps k = Option.bind (map_of ps k) f"

definition z_optional :: "(json \<Rightarrow> 'a option) \<Rightarrow> (string \<times> json) list \<Rightarrow> string \<Rightarrow> 'a option option" where
  "z_optional f ps k = (case map_of ps k of None \<Rightarrow> Some None | Some j \<Rightarrow> map_option Some (f j))"

definition z_nullish :: "(json \<Rightarrow> 'a option) \<Rightarrow> (string \<times> json) list \<Rightarrow> string \<Rightarrow> 'a option option" where
  "z_nullish f ps k = (case map_of ps k of None \<Rightarrow> Some None | Some j \<Rightarrow> nullable f j)"

definition z_literal :: "string \<Rightarrow> json \<Rightarrow> unit option" where
  "z_literal w j = (if j = JStr w then Some () else None)"

definition z_array :: "(json \<Rightarrow> 'a option) \<Rightarrow> nat \<Rightarrow> json \<Rightarrow> 'a list option" where
  "z_array f n j = (case as_list f j of Some xs \<Rightarrow> if length xs < n then None else Some xs | None \<Rightarrow> None)"

definition z_nonnegative :: "json \<Rightarrow> int option" where
  "z_nonnegative j = (case as_int j of Some n \<Rightarrow> if 0 \<le> n then Some n else None | None \<Rightarrow> None)"

definition z_union :: "(json \<Rightarrow> 'a option) \<Rightarrow> (json \<Rightarrow> 'a option) \<Rightarrow> json \<Rightarrow> 'a option" where
  "z_union f g j = (case f j of Some a \<Rightarrow> Some a | None \<Rightarrow> g j)"

definition z_any :: "json \<Rightarrow> json option" where
  "z_any j = Some j"

lemmas z_defs = z_required_def z_optional_def z_nullish_def z_literal_def z_array_def z_nonnegative_def z_union_def z_any_def

section \<open>Requests as objects\<close>

definition obj_of :: "(string \<times> json) list \<Rightarrow> (string \<times> json) list" where
  "obj_of ps = foldl (\<lambda>acc (k, v). obj_set k v acc) [] ps"

definition obj_delete :: "string \<Rightarrow> (string \<times> 'a) list \<Rightarrow> (string \<times> 'a) list" where
  "obj_delete k ps = filter (\<lambda>p. fst p \<noteq> k) ps"

definition tool_json :: "ToolDefinition \<Rightarrow> json" where
  "tool_json t = JObj [(''type'', JStr ''function''),
     (''function'', JObj ([(''name'', JStr (td_name t))] @ or_absent ''description'' JStr (td_description t)
        @ or_absent ''parameters'' JObj (td_parameters t)))]"

fun tool_choice_json :: "ToolChoice \<Rightarrow> json" where
  "tool_choice_json Choice_none = JStr ''none''"
| "tool_choice_json Choice_auto = JStr ''auto''"
| "tool_choice_json Choice_required = JStr ''required''"
| "tool_choice_json (Choice_function n) =
     JObj [(''type'', JStr ''function''), (''function'', JObj [(''name'', JStr n)])]"

text \<open>The properties of a validated request, in the order of its schema, unknown ones last.\<close>

definition request_fields :: "ChatCompletionRequest \<Rightarrow> (string \<times> json) list" where
  "request_fields r =
     [(''model'', JStr (rq_model r)), (''messages'', JArr (map message_json (rq_messages r)))]
     @ or_absent ''temperature'' dec_json (rq_temperature r)
     @ or_absent ''top_p'' dec_json (rq_top_p r)
     @ or_absent ''n'' int_json (rq_n r)
     @ or_absent ''stream'' JBool (rq_stream r)
     @ or_absent ''stream_options'' (\<lambda>u. JObj (or_absent ''include_usage'' JBool u)) (rq_include_usage r)
     @ or_absent ''stop'' stop_json (rq_stop r)
     @ or_absent ''max_tokens'' int_json (rq_max_tokens r)
     @ or_absent ''max_completion_tokens'' int_json (rq_max_completion_tokens r)
     @ or_absent ''presence_penalty'' dec_json (rq_presence_penalty r)
     @ or_absent ''frequency_penalty'' dec_json (rq_frequency_penalty r)
     @ or_absent ''logit_bias'' (\<lambda>b. JObj (map (\<lambda>(k, d). (k, dec_json d)) b)) (rq_logit_bias r)
     @ or_absent ''user'' JStr (rq_user r)
     @ or_absent ''seed'' int_json (rq_seed r)
     @ or_absent ''tools'' (\<lambda>ts. JArr (map tool_json ts)) (rq_tools r)
     @ or_absent ''tool_choice'' tool_choice_json (rq_tool_choice r)
     @ or_absent ''response_format'' JObj (rq_response_format r)"

definition request_object :: "ChatCompletionRequest \<Rightarrow> (string \<times> json) list" where
  "request_object r = obj_of (request_fields r @ rq_extra r)"

fun input_json :: "EmbeddingInput \<Rightarrow> json" where
  "input_json (InputText w) = JStr w"
| "input_json (InputTexts ws) = JArr (map JStr ws)"
| "input_json (InputTokens ts) = JArr (map int_json ts)"
| "input_json (InputTokenLists tss) = JArr (map (\<lambda>ts. JArr (map int_json ts)) tss)"

definition embedding_object :: "EmbeddingRequest \<Rightarrow> (string \<times> json) list" where
  "embedding_object r = obj_of
     ([(''model'', JStr (eq_model r)), (''input'', input_json (eq_input r))]
     @ or_absent ''encoding_format'' JStr (eq_encoding_format r)
     @ or_absent ''dimensions'' int_json (eq_dimensions r)
     @ or_absent ''user'' JStr (eq_user r) @ eq_extra r)"

section \<open>The exchange with an upstream\<close>

record http_request =
  hq_url :: string
  hq_headers :: "(string \<times> string) list"
  hq_body :: string

text \<open>
  \<open>up_body\<close> is the streamed body: \<open>None\<close> when the response has none, otherwise its reads and
  the rejection that ends them, if one does.  \<open>up_uuid k\<close> is the k-th UUID that the call draws.
\<close>

record upstream =
  up_fetch :: "http_request \<Rightarrow> fetch_attempt"
  up_body :: "http_request \<Rightarrow> (8 word list list \<times> thrown option) option"
  up_uuid :: "nat \<Rightarrow> string"
  up_now :: int

definition error_view :: "string \<Rightarrow> error_body" where
  "error_view w =
     (case json_parse w of
        None \<Rightarrow> NotJson
      | Some (JObj ps) \<Rightarrow>
          JsonObject
            (case field ps ''error'' of
               JStr e \<Rightarrow> EfText e
             | JObj es \<Rightarrow> EfObject (as_str (field es ''message''))
             | JArr es \<Rightarrow> EfObject None
             | _ \<Rightarrow> EfOther)
            (as_str (field ps ''message''))
      | Some (JArr xs) \<Rightarrow> JsonObject EfOther None
      | Some _ \<Rightarrow> JsonOther)"

definition post :: "upstream \<Rightarrow> BaseProvider \<Rightarrow> http_request \<Rightarrow> bool \<Rightarrow> (thrown, http_response) result" where
  "post U p q streaming =
     (case fst (upstreamFetch p (up_fetch U q) streaming) of
        Inl e \<Rightarrow> Inl e
      | Inr response \<Rightarrow> ensureOk error_view p response)"

definition post_json :: "upstream \<Rightarrow> BaseProvider \<Rightarrow> http_request \<Rightarrow> (thrown, json) result" where
  "post_json U p q =
     (case post U p q False of Inl e \<Rightarrow> Inl e | Inr response \<Rightarrow> readJson json_parse p response)"

definition provider_error :: "BaseProvider \<Rightarrow> string \<Rightarrow> int \<Rightarrow> bool option \<Rightarrow> thrown" where
  "provider_error p msg status retry =
     TGateway (ProviderError msg status (no_options\<lparr>opt_providerId := Some (p_id p), opt_retryable := retry\<rparr>))"

definition post_stream ::
  "upstream \<Rightarrow> BaseProvider \<Rightarrow> string \<Rightarrow> http_request \<Rightarrow> (thrown, SSEEvent list \<times> thrown option) result" where
  "post_stream U p vendor q =
     (case post U p q True of
        Inl e \<Rightarrow> Inl e
      | Inr response \<Rightarrow>
          (case up_body U q of
             None \<Rightarrow> Inl (provider_error p (vendor @ '' returned an empty stream body.'') 502 (Some True))
           | Some (reads, failure) \<Rightarrow> Inr (parseSSEStream reads failure)))"

text \<open>
  A stream that an adapter yields: its chunks, then its end or the error it throws.  An error
  before the first chunk is thrown by the first \<open>next()\<close>.
\<close>

type_synonym 'c yielded = "'c list \<times> thrown option"

text \<open>
  Every failure of an exchange is a gateway error, unless the caller aborted or the body of the
  answer could not be read.
\<close>

definition transport_failure :: "upstream \<Rightarrow> http_request \<Rightarrow> thrown \<Rightarrow> bool" where
  "transport_failure U q e \<longleftrightarrow>
     (fa_aborted (up_fetch U q) \<and> fa_outcome (up_fetch U q) = Inl e) \<or>
     (\<exists>response. fa_outcome (up_fetch U q) = Inr response \<and> hr_text response = Inl e) \<or>
     (\<exists>g. e = TGateway g \<and> wf_error g)"

lemma wf_provider_error: "provider_error p m st r = TGateway g \<Longrightarrow> wf_error g"
  by (auto simp: provider_error_def)

lemma post_failure: "post U p q streaming = Inl e \<Longrightarrow> transport_failure U q e"
  unfolding post_def transport_failure_def ensureOk_def
  by (auto simp: upstreamFetch_def mapHttpError_def Let_def split: sum.splits if_splits)

lemma post_success:
  "post U p q streaming = Inr response \<Longrightarrow> fa_outcome (up_fetch U q) = Inr response \<and> response_ok response"
  unfolding post_def ensureOk_def by (auto simp: upstreamFetch_def split: sum.splits if_splits)

lemma post_json_failure: "post_json U p q = Inl e \<Longrightarrow> transport_failure U q e"
proof (cases "post U p q False")
  case (Inl e')
  assume "post_json U p q = Inl e"
  with Inl show ?thesis using post_failure [OF Inl] by (simp add: post_json_def)
next
  case (Inr response)
  assume "post_json U p q = Inl e"
  with Inr post_success [OF Inr] show ?thesis
    by (auto simp: post_json_def readJson_def transport_failure_def split: sum.splits option.splits)
qed

lemma map_of_obj_of: "map_of (obj_of ps) = map_of (rev ps)"
proof (induction ps rule: rev_induct)
  case (snoc p ps)
  then show ?case by (cases p) (simp add: obj_of_def)
qed (simp add: obj_of_def)

lemma map_of_obj_delete: "map_of (obj_delete k ps) k' = (if k' = k then None else map_of ps k')"
  by (induction ps) (auto simp: obj_delete_def)

end
