(* ===== verification/Tokens.thy ===== *)
theory Tokens
  imports OpenAI_Types
begin

text \<open>
  The token counters of \<open>src/utils/tokens.ts\<close>: the choice of the encoding, the process-wide
  cache of encoders, and the structure-aware counts of chats and embedding inputs.  The
  tiktoken library is a parameter: \<open>tk_get_encoding\<close> builds an encoder, \<open>tk_encode\<close> runs it
  with empty lists of special tokens.
\<close>

section \<open>Encoders\<close>

definition TOKENS_PER_MESSAGE :: int where "TOKENS_PER_MESSAGE = 3"
definition TOKENS_PER_NAME :: int where "TOKENS_PER_NAME = 1"
definition TOKENS_REPLY_PRIMER :: int where "TOKENS_REPLY_PRIMER = 3"
definition IMAGE_TOKEN_COST :: int where "IMAGE_TOKEN_COST = 85"
definition CHARS_PER_TOKEN :: int where "CHARS_PER_TOKEN = 4"

lemmas token_constants = TOKENS_PER_MESSAGE_def TOKENS_PER_NAME_def TOKENS_REPLY_PRIMER_def
  IMAGE_TOKEN_COST_def CHARS_PER_TOKEN_def

record 'e tiktoken =
  tk_get_encoding :: "string \<Rightarrow> 'e"
  tk_encode :: "'e \<Rightarrow> string \<Rightarrow> int list"

definition encodePlain :: "'e tiktoken \<Rightarrow> 'e \<Rightarrow> string \<Rightarrow> int" where
  "encodePlain T encoder w = int (length (tk_encode T encoder w))"

text \<open>\<open>encoderCache\<close>, a map of the module, is passed along.\<close>

type_synonym 'e encoder_cache = "(string \<times> 'e) list"

definition getEncoder :: "'e tiktoken \<Rightarrow> string \<Rightarrow> 'e encoder_cache \<Rightarrow> 'e \<times> 'e encoder_cache" where
  "getEncoder T encoding cache =
     (case map_of cache encoding of
        Some cached \<Rightarrow> (cached, cache)
      | None \<Rightarrow> (let encoder = tk_get_encoding T encoding in (encoder, cache @ [(encoding, encoder)])))"

definition encodingForModel :: "string \<Rightarrow> string" where
  "encodingForModel model =
     (let i = toLowerCase model in
      if startsWith i ''gpt-4o'' \<or> startsWith i ''o1'' \<or> startsWith i ''o3'' \<or> startsWith i ''o4'' \<or>
         includes_sub i ''o200k''
      then ''o200k_base'' else ''cl100k_base'')"

definition isOpenAITokenizable :: "string \<Rightarrow> bool" where
  "isOpenAITokenizable model =
     (let i = toLowerCase model in
      startsWith i ''gpt-'' \<or> startsWith i ''o1'' \<or> startsWith i ''o3'' \<or> startsWith i ''o4'' \<or>
      startsWith i ''text-embedding-3'' \<or> startsWith i ''text-embedding-ada'')"

definition countTextTokens :: "'e tiktoken \<Rightarrow> string \<Rightarrow> string \<Rightarrow> 'e encoder_cache \<Rightarrow> int \<times> 'e encoder_cache" where
  "countTextTokens T w model cache =
     (case getEncoder T (encodingForModel model) cache of (encoder, cache') \<Rightarrow> (encodePlain T encoder w, cache'))"

definition approximateTextTokens :: "string \<Rightarrow> int" where
  "approximateTextTokens w = (if length w = 0 then 0 else js_ceil (of_nat (length w) / of_int CHARS_PER_TOKEN))"

section \<open>Chats\<close>

fun countParts :: "ContentPart list \<Rightarrow> (string \<Rightarrow> int) \<Rightarrow> int" where
  "countParts [] count = 0"
| "countParts (TextPart w # parts) count = count w + countParts parts count"
| "countParts (ImagePart url detail # parts) count = IMAGE_TOKEN_COST + countParts parts count"

fun countContent :: "MessageContent option \<Rightarrow> (string \<Rightarrow> int) \<Rightarrow> int" where
  "countContent None count = 0"
| "countContent (Some (ContentText w)) count = count w"
| "countContent (Some (ContentParts parts)) count = countParts parts count"

fun countMessage :: "(string \<Rightarrow> int) \<Rightarrow> ChatMessage \<Rightarrow> int" where
  "countMessage count (SystemMessage c nm) =
     TOKENS_PER_MESSAGE + count ''system'' + countContent (Some c) count +
     (case nm of Some w \<Rightarrow> TOKENS_PER_NAME + count w | None \<Rightarrow> 0)"
| "countMessage count (UserMessage c nm) =
     TOKENS_PER_MESSAGE + count ''user'' + countContent (Some c) count +
     (case nm of Some w \<Rightarrow> TOKENS_PER_NAME + count w | None \<Rightarrow> 0)"
| "countMessage count (AssistantMessage c nm calls) =
     TOKENS_PER_MESSAGE + count ''assistant'' + countContent (case c of Some (Some x) \<Rightarrow> Some x | _ \<Rightarrow> None) count +
     (case nm of Some w \<Rightarrow> TOKENS_PER_NAME + count w | None \<Rightarrow> 0) +
     (case calls of None \<Rightarrow> 0 | Some cs \<Rightarrow> (\<Sum>c\<leftarrow>cs. count (tc_name c) + count (tc_arguments c)))"
| "countMessage count (ToolMessage c i) =
     TOKENS_PER_MESSAGE + count ''tool'' + countContent (Some c) count + count i"

definition countChat :: "ChatMessage list \<Rightarrow> (string \<Rightarrow> int) \<Rightarrow> int" where
  "countChat messages count = foldl (\<lambda>tot m. tot + countMessage count m) 0 messages + TOKENS_REPLY_PRIMER"

definition countChatTokens ::
  "'e tiktoken \<Rightarrow> ChatMessage list \<Rightarrow> string \<Rightarrow> 'e encoder_cache \<Rightarrow> int \<times> 'e encoder_cache" where
  "countChatTokens T messages model cache =
     (if isOpenAITokenizable model then
        (case getEncoder T (encodingForModel model) cache of
           (encoder, cache') \<Rightarrow> (countChat messages (encodePlain T encoder), cache'))
      else (countChat messages approximateTextTokens, cache))"

section \<open>Embedding inputs\<close>

definition countOne :: "'e tiktoken \<Rightarrow> string \<Rightarrow> string \<Rightarrow> 'e encoder_cache \<Rightarrow> int \<times> 'e encoder_cache" where
  "countOne T model w cache =
     (if isOpenAITokenizable model then countTextTokens T w model cache else (approximateTextTokens w, cache))"

fun countTexts :: "'e tiktoken \<Rightarrow> string \<Rightarrow> string list \<Rightarrow> int \<Rightarrow> 'e encoder_cache \<Rightarrow> int \<times> 'e encoder_cache" where
  "countTexts T model [] tot cache = (tot, cache)"
| "countTexts T model (w # ws) tot cache =
     (case countOne T model w cache of (n, cache') \<Rightarrow> countTexts T model ws (tot + n) cache')"

definition countEmbeddingTokens ::
  "'e tiktoken \<Rightarrow> EmbeddingInput \<Rightarrow> string \<Rightarrow> 'e encoder_cache \<Rightarrow> int \<times> 'e encoder_cache" where
  "countEmbeddingTokens T input model cache =
     (case input of
        InputText w \<Rightarrow> countOne T model w cache
      | InputTexts ws \<Rightarrow> countTexts T model ws 0 cache
      | InputTokens ts \<Rightarrow> (foldl (\<lambda>tot t. tot + 1) 0 ts, cache)
      | InputTokenLists tss \<Rightarrow> (foldl (\<lambda>tot ts. tot + int (length ts)) 0 tss, cache))"

section \<open>The cache is transparent\<close>

text \<open>What is counted without any cache, and what the cache may hold.\<close>

definition fresh_count :: "'e tiktoken \<Rightarrow> string \<Rightarrow> string \<Rightarrow> int" where
  "fresh_count T model w =
     (if isOpenAITokenizable model then encodePlain T (tk_get_encoding T (encodingForModel model)) w
      else approximateTextTokens w)"

definition cache_ok :: "'e tiktoken \<Rightarrow> 'e encoder_cache \<Rightarrow> bool" where
  "cache_ok T cache \<longleftrightarrow> distinct (map fst cache) \<and>
     (\<forall>(name, e) \<in> set cache. name \<in> {''o200k_base'', ''cl100k_base''} \<and> e = tk_get_encoding T name)"

lemma getEncoder_spec:
  assumes "cache_ok T cache" and "getEncoder T (encodingForModel model) cache = (e, cache')"
  shows "e = tk_get_encoding T (encodingForModel model)" "cache_ok T cache'"
proof -
  let ?n = "encodingForModel model"
  have n: "?n \<in> {''o200k_base'', ''cl100k_base''}" by (simp add: encodingForModel_def Let_def)
  have "e = tk_get_encoding T ?n \<and> cache_ok T cache'"
  proof (cases "map_of cache ?n")
    case None
    then have "?n \<notin> set (map fst cache)" by (simp add: map_of_eq_None_iff)
    with None assms n show ?thesis by (auto simp: getEncoder_def Let_def cache_ok_def)
  next
    case (Some x)
    with assms map_of_SomeD [OF Some] show ?thesis by (auto simp: getEncoder_def cache_ok_def)
  qed
  then show "e = tk_get_encoding T ?n" "cache_ok T cache'" by simp_all
qed

lemma cache_bounded: assumes "cache_ok T cache" shows "length cache \<le> 2"
proof -
  have "length cache = card (set (map fst cache))" using assms distinct_card [of "map fst cache"] by (simp add: cache_ok_def)
  also have "\<dots> \<le> card {''o200k_base'', ''cl100k_base''}"
    using assms by (intro card_mono) (auto simp: cache_ok_def)
  finally show ?thesis by simp
qed

lemma foldl_sum: "foldl (\<lambda>tot x. tot + f x) (a :: int) xs = a + (\<Sum>x\<leftarrow>xs. f x)"
  by (induction xs arbitrary: a) simp_all

lemma countOne_spec:
  "cache_ok T cache \<Longrightarrow> fst (countOne T model w cache) = fresh_count T model w \<and> cache_ok T (snd (countOne T model w cache))"
  by (auto simp: countOne_def countTextTokens_def fresh_count_def dest: getEncoder_spec split: prod.split)

lemma countTexts_spec:
  "cache_ok T cache \<Longrightarrow> fst (countTexts T model ws a cache) = a + (\<Sum>w\<leftarrow>ws. fresh_count T model w) \<and>
     cache_ok T (snd (countTexts T model ws a cache))"
proof (induction ws arbitrary: a cache)
  case (Cons w ws)
  then show ?case using countOne_spec [OF Cons.prems, of model w] by (auto split: prod.split)
qed simp

definition tokens_of_input :: "'e tiktoken \<Rightarrow> EmbeddingInput \<Rightarrow> string \<Rightarrow> int" where
  "tokens_of_input T input model = (case input of
     InputText w \<Rightarrow> fresh_count T model w
   | InputTexts ws \<Rightarrow> (\<Sum>w\<leftarrow>ws. fresh_count T model w)
   | InputTokens ts \<Rightarrow> int (length ts)
   | InputTokenLists tss \<Rightarrow> int (length (concat tss)))"

lemma countMessage_pos: "(\<And>w. 0 \<le> count w) \<Longrightarrow> TOKENS_PER_MESSAGE \<le> countMessage count m"
proof -
  assume nonneg: "\<And>w. 0 \<le> count w"
  have parts: "0 \<le> countParts ps count" for ps
  proof (induction ps)
    case (Cons p ps)
    then show ?case using nonneg by (cases p) (simp_all add: token_constants)
  qed simp
  have content: "0 \<le> countContent c count" for c by (cases "(c, count)" rule: countContent.cases) (simp_all add: nonneg parts)
  have calls: "0 \<le> (\<Sum>c\<leftarrow>cs. count (tc_name c) + count (tc_arguments c))" for cs
    by (rule sum_list_nonneg) (auto simp: nonneg)
  show ?thesis using nonneg content calls
    by (cases "(count, m)" rule: countMessage.cases)
      (auto simp: token_constants split: option.split intro!: add_nonneg_nonneg)
qed

lemma fresh_count_nonneg: "0 \<le> fresh_count T model w"
proof -
  have "(0 :: rat) \<le> of_nat (length w) / of_int CHARS_PER_TOKEN" by (simp add: token_constants)
  then show ?thesis by (simp add: fresh_count_def encodePlain_def approximateTextTokens_def js_ceil_def)
qed

lemma chat_count_bound:
  "TOKENS_PER_MESSAGE * int (length messages) \<le> (\<Sum>m\<leftarrow>messages. countMessage (fresh_count T model) m)"
proof (induction messages)
  case (Cons m ms)
  with countMessage_pos [of "fresh_count T model" m] fresh_count_nonneg [of T model]
  show ?case by (simp add: algebra_simps)
qed simp

text \<open>
  Token counts do not depend on the state of the encoder cache, and the cache stays within
  its two encodings.  Whatever was counted before, a chat is counted as the sum of its messages
  plus the reply primer and an embedding input as the sum of its items, each text by a fresh
  encoder of its model's encoding or by the heuristic; the cache keeps at most one encoder per
  encoding.  No chat counts less than three tokens per message and three for the reply.
\<close>

theorem token_counts_exact:
  assumes "cache_ok T cache"
  shows "fst (countChatTokens T messages model cache) =
      (\<Sum>m\<leftarrow>messages. countMessage (fresh_count T model) m) + TOKENS_REPLY_PRIMER \<and>
    3 * int (length messages) + 3 \<le> fst (countChatTokens T messages model cache) \<and>
    fst (countEmbeddingTokens T input model cache) = tokens_of_input T input model \<and>
    (\<forall>cache' \<in> {snd (countChatTokens T messages model cache), snd (countEmbeddingTokens T input model cache)}.
      cache_ok T cache' \<and> length cache' \<le> 2)"
proof -
  obtain e c' where g: "getEncoder T (encodingForModel model) cache = (e, c')" by fastforce
  from getEncoder_spec [OF assms this] have e: "e = tk_get_encoding T (encodingForModel model)" and c': "cache_ok T c'" .
  have "fresh_count T model = (if isOpenAITokenizable model then encodePlain T e else approximateTextTokens)"
    by (rule ext) (simp add: fresh_count_def e)
  then have chat: "fst (countChatTokens T messages model cache) =
      (\<Sum>m\<leftarrow>messages. countMessage (fresh_count T model) m) + TOKENS_REPLY_PRIMER"
    "cache_ok T (snd (countChatTokens T messages model cache))"
    using assms c' by (simp_all add: countChatTokens_def countChat_def g foldl_sum)
  have lens: "(\<Sum>ts\<leftarrow>tss. int (length ts)) = int (length (concat tss))" for tss :: "int list list"
    by (induction tss) (simp_all add: foldl_sum)
  have "fst (countEmbeddingTokens T input model cache) = tokens_of_input T input model \<and>
      cache_ok T (snd (countEmbeddingTokens T input model cache))"
    using countOne_spec [OF assms] countTexts_spec [OF assms] assms
    by (cases input) (simp_all add: countEmbeddingTokens_def tokens_of_input_def lens foldl_sum sum_list_triv)
  moreover have "3 * int (length messages) + 3 \<le> fst (countChatTokens T messages model cache)"
    using chat(1) chat_count_bound [of messages T model] by (simp add: token_constants)
  ultimately show ?thesis using chat by (auto dest: cache_bounded)
qed

definition demo_tiktoken :: "string tiktoken" where
  "demo_tiktoken = \<lparr>tk_get_encoding = id, tk_encode = (\<lambda>e w. map (\<lambda>c. 0) w)\<rparr>"

theorem token_counts_exact_witness:
  "fst (countChatTokens demo_tiktoken [UserMessage (ContentText ''hello'') None] ''gpt-4o'' []) = 15"
proof -
  have "cache_ok demo_tiktoken []" by (simp add: cache_ok_def)
  from token_counts_exact [OF this, of "[UserMessage (ContentText ''hello'') None]" "''gpt-4o''"]
  show ?thesis by (simp add: fresh_count_def isOpenAITokenizable_def encodePlain_def demo_tiktoken_def token_constants
      toLowerCase_def lower_char_def startsWith_def)
qed

end
