(* ===== verification/OpenAI_Adapter.thy ===== *)
theory OpenAI_Adapter
  imports Upstream Tokens
begin

text \<open>
  The OpenAI adapter (\<open>src/providers/openai.ts\<close>) and its Mistral variant
  (\<open>src/providers/mistral.ts\<close>): request bodies, the schemas of upstream answers, their
  normalisation, and the stream, whose chunks are passed through as upstream sent them.
  Numbers that every upstream sends as integers (\<open>created\<close>, token counts) are read as integers.
\<close>

section \<open>Upstream schemas\<close>

record upstream_usage =
  uu_prompt :: int
  uu_completion :: int
  uu_total :: int

definition usageSchema :: "json \<Rightarrow> upstream_usage option" where
  "usageSchema j = (case j of
     JObj ps \<Rightarrow>
       (case (z_required z_nonnegative ps ''prompt_tokens'', z_required z_nonnegative ps ''completion_tokens'',
              z_required z_nonnegative ps ''total_tokens'') of
          (Some p, Some c, Some t) \<Rightarrow> Some \<lparr>uu_prompt = p, uu_completion = c, uu_total = t\<rparr>
        | _ \<Rightarrow> None)
   | _ \<Rightarrow> None)"

definition functionSchema :: "json \<Rightarrow> (string \<times> string) option" where
  "functionSchema j = (case j of
     JObj ps \<Rightarrow> (case (z_required as_str ps ''name'', z_required as_str ps ''arguments'') of
                   (Some n, Some a) \<Rightarrow> Some (n, a) | _ \<Rightarrow> None)
   | _ \<Rightarrow> None)"

definition toolCallSchema :: "json \<Rightarrow> ToolCall option" where
  "toolCallSchema j = (case j of
     JObj ps \<Rightarrow>
       (case (z_required as_str ps ''id'', z_required (z_literal ''function'') ps ''type'',
              z_required functionSchema ps ''function'') of
          (Some i, Some _, Some (n, a)) \<Rightarrow> Some \<lparr>tc_id = i, tc_name = n, tc_arguments = a\<rparr>
        | _ \<Rightarrow> None)
   | _ \<Rightarrow> None)"

record upstream_choice =
  uc_index :: "int option"
  uc_content :: "string option"
  uc_tool_calls :: "ToolCall list option"
  uc_finish_reason :: "FinishReason option"

definition messageSchema :: "json \<Rightarrow> (string option \<times> ToolCall list option) option" where
  "messageSchema j = (case j of
     JObj ps \<Rightarrow>
       (case (z_optional (z_literal ''assistant'') ps ''role'', z_nullish as_str ps ''content'',
              z_optional (as_list toolCallSchema) ps ''tool_calls'') of
          (Some _, Some c, Some ts) \<Rightarrow> Some (c, ts)
        | _ \<Rightarrow> None)
   | _ \<Rightarrow> None)"

definition choiceSchema :: "json \<Rightarrow> upstream_choice option" where
  "choiceSchema j = (case j of
     JObj ps \<Rightarrow>
       (case (z_optional as_int ps ''index'', z_required messageSchema ps ''message'',
              z_nullish (\<lambda>x. Option.bind (as_str x) read_finish) ps ''finish_reason'') of
          (Some i, Some (c, ts), Some f) \<Rightarrow>
            Some \<lparr>uc_index = i, uc_content = c, uc_tool_calls = ts, uc_finish_reason = f\<rparr>
        | _ \<Rightarrow> None)
   | _ \<Rightarrow> None)"

record upstream_chat =
  ud_id :: "string option"
  ud_created :: "int option"
  ud_model :: "string option"
  ud_choices :: "upstream_choice list"
  ud_usage :: "upstream_usage option"
  ud_system_fingerprint :: "string option"

definition chatResponseSchema :: "json \<Rightarrow> upstream_chat option" where
  "chatResponseSchema j = (case j of
     JObj ps \<Rightarrow>
       (case (z_optional as_str ps ''id'', z_optional as_str ps ''object'', z_optional as_int ps ''created'',
              z_optional as_str ps ''model'', z_required (z_array choiceSchema 1) ps ''choices'',
              z_optional usageSchema ps ''usage'', z_optional as_str ps ''system_fingerprint'') of
          (Some i, Some _, Some c, Some m, Some cs, Some u, Some f) \<Rightarrow>
            Some \<lparr>ud_id = i, ud_created = c, ud_model = m, ud_choices = cs, ud_usage = u, ud_system_fingerprint = f\<rparr>
        | _ \<Rightarrow> None)
   | _ \<Rightarrow> None)"

definition embeddingItemSchema :: "json \<Rightarrow> json option" where
  "embeddingItemSchema j = (case j of
     JObj ps \<Rightarrow>
       (case (z_optional (z_literal ''embedding'') ps ''object'', z_required as_int ps ''index'',
              z_required (\<lambda>x. if is_ok (case as_list as_num x of Some _ \<Rightarrow> Inr () | None \<Rightarrow> Inl ()) \<or> as_str x \<noteq> None
                              then Some x else None) ps ''embedding'') of
          (Some _, Some i, Some e) \<Rightarrow>
            Some (JObj [(''object'', JStr ''embedding''), (''index'', int_json i), (''embedding'', e)])
        | _ \<Rightarrow> None)
   | _ \<Rightarrow> None)"

definition embeddingUsageSchema :: "json \<Rightarrow> (int \<times> int) option" where
  "embeddingUsageSchema j = (case j of
     JObj ps \<Rightarrow> (case (z_required as_int ps ''prompt_tokens'', z_required as_int ps ''total_tokens'') of
                   (Some p, Some t) \<Rightarrow> Some (p, t) | _ \<Rightarrow> None)
   | _ \<Rightarrow> None)"

record upstream_embedding =
  ue_data :: "json list"
  ue_model :: "string option"
  ue_usage :: "(int \<times> int) option"

definition embeddingResponseSchema :: "json \<Rightarrow> upstream_embedding option" where
  "embeddingResponseSchema j = (case j of
     JObj ps \<Rightarrow>
       (case (z_optional (z_literal ''list'') ps ''object'', z_required (z_array embeddingItemSchema 1) ps ''data'',
              z_optional as_str ps ''model'', z_optional embeddingUsageSchema ps ''usage'') of
          (Some _, Some ds, Some m, Some u) \<Rightarrow> Some \<lparr>ue_data = ds, ue_model = m, ue_usage = u\<rparr>
        | _ \<Rightarrow> None)
   | _ \<Rightarrow> None)"

section \<open>Requests\<close>

definition openai_headers :: "BaseProvider \<Rightarrow> (string \<times> string) list" where
  "openai_headers p = [(''content-type'', ''application/json''), (''authorization'', ''Bearer '' @ p_apiKey p)]"

definition openai_buildChatBody :: "ChatCompletionRequest \<Rightarrow> bool \<Rightarrow> (string \<times> json) list" where
  "openai_buildChatBody request stream =
     (if \<not> stream then obj_set ''stream'' (JBool False) (obj_delete ''stream_options'' (request_object request))
      else (let wantUsage = (rq_include_usage request = Some (Some True));
                base = obj_set ''stream'' (JBool True) (request_object request)
            in if wantUsage then obj_set ''stream_options'' (JObj [(''include_usage'', JBool True)]) base else base))"

definition UNSUPPORTED_FIELDS :: "string list" where
  "UNSUPPORTED_FIELDS = [''logit_bias'', ''presence_penalty'', ''frequency_penalty'', ''n'', ''user'']"

definition mistral_buildChatBody :: "ChatCompletionRequest \<Rightarrow> bool \<Rightarrow> (string \<times> json) list" where
  "mistral_buildChatBody request stream =
     (let body = openai_buildChatBody request stream;
          body1 = (case map_of body ''seed'' of Some v \<Rightarrow> obj_set ''random_seed'' v body | None \<Rightarrow> body);
          body2 = obj_delete ''stream_options'' (obj_delete ''seed'' body1)
      in fold obj_delete UNSUPPORTED_FIELDS body2)"

definition buildChatBody :: "BaseProvider \<Rightarrow> ChatCompletionRequest \<Rightarrow> bool \<Rightarrow> (string \<times> json) list" where
  "buildChatBody p = (if p_adapterType p = AdMistral then mistral_buildChatBody else openai_buildChatBody)"

definition openai_request :: "BaseProvider \<Rightarrow> string \<Rightarrow> (string \<times> json) list \<Rightarrow> http_request" where
  "openai_request p path body =
     \<lparr>hq_url = joinUrl (p_baseUrl p) path, hq_headers = openai_headers p, hq_body = stringify (JObj body)\<rparr>"

section \<open>Operations\<close>

definition openai_countTokens :: "'e tiktoken \<Rightarrow> ChatMessage list \<Rightarrow> string \<Rightarrow> 'e encoder_cache \<Rightarrow> int \<times> 'e encoder_cache" where
  "openai_countTokens T messages model cache = countChatTokens T messages model cache"

definition normaliseChoice :: "nat \<Rightarrow> upstream_choice \<Rightarrow> ChatCompletionChoice" where
  "normaliseChoice i c =
     \<lparr>ch_index = nullish (uc_index c) (int i), ch_content = uc_content c, ch_tool_calls = uc_tool_calls c,
      ch_finish_reason = Some (nullish (uc_finish_reason c) Finish_stop)\<rparr>"

definition normaliseChatResponse ::
  "upstream \<Rightarrow> 'e tiktoken \<Rightarrow> upstream_chat \<Rightarrow> ChatCompletionRequest \<Rightarrow> 'e encoder_cache \<Rightarrow> ChatCompletionResponse \<times> 'e encoder_cache" where
  "normaliseChatResponse U T d request cache =
     (let (promptTokens, cache') =
            (case ud_usage d of
               Some u \<Rightarrow> (uu_prompt u, cache)
             | None \<Rightarrow> openai_countTokens T (rq_messages request) (rq_model request) cache);
          completionTokens = (case ud_usage d of Some u \<Rightarrow> uu_completion u | None \<Rightarrow> 0)
      in (\<lparr>rs_id = nullish (ud_id d) (createCompletionId (up_uuid U 0)),
           rs_created = nullish (ud_created d) (nowUnixSeconds (up_now U)),
           rs_model = nullish (ud_model d) (rq_model request),
           rs_choices = map (\<lambda>(i, c). normaliseChoice i c) (enumerate 0 (ud_choices d)),
           rs_usage = \<lparr>prompt_tokens = promptTokens, completion_tokens = completionTokens,
             total_tokens = (case ud_usage d of Some u \<Rightarrow> uu_total u | None \<Rightarrow> promptTokens + completionTokens)\<rparr>,
           rs_system_fingerprint = ud_system_fingerprint d\<rparr>, cache'))"

definition openai_chat ::
  "upstream \<Rightarrow> 'e tiktoken \<Rightarrow> BaseProvider \<Rightarrow> ChatCompletionRequest \<Rightarrow> 'e encoder_cache
     \<Rightarrow> (thrown, ChatCompletionResponse) result \<times> 'e encoder_cache" where
  "openai_chat U T p request cache =
     (case post_json U p (openai_request p ''/chat/completions'' (buildChatBody p request False)) of
        Inl e \<Rightarrow> (Inl e, cache)
      | Inr raw \<Rightarrow>
          (case chatResponseSchema raw of
             None \<Rightarrow> (Inl (provider_error p ''OpenAI returned an unexpected chat response shape.'' 502 (Some True)), cache)
           | Some d \<Rightarrow>
               (case normaliseChatResponse U T d request cache of (response, cache') \<Rightarrow> (Inr response, cache'))))"

text \<open>The stream ends at the sentinel; empty and unparseable frames are skipped.\<close>

fun openai_events :: "SSEEvent list \<Rightarrow> thrown option \<Rightarrow> json yielded" where
  "openai_events [] failure = ([], failure)"
| "openai_events (e # es) failure =
     (if sse_data e = [] then openai_events es failure
      else if sse_data e = SSE_DONE then ([], None)
      else (case json_parse (sse_data e) of
              None \<Rightarrow> openai_events es failure
            | Some chunk \<Rightarrow> (case openai_events es failure of (cs, f) \<Rightarrow> (chunk # cs, f))))"

definition openai_chatStream :: "upstream \<Rightarrow> BaseProvider \<Rightarrow> ChatCompletionRequest \<Rightarrow> json yielded" where
  "openai_chatStream U p request =
     (case post_stream U p ''OpenAI'' (openai_request p ''/chat/completions'' (buildChatBody p request True)) of
        Inl e \<Rightarrow> ([], Some e)
      | Inr (es, failure) \<Rightarrow> openai_events es failure)"

definition openai_embed :: "upstream \<Rightarrow> BaseProvider \<Rightarrow> EmbeddingRequest \<Rightarrow> (thrown, EmbeddingResponse) result" where
  "openai_embed U p request =
     (case post_json U p (openai_request p ''/embeddings'' (embedding_object request)) of
        Inl e \<Rightarrow> Inl e
      | Inr raw \<Rightarrow>
          (case embeddingResponseSchema raw of
             None \<Rightarrow> Inl (provider_error p ''OpenAI returned an unexpected embedding response shape.'' 502 (Some True))
           | Some d \<Rightarrow>
               (let promptTokens = (case ue_usage d of Some (pt, _) \<Rightarrow> pt | None \<Rightarrow> 0) in
                Inr \<lparr>er_data = ue_data d, er_model = nullish (ue_model d) (eq_model request),
                     er_prompt_tokens = promptTokens,
                     er_total_tokens = (case ue_usage d of Some (_, t) \<Rightarrow> t | None \<Rightarrow> promptTokens)\<rparr>)))"

section \<open>Bodies\<close>

lemma map_of_fold_delete: "map_of (fold obj_delete ks ps) k = (if k \<in> set ks then None else map_of ps k)"
  by (induction ks arbitrary: ps) (auto simp: map_of_obj_delete)

text \<open>
  The bodies sent upstream are the client's request with exactly the documented changes.
  The OpenAI body keeps every property of the request except \<open>stream\<close>, which says whether to
  stream, and \<open>stream_options\<close>, which only a stream may carry; the Mistral body is the OpenAI
  body with \<open>seed\<close> renamed to \<open>random_seed\<close> and without the properties Mistral rejects.
\<close>

theorem bodies_pass_through:
  "map_of (openai_buildChatBody request stream) =
     (\<lambda>k. if k = ''stream'' then Some (JBool stream)
          else if k = ''stream_options'' then
            (if \<not> stream then None
             else if rq_include_usage request = Some (Some True) then Some (JObj [(''include_usage'', JBool True)])
             else map_of (request_object request) k)
          else map_of (request_object request) k) \<and>
   map_of (mistral_buildChatBody request stream) =
     (\<lambda>k. if k \<in> {''logit_bias'', ''presence_penalty'', ''frequency_penalty'', ''n'', ''user'', ''seed'', ''stream_options''} then None
          else if k = ''random_seed'' \<and> map_of (openai_buildChatBody request stream) ''seed'' \<noteq> None
          then map_of (openai_buildChatBody request stream) ''seed''
          else map_of (openai_buildChatBody request stream) k)"
proof
  show "map_of (openai_buildChatBody request stream) =
     (\<lambda>k. if k = ''stream'' then Some (JBool stream)
          else if k = ''stream_options'' then
            (if \<not> stream then None
             else if rq_include_usage request = Some (Some True) then Some (JObj [(''include_usage'', JBool True)])
             else map_of (request_object request) k)
          else map_of (request_object request) k)"
    by (rule ext) (simp add: openai_buildChatBody_def map_of_obj_delete Let_def)
  have dropped: "set UNSUPPORTED_FIELDS \<union> {''seed'', ''stream_options''} =
      {''logit_bias'', ''presence_penalty'', ''frequency_penalty'', ''n'', ''user'', ''seed'', ''stream_options''}"
    by (rule set_eqI) (simp only: UNSUPPORTED_FIELDS_def list.set Un_iff insert_iff empty_iff disj_assoc simp_thms)
  show "map_of (mistral_buildChatBody request stream) =
     (\<lambda>k. if k \<in> {''logit_bias'', ''presence_penalty'', ''frequency_penalty'', ''n'', ''user'', ''seed'', ''stream_options''} then None
          else if k = ''random_seed'' \<and> map_of (openai_buildChatBody request stream) ''seed'' \<noteq> None
          then map_of (openai_buildChatBody request stream) ''seed''
          else map_of (openai_buildChatBody request stream) k)"
    unfolding dropped [symmetric]
    by (rule ext) (auto simp: mistral_buildChatBody_def map_of_fold_delete map_of_obj_delete Let_def split: option.split)
qed

section \<open>Answers\<close>

lemma z_required_array: "z_required (z_array f n) ps k = Some xs \<Longrightarrow> n \<le> length xs"
  by (auto simp: z_required_def z_array_def bind_eq_Some_conv split: option.splits if_splits)

lemma z_required_nonnegative: "z_required z_nonnegative ps k = Some n \<Longrightarrow> 0 \<le> n"
  by (auto simp: z_required_def z_nonnegative_def bind_eq_Some_conv split: option.splits if_splits)

lemma chat_schema_choices: "chatResponseSchema raw = Some d \<Longrightarrow> ud_choices d \<noteq> []"
  by (auto simp: chatResponseSchema_def dest!: z_required_array split: json.splits option.splits)

lemma usage_schema_nonneg: "usageSchema j = Some u \<Longrightarrow> 0 \<le> uu_prompt u \<and> 0 \<le> uu_completion u \<and> 0 \<le> uu_total u"
  by (auto simp: usageSchema_def dest!: z_required_nonnegative split: json.splits option.splits)

lemma chat_schema_usage:
  assumes "chatResponseSchema raw = Some d" and "ud_usage d = Some u"
  shows "0 \<le> uu_prompt u \<and> 0 \<le> uu_completion u \<and> 0 \<le> uu_total u"
proof -
  from assms obtain ps where "z_optional usageSchema ps ''usage'' = Some (Some u)"
    by (auto simp: chatResponseSchema_def split: json.splits option.splits)
  then obtain j where "usageSchema j = Some u" by (auto simp: z_optional_def split: option.splits)
  then show ?thesis by (rule usage_schema_nonneg)
qed

definition sane_answer :: "ChatCompletionResponse \<Rightarrow> bool" where
  "sane_answer r \<longleftrightarrow> rs_choices r \<noteq> [] \<and> (\<forall>c \<in> set (rs_choices r). ch_finish_reason c \<noteq> None) \<and>
     0 \<le> prompt_tokens (rs_usage r) \<and> 0 \<le> completion_tokens (rs_usage r) \<and> 0 \<le> total_tokens (rs_usage r)"

lemma count_chat_nonneg: "cache_ok T cache \<Longrightarrow> 0 \<le> fst (countChatTokens T messages model cache)"
proof -
  assume ok: "cache_ok T cache"
  obtain e c' where g: "getEncoder T (encodingForModel model) cache = (e, c')" by fastforce
  from getEncoder_spec [OF ok this] have "e = tk_get_encoding T (encodingForModel model)" by simp
  then have "fst (countChatTokens T messages model cache) = countChat messages (fresh_count T model)"
    by (simp add: countChatTokens_def g fresh_count_def [abs_def] if_distrib)
  moreover have "0 \<le> countChat messages (fresh_count T model)"
    using chat_count_bound [of messages T model] by (simp add: countChat_def foldl_sum token_constants)
  ultimately show ?thesis by simp
qed

text \<open>
  An answer of the OpenAI or Mistral adapter is either a closing OpenAI response or a
  gateway error.  A response has at least one choice, a finish reason for every choice and
  non-negative token counts, whatever the upstream left out; a failure is an abort of the
  caller, a body that could not be read, or a well-formed gateway error, and an answer of an
  unexpected shape is a retryable one, so that failover goes on.
\<close>

theorem openai_chat_sound:
  assumes "cache_ok T cache"
  shows "case fst (openai_chat U T p request cache) of
     Inr response \<Rightarrow> sane_answer response
   | Inl e \<Rightarrow> transport_failure U (openai_request p ''/chat/completions'' (buildChatBody p request False)) e \<and>
       (\<forall>raw. post_json U p (openai_request p ''/chat/completions'' (buildChatBody p request False)) = Inr raw \<longrightarrow>
          (\<exists>g. e = TGateway g \<and> retryable g \<and> statusCode g = 502))"
proof (cases "post_json U p (openai_request p ''/chat/completions'' (buildChatBody p request False))")
  case (Inl e)
  with post_json_failure [OF Inl] show ?thesis by (simp add: openai_chat_def)
next
  case (Inr raw)
  show ?thesis
  proof (cases "chatResponseSchema raw")
    case None
    with Inr show ?thesis
      by (simp add: openai_chat_def transport_failure_def provider_error_def) (simp add: ProviderError_def gateway_error_defs)
  next
    case (Some d)
    have tokens: "0 \<le> fst (countChatTokens T (rq_messages request) (rq_model request) cache)"
      using assms by (rule count_chat_nonneg)
    have "sane_answer (fst (normaliseChatResponse U T d request cache))"
      using chat_schema_choices [OF Some] chat_schema_usage [OF Some] tokens
      by (cases "ud_usage d") (auto simp: normaliseChatResponse_def sane_answer_def normaliseChoice_def openai_countTokens_def
          enumerate_eq_zip split: prod.split)
    with Inr Some show ?thesis
      by (cases "normaliseChatResponse U T d request cache") (simp add: openai_chat_def)
  qed
qed

text \<open>A minimal upstream: one choice without a finish reason, no usage.\<close>

definition demo_upstream :: "string \<Rightarrow> upstream" where
  "demo_upstream text =
     \<lparr>up_fetch = (\<lambda>q. \<lparr>fa_outcome = Inr \<lparr>hr_status = 200, hr_text = Inr text\<rparr>, fa_timedOut = False, fa_aborted = False\<rparr>),
      up_body = (\<lambda>q. None), up_uuid = (\<lambda>k. ''0-1''), up_now = 1000\<rparr>"

definition demo_openai :: BaseProvider where
  "demo_openai = \<lparr>p_id = ''A'', p_name = ''A'', p_adapterType = AdOpenai, p_baseUrl = ''http://a'', p_apiKey = ''k'',
     p_timeoutMs = 1000, p_weight = 1, p_priority = 1, p_models = []\<rparr>"

definition demo_answer :: json where
  "demo_answer = JObj [(''choices'', JArr [JObj [(''message'', JObj [(''content'', JStr ''hi'')])]])]"

definition demo_chat_request :: ChatCompletionRequest where
  "demo_chat_request = \<lparr>rq_model = ''m'', rq_messages = [UserMessage (ContentText ''hello'') None], rq_temperature = None,
     rq_top_p = None, rq_n = None, rq_stream = None, rq_include_usage = None, rq_stop = None, rq_max_tokens = None,
     rq_max_completion_tokens = None, rq_presence_penalty = None, rq_frequency_penalty = None, rq_logit_bias = None,
     rq_user = None, rq_seed = None, rq_tools = None, rq_tool_choice = None, rq_response_format = None, rq_extra = []\<rparr>"

lemma demo_answer_post: "post_json (demo_upstream (stringify demo_answer)) demo_openai q = Inr demo_answer"
proof -
  have "wf_json demo_answer" by (simp add: demo_answer_def own_ordered_names array_index_name char_digit_def)
  then show ?thesis
    by (simp add: post_json_def post_def upstreamFetch_def demo_upstream_def ensureOk_def response_ok_def readJson_def json_round_trip)
qed

theorem openai_chat_sound_witness:
  "\<exists>response. fst (openai_chat (demo_upstream (stringify demo_answer)) demo_tiktoken demo_openai demo_chat_request []) = Inr response \<and>
     sane_answer response"
proof -
  have "chatResponseSchema demo_answer \<noteq> None"
    by (simp add: chatResponseSchema_def demo_answer_def z_defs as_list_def choiceSchema_def messageSchema_def nullable_def)
  then have "is_ok (fst (openai_chat (demo_upstream (stringify demo_answer)) demo_tiktoken demo_openai demo_chat_request []))"
    by (auto simp: openai_chat_def demo_answer_post split: prod.split)
  moreover have "cache_ok demo_tiktoken []" by (simp add: cache_ok_def)
  ultimately show ?thesis
    using openai_chat_sound [of demo_tiktoken "[]" "demo_upstream (stringify demo_answer)" demo_openai demo_chat_request]
    by (auto simp: is_ok_iff)
qed

section \<open>Streams\<close>

lemma stringify_not_done:
  assumes "wf_json j"
  shows "stringify j \<noteq> SSE_DONE"
proof
  assume "stringify j = SSE_DONE"
  moreover have "json_parse SSE_DONE = None" by code_simp
  ultimately show False using json_round_trip [OF assms] by simp
qed

lemma relay_events:
  "list_all wf_json payloads \<Longrightarrow>
     openai_events (map (\<lambda>j. data_event (stringify j)) payloads @ rest) failure =
       (case openai_events rest failure of (cs, f) \<Rightarrow> (payloads @ cs, f))"
proof (induction payloads)
  case (Cons j js)
  then have j: "wf_json j" by simp
  with Cons show ?case
    by (simp add: data_event_def stringify_nonempty stringify_not_done [OF j] json_round_trip [OF j] split: prod.split)
qed (simp split: prod.split)

lemma frames_events:
  assumes "list_all wf_json payloads"
    and "concat reads = utf8_encode (concat (map serializeSSE payloads) @ (if closing then SSE_DONE_FRAME else []))"
  shows "parseSSEStream reads None =
    (map (\<lambda>j. data_event (stringify j)) payloads @ (if closing then [data_event SSE_DONE] else []), None)"
proof -
  let ?ws = "map stringify payloads @ (if closing then [SSE_DONE] else [])"
  have "\<forall>w \<in> set ?ws. printable w \<and> w \<noteq> []" by (auto simp: printable_stringify stringify_nonempty SSE_DONE_def)
  from frames_text [OF this] have "sse_text (concat (map serializeSSE payloads) @ (if closing then SSE_DONE_FRAME else [])) = map data_event ?ws"
    by (cases closing) (simp_all add: serializeSSE_def [abs_def] SSE_DONE_FRAME_def comp_def)
  then show ?thesis unfolding parse_reads assms(2) utf8_round_trip by (cases closing) (simp_all add: comp_def)
qed

text \<open>
  C21. Gateways can be chained.  When the upstream of an OpenAI adapter answers with the frames
  that a gateway writes for a list of payloads, the adapter yields exactly these payloads, in
  order, and ends without an error, however the network cuts the bytes and with or without the
  terminal sentinel.
\<close>

theorem relay_exact:
  assumes "list_all wf_json payloads"
    and "concat reads = utf8_encode (concat (map serializeSSE payloads) @ (if closing then SSE_DONE_FRAME else []))"
    and "up_body U (openai_request p ''/chat/completions'' (buildChatBody p request True)) = Some (reads, None)"
    and "fa_outcome (up_fetch U (openai_request p ''/chat/completions'' (buildChatBody p request True))) =
      Inr \<lparr>hr_status = 200, hr_text = x\<rparr>"
  shows "openai_chatStream U p request = (payloads, None)"
proof -
  have "post_stream U p ''OpenAI'' (openai_request p ''/chat/completions'' (buildChatBody p request True)) =
      Inr (parseSSEStream reads None)"
    using assms(3,4) by (simp add: post_stream_def post_def upstreamFetch_def ensureOk_def response_ok_def)
  moreover have "openai_events [data_event SSE_DONE] None = ([], None)" by (simp add: data_event_def SSE_DONE_def)
  ultimately show ?thesis using frames_events [OF assms(1,2)] relay_events [OF assms(1), of "if closing then [data_event SSE_DONE] else []" None]
    by (cases closing) (simp_all add: openai_chatStream_def)
qed

definition demo_relay :: upstream where
  "demo_relay = (demo_upstream [])\<lparr>up_body := (\<lambda>q. Some (map (\<lambda>b. [b]) (utf8_encode (serializeSSE demo_answer @ SSE_DONE_FRAME)), None))\<rparr>"

theorem relay_exact_witness: "openai_chatStream demo_relay demo_openai demo_chat_request = ([demo_answer], None)"
proof (rule relay_exact [where closing = True])
  show "list_all wf_json [demo_answer]" by (simp add: demo_answer_def own_ordered_names array_index_name char_digit_def)
  show "concat (map (\<lambda>b. [b]) (utf8_encode (serializeSSE demo_answer @ SSE_DONE_FRAME))) =
      utf8_encode (concat (map serializeSSE [demo_answer]) @ (if True then SSE_DONE_FRAME else []))" by simp
qed (simp_all add: demo_relay_def demo_upstream_def)

end
