(* ===== verification/Adapter_Common.thy ===== *)
theory Adapter_Common
  imports Upstream Tokens
begin

text \<open>
  What the Anthropic, Gemini and Cohere adapters have in common: readers of message content and
  of unknown JSON values, the loop over the events of an upstream stream, and the shape of the
  OpenAI streams they produce.  Token counts are read as integers, as every upstream sends them.
\<close>

section \<open>Reading content and unknown values\<close>

text \<open>\<open>DATA_URL_RE\<close>: a media type up to the first semicolon, then the payload on one line.\<close>

definition match_data_url :: "string \<Rightarrow> (string \<times> string) option" where
  "match_data_url url =
     (if startsWith url ''data:'' then
        (let rest = drop (length ''data:'') url;
             media = takeWhile (\<lambda>c. c \<noteq> CHR '';'') rest;
             tail = drop (length media) rest
         in if media \<noteq> [] \<and> startsWith tail '';base64,'' then
              (let payload = drop (length '';base64,'') tail in
               if payload \<noteq> [] \<and> newline \<notin> set payload \<and> carriage_return \<notin> set payload
               then Some (media, payload) else None)
            else None)
      else None)"

fun part_text :: "ContentPart \<Rightarrow> string option" where
  "part_text (TextPart w) = Some w" | "part_text (ImagePart url detail) = None"

fun flattenText :: "MessageContent \<Rightarrow> string" where
  "flattenText (ContentText w) = w"
| "flattenText (ContentParts parts) = concat (List.map_filter part_text parts)"

definition safeJsonParse :: "string \<Rightarrow> json" where
  "safeJsonParse w = nullish (json_parse w) (JObj [])"

text \<open>
  \<open>isRecord\<close> holds of arrays too, which have none of the properties that are looked up.
\<close>

fun record_of :: "json \<Rightarrow> (string \<times> json) list option" where
  "record_of (JObj ps) = Some ps"
| "record_of (JArr xs) = Some []"
| "record_of _ = None"

definition firstElement :: "json \<Rightarrow> json" where
  "firstElement j = (case j of JArr (x # xs) \<Rightarrow> x | _ \<Rightarrow> JNull)"

section \<open>Embeddings\<close>

fun embeddingInputToStrings :: "EmbeddingInput \<Rightarrow> string list" where
  "embeddingInputToStrings (InputText w) = [w]"
| "embeddingInputToStrings (InputTexts ws) = ws"
| "embeddingInputToStrings (InputTokens ts) = map show_int ts"
| "embeddingInputToStrings (InputTokenLists tss) = map (\<lambda>ts. join '' '' (map show_int ts)) tss"

definition toNumberArray :: "json \<Rightarrow> json" where
  "toNumberArray j = (case j of JArr xs \<Rightarrow> JArr (filter (\<lambda>x. as_num x \<noteq> None) xs) | _ \<Rightarrow> JArr [])"

definition embedding_item :: "nat \<Rightarrow> json \<Rightarrow> json" where
  "embedding_item i values = JObj [(''object'', JStr ''embedding''), (''index'', JNum (int i) 0), (''embedding'', toNumberArray values)]"

text \<open>The tokens of the inputs, counted one by one; counting may load encoders into the cache.\<close>

fun count_texts :: "'e tiktoken \<Rightarrow> string \<Rightarrow> string list \<Rightarrow> int \<Rightarrow> 'e encoder_cache \<Rightarrow> int \<times> 'e encoder_cache" where
  "count_texts T model [] tot cache = (tot, cache)"
| "count_texts T model (w # ws) tot cache =
     (case countChatTokens T [UserMessage (ContentText w) None] model cache of
        (n, cache') \<Rightarrow> count_texts T model ws (tot + n) cache')"

section \<open>Merging messages into alternating turns\<close>

text \<open>
  Anthropic and Gemini want turns that are not empty and alternate between two speakers.  \<open>role\<close>
  and \<open>items\<close> read a turn, \<open>push\<close> is the adapter's own operation.
\<close>

definition alternating :: "('m \<Rightarrow> 'r) \<Rightarrow> ('m \<Rightarrow> 'b list) \<Rightarrow> 'm list \<Rightarrow> bool" where
  "alternating role items ms \<longleftrightarrow> (\<forall>m \<in> set ms. items m \<noteq> []) \<and> (\<forall>i. Suc i < length ms \<longrightarrow> role (ms ! i) \<noteq> role (ms ! Suc i))"

definition spoken :: "('m \<Rightarrow> 'r) \<Rightarrow> ('m \<Rightarrow> 'b list) \<Rightarrow> 'm list \<Rightarrow> ('r \<times> 'b) list" where
  "spoken role items ms = concat (map (\<lambda>m. map (Pair (role m)) (items m)) ms)"

lemma alternating_snoc:
  "alternating role items (ms @ [m]) \<longleftrightarrow> alternating role items ms \<and> items m \<noteq> [] \<and> (ms \<noteq> [] \<longrightarrow> role (last ms) \<noteq> role m)"
proof -
  have "(\<forall>i. Suc i < length (ms @ [m]) \<longrightarrow> role ((ms @ [m]) ! i) \<noteq> role ((ms @ [m]) ! Suc i)) \<longleftrightarrow>
      (\<forall>i. Suc i < length ms \<longrightarrow> role (ms ! i) \<noteq> role (ms ! Suc i)) \<and> (ms \<noteq> [] \<longrightarrow> role (last ms) \<noteq> role m)"
    by (cases ms rule: rev_cases) (auto simp: nth_append less_Suc_eq all_conj_distrib)
  then show ?thesis by (auto simp: alternating_def)
qed

lemma spoken_simps [simp]:
  "spoken role items [] = []" "spoken role items (ms @ ms') = spoken role items ms @ spoken role items ms'"
  "spoken role items (m # ms) = map (Pair (role m)) (items m) @ spoken role items ms"
  by (simp_all add: spoken_def)

lemma alternating_Nil [simp]: "alternating role items []" and alternating_single [simp]: "alternating role items [m] \<longleftrightarrow> items m \<noteq> []"
  by (simp_all add: alternating_def)

locale conversation =
  fixes role :: "'m \<Rightarrow> 'r"
    and items :: "'m \<Rightarrow> 'b list"
    and push :: "'r \<Rightarrow> 'b list \<Rightarrow> 'm list \<Rightarrow> 'm list"
    and step :: "'c \<Rightarrow> 't list \<times> 'm list \<Rightarrow> 't list \<times> 'm list"
    and texts :: "'c \<Rightarrow> 't list"
    and author :: "'c \<Rightarrow> 'r"
    and blocks :: "'c \<Rightarrow> 'b list"
  assumes push_nothing: "push r [] ms = ms"
    and push_opens: "bs \<noteq> [] \<Longrightarrow> ms = [] \<or> role (last ms) \<noteq> r \<Longrightarrow> \<exists>m. push r bs ms = ms @ [m] \<and> role m = r \<and> items m = bs"
    and push_merges: "bs \<noteq> [] \<Longrightarrow> role k = r \<Longrightarrow>
      \<exists>m. push r bs (ks @ [k]) = ks @ [m] \<and> role m = r \<and> items m = items k @ bs"
    and step_law: "step c (sys, ms) = (sys @ texts c, push (author c) (blocks c) ms)"
begin

lemma push_spec:
  assumes "alternating role items ms"
  shows "alternating role items (push r bs ms) \<and> spoken role items (push r bs ms) = spoken role items ms @ map (Pair r) bs"
proof (cases "bs = []")
  case True
  with assms show ?thesis by (simp add: push_nothing)
next
  case False
  show ?thesis
  proof (cases "ms = [] \<or> role (last ms) \<noteq> r")
    case True
    from push_opens [OF False True] obtain m where m: "push r bs ms = ms @ [m]" "role m = r" "items m = bs" by blast
    with True False assms show ?thesis by (auto simp: alternating_snoc)
  next
    case False
    then obtain ks k where k: "ms = ks @ [k]" "role k = r" by (cases ms rule: rev_cases) auto
    from push_merges [OF \<open>bs \<noteq> []\<close> k(2), of ks] obtain m where
      "push r bs (ks @ [k]) = ks @ [m]" "role m = r" "items m = items k @ bs" by blast
    with k assms show ?thesis by (simp add: alternating_snoc)
  qed
qed

lemma messages_spec:
  "alternating role items ms \<Longrightarrow>
    \<exists>ms'. fold step cs (sys, ms) = (sys @ concat (map texts cs), ms') \<and> alternating role items ms' \<and>
      spoken role items ms' = spoken role items ms @ concat (map (\<lambda>c. map (Pair (author c)) (blocks c)) cs)"
proof (induction cs arbitrary: sys ms)
  case (Cons c cs)
  from push_spec [OF Cons.prems, of "author c" "blocks c"]
    Cons.IH [of "push (author c) (blocks c) ms" "sys @ texts c"]
  show ?case by (auto simp: step_law)
qed simp

end

section \<open>The loop over a stream\<close>

record stream_context =
  sc_id :: string
  sc_created :: int
  sc_model :: string
  sc_wantUsage :: bool
  sc_provider :: BaseProvider

definition request_context :: "upstream \<Rightarrow> BaseProvider \<Rightarrow> ChatCompletionRequest \<Rightarrow> stream_context" where
  "request_context U p request =
     \<lparr>sc_id = createCompletionId (up_uuid U 0), sc_created = nowUnixSeconds (up_now U), sc_model = rq_model request,
      sc_wantUsage = (rq_include_usage request = Some (Some True)), sc_provider = p\<rparr>"

text \<open>One event: chunks and the loop goes on, chunks and the generator returns, or an error.\<close>

datatype 's stream_step = Goes_on "ChatCompletionChunk list" 's | Ends "ChatCompletionChunk list" | Throws thrown

definition event_type :: "(string \<times> json) list \<Rightarrow> SSEEvent \<Rightarrow> string" where
  "event_type evt e = (case field evt ''type'' of JStr t \<Rightarrow> t | _ \<Rightarrow> nullish (sse_event e) [])"

text \<open>The loop over the events.\<close>

fun stream_events :: "(SSEEvent \<Rightarrow> 's \<Rightarrow> 's stream_step) \<Rightarrow> 's \<Rightarrow> SSEEvent list \<Rightarrow> thrown option
    \<Rightarrow> ChatCompletionChunk list \<times> 's \<times> thrown option \<times> bool" where
  "stream_events f s [] failure = ([], s, failure, False)"
| "stream_events f s (e # es) failure =
     (case f e s of
        Goes_on cs s1 \<Rightarrow> (case stream_events f s1 es failure of (cs', rest) \<Rightarrow> (cs @ cs', rest))
      | Ends cs \<Rightarrow> (cs, s, None, True)
      | Throws x \<Rightarrow> ([], s, Some x, True))"

section \<open>The shape of a normalised stream\<close>

definition delta_chunk :: "ChatCompletionChunk \<Rightarrow> bool" where
  "delta_chunk ck \<longleftrightarrow> ck_usage ck = None \<and> (\<exists>c. ck_choices ck = Some [c] \<and> cc_finish_reason c = None)"

definition finish_chunk :: "ChatCompletionChunk \<Rightarrow> bool" where
  "finish_chunk ck \<longleftrightarrow> ck_usage ck = None \<and> (\<exists>c. ck_choices ck = Some [c] \<and> cc_finish_reason c \<noteq> None)"

definition usage_chunk :: "ChatCompletionChunk \<Rightarrow> bool" where
  "usage_chunk ck \<longleftrightarrow> ck_choices ck = Some [] \<and> ck_usage ck \<noteq> None"

definition of_stream :: "stream_context \<Rightarrow> ChatCompletionChunk \<Rightarrow> bool" where
  "of_stream C ck \<longleftrightarrow> ck_id ck = sc_id C \<and> ck_created ck = sc_created C \<and> ck_model ck = sc_model C"

text \<open>Deltas, then at most one finish chunk, then the usage chunk when the client wants one.\<close>

definition well_shaped :: "stream_context \<Rightarrow> ChatCompletionChunk list \<Rightarrow> bool" where
  "well_shaped C cs \<longleftrightarrow> list_all (of_stream C) cs \<and>
     (\<exists>ds ts. cs = ds @ ts \<and> list_all delta_chunk ds \<and>
        (ts = [] \<or> (\<exists>k. ts = [k] \<and> finish_chunk k \<and> \<not> sc_wantUsage C) \<or>
         (\<exists>k u. ts = [k, u] \<and> finish_chunk k \<and> usage_chunk u \<and> sc_wantUsage C)))"

text \<open>What a step may yield.\<close>

definition step_shaped :: "stream_context \<Rightarrow> 's stream_step \<Rightarrow> bool" where
  "step_shaped C x = (case x of
     Goes_on cs s \<Rightarrow> list_all delta_chunk cs \<and> list_all (of_stream C) cs
   | Ends cs \<Rightarrow> well_shaped C cs
   | Throws e \<Rightarrow> True)"

lemma well_shaped_append:
  "list_all delta_chunk cs \<Longrightarrow> list_all (of_stream C) cs \<Longrightarrow> well_shaped C cs' \<Longrightarrow> well_shaped C (cs @ cs')"
  unfolding well_shaped_def
proof (elim conjE exE)
  fix ds ts
  assume "list_all delta_chunk cs" "list_all delta_chunk ds" "list_all (of_stream C) cs" "list_all (of_stream C) cs'"
    and tail: "cs' = ds @ ts" "ts = [] \<or> (\<exists>k. ts = [k] \<and> finish_chunk k \<and> \<not> sc_wantUsage C) \<or>
      (\<exists>k u. ts = [k, u] \<and> finish_chunk k \<and> usage_chunk u \<and> sc_wantUsage C)"
  then show "list_all (of_stream C) (cs @ cs') \<and>
      (\<exists>ds ts. cs @ cs' = ds @ ts \<and> list_all delta_chunk ds \<and>
        (ts = [] \<or> (\<exists>k. ts = [k] \<and> finish_chunk k \<and> \<not> sc_wantUsage C) \<or>
         (\<exists>k u. ts = [k, u] \<and> finish_chunk k \<and> usage_chunk u \<and> sc_wantUsage C)))"
    by - (rule conjI, simp, rule exI [of _ "cs @ ds"], rule exI [of _ ts], simp)
qed

lemma well_shaped_deltas: "list_all delta_chunk cs \<Longrightarrow> list_all (of_stream C) cs \<Longrightarrow> well_shaped C cs"
  using well_shaped_append [of cs C "[]"] by (simp add: well_shaped_def)

lemmas chunk_kinds = delta_chunk_def finish_chunk_def usage_chunk_def of_stream_def make_chunk_defs

definition chunk_text :: "ChatCompletionChunk \<Rightarrow> string" where
  "chunk_text ck = concat (map (\<lambda>c. nullish (cc_content c) []) (nullish (ck_choices ck) []))"

section \<open>The contract of the adapters' event handlers\<close>

text \<open>
  A handler turns events into chunks of its stream, in the right shape, and delivers the text
  \<open>content e\<close> of every event that does not end the stream.
\<close>

locale stream_normaliser =
  fixes C :: stream_context
    and f :: "SSEEvent \<Rightarrow> 's \<Rightarrow> 's stream_step"
    and content :: "SSEEvent \<Rightarrow> string"
    and last_event :: "SSEEvent \<Rightarrow> bool"
  assumes handler_shaped: "step_shaped C (f e s)"
    and handler_text:
      "case f e s of
         Goes_on cs s1 \<Rightarrow> concat (map chunk_text cs) = content e \<and> \<not> last_event e
       | Ends cs \<Rightarrow> concat (map chunk_text cs) = [] \<and> last_event e
       | Throws x \<Rightarrow> last_event e"
begin

lemma events_shaped: "well_shaped C (fst (stream_events f s es failure))"
proof (induction es arbitrary: s)
  case Nil
  then show ?case by (simp add: well_shaped_def)
next
  case (Cons e es)
  show ?case
  proof (cases "f e s")
    case (Goes_on cs s1)
    with handler_shaped [of e s] Cons.IH [of s1] show ?thesis
      by (auto simp: step_shaped_def well_shaped_append split: prod.split)
  next
    case (Ends cs)
    with handler_shaped [of e s] show ?thesis by (simp add: step_shaped_def)
  next
    case (Throws x)
    then show ?thesis by (simp add: well_shaped_def)
  qed
qed

lemma events_unfinished:
  "list_all (\<lambda>e. \<not> last_event e) es \<Longrightarrow>
    list_all delta_chunk (fst (stream_events f s es failure)) \<and> fst (snd (snd (stream_events f s es failure))) = failure"
proof (induction es arbitrary: s)
  case (Cons e es)
  with handler_text [of e s] obtain cs s1 where "f e s = Goes_on cs s1"
    by (cases "f e s") simp_all
  with Cons.IH [of s1] Cons.prems handler_shaped [of e s] show ?case
    by (cases "stream_events f s1 es failure") (simp add: step_shaped_def)
qed simp

lemma events_text:
  "concat (map chunk_text (fst (stream_events f s es failure))) = concat (map content (takeWhile (\<lambda>e. \<not> last_event e) es))"
proof (induction es arbitrary: s)
  case (Cons e es)
  note step = handler_text [of e s]
  show ?case
  proof (cases "f e s")
    case (Goes_on cs s1)
    with step Cons.IH [of s1] show ?thesis by (cases "stream_events f s1 es failure") simp
  qed (use step in simp_all)
qed simp

end

text \<open>A handler that never ends the stream itself: the adapter closes it when the events are over.\<close>

locale open_normaliser = stream_normaliser +
  assumes handler_goes_on: "\<exists>cs s1. f e s = Goes_on cs s1"
begin

lemma never_final: "\<not> last_event e"
proof -
  fix s
  obtain cs s1 where "f e s = Goes_on cs s1" using handler_goes_on by blast
  with handler_text [of e s] show ?thesis by simp
qed

lemma events_open: "stream_events f s es failure = (cs, s', x, b) \<Longrightarrow> list_all delta_chunk cs \<and> list_all (of_stream C) cs \<and> x = failure"
proof (induction es arbitrary: s cs)
  case (Cons e es)
  obtain ds s1 where "f e s = Goes_on ds s1" using handler_goes_on by blast
  with Cons handler_shaped [of e s] show ?case by (auto simp: step_shaped_def split: prod.splits)
qed simp

lemma open_text: "stream_events f s es failure = (cs, s', x, b) \<Longrightarrow> concat (map chunk_text cs) = concat (map content es)"
proof -
  have "takeWhile (\<lambda>e. \<not> last_event e) es = es" by (simp add: never_final)
  then show "stream_events f s es failure = (cs, s', x, b) \<Longrightarrow> concat (map chunk_text cs) = concat (map content es)"
    using events_text [of s es failure] by (simp del: takeWhile_eq_all_conv)
qed

end

text \<open>The stream of an adapter that closes it itself: an error of the body takes the place of the end.\<close>

definition closing_stream :: "(SSEEvent \<Rightarrow> 's \<Rightarrow> 's stream_step) \<Rightarrow> ('s \<Rightarrow> ChatCompletionChunk list) \<Rightarrow> 's
    \<Rightarrow> SSEEvent list \<times> thrown option \<Rightarrow> ChatCompletionChunk yielded" where
  "closing_stream f close s body =
     (case stream_events f s (fst body) (snd body) of
        (cs, s', Some e, b) \<Rightarrow> (cs, Some e)
      | (cs, s', None, b) \<Rightarrow> (cs @ close s', None))"

lemma no_finish_in_deltas: "list_all delta_chunk ds \<Longrightarrow> filter finish_chunk ds = []"
  by (induction ds) (auto simp: delta_chunk_def finish_chunk_def)

locale closing_normaliser = open_normaliser C f content last_event
    for C and f :: "SSEEvent \<Rightarrow> 's \<Rightarrow> 's stream_step" and content last_event +
  fixes close :: "'s \<Rightarrow> ChatCompletionChunk list"
  assumes close_shaped: "well_shaped C (close s)"
    and close_finishes: "length (filter finish_chunk (close s)) = 1"
    and close_silent: "concat (map chunk_text (close s)) = []"
begin

lemma stream_sound:
  "well_shaped C (fst (closing_stream f close s body)) \<and>
   concat (map chunk_text (fst (closing_stream f close s body))) = concat (map content (fst body)) \<and>
   snd (closing_stream f close s body) = snd body \<and>
   length (filter finish_chunk (fst (closing_stream f close s body))) = (if snd body = None then 1 else 0)"
proof -
  obtain cs s' x b where run: "stream_events f s (fst body) (snd body) = (cs, s', x, b)" by (metis prod_cases4)
  note deltas = events_open [OF run] and txt' = open_text [OF run]
  from deltas close_shaped [of s'] have "well_shaped C cs" "well_shaped C (cs @ close s')"
    by (simp_all add: well_shaped_append well_shaped_deltas)
  with run deltas txt' close_finishes [of s'] close_silent [of s'] show ?thesis
    by (auto simp: closing_stream_def no_finish_in_deltas split: option.split)
qed

end

text \<open>The obligations in one: events give deltas with their text, and the end is well shaped.\<close>

lemma closing_normaliserI:
  fixes f :: "SSEEvent \<Rightarrow> 's \<Rightarrow> 's stream_step"
  assumes event: "\<And>e s. \<exists>cs s'. f e s = Goes_on cs s' \<and> list_all delta_chunk cs \<and> list_all (of_stream C) cs \<and>
      concat (map chunk_text cs) = content e"
    and close: "\<And>s. well_shaped C (close s)" "\<And>s. length (filter finish_chunk (close s)) = 1"
      "\<And>s. concat (map chunk_text (close s)) = []"
  shows "closing_normaliser C f content (\<lambda>e. False) close"
proof
  fix e s
  obtain cs s' where "f e s = Goes_on cs s'" "list_all delta_chunk cs" "list_all (of_stream C) cs"
    "concat (map chunk_text cs) = content e" using event by blast
  then show "step_shaped C (f e s)"
    "case f e s of
       Goes_on cs s1 \<Rightarrow> concat (map chunk_text cs) = content e \<and> \<not> False
     | Ends cs \<Rightarrow> concat (map chunk_text cs) = [] \<and> False
     | Throws x \<Rightarrow> False"
    "\<exists>cs s1. f e s = Goes_on cs s1"
    by (simp_all add: step_shaped_def)
qed (rule close)+

end
