(* ===== verification/Anthropic.thy ===== *)
theory Anthropic
  imports Adapter_Common
begin

text \<open>
  The Anthropic adapter (\<open>src/providers/anthropic.ts\<close>): the translation of requests into the
  Messages API (system text apart, alternating turns of content blocks, tools), of answers
  back, and the normalisation of the typed event stream into OpenAI chunks.  Token counts are
  read as integers, as every upstream sends them.
\<close>

definition ANTHROPIC_VERSION :: string where "ANTHROPIC_VERSION = ''2023-06-01''"
definition DEFAULT_MAX_TOKENS :: int where "DEFAULT_MAX_TOKENS = 4096"

section \<open>Wire types\<close>

datatype AnthropicContentBlock =
    TextBlock string
  | ImageBase64 string string
  | ImageUrl string
  | ToolUseBlock string string json
  | ToolResultBlock string string

datatype turn_role = User_turn | Assistant_turn

record AnthropicMessage =
  am_role :: turn_role
  am_content :: "AnthropicContentBlock list"

datatype anthropic_tool_choice = Choose_auto | Choose_any | Choose_tool string

record anthropic_tool =
  at_name :: string
  at_description :: "string option"
  at_input_schema :: "(string \<times> json) list"

record AnthropicRequestBody =
  ab_model :: string
  ab_max_tokens :: int
  ab_messages :: "AnthropicMessage list"
  ab_system :: "string option"
  ab_temperature :: "decimal option"
  ab_top_p :: "decimal option"
  ab_stop_sequences :: "string list option"
  ab_stream :: "bool option"
  ab_tools :: "anthropic_tool list option"
  ab_tool_choice :: "anthropic_tool_choice option"

section \<open>Pure translation helpers\<close>

fun partToBlock :: "ContentPart \<Rightarrow> AnthropicContentBlock" where
  "partToBlock (TextPart w) = TextBlock w"
| "partToBlock (ImagePart url detail) =
     (case match_data_url url of Some (media, payload) \<Rightarrow> ImageBase64 media payload | None \<Rightarrow> ImageUrl url)"

fun contentToBlocks :: "MessageContent \<Rightarrow> AnthropicContentBlock list" where
  "contentToBlocks (ContentText w) = (if length w > 0 then [TextBlock w] else [])"
| "contentToBlocks (ContentParts parts) = map partToBlock parts"

fun textOnlyBlocks :: "MessageContent \<Rightarrow> AnthropicContentBlock list" where
  "textOnlyBlocks (ContentText w) = (if length w > 0 then [TextBlock w] else [])"
| "textOnlyBlocks (ContentParts parts) = map TextBlock (List.map_filter part_text parts)"

definition readUsageField :: "json \<Rightarrow> string \<Rightarrow> int option" where
  "readUsageField usage k = (case record_of usage of Some ps \<Rightarrow> as_int (field ps k) | None \<Rightarrow> None)"

definition mapStopReason :: "string option \<Rightarrow> bool \<Rightarrow> FinishReason" where
  "mapStopReason reason sawToolUse =
     (if reason = Some ''max_tokens'' \<or> reason = Some ''model_context_window_exceeded'' then Finish_length
      else if reason = Some ''refusal'' then Finish_content_filter
      else if reason = Some ''tool_use'' \<or> sawToolUse then Finish_tool_calls
      else Finish_stop)"

fun translateToolChoice :: "ToolChoice option \<Rightarrow> anthropic_tool_choice option" where
  "translateToolChoice None = None"
| "translateToolChoice (Some Choice_none) = None"
| "translateToolChoice (Some Choice_auto) = Some Choose_auto"
| "translateToolChoice (Some Choice_required) = Some Choose_any"
| "translateToolChoice (Some (Choice_function n)) = Some (Choose_tool n)"

section \<open>Request translation\<close>

definition push :: "turn_role \<Rightarrow> AnthropicContentBlock list \<Rightarrow> AnthropicMessage list \<Rightarrow> AnthropicMessage list" where
  "push role blocks messages =
     (if length blocks = 0 then messages
      else if messages \<noteq> [] \<and> am_role (last messages) = role then
        butlast messages @ [(last messages)\<lparr>am_content := am_content (last messages) @ blocks\<rparr>]
      else messages @ [\<lparr>am_role = role, am_content = blocks\<rparr>])"

definition tool_use_block :: "ToolCall \<Rightarrow> AnthropicContentBlock" where
  "tool_use_block c = ToolUseBlock (tc_id c) (tc_name c) (safeJsonParse (tc_arguments c))"

definition assistant_blocks :: "MessageContent option option \<Rightarrow> ToolCall list option \<Rightarrow> AnthropicContentBlock list" where
  "assistant_blocks content calls =
     (case content of Some (Some c) \<Rightarrow> textOnlyBlocks c | _ \<Rightarrow> []) @ map tool_use_block (nullish calls [])"

fun translate_message :: "ChatMessage \<Rightarrow> string list \<times> AnthropicMessage list \<Rightarrow> string list \<times> AnthropicMessage list" where
  "translate_message (SystemMessage c nm) (systemParts, messages) = (systemParts @ [flattenText c], messages)"
| "translate_message (UserMessage c nm) (systemParts, messages) = (systemParts, push User_turn (contentToBlocks c) messages)"
| "translate_message (AssistantMessage c nm calls) (systemParts, messages) =
     (systemParts, push Assistant_turn (assistant_blocks c calls) messages)"
| "translate_message (ToolMessage c i) (systemParts, messages) =
     (systemParts, push User_turn [ToolResultBlock i (flattenText c)] messages)"

definition translate_tool :: "ToolDefinition \<Rightarrow> anthropic_tool" where
  "translate_tool t = \<lparr>at_name = td_name t, at_description = td_description t,
     at_input_schema = nullish (td_parameters t) [(''type'', JStr ''object'')]\<rparr>"

definition translateRequest :: "BaseProvider \<Rightarrow> ChatCompletionRequest \<Rightarrow> bool \<Rightarrow> AnthropicRequestBody" where
  "translateRequest p request stream =
     (let (systemParts, messages) = fold translate_message (rq_messages request) ([], []);
          maxTokens = nullish (nullish_opt (nullish_opt (rq_max_completion_tokens request) (rq_max_tokens request))
            (Option.bind (getModel p (rq_model request)) mi_maxOutputTokens)) DEFAULT_MAX_TOKENS;
          with_tools = (case rq_tools request of None \<Rightarrow> False | Some ts \<Rightarrow> length ts > 0) \<and>
            rq_tool_choice request \<noteq> Some Choice_none
      in \<lparr>ab_model = rq_model request, ab_max_tokens = maxTokens, ab_messages = messages,
          ab_system = (if length systemParts > 0 then Some (join [newline, newline] systemParts) else None),
          ab_temperature = map_option (\<lambda>t. if dec_value t \<le> 1 then t else (1, 0)) (rq_temperature request),
          ab_top_p = rq_top_p request,
          ab_stop_sequences = map_option (\<lambda>s. case s of StopText w \<Rightarrow> [w] | StopList ws \<Rightarrow> ws) (rq_stop request),
          ab_stream = (if stream then Some True else None),
          ab_tools = (if with_tools then map_option (map translate_tool) (rq_tools request) else None),
          ab_tool_choice = (if with_tools then translateToolChoice (rq_tool_choice request) else None)\<rparr>)"

fun block_json :: "AnthropicContentBlock \<Rightarrow> json" where
  "block_json (TextBlock w) = JObj [(''type'', JStr ''text''), (''text'', JStr w)]"
| "block_json (ImageBase64 media payload) = JObj [(''type'', JStr ''image''),
     (''source'', JObj [(''type'', JStr ''base64''), (''media_type'', JStr media), (''data'', JStr payload)])]"
| "block_json (ImageUrl url) = JObj [(''type'', JStr ''image''),
     (''source'', JObj [(''type'', JStr ''url''), (''url'', JStr url)])]"
| "block_json (ToolUseBlock i nm inp) =
     JObj [(''type'', JStr ''tool_use''), (''id'', JStr i), (''name'', JStr nm), (''input'', inp)]"
| "block_json (ToolResultBlock i c) =
     JObj [(''type'', JStr ''tool_result''), (''tool_use_id'', JStr i), (''content'', JStr c)]"

definition turn_json :: "AnthropicMessage \<Rightarrow> json" where
  "turn_json m = JObj
     [(''role'', JStr (case am_role m of User_turn \<Rightarrow> ''user'' | Assistant_turn \<Rightarrow> ''assistant'')),
      (''content'', JArr (map block_json (am_content m)))]"

fun choose_json :: "anthropic_tool_choice \<Rightarrow> json" where
  "choose_json Choose_auto = JObj [(''type'', JStr ''auto'')]"
| "choose_json Choose_any = JObj [(''type'', JStr ''any'')]"
| "choose_json (Choose_tool n) = JObj [(''type'', JStr ''tool''), (''name'', JStr n)]"

definition anthropic_tool_json :: "anthropic_tool \<Rightarrow> json" where
  "anthropic_tool_json t = JObj ([(''name'', JStr (at_name t))] @ or_absent ''description'' JStr (at_description t)
     @ [(''input_schema'', JObj (at_input_schema t))])"

definition anthropic_body_json :: "AnthropicRequestBody \<Rightarrow> json" where
  "anthropic_body_json b = JObj
     ([(''model'', JStr (ab_model b)), (''max_tokens'', int_json (ab_max_tokens b)),
       (''messages'', JArr (map turn_json (ab_messages b)))]
      @ or_absent ''system'' JStr (ab_system b)
      @ or_absent ''temperature'' dec_json (ab_temperature b)
      @ or_absent ''top_p'' dec_json (ab_top_p b)
      @ or_absent ''stop_sequences'' (\<lambda>ws. JArr (map JStr ws)) (ab_stop_sequences b)
      @ or_absent ''stream'' JBool (ab_stream b)
      @ or_absent ''tools'' (\<lambda>ts. JArr (map anthropic_tool_json ts)) (ab_tools b)
      @ or_absent ''tool_choice'' choose_json (ab_tool_choice b))"

definition anthropic_headers :: "BaseProvider \<Rightarrow> (string \<times> string) list" where
  "anthropic_headers p = [(''content-type'', ''application/json''), (''x-api-key'', p_apiKey p),
     (''anthropic-version'', ANTHROPIC_VERSION)]"

definition anthropic_request :: "BaseProvider \<Rightarrow> ChatCompletionRequest \<Rightarrow> bool \<Rightarrow> http_request" where
  "anthropic_request p request stream =
     \<lparr>hq_url = joinUrl (p_baseUrl p) ''/v1/messages'', hq_headers = anthropic_headers p,
      hq_body = stringify (anthropic_body_json (translateRequest p request stream))\<rparr>"

section \<open>Answers\<close>

record response_block =
  rb_type :: string
  rb_text :: "string option"
  rb_id :: "string option"
  rb_name :: "string option"
  rb_input :: "json option"

definition responseBlockSchema :: "json \<Rightarrow> response_block option" where
  "responseBlockSchema j = (case j of
     JObj ps \<Rightarrow>
       (case (z_required as_str ps ''type'', z_optional as_str ps ''text'', z_optional as_str ps ''id'',
              z_optional as_str ps ''name'', z_optional z_any ps ''input'') of
          (Some t, Some x, Some i, Some n, Some a) \<Rightarrow>
            Some \<lparr>rb_type = t, rb_text = x, rb_id = i, rb_name = n, rb_input = a\<rparr>
        | _ \<Rightarrow> None)
   | _ \<Rightarrow> None)"

definition messageUsageSchema :: "json \<Rightarrow> (int \<times> int) option" where
  "messageUsageSchema j = (case j of
     JObj ps \<Rightarrow> (case (z_required z_nonnegative ps ''input_tokens'', z_required z_nonnegative ps ''output_tokens'') of
                   (Some i, Some u) \<Rightarrow> Some (i, u) | _ \<Rightarrow> None)
   | _ \<Rightarrow> None)"

record message_response =
  mr_id :: string
  mr_model :: "string option"
  mr_content :: "response_block list"
  mr_stop_reason :: "string option"
  mr_usage :: "int \<times> int"

definition messageResponseSchema :: "json \<Rightarrow> message_response option" where
  "messageResponseSchema j = (case j of
     JObj ps \<Rightarrow>
       (case (z_required as_str ps ''id'', z_optional as_str ps ''model'', z_required (as_list responseBlockSchema) ps ''content'',
              z_nullish as_str ps ''stop_reason'', z_required messageUsageSchema ps ''usage'') of
          (Some i, Some m, Some c, Some r, Some u) \<Rightarrow>
            Some \<lparr>mr_id = i, mr_model = m, mr_content = c, mr_stop_reason = r, mr_usage = u\<rparr>
        | _ \<Rightarrow> None)
   | _ \<Rightarrow> None)"

definition block_call :: "response_block \<Rightarrow> ToolCall option" where
  "block_call b =
     (if rb_type b = ''text'' \<and> rb_text b \<noteq> None then None
      else if rb_type b = ''tool_use'' then
        (case (rb_id b, rb_name b) of
           (Some i, Some n) \<Rightarrow>
             Some \<lparr>tc_id = i, tc_name = n,
               tc_arguments = stringify (case rb_input b of None \<Rightarrow> JObj [] | Some JNull \<Rightarrow> JObj [] | Some v \<Rightarrow> v)\<rparr>
         | _ \<Rightarrow> None)
      else None)"

definition block_text :: "response_block \<Rightarrow> string option" where
  "block_text b = (if rb_type b = ''text'' then rb_text b else None)"

definition translateResponse :: "upstream \<Rightarrow> message_response \<Rightarrow> ChatCompletionRequest \<Rightarrow> ChatCompletionResponse" where
  "translateResponse U d request =
     (let textParts = List.map_filter block_text (mr_content d);
          toolCalls = List.map_filter block_call (mr_content d);
          content = (if length textParts > 0 then Some (concat textParts) else None);
          (promptTokens, completionTokens) = mr_usage d
      in \<lparr>rs_id = createCompletionId (up_uuid U 0), rs_created = nowUnixSeconds (up_now U),
          rs_model = nullish (mr_model d) (rq_model request),
          rs_choices = [\<lparr>ch_index = 0, ch_content = content,
            ch_tool_calls = (if length toolCalls > 0 then Some toolCalls else None),
            ch_finish_reason = Some (mapStopReason (mr_stop_reason d) (length toolCalls > 0))\<rparr>],
          rs_usage = \<lparr>prompt_tokens = promptTokens, completion_tokens = completionTokens,
            total_tokens = promptTokens + completionTokens\<rparr>,
          rs_system_fingerprint = None\<rparr>)"

definition anthropic_chat :: "upstream \<Rightarrow> BaseProvider \<Rightarrow> ChatCompletionRequest \<Rightarrow> (thrown, ChatCompletionResponse) result" where
  "anthropic_chat U p request =
     (case post_json U p (anthropic_request p request False) of
        Inl e \<Rightarrow> Inl e
      | Inr raw \<Rightarrow>
          (case messageResponseSchema raw of
             None \<Rightarrow> Inl (provider_error p ''Anthropic returned an unexpected response shape.'' 502 (Some True))
           | Some d \<Rightarrow> Inr (translateResponse U d request)))"

definition anthropic_embed :: "BaseProvider \<Rightarrow> EmbeddingRequest \<Rightarrow> (thrown, EmbeddingResponse) result" where
  "anthropic_embed p request = Inl (provider_error p ''Anthropic does not support the embeddings API.'' 400 None)"

section \<open>Streams\<close>

record anthropic_stream =
  as_promptTokens :: int
  as_completionTokens :: int
  as_stopReason :: "string option"
  as_sawToolUse :: bool
  as_nextToolIndex :: nat
  as_toolIndexByBlock :: "(decimal \<times> nat) list"
  as_roleEmitted :: bool

definition anthropic_init :: anthropic_stream where
  "anthropic_init = \<lparr>as_promptTokens = 0, as_completionTokens = 0, as_stopReason = None, as_sawToolUse = False,
     as_nextToolIndex = 0, as_toolIndexByBlock = [], as_roleEmitted = False\<rparr>"

definition on_message_start :: "stream_context \<Rightarrow> (string \<times> json) list \<Rightarrow> anthropic_stream \<Rightarrow> anthropic_stream stream_step" where
  "on_message_start C evt s =
     (let usage = (case record_of (field evt ''message'') of Some ms \<Rightarrow> field ms ''usage'' | None \<Rightarrow> JNull);
          s1 = s\<lparr>as_promptTokens := nullish (readUsageField usage ''input_tokens'') (as_promptTokens s)\<rparr>
      in if \<not> as_roleEmitted s1 then
           Goes_on [makeRoleChunk (sc_id C) (sc_created C) (sc_model C)] (s1\<lparr>as_roleEmitted := True\<rparr>)
         else Goes_on [] s1)"

definition event_index :: "(string \<times> json) list \<Rightarrow> decimal" where
  "event_index evt = nullish (as_num (field evt ''index'')) (0, 0)"

definition on_block_start :: "stream_context \<Rightarrow> (string \<times> json) list \<Rightarrow> anthropic_stream \<Rightarrow> anthropic_stream stream_step" where
  "on_block_start C evt s =
     (case record_of (field evt ''content_block'') of
        Some block \<Rightarrow>
          if field block ''type'' = JStr ''tool_use'' then
            (let toolIndex = as_nextToolIndex s;
                 s1 = s\<lparr>as_nextToolIndex := toolIndex + 1,
                        as_toolIndexByBlock := (event_index evt, toolIndex) # as_toolIndexByBlock s,
                        as_sawToolUse := True\<rparr>
             in Goes_on [makeToolCallChunk (sc_id C) (sc_created C) (sc_model C)
                  \<lparr>dt_index = int toolIndex, dt_id = as_str (field block ''id''), dt_has_type = True,
                   dt_name = as_str (field block ''name''), dt_arguments = Some []\<rparr>] s1)
          else Goes_on [] s
      | None \<Rightarrow> Goes_on [] s)"

definition on_block_delta :: "stream_context \<Rightarrow> (string \<times> json) list \<Rightarrow> anthropic_stream \<Rightarrow> anthropic_stream stream_step" where
  "on_block_delta C evt s =
     (case record_of (field evt ''delta'') of
        Some delta \<Rightarrow>
          (case (field delta ''type'' = JStr ''text_delta'', as_str (field delta ''text'')) of
             (True, Some w) \<Rightarrow> Goes_on [makeContentChunk (sc_id C) (sc_created C) (sc_model C) w] s
           | _ \<Rightarrow>
               (case (field delta ''type'' = JStr ''input_json_delta'', as_str (field delta ''partial_json'')) of
                  (True, Some w) \<Rightarrow>
                    Goes_on [makeToolCallChunk (sc_id C) (sc_created C) (sc_model C)
                      \<lparr>dt_index = int (nullish (map_of (as_toolIndexByBlock s) (event_index evt)) 0), dt_id = None,
                       dt_has_type = False, dt_name = None, dt_arguments = Some w\<rparr>] s
                | _ \<Rightarrow> Goes_on [] s))
      | None \<Rightarrow> Goes_on [] s)"

definition on_message_delta :: "(string \<times> json) list \<Rightarrow> anthropic_stream \<Rightarrow> anthropic_stream stream_step" where
  "on_message_delta evt s =
     (let s1 = (case record_of (field evt ''delta'') of
                  Some delta \<Rightarrow> (case as_str (field delta ''stop_reason'') of
                                 Some r \<Rightarrow> s\<lparr>as_stopReason := Some r\<rparr> | None \<Rightarrow> s)
                | None \<Rightarrow> s)
      in Goes_on [] (s1\<lparr>as_completionTokens :=
           nullish (readUsageField (field evt ''usage'') ''output_tokens'') (as_completionTokens s1)\<rparr>))"

definition on_error :: "stream_context \<Rightarrow> (string \<times> json) list \<Rightarrow> anthropic_stream stream_step" where
  "on_error C evt =
     (let msg = (case record_of (field evt ''error'') of
                   Some err \<Rightarrow> nullish (as_str (field err ''message'')) ''stream error''
                 | None \<Rightarrow> ''stream error'')
      in Throws (provider_error (sc_provider C) (''Anthropic stream error: '' @ msg) 502 None))"

definition on_message_stop :: "stream_context \<Rightarrow> anthropic_stream \<Rightarrow> anthropic_stream stream_step" where
  "on_message_stop C s =
     Ends (makeFinishChunk (sc_id C) (sc_created C) (sc_model C) (mapStopReason (as_stopReason s) (as_sawToolUse s)) #
       (if sc_wantUsage C then
          [makeUsageChunk (sc_id C) (sc_created C) (sc_model C)
            \<lparr>prompt_tokens = as_promptTokens s, completion_tokens = as_completionTokens s,
             total_tokens = as_promptTokens s + as_completionTokens s\<rparr>]
        else []))"

definition anthropic_event :: "stream_context \<Rightarrow> SSEEvent \<Rightarrow> anthropic_stream \<Rightarrow> anthropic_stream stream_step" where
  "anthropic_event C e s =
     (if sse_data e = [] then Goes_on [] s
      else (case record_of (safeJsonParse (sse_data e)) of
        None \<Rightarrow> Goes_on [] s
      | Some evt \<Rightarrow>
          (let t = event_type evt e in
           if t = ''message_start'' then on_message_start C evt s
           else if t = ''content_block_start'' then on_block_start C evt s
           else if t = ''content_block_delta'' then on_block_delta C evt s
           else if t = ''message_delta'' then on_message_delta evt s
           else if t = ''error'' then on_error C evt
           else if t = ''message_stop'' then on_message_stop C s
           else Goes_on [] s)))"

definition anthropic_normaliseStream ::
  "upstream \<Rightarrow> BaseProvider \<Rightarrow> SSEEvent list \<times> thrown option \<Rightarrow> ChatCompletionRequest \<Rightarrow> ChatCompletionChunk yielded" where
  "anthropic_normaliseStream U p body request =
     (let C = request_context U p request
      in case stream_events (anthropic_event C) anthropic_init (fst body) (snd body) of (cs, _, f, _) \<Rightarrow> (cs, f))"

definition anthropic_chatStream :: "upstream \<Rightarrow> BaseProvider \<Rightarrow> ChatCompletionRequest \<Rightarrow> ChatCompletionChunk yielded" where
  "anthropic_chatStream U p request =
     (case post_stream U p ''Anthropic'' (anthropic_request p request True) of
        Inl e \<Rightarrow> ([], Some e)
      | Inr body \<Rightarrow> anthropic_normaliseStream U p body request)"

section \<open>Turns alternate and nothing is lost\<close>

text \<open>The author, the blocks and the system text of a message.\<close>

fun message_author :: "ChatMessage \<Rightarrow> turn_role" where
  "message_author (AssistantMessage c nm calls) = Assistant_turn"
| "message_author _ = User_turn"

fun message_blocks :: "ChatMessage \<Rightarrow> AnthropicContentBlock list" where
  "message_blocks (SystemMessage c nm) = []"
| "message_blocks (UserMessage c nm) = contentToBlocks c"
| "message_blocks (AssistantMessage c nm calls) = assistant_blocks c calls"
| "message_blocks (ToolMessage c i) = [ToolResultBlock i (flattenText c)]"

fun system_texts :: "ChatMessage \<Rightarrow> string list" where
  "system_texts (SystemMessage c nm) = [flattenText c]"
| "system_texts _ = []"

lemma translate_message_push:
  "translate_message m (sys, ms) = (sys @ system_texts m, push (message_author m) (message_blocks m) ms)"
  by (cases m) (simp_all add: push_def)

interpretation anthropic_turns: conversation am_role am_content push translate_message system_texts message_author message_blocks
  by unfold_locales (auto simp: push_def translate_message_push)


lemma anthropic_step_shaped: "step_shaped C (anthropic_event C e s)"
proof -
  have "step_shaped C (on_message_start C evt s)" "step_shaped C (on_block_start C evt s)"
    "step_shaped C (on_block_delta C evt s)" "step_shaped C (on_message_delta evt s)" "step_shaped C (on_error C evt)" for evt
    by (simp_all add: step_shaped_def chunk_kinds on_message_start_def on_block_start_def on_block_delta_def
        on_message_delta_def on_error_def Let_def split: option.split bool.split)
  moreover have "step_shaped C (on_message_stop C s)"
    unfolding step_shaped_def on_message_stop_def stream_step.case well_shaped_def
    by (rule conjI, simp add: chunk_kinds, rule exI [of _ "[]"]) (simp add: chunk_kinds)
  ultimately show ?thesis
    by (simp add: anthropic_event_def Let_def split: option.split) (simp add: step_shaped_def)
qed

text \<open>The text that events carry, up to the end of the stream, and that chunks deliver.\<close>

definition event_text :: "SSEEvent \<Rightarrow> string" where
  "event_text e =
     (case record_of (safeJsonParse (sse_data e)) of
        Some evt \<Rightarrow>
          if sse_data e \<noteq> [] \<and> event_type evt e = ''content_block_delta'' then
            (case record_of (field evt ''delta'') of
               Some delta \<Rightarrow> if field delta ''type'' = JStr ''text_delta'' then nullish (as_str (field delta ''text'')) [] else []
             | None \<Rightarrow> [])
          else []
      | None \<Rightarrow> [])"

definition terminal_event :: "SSEEvent \<Rightarrow> bool" where
  "terminal_event e =
     (case record_of (safeJsonParse (sse_data e)) of
        Some evt \<Rightarrow> sse_data e \<noteq> [] \<and> event_type evt e \<in> {''error'', ''message_stop''}
      | None \<Rightarrow> False)"

lemma anthropic_step_text:
  "case anthropic_event C e s of
     Goes_on cs s1 \<Rightarrow> concat (map chunk_text cs) = event_text e \<and> \<not> terminal_event e
   | Ends cs \<Rightarrow> concat (map chunk_text cs) = [] \<and> terminal_event e
   | Throws x \<Rightarrow> terminal_event e"
  by (auto simp: anthropic_event_def event_text_def terminal_event_def chunk_text_def make_chunk_defs on_message_start_def
      on_block_start_def on_block_delta_def on_message_delta_def on_error_def on_message_stop_def Let_def
      split: option.split bool.split)

interpretation anthropic: stream_normaliser C "anthropic_event C" event_text terminal_event for C
  by unfold_locales (rule anthropic_step_shaped, rule anthropic_step_text)

text \<open>
  C24. Every stream of Anthropic events becomes a well-shaped OpenAI stream that carries the same
  text.  Whatever the events are, all chunks bear the id, the time and the model of the request;
  deltas come first, then at most one chunk with a finish reason, then, when the client asked
  for it, the usage; and the text of the chunks is the text of the events before the end,
  in order.
\<close>

theorem anthropic_stream_sound:
  "well_shaped (request_context U p request) (fst (anthropic_normaliseStream U p body request)) \<and>
   concat (map chunk_text (fst (anthropic_normaliseStream U p body request))) =
     concat (map event_text (takeWhile (\<lambda>e. \<not> terminal_event e) (fst body)))"
proof -
  let ?C = "request_context U p request"
  have "fst (anthropic_normaliseStream U p body request) =
      fst (stream_events (anthropic_event ?C) anthropic_init (fst body) (snd body))"
    by (simp add: anthropic_normaliseStream_def Let_def split: prod.split)
  then show ?thesis
    using anthropic.events_shaped [of ?C anthropic_init "fst body" "snd body"]
      anthropic.events_text [of ?C anthropic_init "fst body" "snd body"] by simp
qed

text \<open>
  A body that just ends, before \<open>message_stop\<close>, ends the stream without an error and without a
  finish chunk: the client cannot tell it from a complete answer.
\<close>

lemma anthropic_truncated_unfinished:
  "list_all (\<lambda>e. \<not> terminal_event e) events \<Longrightarrow>
    filter finish_chunk (fst (anthropic_normaliseStream U p (events, None) request)) = [] \<and>
    snd (anthropic_normaliseStream U p (events, None) request) = None"
  using anthropic.events_unfinished [of events "request_context U p request" anthropic_init None]
  by (auto simp: anthropic_normaliseStream_def Let_def no_finish_in_deltas split: prod.split)

end
