(* ===== verification/Gemini.thy ===== *)
theory Gemini
  imports Adapter_Common
begin

text \<open>
  The Gemini adapter (\<open>src/providers/gemini.ts\<close>): turns of parts, function calls and responses
  by name, the generation configuration, answers, embeddings and the event stream.
\<close>

definition GEMINI_DEFAULT_MAX_TOKENS :: int where "GEMINI_DEFAULT_MAX_TOKENS = 4096"

section \<open>Wire types\<close>

datatype GeminiPart =
    PText string
  | PInlineData string string
  | PFunctionCall string json
  | PFunctionResponse string string

datatype gemini_role = G_user | G_model

record GeminiContent =
  gc_role :: gemini_role
  gc_parts :: "GeminiPart list"

record gemini_config =
  gg_temperature :: "decimal option"
  gg_topP :: "decimal option"
  gg_maxOutputTokens :: int
  gg_stopSequences :: "string list option"

datatype gemini_mode = Mode_AUTO | Mode_ANY | Mode_NONE

record GeminiRequestBody =
  gb_contents :: "GeminiContent list"
  gb_systemInstruction :: "GeminiPart list option"
  gb_generationConfig :: gemini_config
  gb_tools :: "ToolDefinition list option"
  gb_toolConfig :: "(gemini_mode \<times> string list option) option"

section \<open>Pure helpers\<close>

definition newToolCallId :: "string \<Rightarrow> string" where
  "newToolCallId uuid = ''call_'' @ take 24 (filter (\<lambda>c. c \<noteq> CHR ''-'') uuid)"

definition gemini_mapFinishReason :: "string option \<Rightarrow> bool \<Rightarrow> FinishReason" where
  "gemini_mapFinishReason reason sawToolUse =
     (if sawToolUse then Finish_tool_calls
      else if reason = Some ''MAX_TOKENS'' then Finish_length
      else if reason = Some ''SAFETY'' \<or> reason = Some ''RECITATION'' then Finish_content_filter
      else Finish_stop)"

fun translateToolConfig :: "ToolChoice option \<Rightarrow> (gemini_mode \<times> string list option) option" where
  "translateToolConfig None = None"
| "translateToolConfig (Some Choice_none) = Some (Mode_NONE, None)"
| "translateToolConfig (Some Choice_auto) = Some (Mode_AUTO, None)"
| "translateToolConfig (Some Choice_required) = Some (Mode_ANY, None)"
| "translateToolConfig (Some (Choice_function n)) = Some (Mode_ANY, Some [n])"

definition no_usage :: CompletionUsage where
  "no_usage = \<lparr>prompt_tokens = 0, completion_tokens = 0, total_tokens = 0\<rparr>"

definition gemini_readUsage :: "json \<Rightarrow> CompletionUsage" where
  "gemini_readUsage usageMetadata =
     (case record_of usageMetadata of
        None \<Rightarrow> no_usage
      | Some ps \<Rightarrow>
          (let prompt = nullish (as_int (field ps ''promptTokenCount'')) 0;
               completion = nullish (as_int (field ps ''candidatesTokenCount'')) 0 + nullish (as_int (field ps ''thoughtsTokenCount'')) 0
           in \<lparr>prompt_tokens = prompt, completion_tokens = completion,
               total_tokens = nullish (as_int (field ps ''totalTokenCount'')) (prompt + completion)\<rparr>))"

fun partToGeminiPart :: "ContentPart \<Rightarrow> GeminiPart" where
  "partToGeminiPart (TextPart w) = PText w"
| "partToGeminiPart (ImagePart url detail) =
     (case match_data_url url of
        Some (media, payload) \<Rightarrow> PInlineData media payload
      | None \<Rightarrow> PText (''[image] '' @ url))"

fun contentToParts :: "MessageContent \<Rightarrow> GeminiPart list" where
  "contentToParts (ContentText w) = (if length w > 0 then [PText w] else [])"
| "contentToParts (ContentParts parts) = map partToGeminiPart parts"

fun textParts :: "MessageContent \<Rightarrow> GeminiPart list" where
  "textParts (ContentText w) = (if length w > 0 then [PText w] else [])"
| "textParts (ContentParts parts) = map PText (List.map_filter part_text parts)"

text \<open>An array is a record for \<open>isRecord\<close>, so it is passed on.\<close>

definition asRecord :: "json \<Rightarrow> json" where
  "asRecord j = (case record_of j of Some ps \<Rightarrow> j | None \<Rightarrow> JObj [])"

section \<open>Request translation\<close>

text \<open>The function that a call id stands for: the last call with that id wins.\<close>

fun calls_of :: "ChatMessage \<Rightarrow> (string \<times> string) list" where
  "calls_of (AssistantMessage c nm calls) = map (\<lambda>c. (tc_id c, tc_name c)) (nullish calls [])"
| "calls_of _ = []"

definition toolNameById :: "ChatMessage list \<Rightarrow> string \<Rightarrow> string option" where
  "toolNameById messages = map_of (rev (concat (map calls_of messages)))"

definition gemini_push :: "gemini_role \<Rightarrow> GeminiPart list \<Rightarrow> GeminiContent list \<Rightarrow> GeminiContent list" where
  "gemini_push role parts contents =
     (if length parts = 0 then contents
      else if contents \<noteq> [] \<and> gc_role (last contents) = role then
        butlast contents @ [(last contents)\<lparr>gc_parts := gc_parts (last contents) @ parts\<rparr>]
      else contents @ [\<lparr>gc_role = role, gc_parts = parts\<rparr>])"

definition call_part :: "ToolCall \<Rightarrow> GeminiPart" where
  "call_part c = PFunctionCall (tc_name c) (asRecord (safeJsonParse (tc_arguments c)))"

definition model_parts :: "MessageContent option option \<Rightarrow> ToolCall list option \<Rightarrow> GeminiPart list" where
  "model_parts content calls =
     (case content of Some (Some c) \<Rightarrow> textParts c | _ \<Rightarrow> []) @ map call_part (nullish calls [])"

fun gemini_message ::
  "(string \<Rightarrow> string option) \<Rightarrow> ChatMessage \<Rightarrow> GeminiPart list \<times> GeminiContent list \<Rightarrow> GeminiPart list \<times> GeminiContent list" where
  "gemini_message names (SystemMessage c nm) (systemParts, contents) = (systemParts @ [PText (flattenText c)], contents)"
| "gemini_message names (UserMessage c nm) (systemParts, contents) = (systemParts, gemini_push G_user (contentToParts c) contents)"
| "gemini_message names (AssistantMessage c nm calls) (systemParts, contents) =
     (systemParts, gemini_push G_model (model_parts c calls) contents)"
| "gemini_message names (ToolMessage c i) (systemParts, contents) =
     (systemParts, gemini_push G_user [PFunctionResponse (nullish (names i) i) (flattenText c)] contents)"

definition buildGenerationConfig :: "BaseProvider \<Rightarrow> ChatCompletionRequest \<Rightarrow> gemini_config" where
  "buildGenerationConfig p request =
     \<lparr>gg_temperature = rq_temperature request, gg_topP = rq_top_p request,
      gg_maxOutputTokens = nullish (nullish_opt (nullish_opt (rq_max_completion_tokens request) (rq_max_tokens request))
        (Option.bind (getModel p (rq_model request)) mi_maxOutputTokens)) GEMINI_DEFAULT_MAX_TOKENS,
      gg_stopSequences = map_option (\<lambda>s. case s of StopText w \<Rightarrow> [w] | StopList ws \<Rightarrow> ws) (rq_stop request)\<rparr>"

definition gemini_translateRequest :: "BaseProvider \<Rightarrow> ChatCompletionRequest \<Rightarrow> GeminiRequestBody" where
  "gemini_translateRequest p request =
     (let (systemParts, contents) = fold (gemini_message (toolNameById (rq_messages request))) (rq_messages request) ([], []);
          with_tools = (case rq_tools request of None \<Rightarrow> False | Some ts \<Rightarrow> length ts > 0)
      in \<lparr>gb_contents = contents,
          gb_systemInstruction = (if length systemParts > 0 then Some systemParts else None),
          gb_generationConfig = buildGenerationConfig p request,
          gb_tools = (if with_tools then rq_tools request else None),
          gb_toolConfig = (if with_tools then translateToolConfig (rq_tool_choice request) else None)\<rparr>)"

fun part_to_json :: "GeminiPart \<Rightarrow> json" where
  "part_to_json (PText w) = JObj [(''text'', JStr w)]"
| "part_to_json (PInlineData m d) = JObj [(''inlineData'', JObj [(''mimeType'', JStr m), (''data'', JStr d)])]"
| "part_to_json (PFunctionCall n a) = JObj [(''functionCall'', JObj [(''name'', JStr n), (''args'', a)])]"
| "part_to_json (PFunctionResponse n c) =
     JObj [(''functionResponse'', JObj [(''name'', JStr n), (''response'', JObj [(''content'', JStr c)])])]"

definition gemini_content_json :: "GeminiContent \<Rightarrow> json" where
  "gemini_content_json c = JObj
     [(''role'', JStr (case gc_role c of G_user \<Rightarrow> ''user'' | G_model \<Rightarrow> ''model'')),
      (''parts'', JArr (map part_to_json (gc_parts c)))]"

definition declaration_json :: "ToolDefinition \<Rightarrow> json" where
  "declaration_json t = JObj ([(''name'', JStr (td_name t))] @ or_absent ''description'' JStr (td_description t)
     @ or_absent ''parameters'' JObj (td_parameters t))"

definition tool_config_json :: "gemini_mode \<times> string list option \<Rightarrow> json" where
  "tool_config_json mc = JObj [(''functionCallingConfig'', JObj
     ([(''mode'', JStr (case fst mc of Mode_AUTO \<Rightarrow> ''AUTO'' | Mode_ANY \<Rightarrow> ''ANY'' | Mode_NONE \<Rightarrow> ''NONE''))]
      @ or_absent ''allowedFunctionNames'' (\<lambda>ns. JArr (map JStr ns)) (snd mc)))]"

definition gemini_config_json :: "gemini_config \<Rightarrow> json" where
  "gemini_config_json c = JObj
     (or_absent ''temperature'' dec_json (gg_temperature c)
      @ or_absent ''topP'' dec_json (gg_topP c)
      @ [(''maxOutputTokens'', int_json (gg_maxOutputTokens c))]
      @ or_absent ''stopSequences'' (\<lambda>ws. JArr (map JStr ws)) (gg_stopSequences c))"

definition gemini_body_json :: "GeminiRequestBody \<Rightarrow> json" where
  "gemini_body_json b = JObj
     ([(''contents'', JArr (map gemini_content_json (gb_contents b)))]
      @ or_absent ''systemInstruction'' (\<lambda>ps. JObj [(''parts'', JArr (map part_to_json ps))]) (gb_systemInstruction b)
      @ [(''generationConfig'', gemini_config_json (gb_generationConfig b))]
      @ or_absent ''tools'' (\<lambda>ts. JArr [JObj [(''functionDeclarations'', JArr (map declaration_json ts))]]) (gb_tools b)
      @ or_absent ''toolConfig'' tool_config_json (gb_toolConfig b))"

definition gemini_headers :: "BaseProvider \<Rightarrow> (string \<times> string) list" where
  "gemini_headers p = [(''content-type'', ''application/json''), (''x-goog-api-key'', p_apiKey p)]"

definition gemini_request :: "BaseProvider \<Rightarrow> string \<Rightarrow> string \<Rightarrow> json \<Rightarrow> http_request" where
  "gemini_request p model operation body =
     \<lparr>hq_url = joinUrl (p_baseUrl p) (''/v1beta/models/'' @ model @ operation), hq_headers = gemini_headers p,
      hq_body = stringify body\<rparr>"

section \<open>Answers\<close>

definition shapeError :: "BaseProvider \<Rightarrow> thrown" where
  "shapeError p = provider_error p ''Gemini returned an unexpected response shape.'' 502 (Some True)"

definition parts_of :: "json \<Rightarrow> json list" where
  "parts_of content = (case record_of content of
     Some ps \<Rightarrow> (case field ps ''parts'' of JArr xs \<Rightarrow> xs | _ \<Rightarrow> []) | None \<Rightarrow> [])"

definition call_arguments :: "(string \<times> json) list \<Rightarrow> string" where
  "call_arguments fc = stringify (case field fc ''args'' of JNull \<Rightarrow> JObj [] | v \<Rightarrow> v)"

text \<open>The texts and the calls of the parts; \<open>k\<close> is the number of calls so far.\<close>

fun extractParts :: "(nat \<Rightarrow> string) \<Rightarrow> nat \<Rightarrow> json list \<Rightarrow> string \<times> ToolCall list" where
  "extractParts uuid k [] = ([], [])"
| "extractParts uuid k (part # parts) =
     (case record_of part of
        None \<Rightarrow> extractParts uuid k parts
      | Some ps \<Rightarrow>
          (case field ps ''text'' of
             JStr w \<Rightarrow> (case extractParts uuid k parts of (text', calls) \<Rightarrow> (w @ text', calls))
           | _ \<Rightarrow>
               (case record_of (field ps ''functionCall'') of
                  Some fc \<Rightarrow>
                    (case extractParts uuid (k + 1) parts of (text', calls) \<Rightarrow>
                       (text', \<lparr>tc_id = newToolCallId (uuid k),
                                tc_name = nullish (as_str (field fc ''name'')) (''tool_'' @ show_nat k),
                                tc_arguments = call_arguments fc\<rparr> # calls))
                | None \<Rightarrow> extractParts uuid k parts)))"

definition gemini_candidate :: "(string \<times> json) list \<Rightarrow> (string \<times> json) list option" where
  "gemini_candidate ps = record_of (firstElement (field ps ''candidates''))"

definition gemini_translateResponse ::
  "upstream \<Rightarrow> BaseProvider \<Rightarrow> json \<Rightarrow> ChatCompletionRequest \<Rightarrow> (thrown, ChatCompletionResponse) result" where
  "gemini_translateResponse U p raw request =
     (case record_of raw of
        None \<Rightarrow> Inl (shapeError p)
      | Some ps \<Rightarrow>
          (let candidate = gemini_candidate ps;
               (text', toolCalls) = extractParts (up_uuid U) 0 (case candidate of Some c \<Rightarrow> parts_of (field c ''content'') | None \<Rightarrow> []);
               finishReason = (case candidate of Some c \<Rightarrow> as_str (field c ''finishReason'') | None \<Rightarrow> None)
           in Inr \<lparr>rs_id = createCompletionId (up_uuid U (length toolCalls)), rs_created = nowUnixSeconds (up_now U),
                rs_model = rq_model request,
                rs_choices = [\<lparr>ch_index = 0, ch_content = (if length text' > 0 then Some text' else None),
                  ch_tool_calls = (if length toolCalls > 0 then Some toolCalls else None),
                  ch_finish_reason = Some (gemini_mapFinishReason finishReason (length toolCalls > 0))\<rparr>],
                rs_usage = gemini_readUsage (field ps ''usageMetadata''),
                rs_system_fingerprint = None\<rparr>))"

definition gemini_chat :: "upstream \<Rightarrow> BaseProvider \<Rightarrow> ChatCompletionRequest \<Rightarrow> (thrown, ChatCompletionResponse) result" where
  "gemini_chat U p request =
     (case post_json U p (gemini_request p (rq_model request) '':generateContent'' (gemini_body_json (gemini_translateRequest p request))) of
        Inl e \<Rightarrow> Inl e
      | Inr raw \<Rightarrow> gemini_translateResponse U p raw request)"

section \<open>Embeddings\<close>

definition gemini_embedding_body :: "EmbeddingRequest \<Rightarrow> json" where
  "gemini_embedding_body request = JObj [(''requests'', JArr (map (\<lambda>w. JObj
     ([(''model'', JStr (''models/'' @ eq_model request)),
       (''content'', JObj [(''parts'', JArr [JObj [(''text'', JStr w)]])])]
      @ or_absent ''outputDimensionality'' int_json (eq_dimensions request)))
     (embeddingInputToStrings (eq_input request))))]"

definition gemini_translateEmbedding ::
  "'e tiktoken \<Rightarrow> BaseProvider \<Rightarrow> json \<Rightarrow> EmbeddingRequest \<Rightarrow> 'e encoder_cache
     \<Rightarrow> (thrown, EmbeddingResponse) result \<times> 'e encoder_cache" where
  "gemini_translateEmbedding T p raw request cache =
     (case (case record_of raw of Some ps \<Rightarrow> as_arr (field ps ''embeddings'') | None \<Rightarrow> None) of
        None \<Rightarrow> (Inl (shapeError p), cache)
      | Some entries \<Rightarrow>
          (case count_texts T (eq_model request) (embeddingInputToStrings (eq_input request)) 0 cache of
             (promptTokens, cache') \<Rightarrow>
               (Inr \<lparr>er_data = map (\<lambda>(i, entry). embedding_item i
                       (case record_of entry of Some es \<Rightarrow> field es ''values'' | None \<Rightarrow> JNull)) (enumerate 0 entries),
                     er_model = eq_model request, er_prompt_tokens = promptTokens, er_total_tokens = promptTokens\<rparr>, cache')))"

definition gemini_embed ::
  "upstream \<Rightarrow> 'e tiktoken \<Rightarrow> BaseProvider \<Rightarrow> EmbeddingRequest \<Rightarrow> 'e encoder_cache
     \<Rightarrow> (thrown, EmbeddingResponse) result \<times> 'e encoder_cache" where
  "gemini_embed U T p request cache =
     (case post_json U p (gemini_request p (eq_model request) '':batchEmbedContents'' (gemini_embedding_body request)) of
        Inl e \<Rightarrow> (Inl e, cache)
      | Inr raw \<Rightarrow> gemini_translateEmbedding T p raw request cache)"

section \<open>Streams\<close>

record gemini_stream =
  gs_roleEmitted :: bool
  gs_sawToolUse :: bool
  gs_toolIndex :: nat
  gs_finishReason :: "string option"
  gs_usage :: CompletionUsage

definition gemini_init :: gemini_stream where
  "gemini_init = \<lparr>gs_roleEmitted = False, gs_sawToolUse = False, gs_toolIndex = 0, gs_finishReason = None, gs_usage = no_usage\<rparr>"

definition gemini_role :: "stream_context \<Rightarrow> gemini_stream \<Rightarrow> ChatCompletionChunk list" where
  "gemini_role C s = (if gs_roleEmitted s then [] else [makeRoleChunk (sc_id C) (sc_created C) (sc_model C)])"

text \<open>One part of a candidate; the UUID of the completion id was drawn before those of the calls.\<close>

definition gemini_part ::
  "stream_context \<Rightarrow> (nat \<Rightarrow> string) \<Rightarrow> json \<Rightarrow> gemini_stream \<Rightarrow> ChatCompletionChunk list \<times> gemini_stream" where
  "gemini_part C uuid part s =
     (case record_of part of
        None \<Rightarrow> ([], s)
      | Some ps \<Rightarrow>
          (let role = gemini_role C s; s1 = s\<lparr>gs_roleEmitted := True\<rparr> in
           case field ps ''text'' of
             JStr w \<Rightarrow> (role @ [makeContentChunk (sc_id C) (sc_created C) (sc_model C) w], s1)
           | _ \<Rightarrow>
               (case record_of (field ps ''functionCall'') of
                  Some fc \<Rightarrow>
                    (let k = gs_toolIndex s1 in
                     (role @ [makeToolCallChunk (sc_id C) (sc_created C) (sc_model C)
                        \<lparr>dt_index = int k, dt_id = Some (newToolCallId (uuid (k + 1))), dt_has_type = True,
                         dt_name = Some (nullish (as_str (field fc ''name'')) (''tool_'' @ show_nat k)),
                         dt_arguments = Some (call_arguments fc)\<rparr>],
                      s1\<lparr>gs_sawToolUse := True, gs_toolIndex := k + 1\<rparr>))
                | None \<Rightarrow> (role, s1))))"

fun gemini_parts ::
  "stream_context \<Rightarrow> (nat \<Rightarrow> string) \<Rightarrow> json list \<Rightarrow> gemini_stream \<Rightarrow> ChatCompletionChunk list \<times> gemini_stream" where
  "gemini_parts C uuid [] s = ([], s)"
| "gemini_parts C uuid (part # parts) s =
     (case gemini_part C uuid part s of (cs, s1) \<Rightarrow>
        (case gemini_parts C uuid parts s1 of (cs', s2) \<Rightarrow> (cs @ cs', s2)))"

definition gemini_event :: "stream_context \<Rightarrow> (nat \<Rightarrow> string) \<Rightarrow> SSEEvent \<Rightarrow> gemini_stream \<Rightarrow> gemini_stream stream_step" where
  "gemini_event C uuid e s =
     (if sse_data e = [] then Goes_on [] s
      else (case record_of (safeJsonParse (sse_data e)) of
        None \<Rightarrow> Goes_on [] s
      | Some parsed \<Rightarrow>
          (let u = gemini_readUsage (field parsed ''usageMetadata'');
               s1 = (if total_tokens u > 0 then s\<lparr>gs_usage := u\<rparr> else s)
           in case gemini_candidate parsed of
                None \<Rightarrow> Goes_on [] s1
              | Some candidate \<Rightarrow>
                  (let s2 = (case field candidate ''finishReason'' of JStr r \<Rightarrow> s1\<lparr>gs_finishReason := Some r\<rparr> | _ \<Rightarrow> s1) in
                   case gemini_parts C uuid (parts_of (field candidate ''content'')) s2 of (cs, s3) \<Rightarrow> Goes_on cs s3))))"

definition gemini_close :: "stream_context \<Rightarrow> gemini_stream \<Rightarrow> ChatCompletionChunk list" where
  "gemini_close C s =
     gemini_role C s @
     makeFinishChunk (sc_id C) (sc_created C) (sc_model C) (gemini_mapFinishReason (gs_finishReason s) (gs_sawToolUse s)) #
     (if sc_wantUsage C then [makeUsageChunk (sc_id C) (sc_created C) (sc_model C) (gs_usage s)] else [])"

definition gemini_normaliseStream ::
  "upstream \<Rightarrow> BaseProvider \<Rightarrow> SSEEvent list \<times> thrown option \<Rightarrow> ChatCompletionRequest \<Rightarrow> ChatCompletionChunk yielded" where
  "gemini_normaliseStream U p body request =
     (let C = request_context U p request in
      closing_stream (gemini_event C (up_uuid U)) (gemini_close C) gemini_init body)"

definition gemini_chatStream :: "upstream \<Rightarrow> BaseProvider \<Rightarrow> ChatCompletionRequest \<Rightarrow> ChatCompletionChunk yielded" where
  "gemini_chatStream U p request =
     (case post_stream U p ''Gemini'' (gemini_request p (rq_model request) '':streamGenerateContent?alt=sse''
        (gemini_body_json (gemini_translateRequest p request))) of
        Inl e \<Rightarrow> ([], Some e)
      | Inr body \<Rightarrow> gemini_normaliseStream U p body request)"

section \<open>Turns alternate and nothing is lost\<close>

fun gemini_author :: "ChatMessage \<Rightarrow> gemini_role" where
  "gemini_author (AssistantMessage c nm calls) = G_model"
| "gemini_author _ = G_user"

fun message_parts :: "(string \<Rightarrow> string option) \<Rightarrow> ChatMessage \<Rightarrow> GeminiPart list" where
  "message_parts names (SystemMessage c nm) = []"
| "message_parts names (UserMessage c nm) = contentToParts c"
| "message_parts names (AssistantMessage c nm calls) = model_parts c calls"
| "message_parts names (ToolMessage c i) = [PFunctionResponse (nullish (names i) i) (flattenText c)]"

fun system_parts :: "ChatMessage \<Rightarrow> GeminiPart list" where
  "system_parts (SystemMessage c nm) = [PText (flattenText c)]"
| "system_parts _ = []"

lemma gemini_message_push:
  "gemini_message names m (sys, ms) = (sys @ system_parts m, gemini_push (gemini_author m) (message_parts names m) ms)"
  by (cases m) (simp_all add: gemini_push_def)

interpretation gemini_turns: conversation gc_role gc_parts gemini_push "gemini_message names" system_parts gemini_author
    "message_parts names" for names
  by unfold_locales (auto simp: gemini_push_def gemini_message_push)

text \<open>
  The translated conversation satisfies the Gemini API and loses nothing.  Turns are never
  empty and strictly alternate, and read in order they hold exactly the parts of the client's
  messages, each in the turn of its author; system instructions are apart, in order.
\<close>

theorem gemini_turns_exact:
  "alternating gc_role gc_parts (gb_contents (gemini_translateRequest p request)) \<and>
   spoken gc_role gc_parts (gb_contents (gemini_translateRequest p request)) =
     concat (map (\<lambda>m. map (Pair (gemini_author m)) (message_parts (toolNameById (rq_messages request)) m)) (rq_messages request)) \<and>
   gb_systemInstruction (gemini_translateRequest p request) =
     (let parts = concat (map system_parts (rq_messages request)) in if parts = [] then None else Some parts)"
  using gemini_turns.messages_spec [OF alternating_Nil, of "toolNameById (rq_messages request)" "rq_messages request" "[]"]
  by (auto simp: gemini_translateRequest_def Let_def)

section \<open>Streams\<close>

text \<open>The texts of the parts of an event.\<close>

definition json_part_text :: "json \<Rightarrow> string" where
  "json_part_text part = (case record_of part of Some ps \<Rightarrow> nullish (as_str (field ps ''text'')) [] | None \<Rightarrow> [])"

definition gemini_event_text :: "SSEEvent \<Rightarrow> string" where
  "gemini_event_text e =
     (case Option.bind (if sse_data e = [] then None else record_of (safeJsonParse (sse_data e))) gemini_candidate of
        Some candidate \<Rightarrow> concat (map json_part_text (parts_of (field candidate ''content'')))
      | None \<Rightarrow> [])"

lemma gemini_part_spec:
  "gemini_part C uuid part s = (cs, s') \<Longrightarrow>
    list_all delta_chunk cs \<and> list_all (of_stream C) cs \<and> concat (map chunk_text cs) = json_part_text part"
  by (auto simp: gemini_part_def gemini_role_def json_part_text_def Let_def chunk_kinds chunk_text_def
      split: option.splits json.splits if_splits)

lemma gemini_parts_spec:
  "gemini_parts C uuid parts s = (cs, s') \<Longrightarrow>
    list_all delta_chunk cs \<and> list_all (of_stream C) cs \<and> concat (map chunk_text cs) = concat (map json_part_text parts)"
proof (induction parts arbitrary: s cs)
  case (Cons part parts)
  then show ?case by (auto simp: gemini_part_spec split: prod.splits)
qed simp

lemma gemini_event_spec:
  "\<exists>cs s'. gemini_event C uuid e s = Goes_on cs s' \<and> list_all delta_chunk cs \<and> list_all (of_stream C) cs \<and>
     concat (map chunk_text cs) = gemini_event_text e"
  by (auto simp: gemini_event_def gemini_event_text_def Let_def gemini_parts_spec split: option.split prod.split)

lemma gemini_close_spec:
  "well_shaped C (gemini_close C s)" "length (filter finish_chunk (gemini_close C s)) = 1"
  "concat (map chunk_text (gemini_close C s)) = []"
proof -
  show "well_shaped C (gemini_close C s)"
    unfolding well_shaped_def gemini_close_def
    by (rule conjI, simp add: chunk_kinds gemini_role_def, rule exI [of _ "gemini_role C s"])
      (auto simp: chunk_kinds gemini_role_def)
  show "length (filter finish_chunk (gemini_close C s)) = 1" "concat (map chunk_text (gemini_close C s)) = []"
    by (simp_all add: gemini_close_def gemini_role_def chunk_kinds chunk_text_def)
qed

interpretation gemini: closing_normaliser C "gemini_event C uuid" gemini_event_text "\<lambda>e. False" "gemini_close C" for C uuid
  by (rule closing_normaliserI) (rule gemini_event_spec gemini_close_spec)+

text \<open>
  C25. Every stream of Gemini events becomes a well-shaped OpenAI stream with the same text.  A
  body that ends without an error gives exactly one finish chunk, whatever it held, and one
  that fails ends with its error and without a finish chunk.
\<close>

theorem gemini_stream_sound:
  "well_shaped (request_context U p request) (fst (gemini_normaliseStream U p body request)) \<and>
   concat (map chunk_text (fst (gemini_normaliseStream U p body request))) = concat (map gemini_event_text (fst body)) \<and>
   snd (gemini_normaliseStream U p body request) = snd body \<and>
   length (filter finish_chunk (fst (gemini_normaliseStream U p body request))) = (if snd body = None then 1 else 0)"
  unfolding gemini_normaliseStream_def Let_def by (rule gemini.stream_sound)

end
