(* ===== verification/Cohere.thy ===== *)
theory Cohere
  imports Adapter_Common
begin

text \<open>
  The Cohere adapter (\<open>src/providers/cohere.ts\<close>): the Chat API v2, its embeddings and its
  event stream.
\<close>

definition DEFAULT_EMBED_INPUT_TYPE :: string where "DEFAULT_EMBED_INPUT_TYPE = ''search_document''"

section \<open>Request translation\<close>

fun cohere_part :: "ContentPart \<Rightarrow> json" where
  "cohere_part (TextPart w) = JObj [(''type'', JStr ''text''), (''text'', JStr w)]"
| "cohere_part (ImagePart url detail) =
     JObj [(''type'', JStr ''image_url''), (''image_url'', JObj [(''url'', JStr url)])]"

fun contentToCohere :: "MessageContent \<Rightarrow> json" where
  "contentToCohere (ContentText w) = JStr w"
| "contentToCohere (ContentParts parts) = JArr (map cohere_part parts)"

definition cohere_call :: "ToolCall \<Rightarrow> json" where
  "cohere_call c = JObj [(''id'', JStr (tc_id c)), (''type'', JStr ''function''),
     (''function'', JObj [(''name'', JStr (tc_name c)), (''arguments'', JStr (tc_arguments c))])]"

definition content_text :: "MessageContent option option \<Rightarrow> string" where
  "content_text content = (case content of Some (Some c) \<Rightarrow> flattenText c | _ \<Rightarrow> [])"

fun cohere_message :: "ChatMessage \<Rightarrow> (string \<times> json) list" where
  "cohere_message (SystemMessage c nm) = [(''role'', JStr ''system''), (''content'', contentToCohere c)]"
| "cohere_message (UserMessage c nm) = [(''role'', JStr ''user''), (''content'', contentToCohere c)]"
| "cohere_message (AssistantMessage c nm calls) =
     [(''role'', JStr ''assistant'')]
     @ (if length (content_text c) > 0
        then [(''content'', JArr [JObj [(''type'', JStr ''text''), (''text'', JStr (content_text c))]])] else [])
     @ (if length (nullish calls []) > 0 then [(''tool_calls'', JArr (map cohere_call (nullish calls [])))] else [])"
| "cohere_message (ToolMessage c i) =
     [(''role'', JStr ''tool''), (''tool_call_id'', JStr i), (''content'', JStr (flattenText c))]"

text \<open>Cohere selects tools by itself unless told otherwise and cannot be made to call a given one.\<close>

fun cohere_translateToolChoice :: "ToolChoice option \<Rightarrow> string option" where
  "cohere_translateToolChoice None = None"
| "cohere_translateToolChoice (Some Choice_auto) = None"
| "cohere_translateToolChoice (Some Choice_none) = Some ''NONE''"
| "cohere_translateToolChoice (Some _) = Some ''REQUIRED''"

definition cohere_translateRequest :: "ChatCompletionRequest \<Rightarrow> bool \<Rightarrow> (string \<times> json) list" where
  "cohere_translateRequest request stream =
     (let with_tools = length (nullish (rq_tools request) []) > 0 in
      [(''model'', JStr (rq_model request)),
       (''messages'', JArr (map (\<lambda>m. JObj (cohere_message m)) (rq_messages request))),
       (''stream'', JBool stream)]
      @ or_absent ''temperature'' dec_json (rq_temperature request)
      @ or_absent ''p'' dec_json (rq_top_p request)
      @ or_absent ''max_tokens'' int_json (nullish_opt (rq_max_completion_tokens request) (rq_max_tokens request))
      @ or_absent ''stop_sequences'' (\<lambda>s. JArr (map JStr (case s of StopText w \<Rightarrow> [w] | StopList ws \<Rightarrow> ws))) (rq_stop request)
      @ (if with_tools then
           [(''tools'', JArr (map tool_json (nullish (rq_tools request) [])))]
           @ or_absent ''tool_choice'' JStr (cohere_translateToolChoice (rq_tool_choice request))
         else []))"

definition cohere_headers :: "BaseProvider \<Rightarrow> (string \<times> string) list" where
  "cohere_headers p = [(''content-type'', ''application/json''), (''authorization'', ''Bearer '' @ p_apiKey p)]"

definition cohere_request :: "BaseProvider \<Rightarrow> string \<Rightarrow> (string \<times> json) list \<Rightarrow> http_request" where
  "cohere_request p path body =
     \<lparr>hq_url = joinUrl (p_baseUrl p) path, hq_headers = cohere_headers p, hq_body = stringify (JObj body)\<rparr>"

section \<open>Answers\<close>

definition cohere_shapeError :: "BaseProvider \<Rightarrow> thrown" where
  "cohere_shapeError p = provider_error p ''Cohere returned an unexpected response shape.'' 502 (Some True)"

definition cohere_mapFinishReason :: "string option \<Rightarrow> bool \<Rightarrow> FinishReason" where
  "cohere_mapFinishReason reason sawToolUse =
     (if sawToolUse \<or> reason = Some ''TOOL_CALL'' then Finish_tool_calls
      else if reason = Some ''MAX_TOKENS'' then Finish_length
      else if reason = Some ''ERROR_TOXIC'' then Finish_content_filter
      else Finish_stop)"

definition block_text_of :: "json \<Rightarrow> string" where
  "block_text_of block =
     (case record_of block of
        Some ps \<Rightarrow> if field ps ''type'' = JStr ''text'' then nullish (as_str (field ps ''text'')) [] else []
      | None \<Rightarrow> [])"

definition extractText :: "json \<Rightarrow> string" where
  "extractText content =
     (case content of JStr w \<Rightarrow> w | JArr blocks \<Rightarrow> concat (map block_text_of blocks) | _ \<Rightarrow> [])"

definition call_args :: "json \<Rightarrow> string" where
  "call_args v = (case v of JStr w \<Rightarrow> w | JNull \<Rightarrow> stringify (JObj []) | _ \<Rightarrow> stringify v)"

text \<open>\<open>k\<close> counts the UUIDs drawn; a call without an id of its own takes one.\<close>

fun cohere_calls :: "(nat \<Rightarrow> string) \<Rightarrow> nat \<Rightarrow> json list \<Rightarrow> ToolCall list \<times> nat" where
  "cohere_calls uuid k [] = ([], k)"
| "cohere_calls uuid k (call # calls) =
     (case Option.bind (record_of call) (\<lambda>ps. map_option (Pair ps) (record_of (field ps ''function''))) of
        None \<Rightarrow> cohere_calls uuid k calls
      | Some (ps, fn) \<Rightarrow>
          (let (i, k1) = (case field ps ''id'' of JStr w \<Rightarrow> (w, k) | _ \<Rightarrow> (createCompletionId (uuid k), k + 1));
               (rest, k2) = cohere_calls uuid k1 calls
           in (\<lparr>tc_id = i, tc_name = nullish (as_str (field fn ''name'')) [], tc_arguments = call_args (field fn ''arguments'')\<rparr> # rest, k2)))"

definition extractToolCalls :: "(nat \<Rightarrow> string) \<Rightarrow> json \<Rightarrow> ToolCall list \<times> nat" where
  "extractToolCalls uuid toolCalls = (case toolCalls of JArr calls \<Rightarrow> cohere_calls uuid 0 calls | _ \<Rightarrow> ([], 0))"

definition cohere_readUsage :: "json \<Rightarrow> CompletionUsage" where
  "cohere_readUsage usage =
     (let tokens = Option.bind (record_of usage) (\<lambda>ps. record_of (field ps ''tokens''));
          inp = nullish (Option.bind tokens (\<lambda>ps. as_int (field ps ''input_tokens''))) 0;
          out = nullish (Option.bind tokens (\<lambda>ps. as_int (field ps ''output_tokens''))) 0
      in \<lparr>prompt_tokens = inp, completion_tokens = out, total_tokens = inp + out\<rparr>)"

definition cohere_translateResponse ::
  "upstream \<Rightarrow> BaseProvider \<Rightarrow> json \<Rightarrow> ChatCompletionRequest \<Rightarrow> (thrown, ChatCompletionResponse) result" where
  "cohere_translateResponse U p raw request =
     (case record_of raw of
        None \<Rightarrow> Inl (cohere_shapeError p)
      | Some ps \<Rightarrow>
          (let message = nullish (record_of (field ps ''message'')) [];
               text' = extractText (field message ''content'');
               (toolCalls, k) = extractToolCalls (up_uuid U) (field message ''tool_calls'');
               finishReason = as_str (field ps ''finish_reason'')
           in Inr \<lparr>rs_id = nullish (as_str (field ps ''id'')) (createCompletionId (up_uuid U k)), rs_created = nowUnixSeconds (up_now U),
                rs_model = rq_model request,
                rs_choices = [\<lparr>ch_index = 0, ch_content = (if length text' > 0 then Some text' else None),
                  ch_tool_calls = (if length toolCalls > 0 then Some toolCalls else None),
                  ch_finish_reason = Some (cohere_mapFinishReason finishReason (length toolCalls > 0))\<rparr>],
                rs_usage = cohere_readUsage (field ps ''usage''),
                rs_system_fingerprint = None\<rparr>))"

definition cohere_chat :: "upstream \<Rightarrow> BaseProvider \<Rightarrow> ChatCompletionRequest \<Rightarrow> (thrown, ChatCompletionResponse) result" where
  "cohere_chat U p request =
     (case post_json U p (cohere_request p ''/v2/chat'' (cohere_translateRequest request False)) of
        Inl e \<Rightarrow> Inl e
      | Inr raw \<Rightarrow> cohere_translateResponse U p raw request)"

section \<open>Embeddings\<close>

definition cohere_embedding_body :: "EmbeddingRequest \<Rightarrow> (string \<times> json) list" where
  "cohere_embedding_body request =
     [(''model'', JStr (eq_model request)), (''texts'', JArr (map JStr (embeddingInputToStrings (eq_input request)))),
      (''input_type'', JStr DEFAULT_EMBED_INPUT_TYPE), (''embedding_types'', JArr [JStr ''float''])]"

definition cohere_translateEmbedding ::
  "'e tiktoken \<Rightarrow> BaseProvider \<Rightarrow> json \<Rightarrow> EmbeddingRequest \<Rightarrow> 'e encoder_cache
     \<Rightarrow> (thrown, EmbeddingResponse) result \<times> 'e encoder_cache" where
  "cohere_translateEmbedding T p raw request cache =
     (case Option.bind (Option.bind (record_of raw) (\<lambda>ps. record_of (field ps ''embeddings''))) (\<lambda>es. as_arr (field es ''float'')) of
        None \<Rightarrow> (Inl (cohere_shapeError p), cache)
      | Some floats \<Rightarrow>
          (case count_texts T (eq_model request) (embeddingInputToStrings (eq_input request)) 0 cache of
             (promptTokens, cache') \<Rightarrow>
               (Inr \<lparr>er_data = map (\<lambda>(i, v). embedding_item i v) (enumerate 0 floats),
                     er_model = eq_model request, er_prompt_tokens = promptTokens, er_total_tokens = promptTokens\<rparr>, cache')))"

definition cohere_embed ::
  "upstream \<Rightarrow> 'e tiktoken \<Rightarrow> BaseProvider \<Rightarrow> EmbeddingRequest \<Rightarrow> 'e encoder_cache
     \<Rightarrow> (thrown, EmbeddingResponse) result \<times> 'e encoder_cache" where
  "cohere_embed U T p request cache =
     (case post_json U p (cohere_request p ''/v2/embed'' (cohere_embedding_body request)) of
        Inl e \<Rightarrow> (Inl e, cache)
      | Inr raw \<Rightarrow> cohere_translateEmbedding T p raw request cache)"

section \<open>Streams\<close>

record cohere_stream =
  cs_roleEmitted :: bool
  cs_sawToolUse :: bool
  cs_finishReason :: "string option"
  cs_usage :: CompletionUsage

definition cohere_init :: cohere_stream where
  "cohere_init = \<lparr>cs_roleEmitted = False, cs_sawToolUse = False, cs_finishReason = None,
     cs_usage = \<lparr>prompt_tokens = 0, completion_tokens = 0, total_tokens = 0\<rparr>\<rparr>"

definition emitRole :: "stream_context \<Rightarrow> cohere_stream \<Rightarrow> ChatCompletionChunk list" where
  "emitRole C s = (if cs_roleEmitted s then [] else [makeRoleChunk (sc_id C) (sc_created C) (sc_model C)])"

definition readDeltaText :: "(string \<times> json) list option \<Rightarrow> string option" where
  "readDeltaText delta =
     Option.bind (Option.bind (Option.bind delta (\<lambda>ps. record_of (field ps ''message''))) (\<lambda>ms. record_of (field ms ''content'')))
       (\<lambda>cs. as_str (field cs ''text''))"

record delta_call =
  dc_id :: "string option"
  dc_name :: "string option"
  dc_arguments :: "string option"

definition readDeltaToolCall :: "(string \<times> json) list option \<Rightarrow> delta_call option" where
  "readDeltaToolCall delta =
     (let toolCalls = (case Option.bind delta (\<lambda>ps. record_of (field ps ''message'')) of
                         Some ms \<Rightarrow> field ms ''tool_calls'' | None \<Rightarrow> JNull);
          call = (case record_of toolCalls of Some ps \<Rightarrow> Some ps | None \<Rightarrow> record_of (firstElement toolCalls))
      in map_option (\<lambda>ps.
           let fn = record_of (field ps ''function'') in
           \<lparr>dc_id = as_str (field ps ''id''), dc_name = Option.bind fn (\<lambda>fs. as_str (field fs ''name'')),
            dc_arguments = Option.bind fn (\<lambda>fs. as_str (field fs ''arguments''))\<rparr>) call)"

definition on_content_delta :: "stream_context \<Rightarrow> (string \<times> json) list option \<Rightarrow> cohere_stream \<Rightarrow> cohere_stream stream_step" where
  "on_content_delta C delta s =
     (case readDeltaText delta of
        Some w \<Rightarrow> Goes_on (emitRole C s @ [makeContentChunk (sc_id C) (sc_created C) (sc_model C) w]) (s\<lparr>cs_roleEmitted := True\<rparr>)
      | None \<Rightarrow> Goes_on [] s)"

definition on_tool_call_start :: "stream_context \<Rightarrow> int \<Rightarrow> (string \<times> json) list option \<Rightarrow> cohere_stream \<Rightarrow> cohere_stream stream_step" where
  "on_tool_call_start C index delta s =
     (case readDeltaToolCall delta of
        Some call \<Rightarrow>
          Goes_on (emitRole C s @ [makeToolCallChunk (sc_id C) (sc_created C) (sc_model C)
              \<lparr>dt_index = index, dt_id = dc_id call, dt_has_type = True, dt_name = dc_name call,
               dt_arguments = Some (nullish (dc_arguments call) [])\<rparr>])
            (s\<lparr>cs_sawToolUse := True, cs_roleEmitted := True\<rparr>)
      | None \<Rightarrow> Goes_on [] s)"

definition on_tool_call_delta :: "stream_context \<Rightarrow> int \<Rightarrow> (string \<times> json) list option \<Rightarrow> cohere_stream \<Rightarrow> cohere_stream stream_step" where
  "on_tool_call_delta C index delta s =
     (case Option.bind (readDeltaToolCall delta) dc_arguments of
        Some w \<Rightarrow> Goes_on [makeToolCallChunk (sc_id C) (sc_created C) (sc_model C)
          \<lparr>dt_index = index, dt_id = None, dt_has_type = False, dt_name = None, dt_arguments = Some w\<rparr>] s
      | None \<Rightarrow> Goes_on [] s)"

definition on_message_end :: "(string \<times> json) list option \<Rightarrow> cohere_stream \<Rightarrow> cohere_stream stream_step" where
  "on_message_end delta s =
     (let s1 = (case Option.bind delta (\<lambda>ps. as_str (field ps ''finish_reason'')) of
                  Some r \<Rightarrow> s\<lparr>cs_finishReason := Some r\<rparr> | None \<Rightarrow> s);
          u = cohere_readUsage (case delta of Some ps \<Rightarrow> field ps ''usage'' | None \<Rightarrow> JNull)
      in Goes_on [] (if total_tokens u > 0 then s1\<lparr>cs_usage := u\<rparr> else s1))"

definition cohere_event :: "stream_context \<Rightarrow> SSEEvent \<Rightarrow> cohere_stream \<Rightarrow> cohere_stream stream_step" where
  "cohere_event C e s =
     (if sse_data e = [] \<or> sse_data e = ''[DONE]'' then Goes_on [] s
      else (case record_of (safeJsonParse (sse_data e)) of
        None \<Rightarrow> Goes_on [] s
      | Some parsed \<Rightarrow>
          (let t = event_type parsed e;
               delta = record_of (field parsed ''delta'');
               index = nullish (as_int (field parsed ''index'')) 0
           in if t = ''message-start'' then Goes_on (emitRole C s) (s\<lparr>cs_roleEmitted := True\<rparr>)
              else if t = ''content-delta'' then on_content_delta C delta s
              else if t = ''tool-call-start'' then on_tool_call_start C index delta s
              else if t = ''tool-call-delta'' then on_tool_call_delta C index delta s
              else if t = ''message-end'' then on_message_end delta s
              else Goes_on [] s)))"

definition cohere_close :: "stream_context \<Rightarrow> cohere_stream \<Rightarrow> ChatCompletionChunk list" where
  "cohere_close C s =
     emitRole C s @
     makeFinishChunk (sc_id C) (sc_created C) (sc_model C) (cohere_mapFinishReason (cs_finishReason s) (cs_sawToolUse s)) #
     (if sc_wantUsage C then [makeUsageChunk (sc_id C) (sc_created C) (sc_model C) (cs_usage s)] else [])"

definition cohere_normaliseStream ::
  "upstream \<Rightarrow> BaseProvider \<Rightarrow> SSEEvent list \<times> thrown option \<Rightarrow> ChatCompletionRequest \<Rightarrow> ChatCompletionChunk yielded" where
  "cohere_normaliseStream U p body request =
     (let C = request_context U p request in closing_stream (cohere_event C) (cohere_close C) cohere_init body)"

definition cohere_chatStream :: "upstream \<Rightarrow> BaseProvider \<Rightarrow> ChatCompletionRequest \<Rightarrow> ChatCompletionChunk yielded" where
  "cohere_chatStream U p request =
     (case post_stream U p ''Cohere'' (cohere_request p ''/v2/chat'' (cohere_translateRequest request True)) of
        Inl e \<Rightarrow> ([], Some e)
      | Inr body \<Rightarrow> cohere_normaliseStream U p body request)"

section \<open>Streams are sound\<close>

definition cohere_event_text :: "SSEEvent \<Rightarrow> string" where
  "cohere_event_text e =
     (case record_of (if sse_data e \<in> {[], ''[DONE]''} then JNull else safeJsonParse (sse_data e)) of
        Some parsed \<Rightarrow>
          if event_type parsed e = ''content-delta'' then nullish (readDeltaText (record_of (field parsed ''delta''))) [] else []
      | None \<Rightarrow> [])"

lemma cohere_event_spec:
  "\<exists>cs s'. cohere_event C e s = Goes_on cs s' \<and> list_all delta_chunk cs \<and> list_all (of_stream C) cs \<and>
     concat (map chunk_text cs) = cohere_event_text e"
  by (simp add: cohere_event_def cohere_event_text_def Let_def on_content_delta_def on_tool_call_start_def on_tool_call_delta_def
      on_message_end_def emitRole_def chunk_kinds chunk_text_def split: option.split)

lemma cohere_close_spec:
  "well_shaped C (cohere_close C s)" "length (filter finish_chunk (cohere_close C s)) = 1"
  "concat (map chunk_text (cohere_close C s)) = []"
proof -
  show "well_shaped C (cohere_close C s)"
    unfolding well_shaped_def cohere_close_def
    by (rule conjI, simp add: chunk_kinds emitRole_def, rule exI [of _ "emitRole C s"])
      (auto simp: chunk_kinds emitRole_def)
  show "length (filter finish_chunk (cohere_close C s)) = 1" "concat (map chunk_text (cohere_close C s)) = []"
    by (simp_all add: cohere_close_def emitRole_def chunk_kinds chunk_text_def)
qed

interpretation cohere: closing_normaliser C "cohere_event C" cohere_event_text "\<lambda>e. False" "cohere_close C" for C
  by (rule closing_normaliserI) (rule cohere_event_spec cohere_close_spec)+

text \<open>
  C26. Every stream of Cohere events becomes a well-shaped OpenAI stream with the same text.  A
  body that ends without an error gives exactly one finish chunk, whatever it held, and one
  that fails ends with its error and without a finish chunk.
\<close>

theorem cohere_stream_sound:
  "well_shaped (request_context U p request) (fst (cohere_normaliseStream U p body request)) \<and>
   concat (map chunk_text (fst (cohere_normaliseStream U p body request))) = concat (map cohere_event_text (fst body)) \<and>
   snd (cohere_normaliseStream U p body request) = snd body \<and>
   length (filter finish_chunk (fst (cohere_normaliseStream U p body request))) = (if snd body = None then 1 else 0)"
  unfolding cohere_normaliseStream_def Let_def by (rule cohere.stream_sound)

section \<open>Tool calls in array form\<close>

text \<open>
  \<open>isRecord\<close> holds of arrays, so a delta whose tool calls are an array is read as a call without
  an id, a name or arguments, and its first element is never looked at.
\<close>

lemma array_calls_unread:
  "record_of (field ps ''message'') = Some ms \<Longrightarrow> field ms ''tool_calls'' = JArr calls \<Longrightarrow>
    readDeltaToolCall (Some ps) = Some \<lparr>dc_id = None, dc_name = None, dc_arguments = None\<rparr>"
  by (simp add: readDeltaToolCall_def field_def)

end
