(* ===== verification/Crypto.thy ===== *)
theory Crypto
  imports Registry Sse
begin

text \<open>
  Credential encryption (\<open>src/utils/crypto.ts\<close>) and the rotation of the master key
  (\<open>scripts/rotate-encryption-key.ts\<close>).  GCM is a stream cipher with a tag over the nonce and
  the ciphertext; the key stream (AES in counter mode), the tag function and SHA-256 of
  \<open>node:crypto\<close> are parameters, as are the random bytes.  Everything around them, the envelope
  and its base64url segments included, is modelled.
\<close>

type_synonym bytes = "8 word list"

record cipher =
  ci_stream :: "bytes \<Rightarrow> bytes \<Rightarrow> nat \<Rightarrow> 8 word"
  ci_tag :: "bytes \<Rightarrow> bytes \<Rightarrow> bytes \<Rightarrow> nat \<Rightarrow> 8 word"
  ci_sha256 :: "bytes \<Rightarrow> nat \<Rightarrow> 8 word"

definition ENVELOPE_VERSION :: string where "ENVELOPE_VERSION = ''v1''"
definition IV_BYTES :: nat where "IV_BYTES = 12"
definition AUTH_TAG_BYTES :: nat where "AUTH_TAG_BYTES = 16"
definition MASTER_KEY_BYTES :: nat where "MASTER_KEY_BYTES = 32"
definition API_KEY_RANDOM_BYTES :: nat where "API_KEY_RANDOM_BYTES = 16"

section \<open>Encodings of the platform\<close>

text \<open>base64url without padding; the decoder takes both alphabets and skips other characters.\<close>

definition b64_alphabet :: string where
  "b64_alphabet = ''ABCDEFGHIJKLMNOPQRSTUVWXYZabcdefghijklmnopqrstuvwxyz0123456789-_''"

fun sextets :: "nat list \<Rightarrow> nat list" where
  "sextets [] = []"
| "sextets [a] = [a div 4, a mod 4 * 16]"
| "sextets [a, b] = [a div 4, a mod 4 * 16 + b div 16, b mod 16 * 4]"
| "sextets (a # b # c # r) = a div 4 # (a mod 4 * 16 + b div 16) # (b mod 16 * 4 + c div 64) # c mod 64 # sextets r"

fun octets :: "nat list \<Rightarrow> nat list" where
  "octets (s # t # u # v # r) = (s * 4 + t div 16) # (t mod 16 * 16 + u div 4) # (u mod 4 * 64 + v) # octets r"
| "octets [s, t, u] = [s * 4 + t div 16, t mod 16 * 16 + u div 4]"
| "octets [s, t] = [s * 4 + t div 16]"
| "octets _ = []"

definition b64_value :: "char \<Rightarrow> nat option" where
  "b64_value c = (if c = CHR ''+'' then Some 62 else if c = CHR ''/'' then Some 63 else indexOf b64_alphabet c)"

definition to_base64url :: "bytes \<Rightarrow> string" where
  "to_base64url bs = map (\<lambda>n. b64_alphabet ! n) (sextets (map unat bs))"

definition from_base64url :: "string \<Rightarrow> bytes" where
  "from_base64url w = map of_nat (octets (List.map_filter b64_value w))"

text \<open>Hexadecimal text; decoding stops at the first pair that is not one.\<close>

fun to_hex :: "bytes \<Rightarrow> string" where
  "to_hex [] = []"
| "to_hex (b # bs) = hex_digit (unat b div 16) # hex_digit (unat b mod 16) # to_hex bs"

fun from_hex :: "string \<Rightarrow> bytes" where
  "from_hex (c # d # w) =
     (case (hex_value c, hex_value d) of
        (Some h, Some l) \<Rightarrow> of_nat (h * 16 + l) # from_hex w
      | _ \<Rightarrow> [])"
| "from_hex _ = []"

text \<open>\<open>toString('utf8')\<close> of a buffer keeps a leading byte order mark.\<close>

definition utf8_decode :: "bytes \<Rightarrow> string" where
  "utf8_decode bs = (case decode_bytes (idle True) bs of (t, d) \<Rightarrow> t @ decode_flush d)"

section \<open>The cipher\<close>

definition stream_xor :: "cipher \<Rightarrow> bytes \<Rightarrow> bytes \<Rightarrow> bytes \<Rightarrow> bytes" where
  "stream_xor A key iv bs = map (\<lambda>(i, b). xor b (ci_stream A key iv i)) (enumerate 0 bs)"

definition auth_tag :: "cipher \<Rightarrow> bytes \<Rightarrow> bytes \<Rightarrow> bytes \<Rightarrow> bytes" where
  "auth_tag A key iv ct = map (ci_tag A key iv ct) [0..<AUTH_TAG_BYTES]"

definition gcm_open :: "cipher \<Rightarrow> bytes \<Rightarrow> bytes \<Rightarrow> bytes \<Rightarrow> bytes \<Rightarrow> bytes option" where
  "gcm_open A key iv tag ct = (if auth_tag A key iv ct = tag then Some (stream_xor A key iv ct) else None)"

definition sha256 :: "cipher \<Rightarrow> string \<Rightarrow> bytes" where
  "sha256 A w = map (ci_sha256 A (utf8_encode w)) [0..<32]"

section \<open>Encryption and decryption\<close>

definition CryptoError :: "string \<Rightarrow> thrown" where
  "CryptoError msg = TError (plain_error ''CryptoError'' msg)"

definition assertKeyLength :: "bytes \<Rightarrow> (thrown, unit) result" where
  "assertKeyLength key =
     (if length key \<noteq> MASTER_KEY_BYTES
      then Inl (CryptoError (''Key must be '' @ show_nat MASTER_KEY_BYTES @ '' bytes for aes-256-gcm.'')) else Inr ())"

definition masterKey :: "string \<Rightarrow> (thrown, bytes) result" where
  "masterKey hex =
     (let key = from_hex hex in
      if length key \<noteq> MASTER_KEY_BYTES
      then Inl (CryptoError (''ENCRYPTION_KEY must decode to '' @ show_nat MASTER_KEY_BYTES @ '' bytes, got '' @ show_nat (length key) @ ''.''))
      else Inr key)"

definition encrypt :: "cipher \<Rightarrow> bytes \<Rightarrow> string \<Rightarrow> bytes \<Rightarrow> (thrown, string) result" where
  "encrypt A iv plaintext key =
     (case assertKeyLength key of
        Inl e \<Rightarrow> Inl e
      | Inr _ \<Rightarrow>
          (let ciphertext = stream_xor A key iv (utf8_encode plaintext);
               authTag = auth_tag A key iv ciphertext
           in Inr (join ''.'' [ENVELOPE_VERSION, to_base64url iv, to_base64url authTag, to_base64url ciphertext])))"

definition decryption_failed :: thrown where
  "decryption_failed = CryptoError ''Decryption failed: wrong key or tampered ciphertext.''"

definition decryptWithKey :: "cipher \<Rightarrow> string \<Rightarrow> bytes \<Rightarrow> (thrown, string) result" where
  "decryptWithKey A envelope key =
     (case assertKeyLength key of
        Inl e \<Rightarrow> Inl e
      | Inr _ \<Rightarrow>
          (case split_at CHR ''.'' envelope of
             [version, ivB64, tagB64, ctB64] \<Rightarrow>
               if version \<noteq> ENVELOPE_VERSION then Inl (CryptoError (''Unsupported ciphertext version: '' @ version @ ''.''))
               else
                 (let iv = from_base64url ivB64; authTag = from_base64url tagB64; ciphertext = from_base64url ctB64 in
                  if length iv \<noteq> IV_BYTES \<or> length authTag \<noteq> AUTH_TAG_BYTES
                  then Inl (CryptoError ''Malformed ciphertext envelope: bad IV or auth tag length.'')
                  else (case gcm_open A key iv authTag ciphertext of
                          Some bs \<Rightarrow> Inr (utf8_decode bs)
                        | None \<Rightarrow> Inl decryption_failed))
           | _ \<Rightarrow> Inl (CryptoError ''Malformed ciphertext envelope: expected 4 segments.'')))"

text \<open>Only a failed authentication moves on to the next key; \<open>err\<close> is the last error.\<close>

fun keys_loop :: "cipher \<Rightarrow> string \<Rightarrow> bytes list \<Rightarrow> thrown \<Rightarrow> (thrown, string) result" where
  "keys_loop A envelope [] err = Inl err"
| "keys_loop A envelope (key # keys) err =
     (case decryptWithKey A envelope key of
        Inr w \<Rightarrow> Inr w
      | Inl e \<Rightarrow> if \<not> startsWith (toErrorMessage e) ''Decryption failed'' then Inl e else keys_loop A envelope keys e)"

definition decryptWithKeys :: "cipher \<Rightarrow> string \<Rightarrow> bytes list \<Rightarrow> (thrown, string) result" where
  "decryptWithKeys A envelope keys = keys_loop A envelope keys (CryptoError ''Decryption failed.'')"

text \<open>The keys of a deployment: the master key and, during a rotation, the previous one.\<close>

record deployment =
  de_master :: bytes
  de_previous :: "bytes option"

definition deployment_keys :: "deployment \<Rightarrow> bytes list" where
  "deployment_keys d = (case de_previous d of Some prev \<Rightarrow> [de_master d, prev] | None \<Rightarrow> [de_master d])"

definition decrypt :: "cipher \<Rightarrow> deployment \<Rightarrow> string \<Rightarrow> (thrown, string) result" where
  "decrypt A d envelope = decryptWithKeys A envelope (deployment_keys d)"

section \<open>Hashes and fresh keys\<close>

definition sha256Hex :: "cipher \<Rightarrow> string \<Rightarrow> string" where
  "sha256Hex A w = to_hex (sha256 A w)"

definition hashApiKey :: "cipher \<Rightarrow> string \<Rightarrow> string" where
  "hashApiKey A rawKey = sha256Hex A rawKey"

definition generateApiKey :: "cipher \<Rightarrow> bytes \<Rightarrow> string \<times> string" where
  "generateApiKey A random = (let raw = ''gw-'' @ to_hex (take API_KEY_RANDOM_BYTES random) in (raw, hashApiKey A raw))"

definition generateMasterKey :: "bytes \<Rightarrow> string" where
  "generateMasterKey random = to_hex (take MASTER_KEY_BYTES random)"

definition timingSafeEqual :: "cipher \<Rightarrow> string \<Rightarrow> string \<Rightarrow> bool" where
  "timingSafeEqual A a b \<longleftrightarrow> sha256 A a = sha256 A b"

definition secureRandomInt :: "(int \<Rightarrow> int) \<Rightarrow> int \<Rightarrow> (thrown, int) result" where
  "secureRandomInt randomInt maxExclusive =
     (if maxExclusive < 1 then Inl (CryptoError ''secureRandomInt requires a positive integer bound.'')
      else Inr (randomInt maxExclusive))"

section \<open>The rotation script\<close>

definition HEX_32_BYTES :: "string \<Rightarrow> bool" where
  "HEX_32_BYTES w \<longleftrightarrow> length w = 64 \<and> list_all (\<lambda>c. hex_value c \<noteq> None) w"

text \<open>
  The loop over the locked rows, each with the nonce of its encryption.  An error rolls the
  transaction back.
\<close>

fun reencrypt_rows :: "cipher \<Rightarrow> deployment \<Rightarrow> bytes \<Rightarrow> bytes list \<Rightarrow> provider_row list \<Rightarrow> (thrown, provider_row list) result" where
  "reencrypt_rows A d newKey (iv # ivs) (row # rows) =
     (case decrypt A d (pr_encryptedApiKey row) of
        Inl e \<Rightarrow> Inl e
      | Inr plaintext \<Rightarrow>
          (case encrypt A iv plaintext newKey of
             Inl e \<Rightarrow> Inl e
           | Inr reEncrypted \<Rightarrow>
               (case reencrypt_rows A d newKey ivs rows of
                  Inl e \<Rightarrow> Inl e
                | Inr rows' \<Rightarrow> Inr (row\<lparr>pr_encryptedApiKey := reEncrypted\<rparr> # rows'))))"
| "reencrypt_rows A d newKey ivs rows = Inr rows"

definition rotate_keys ::
  "cipher \<Rightarrow> deployment \<Rightarrow> string option \<Rightarrow> bytes list \<Rightarrow> provider_row list \<Rightarrow> (thrown, unit) result \<times> provider_row list" where
  "rotate_keys A d newKeyHex ivs rows =
     (case newKeyHex of
        Some hex \<Rightarrow>
          if HEX_32_BYTES hex then
            (case reencrypt_rows A d (from_hex hex) ivs rows of
               Inl e \<Rightarrow> (Inl e, rows)
             | Inr rows' \<Rightarrow> (Inr (), rows'))
          else (Inl (TError (plain_error ''Error'' ''NEW_ENCRYPTION_KEY must be a 32-byte key as 64 hex chars.'')), rows)
      | None \<Rightarrow> (Inl (TError (plain_error ''Error'' ''NEW_ENCRYPTION_KEY must be a 32-byte key as 64 hex chars.'')), rows))"

section \<open>Round trips of the encodings\<close>

lemma octets_sextets: "list_all (\<lambda>a. a < 256) xs \<Longrightarrow> octets (sextets xs) = xs \<and> list_all (\<lambda>n. n < 64) (sextets xs)"
proof (induction xs rule: sextets.induct)
  case (4 a b c r)
  have q: "(x * m + y) div m = x" "(x * m + y) mod m = y" if "y < m" for x y m :: nat
    using that by simp_all
  from 4 have lt: "a < 256" "b < 256" "c < 256" by simp_all
  then have d: "b div 16 < 16" "c div 64 < 4" "a div 4 < 64" "a mod 4 < 4" "b mod 16 < 16" "c mod 64 < 64"
    by (simp_all add: less_mult_imp_div_less)
  then have "a mod 4 * 16 + b div 16 < 64" "b mod 16 * 4 + c div 64 < 64" by linarith+
  with 4 d show ?case by (simp add: q)
next
  case (3 a b)
  have q: "(x * m + y) div m = x" "(x * m + y) mod m = y" if "y < m" for x y m :: nat
    using that by simp_all
  from 3 have d: "b div 16 < 16" "a div 4 < 64" "a mod 4 < 4" "b mod 16 < 16"
    by (simp_all add: less_mult_imp_div_less)
  then have "a mod 4 * 16 + b div 16 < 64" "b mod 16 * 4 < 64" by linarith+
  with d show ?case by (simp add: q)
next
  case (2 a)
  then have "a div 4 < 64" "a mod 4 * 16 < 64" by (simp_all add: less_mult_imp_div_less)
  then show ?case by simp
qed simp

lemma indexOf_nth: "distinct w \<Longrightarrow> i < length w \<Longrightarrow> indexOf w (w ! i) = Some i"
proof (induction w arbitrary: i)
  case (Cons x w)
  then show ?case by (cases i) auto
qed simp

lemma b64_alphabet_facts: "distinct b64_alphabet" "length b64_alphabet = 64" "CHR ''+'' \<notin> set b64_alphabet"
    "CHR ''/'' \<notin> set b64_alphabet" "CHR ''.'' \<notin> set b64_alphabet"
  by (simp_all add: b64_alphabet_def)

lemma b64_value_nth: "n < 64 \<Longrightarrow> b64_value (b64_alphabet ! n) = Some n"
proof -
  assume "n < 64"
  then have "b64_alphabet ! n \<in> set b64_alphabet" by (simp add: b64_alphabet_facts)
  with b64_alphabet_facts(3,4) have "b64_alphabet ! n \<noteq> CHR ''+''" "b64_alphabet ! n \<noteq> CHR ''/''" by metis+
  with \<open>n < 64\<close> show ?thesis by (simp add: b64_value_def indexOf_nth b64_alphabet_facts)
qed

lemma word_byte_bound: "unat (b :: 8 word) < 256"
  using unsigned_less [of b, where ?'a = nat] by simp

lemma base64url_round_trip: "from_base64url (to_base64url bs) = bs"
proof -
  have "List.map_filter b64_value (map (\<lambda>n. b64_alphabet ! n) ns) = ns" if "list_all (\<lambda>n. n < 64) ns" for ns
    using that by (induction ns) (simp_all add: b64_value_nth)
  moreover have "list_all (\<lambda>a. a < 256) (map unat bs)" by (simp add: list_all_iff word_byte_bound)
  ultimately show ?thesis
    using octets_sextets [of "map unat bs"] by (simp add: from_base64url_def to_base64url_def comp_def)
qed

lemma base64url_no_dot: "CHR ''.'' \<notin> set (to_base64url bs)"
proof -
  have "list_all (\<lambda>n. n < 64) (sextets (map unat bs))"
    using octets_sextets [of "map unat bs"] by (simp add: list_all_iff word_byte_bound)
  then show ?thesis
    using b64_alphabet_facts(2,5) by (auto simp: to_base64url_def list_all_iff dest!: nth_mem)
qed

lemma hex_round_trip: "from_hex (to_hex bs) = bs"
proof (induction bs)
  case (Cons b bs)
  then show ?case using word_byte_bound [of b] by (simp add: hex_value_digit less_mult_imp_div_less)
qed simp

lemma to_hex_facts: "length (to_hex bs) = 2 * length bs" "list_all (\<lambda>c. hex_value c \<noteq> None) (to_hex bs)"
proof -
  show "length (to_hex bs) = 2 * length bs" by (induction bs) simp_all
  show "list_all (\<lambda>c. hex_value c \<noteq> None) (to_hex bs)"
    by (induction bs) (use word_byte_bound in \<open>simp_all add: hex_value_digit less_mult_imp_div_less\<close>)
qed

lemma utf8_decode_encode: "utf8_decode (utf8_encode w) = w"
proof -
  have "decode_bytes (idle True) (utf8_encode w) = (w, idle True)"
    by (induction w) (simp_all add: utf8_encode_def decode_bytes_append decode_char)
  then show ?thesis by (simp add: utf8_decode_def decode_flush_def idle_def new_decoder_def)
qed

lemma stream_xor_twice: "stream_xor A key iv (stream_xor A key iv bs) = bs"
  by (rule nth_equalityI) (simp_all add: stream_xor_def nth_enumerate_eq xor.assoc)

section \<open>Envelopes\<close>

lemma encrypt_shape:
  "length key = MASTER_KEY_BYTES \<Longrightarrow> encrypt A iv w key =
    (let ct = stream_xor A key iv (utf8_encode w) in Inr (join ''.'' [ENVELOPE_VERSION, to_base64url iv, to_base64url (auth_tag A key iv ct), to_base64url ct]))"
  by (simp add: encrypt_def assertKeyLength_def Let_def)

lemma open_segments:
  assumes "length key = MASTER_KEY_BYTES" "length iv = IV_BYTES" "length tag = AUTH_TAG_BYTES"
  shows "decryptWithKey A (join ''.'' [ENVELOPE_VERSION, to_base64url iv, to_base64url tag, to_base64url ct]) key =
    (if auth_tag A key iv ct = tag then Inr (utf8_decode (stream_xor A key iv ct)) else Inl decryption_failed)"
proof -
  have "split_at CHR ''.'' (join ''.'' [ENVELOPE_VERSION, to_base64url iv, to_base64url tag, to_base64url ct]) =
      [ENVELOPE_VERSION, to_base64url iv, to_base64url tag, to_base64url ct]"
    by (rule split_at_join) (simp_all add: base64url_no_dot ENVELOPE_VERSION_def)
  with assms show ?thesis
    by (simp add: decryptWithKey_def assertKeyLength_def base64url_round_trip gcm_open_def del: join.simps split_at.simps)
qed

lemma decrypt_encrypt:
  assumes "length key = MASTER_KEY_BYTES" "length iv = IV_BYTES" "encrypt A iv w key = Inr envelope"
  shows "decryptWithKey A envelope key = Inr w"
  using assms(3) open_segments [OF assms(1,2), where A = A]
  by (auto simp: encrypt_shape [OF assms(1)] Let_def auth_tag_def stream_xor_twice utf8_decode_encode)

lemma keys_loop_skips:
  "\<forall>k \<in> set ks. decryptWithKey A envelope k = Inl decryption_failed \<Longrightarrow> decryptWithKey A envelope key = Inr w \<Longrightarrow>
    keys_loop A envelope (ks @ key # rest) err = Inr w"
  by (induction ks arbitrary: err) (simp_all add: decryption_failed_def CryptoError_def plain_error_def startsWith_def)

text \<open>
  C27. Credentials survive encryption and the rotation of keys.  An envelope made under any key of
  a deployment opens to the plaintext, whatever its nonce and its text, as long as the keys that
  are tried earlier do not authenticate it; earlier keys that fail never hide a later one.
\<close>

theorem envelope_round_trip:
  assumes "length key = MASTER_KEY_BYTES" and "length iv = IV_BYTES" and "encrypt A iv w key = Inr envelope"
    and "\<forall>k \<in> set earlier. decryptWithKey A envelope k = Inl decryption_failed"
  shows "decryptWithKeys A envelope (earlier @ key # later) = Inr w"
  unfolding decryptWithKeys_def
  by (rule keys_loop_skips [OF assms(4) decrypt_encrypt [OF assms(1-3)]])

text \<open>A cipher for examples: the key stream and the tag repeat the first byte of the key.\<close>

definition demo_cipher :: cipher where
  "demo_cipher = \<lparr>ci_stream = \<lambda>key iv i. hd key, ci_tag = \<lambda>key iv ct i. hd key, ci_sha256 = \<lambda>bs i. of_nat (length bs)\<rparr>"

definition demo_key :: "8 word \<Rightarrow> bytes" where "demo_key b = replicate 32 b"

definition demo_iv :: bytes where "demo_iv = replicate 12 0"

definition demo_envelope :: string where
  "demo_envelope = (case encrypt demo_cipher demo_iv ''sk-1'' (demo_key 7) of Inr w \<Rightarrow> w | Inl e \<Rightarrow> [])"

lemma demo_sizes: "length (demo_key b) = MASTER_KEY_BYTES" "length demo_iv = IV_BYTES"
  by (simp_all add: demo_key_def demo_iv_def MASTER_KEY_BYTES_def IV_BYTES_def)

lemma demo_encrypt: "encrypt demo_cipher demo_iv ''sk-1'' (demo_key 7) = Inr demo_envelope"
  by (simp add: demo_envelope_def encrypt_shape [OF demo_sizes(1)] Let_def del: join.simps)

lemma demo_wrong_key: "decryptWithKey demo_cipher demo_envelope (demo_key 9) = Inl decryption_failed"
proof -
  have "hd (demo_key 7) \<noteq> hd (demo_key 9)" by (simp add: demo_key_def)
  then have "auth_tag demo_cipher (demo_key 9) iv ct \<noteq> auth_tag demo_cipher (demo_key 7) iv ct'" for iv ct ct'
    by (simp add: auth_tag_def demo_cipher_def AUTH_TAG_BYTES_def upt_conv_Cons)
  then show ?thesis
    unfolding demo_envelope_def encrypt_shape [OF demo_sizes(1)] Let_def sum.case
    by (subst open_segments) (simp_all add: demo_sizes auth_tag_def)
qed

theorem envelope_round_trip_witness:
  "decryptWithKeys demo_cipher demo_envelope ([demo_key 9] @ demo_key 7 # []) = Inr ''sk-1''"
  by (rule envelope_round_trip [OF demo_sizes(1,2) demo_encrypt]) (simp add: demo_wrong_key)

section \<open>Rotation\<close>

definition same_plaintext :: "(thrown, string) result \<Rightarrow> (thrown, string) result \<Rightarrow> bool" where
  "same_plaintext r r' \<longleftrightarrow> (case (r, r') of (Inr w, Inr w') \<Rightarrow> w = w' | (Inl e, Inl e') \<Rightarrow> True | _ \<Rightarrow> False)"

definition same_row :: "provider_row \<Rightarrow> provider_row \<Rightarrow> bool" where
  "same_row row row' \<longleftrightarrow> row' = row\<lparr>pr_encryptedApiKey := pr_encryptedApiKey row'\<rparr>"

text \<open>The registry sees a row only through its plaintext.\<close>

lemma load_row_cong:
  assumes "same_plaintext (f (pr_encryptedApiKey row)) (g (pr_encryptedApiKey row'))" and "same_row row row'"
  shows "load_row f row = load_row g row'"
proof -
  have upd: "row_provider (row\<lparr>pr_encryptedApiKey := e\<rparr>) = row_provider row" "pr_id (row\<lparr>pr_encryptedApiKey := e\<rparr>) = pr_id row" for e
    by (simp_all add: row_provider_def row_models_def fun_eq_iff)
  have same: "row_provider row' = row_provider row" "pr_id row' = pr_id row"
    using assms(2) upd [of "pr_encryptedApiKey row'"] unfolding same_row_def by simp_all
  with assms(1) show ?thesis by (auto simp: load_row_def same_plaintext_def fun_eq_iff split: sum.splits)
qed

lemma load_snapshot_cong:
  assumes "list_all2 (\<lambda>row row'. same_plaintext (f (pr_encryptedApiKey row)) (g (pr_encryptedApiKey row')) \<and> same_row row row') rows rows'"
  shows "load_snapshot f rows = load_snapshot g rows'"
proof -
  have "fold (load_row f) rows snap = fold (load_row g) rows' snap" for snap
    using assms
  proof (induction arbitrary: snap rule: list_all2_induct)
    case (Cons row rows row' rows')
    then have "load_row f row = load_row g row'" by (intro load_row_cong) simp_all
    then show ?case by (simp add: Cons.IH)
  qed simp
  then show ?thesis by (simp add: load_snapshot_def)
qed

lemma decrypt_under_master:
  "length (de_master d) = MASTER_KEY_BYTES \<Longrightarrow> length iv = IV_BYTES \<Longrightarrow> encrypt A iv w (de_master d) = Inr envelope \<Longrightarrow>
    decrypt A d envelope = Inr w"
  using keys_loop_skips [of "[]"] decrypt_encrypt
  by (auto simp: decrypt_def decryptWithKeys_def deployment_keys_def split: option.split)

lemma reencrypt_rows_spec:
  assumes "length newKey = MASTER_KEY_BYTES"
  shows "reencrypt_rows A d newKey ivs rows = Inr rows' \<Longrightarrow> length ivs = length rows \<Longrightarrow> \<forall>iv \<in> set ivs. length iv = IV_BYTES \<Longrightarrow>
    de_master d' = newKey \<Longrightarrow>
    list_all2 (\<lambda>row row'. same_plaintext (decrypt A d (pr_encryptedApiKey row)) (decrypt A d' (pr_encryptedApiKey row')) \<and>
      same_row row row') rows rows'"
proof (induction rows arbitrary: ivs rows')
  case (Cons row rows)
  then obtain iv ivs' where ivs: "ivs = iv # ivs'" by (cases ivs) auto
  from Cons.prems(1) obtain w env rest where
    row: "decrypt A d (pr_encryptedApiKey row) = Inr w" "encrypt A iv w newKey = Inr env"
      "reencrypt_rows A d newKey ivs' rows = Inr rest" "rows' = row\<lparr>pr_encryptedApiKey := env\<rparr> # rest"
    by (auto simp: ivs split: sum.splits)
  have "decrypt A d' env = Inr w"
    by (rule decrypt_under_master [of d' iv]) (use row Cons.prems assms ivs in simp_all)
  with row Cons.IH [OF row(3)] Cons.prems ivs show ?case by (simp add: same_plaintext_def same_row_def)
qed simp

lemma reencrypt_rows_total:
  assumes "length newKey = MASTER_KEY_BYTES"
  shows "length ivs = length rows \<Longrightarrow>
    is_ok (reencrypt_rows A d newKey ivs rows) \<longleftrightarrow> (\<forall>row \<in> set rows. is_ok (decrypt A d (pr_encryptedApiKey row)))"
proof (induction rows arbitrary: ivs)
  case (Cons row rows)
  then obtain iv ivs' where "ivs = iv # ivs'" "length ivs' = length rows" by (cases ivs) auto
  with Cons.IH [of ivs'] show ?case
    by (auto simp: encrypt_shape [OF assms] Let_def is_ok_def split: sum.splits)
qed simp

lemma HEX_32_BYTES_key: "HEX_32_BYTES hex \<Longrightarrow> length (from_hex hex) = MASTER_KEY_BYTES"
proof -
  have "list_all (\<lambda>c. hex_value c \<noteq> None) w \<Longrightarrow> length (from_hex w) = length w div 2" for w
    by (induction w rule: from_hex.induct) auto
  then show "HEX_32_BYTES hex \<Longrightarrow> length (from_hex hex) = MASTER_KEY_BYTES"
    by (simp add: HEX_32_BYTES_def MASTER_KEY_BYTES_def)
qed

text \<open>
  C28. A rotation is atomic and invisible.  It commits exactly when the new key is well formed and
  every credential decrypts; otherwise no row changes.  Once it has committed, a gateway with
  the new master key, with or without a previous one, loads the very snapshot (providers,
  credentials, candidates and their order) that the gateway which ran it loads from the old rows.
\<close>

theorem rotation_invisible:
  assumes "length ivs = length rows" and "\<forall>iv \<in> set ivs. length iv = IV_BYTES"
    and "r = rotate_keys A d (Some hex) ivs rows"
  shows "(is_ok (fst r) \<longleftrightarrow> HEX_32_BYTES hex \<and> (\<forall>row \<in> set rows. is_ok (decrypt A d (pr_encryptedApiKey row)))) \<and>
    (\<not> is_ok (fst r) \<longrightarrow> snd r = rows) \<and>
    (is_ok (fst r) \<longrightarrow> (\<forall>previous. load_snapshot (decrypt A \<lparr>de_master = from_hex hex, de_previous = previous\<rparr>) (snd r) =
       load_snapshot (decrypt A d) rows))"
proof (cases "HEX_32_BYTES hex")
  case False
  then show ?thesis by (simp add: assms(3) rotate_keys_def)
next
  case True
  note key = HEX_32_BYTES_key [OF True]
  show ?thesis
  proof (cases "reencrypt_rows A d (from_hex hex) ivs rows")
    case (Inl e)
    with True reencrypt_rows_total [OF key assms(1), of A d] show ?thesis by (simp add: assms(3) rotate_keys_def)
  next
    case (Inr rows')
    have "load_snapshot (decrypt A \<lparr>de_master = from_hex hex, de_previous = previous\<rparr>) rows' = load_snapshot (decrypt A d) rows" for previous
      by (rule load_snapshot_cong [symmetric], rule reencrypt_rows_spec [OF key Inr assms(1,2)]) simp
    with True Inr reencrypt_rows_total [OF key assms(1), of A d] show ?thesis by (simp add: assms(3) rotate_keys_def)
  qed
qed

definition demo_deployment :: deployment where
  "demo_deployment = \<lparr>de_master = demo_key 7, de_previous = None\<rparr>"

definition demo_credential_row :: provider_row where
  "demo_credential_row = \<lparr>pr_id = ''p1'', pr_name = ''primary'', pr_adapterType = AdOpenai, pr_baseUrl = ''https://api.openai.com'',
     pr_encryptedApiKey = demo_envelope, pr_timeoutMs = 30000, pr_weight = 1, pr_priority = 1, pr_models = []\<rparr>"

theorem rotation_invisible_witness:
  "load_snapshot (decrypt demo_cipher \<lparr>de_master = from_hex (to_hex (demo_key 9)), de_previous = None\<rparr>)
     (snd (rotate_keys demo_cipher demo_deployment (Some (to_hex (demo_key 9))) [demo_iv] [demo_credential_row])) =
   load_snapshot (decrypt demo_cipher demo_deployment) [demo_credential_row]"
proof -
  have "decrypt demo_cipher demo_deployment demo_envelope = Inr ''sk-1''"
    by (rule decrypt_under_master) (use demo_sizes demo_encrypt in \<open>simp_all add: demo_deployment_def\<close>)
  moreover have "HEX_32_BYTES (to_hex (demo_key 9))"
    using to_hex_facts [of "demo_key 9"] by (simp add: HEX_32_BYTES_def demo_key_def)
  ultimately show ?thesis
    using rotation_invisible [where ivs = "[demo_iv]" and rows = "[demo_credential_row]", OF _ _ refl,
        of demo_cipher demo_deployment "to_hex (demo_key 9)"]
    by (simp add: demo_sizes demo_credential_row_def)
qed

text \<open>
  The roll that precedes the rotation: with the old key as the previous one, the gateway reads
  what it read before, provided that the new key does not authenticate an old envelope.
\<close>

lemma roll_invisible:
  assumes "\<forall>row \<in> set rows. decryptWithKey A (pr_encryptedApiKey row) new = Inl decryption_failed"
  shows "load_snapshot (decrypt A \<lparr>de_master = new, de_previous = Some old\<rparr>) rows =
    load_snapshot (decrypt A \<lparr>de_master = old, de_previous = None\<rparr>) rows"
proof (rule load_snapshot_cong)
  have "same_plaintext (keys_loop A w [old] e) (keys_loop A w [old] e')" for w e e'
    by (simp add: same_plaintext_def split: sum.split)
  then show "list_all2 (\<lambda>row row'. same_plaintext (decrypt A \<lparr>de_master = new, de_previous = Some old\<rparr> (pr_encryptedApiKey row))
      (decrypt A \<lparr>de_master = old, de_previous = None\<rparr> (pr_encryptedApiKey row')) \<and> same_row row row') rows rows"
    using assms by (simp add: list.rel_refl_strong same_row_def decrypt_def decryptWithKeys_def deployment_keys_def
        decryption_failed_def CryptoError_def plain_error_def startsWith_def)
qed

section \<open>Fresh keys\<close>

lemma fresh_master_key:
  assumes "length random = MASTER_KEY_BYTES"
  shows "masterKey (generateMasterKey random) = Inr random \<and> HEX_32_BYTES (generateMasterKey random)"
  using assms to_hex_facts [of random]
  by (simp add: masterKey_def generateMasterKey_def hex_round_trip HEX_32_BYTES_def MASTER_KEY_BYTES_def)

end
