(* ===== verification/Validation.thy ===== *)
theory Validation
  imports Upstream "HOL-Library.Monad_Syntax" "HOL-Library.Multiset"
begin

text \<open>
  The validation of request bodies: the zod schemas of \<open>src/types/openai.ts\<close> as parsers from
  JSON to the request types.  A schema strips the properties it does not know, except where it
  is \<open>passthrough\<close>, and lists the ones it knows first.
\<close>

section \<open>Schema combinators\<close>

definition z_literal_of :: "(string \<times> 'a) list \<Rightarrow> json \<Rightarrow> 'a option" where
  "z_literal_of table j = Option.bind (as_str j) (map_of table)"

definition z_string :: "nat \<Rightarrow> nat \<Rightarrow> json \<Rightarrow> string option" where
  "z_string lo hi j = Option.bind (as_str j) (\<lambda>w. if lo \<le> length w \<and> length w \<le> hi then Some w else None)"

definition z_nonempty :: "json \<Rightarrow> string option" where
  "z_nonempty j = Option.bind (as_str j) (\<lambda>w. if w \<noteq> [] then Some w else None)"

definition z_number :: "rat \<Rightarrow> rat \<Rightarrow> json \<Rightarrow> decimal option" where
  "z_number lo hi j = Option.bind (as_num j) (\<lambda>d. if lo \<le> dec_value d \<and> dec_value d \<le> hi then Some d else None)"

definition z_int_between :: "int \<Rightarrow> int \<Rightarrow> json \<Rightarrow> int option" where
  "z_int_between lo hi j = Option.bind (as_int j) (\<lambda>n. if lo \<le> n \<and> n \<le> hi then Some n else None)"

definition z_positive :: "json \<Rightarrow> int option" where
  "z_positive j = Option.bind (as_int j) (\<lambda>n. if 1 \<le> n then Some n else None)"

text \<open>The properties of a \<open>passthrough\<close> object that its shape does not name.\<close>

definition without :: "string list \<Rightarrow> (string \<times> 'a) list \<Rightarrow> (string \<times> 'a) list" where
  "without ks ps = filter (\<lambda>p. fst p \<notin> set ks) ps"

section \<open>Content parts and tools\<close>

definition textContentPartSchema :: "json \<Rightarrow> ContentPart option" where
  "textContentPartSchema j = do {
     ps \<leftarrow> as_obj j;
     z_required (z_literal ''text'') ps ''type'';
     w \<leftarrow> z_required as_str ps ''text'';
     Some (TextPart w) }"

definition details :: "(string \<times> string) list" where
  "details = [(''auto'', ''auto''), (''low'', ''low''), (''high'', ''high'')]"

definition imageContentPartSchema :: "json \<Rightarrow> ContentPart option" where
  "imageContentPartSchema j = do {
     ps \<leftarrow> as_obj j;
     z_required (z_literal ''image_url'') ps ''type'';
     us \<leftarrow> z_required as_obj ps ''image_url'';
     url \<leftarrow> z_required z_nonempty us ''url'';
     detail \<leftarrow> z_optional (z_literal_of details) us ''detail'';
     Some (ImagePart url detail) }"

definition contentPartSchema :: "json \<Rightarrow> ContentPart option" where
  "contentPartSchema = z_union textContentPartSchema imageContentPartSchema"

definition z_content :: "(json \<Rightarrow> ContentPart option) \<Rightarrow> json \<Rightarrow> MessageContent option" where
  "z_content part = z_union (\<lambda>j. map_option ContentText (as_str j)) (\<lambda>j. map_option ContentParts (as_list part j))"

definition messageContentSchema :: "json \<Rightarrow> MessageContent option" where
  "messageContentSchema = z_content contentPartSchema"

definition request_toolCallSchema :: "json \<Rightarrow> ToolCall option" where
  "request_toolCallSchema j = do {
     ps \<leftarrow> as_obj j;
     i \<leftarrow> z_required as_str ps ''id'';
     z_required (z_literal ''function'') ps ''type'';
     fs \<leftarrow> z_required as_obj ps ''function'';
     n \<leftarrow> z_required as_str fs ''name'';
     a \<leftarrow> z_required as_str fs ''arguments'';
     Some \<lparr>tc_id = i, tc_name = n, tc_arguments = a\<rparr> }"

definition toolDefinitionSchema :: "json \<Rightarrow> ToolDefinition option" where
  "toolDefinitionSchema j = do {
     ps \<leftarrow> as_obj j;
     z_required (z_literal ''function'') ps ''type'';
     fs \<leftarrow> z_required as_obj ps ''function'';
     n \<leftarrow> z_required z_nonempty fs ''name'';
     d \<leftarrow> z_optional as_str fs ''description'';
     params \<leftarrow> z_optional as_obj fs ''parameters'';
     Some \<lparr>td_name = n, td_description = d, td_parameters = params\<rparr> }"

definition tool_choices :: "(string \<times> ToolChoice) list" where
  "tool_choices = [(''none'', Choice_none), (''auto'', Choice_auto), (''required'', Choice_required)]"

definition toolChoiceSchema :: "json \<Rightarrow> ToolChoice option" where
  "toolChoiceSchema = z_union (z_literal_of tool_choices) (\<lambda>j. do {
     ps \<leftarrow> as_obj j;
     z_required (z_literal ''function'') ps ''type'';
     fs \<leftarrow> z_required as_obj ps ''function'';
     n \<leftarrow> z_required as_str fs ''name'';
     Some (Choice_function n) })"

section \<open>Messages\<close>

definition systemMessageSchema :: "json \<Rightarrow> ChatMessage option" where
  "systemMessageSchema j = do {
     ps \<leftarrow> as_obj j;
     z_required (z_literal ''system'') ps ''role'';
     c \<leftarrow> z_required (z_content textContentPartSchema) ps ''content'';
     n \<leftarrow> z_optional as_str ps ''name'';
     Some (SystemMessage c n) }"

definition userMessageSchema :: "json \<Rightarrow> ChatMessage option" where
  "userMessageSchema j = do {
     ps \<leftarrow> as_obj j;
     z_required (z_literal ''user'') ps ''role'';
     c \<leftarrow> z_required messageContentSchema ps ''content'';
     n \<leftarrow> z_optional as_str ps ''name'';
     Some (UserMessage c n) }"

definition assistantMessageSchema :: "json \<Rightarrow> ChatMessage option" where
  "assistantMessageSchema j = do {
     ps \<leftarrow> as_obj j;
     z_required (z_literal ''assistant'') ps ''role'';
     c \<leftarrow> z_optional (nullable (z_content textContentPartSchema)) ps ''content'';
     n \<leftarrow> z_optional as_str ps ''name'';
     calls \<leftarrow> z_optional (as_list request_toolCallSchema) ps ''tool_calls'';
     Some (AssistantMessage c n calls) }"

definition toolMessageSchema :: "json \<Rightarrow> ChatMessage option" where
  "toolMessageSchema j = do {
     ps \<leftarrow> as_obj j;
     z_required (z_literal ''tool'') ps ''role'';
     c \<leftarrow> z_required (z_content textContentPartSchema) ps ''content'';
     i \<leftarrow> z_required as_str ps ''tool_call_id'';
     Some (ToolMessage c i) }"

definition chatMessageSchema :: "json \<Rightarrow> ChatMessage option" where
  "chatMessageSchema = z_union systemMessageSchema (z_union userMessageSchema (z_union assistantMessageSchema toolMessageSchema))"

section \<open>Requests\<close>

definition stopSchema :: "json \<Rightarrow> stop_option option" where
  "stopSchema = z_union (\<lambda>j. map_option StopText (as_str j))
     (\<lambda>j. Option.bind (as_list as_str j) (\<lambda>ws. if length ws \<le> 4 then Some (StopList ws) else None))"

definition logitBiasSchema :: "json \<Rightarrow> (string \<times> decimal) list option" where
  "logitBiasSchema j = Option.bind (as_obj j) (\<lambda>ps. those (map (\<lambda>(k, v). map_option (Pair k) (as_num v)) ps))"

definition streamOptionsSchema :: "json \<Rightarrow> bool option option" where
  "streamOptionsSchema j = Option.bind (as_obj j) (\<lambda>ps. z_optional as_bool ps ''include_usage'')"

definition response_formats :: "(string \<times> json) list" where
  "response_formats = map (\<lambda>w. (w, JStr w)) [''text'', ''json_object'', ''json_schema'']"

definition responseFormatSchema :: "json \<Rightarrow> (string \<times> json) list option" where
  "responseFormatSchema j = do {
     ps \<leftarrow> as_obj j;
     t \<leftarrow> z_required (z_literal_of response_formats) ps ''type'';
     Some (obj_of ((''type'', t) # without [''type''] ps)) }"

definition request_keys :: "string list" where
  "request_keys = [''model'', ''messages'', ''temperature'', ''top_p'', ''n'', ''stream'', ''stream_options'', ''stop'',
     ''max_tokens'', ''max_completion_tokens'', ''presence_penalty'', ''frequency_penalty'', ''logit_bias'', ''user'', ''seed'',
     ''tools'', ''tool_choice'', ''response_format'']"

definition chatCompletionRequestSchema :: "json \<Rightarrow> ChatCompletionRequest option" where
  "chatCompletionRequestSchema j = do {
     ps \<leftarrow> as_obj j;
     model \<leftarrow> z_required (z_string 1 256) ps ''model'';
     messages \<leftarrow> z_required (z_array chatMessageSchema 1) ps ''messages'';
     temperature \<leftarrow> z_optional (z_number 0 2) ps ''temperature'';
     top_p \<leftarrow> z_optional (z_number 0 1) ps ''top_p'';
     n \<leftarrow> z_optional (z_int_between 1 128) ps ''n'';
     stream \<leftarrow> z_optional as_bool ps ''stream'';
     include_usage \<leftarrow> z_optional streamOptionsSchema ps ''stream_options'';
     stop \<leftarrow> z_optional stopSchema ps ''stop'';
     max_tokens \<leftarrow> z_optional z_positive ps ''max_tokens'';
     max_completion_tokens \<leftarrow> z_optional z_positive ps ''max_completion_tokens'';
     presence_penalty \<leftarrow> z_optional (z_number (- 2) 2) ps ''presence_penalty'';
     frequency_penalty \<leftarrow> z_optional (z_number (- 2) 2) ps ''frequency_penalty'';
     logit_bias \<leftarrow> z_optional logitBiasSchema ps ''logit_bias'';
     user \<leftarrow> z_optional (z_string 0 256) ps ''user'';
     seed \<leftarrow> z_optional as_int ps ''seed'';
     tools \<leftarrow> z_optional (as_list toolDefinitionSchema) ps ''tools'';
     tool_choice \<leftarrow> z_optional toolChoiceSchema ps ''tool_choice'';
     response_format \<leftarrow> z_optional responseFormatSchema ps ''response_format'';
     Some \<lparr>rq_model = model, rq_messages = messages, rq_temperature = temperature, rq_top_p = top_p, rq_n = n,
       rq_stream = stream, rq_include_usage = include_usage, rq_stop = stop, rq_max_tokens = max_tokens,
       rq_max_completion_tokens = max_completion_tokens, rq_presence_penalty = presence_penalty,
       rq_frequency_penalty = frequency_penalty, rq_logit_bias = logit_bias, rq_user = user, rq_seed = seed,
       rq_tools = tools, rq_tool_choice = tool_choice, rq_response_format = response_format,
       rq_extra = without request_keys ps\<rparr> }"

definition embeddingInputSchema :: "json \<Rightarrow> EmbeddingInput option" where
  "embeddingInputSchema =
     z_union (\<lambda>j. map_option InputText (as_str j))
       (z_union (\<lambda>j. map_option InputTexts (z_array as_str 1 j))
         (z_union (\<lambda>j. map_option InputTokens (z_array as_int 1 j))
           (\<lambda>j. map_option InputTokenLists (z_array (z_array as_int 1) 1 j))))"

definition encoding_formats :: "(string \<times> string) list" where
  "encoding_formats = [(''float'', ''float''), (''base64'', ''base64'')]"

definition embedding_keys :: "string list" where
  "embedding_keys = [''model'', ''input'', ''encoding_format'', ''dimensions'', ''user'']"

definition embeddingRequestSchema :: "json \<Rightarrow> EmbeddingRequest option" where
  "embeddingRequestSchema j = do {
     ps \<leftarrow> as_obj j;
     model \<leftarrow> z_required (z_string 1 256) ps ''model'';
     inp \<leftarrow> z_required embeddingInputSchema ps ''input'';
     encoding_format \<leftarrow> z_optional (z_literal_of encoding_formats) ps ''encoding_format'';
     dimensions \<leftarrow> z_optional z_positive ps ''dimensions'';
     user \<leftarrow> z_optional (z_string 0 256) ps ''user'';
     Some \<lparr>eq_model = model, eq_input = inp, eq_encoding_format = encoding_format, eq_dimensions = dimensions,
       eq_user = user, eq_extra = without embedding_keys ps\<rparr> }"

section \<open>Objects in the order of the platform\<close>

definition is_index :: "string \<times> 'a \<Rightarrow> bool" where "is_index p \<longleftrightarrow> array_index (fst p) \<noteq> None"
definition index_of :: "string \<times> 'a \<Rightarrow> nat" where "index_of p = the (array_index (fst p))"

lemma index_inj: "distinct (map fst ps) \<Longrightarrow> list_all is_index ps \<Longrightarrow> inj_on index_of (set ps)"
proof (rule inj_onI)
  fix p q :: "string \<times> 'a"
  assume d: "distinct (map fst ps)" "list_all is_index ps" "p \<in> set ps" "q \<in> set ps" "index_of p = index_of q"
  have "show_nat (index_of p) = fst p" if "is_index p" for p :: "string \<times> 'a"
    using that by (auto simp: is_index_def index_of_def array_index_def split: option.splits if_splits)
  with d have "fst p = fst q" by (metis list_all_iff)
  with d show "p = q" by (metis distinct_map inj_onD)
qed

lemma obj_insert_index:
  assumes "is_index (k, v)" "list_all is_index as" "list_all (\<lambda>p. \<not> is_index p) bs" "\<forall>p \<in> set as. index_of p \<noteq> index_of (k, v)"
  shows "obj_insert k v (as @ bs) = insort_key index_of (k, v) as @ bs"
  using assms
proof (induction as)
  case Nil
  then show ?case by (cases bs) (auto simp: is_index_def precedes_def split: option.split)
next
  case (Cons a as)
  obtain k' v' where "a = (k', v')" by (cases a)
  with Cons show ?case by (auto simp: is_index_def index_of_def precedes_def)
qed

lemma obj_insert_name: "\<not> is_index (k, v) \<Longrightarrow> obj_insert k v ps = ps @ [(k, v)]"
  by (induction ps) (auto simp: is_index_def precedes_def)

lemma obj_of_sorted:
  "distinct (map fst ps) \<Longrightarrow> obj_of ps = sort_key index_of (filter is_index ps) @ filter (\<lambda>p. \<not> is_index p) ps"
proof (induction ps rule: rev_induct)
  case (snoc p ps)
  obtain k v where p: "p = (k, v)" by (cases p)
  let ?as = "sort_key index_of (filter is_index ps)" and ?bs = "filter (\<lambda>p. \<not> is_index p) ps"
  have IH: "obj_of ps = ?as @ ?bs" using snoc by simp
  have new: "k \<notin> fst ` set (?as @ ?bs)" using snoc.prems p by auto
  then have "obj_of (ps @ [p]) = obj_insert k v (?as @ ?bs)"
    using IH by (simp add: obj_of_def p obj_set_def map_of_eq_None_iff)
  show ?case
  proof (cases "is_index p")
    case False
    with \<open>obj_of (ps @ [p]) = _\<close> p show ?thesis by (simp add: obj_insert_name)
  next
    case True
    have inj: "inj_on index_of (set (filter is_index (ps @ [p])))"
      by (rule index_inj) (use snoc.prems in \<open>auto simp: distinct_map inj_on_def list_all_iff\<close>)
    with True new p have fresh: "\<forall>q \<in> set ?as. index_of q \<noteq> index_of (k, v)"
      by (force simp: inj_on_def)
    have "obj_insert k v (?as @ ?bs) = insort_key index_of (k, v) ?as @ ?bs"
      by (rule obj_insert_index) (use True p fresh in \<open>auto simp: list_all_iff\<close>)
    moreover have "sort_key index_of (filter is_index (ps @ [p])) = insort_key index_of (k, v) ?as"
      by (rule sort_key_inj_key_eq) (use True p inj in \<open>simp_all add: sorted_insort_key\<close>)
    ultimately show ?thesis using \<open>obj_of (ps @ [p]) = _\<close> True p by simp
  qed
qed (simp add: obj_of_def)

lemma own_ordered_obj_of: "own_ordered ps \<longleftrightarrow> obj_of ps = ps"
  by (simp add: own_ordered_def obj_of_def)

lemma distinct_obj_of: "distinct (map fst (obj_of ps))"
  by (induction ps rule: rev_induct) (auto simp: obj_of_def distinct_obj_set)

lemma without_obj_of:
  assumes "distinct (map fst (qs @ es))" "list_all (\<lambda>p. \<not> is_index p) qs" "fst ` set qs \<subseteq> set ks" "set ks \<inter> fst ` set es = {}" "obj_of es = es"
  shows "without ks (obj_of (qs @ es)) = es"
proof -
  have keep: "filter (\<lambda>p. fst p \<notin> set ks) es = es" "filter (\<lambda>p. fst p \<notin> set ks) qs = []"
    using assms(3,4) by (auto simp: filter_id_conv filter_empty_conv)
  have none: "filter is_index qs = []" "filter (\<lambda>p. \<not> is_index p) qs = qs"
    using assms(2) by (simp_all add: list_all_iff filter_id_conv filter_empty_conv)
  have es: "sort_key index_of (filter is_index es) @ filter (\<lambda>p. \<not> is_index p) es = es"
    using obj_of_sorted [of es] assms(1,5) by simp
  have "without ks (obj_of (qs @ es)) = sort_key index_of (filter is_index es) @ filter (\<lambda>p. \<not> is_index p) es"
    using obj_of_sorted [OF assms(1)] keep none
    by (simp add: without_def filter_sort) (metis (no_types, lifting) filter_cong filter_filter)
  with es show ?thesis by simp
qed

lemma obj_of_without: "obj_of ps = ps \<Longrightarrow> obj_of (without ks ps) = without ks ps"
proof -
  assume ps: "obj_of ps = ps"
  then have d: "distinct (map fst ps)" using distinct_obj_of [of ps] by simp
  then have "distinct (map fst (without ks ps))" by (auto simp: without_def distinct_map inj_on_def)
  then have "obj_of (without ks ps) = without ks (obj_of ps)"
    using obj_of_sorted d by (simp add: without_def filter_sort) (simp add: filter_filter conj_commute)
  with ps show ?thesis by simp
qed

section \<open>What the schemas accept\<close>

fun part_ok :: "ContentPart \<Rightarrow> bool" where
  "part_ok (TextPart w) = True"
| "part_ok (ImagePart url detail) = (url \<noteq> [] \<and> pred_option (\<lambda>d. d \<in> {''auto'', ''low'', ''high''}) detail)"

fun is_text_part :: "ContentPart \<Rightarrow> bool" where
  "is_text_part (TextPart w) = True" | "is_text_part _ = False"

fun content_ok :: "(ContentPart \<Rightarrow> bool) \<Rightarrow> MessageContent \<Rightarrow> bool" where
  "content_ok P (ContentText w) = True"
| "content_ok P (ContentParts parts) = list_all P parts"

fun message_ok :: "ChatMessage \<Rightarrow> bool" where
  "message_ok (SystemMessage c n) = content_ok is_text_part c"
| "message_ok (UserMessage c n) = content_ok part_ok c"
| "message_ok (AssistantMessage c n calls) = pred_option (pred_option (content_ok is_text_part)) c"
| "message_ok (ToolMessage c i) = content_ok is_text_part c"

fun stop_ok :: "stop_option \<Rightarrow> bool" where
  "stop_ok (StopText w) = True" | "stop_ok (StopList ws) = (length ws \<le> 4)"

definition between :: "rat \<Rightarrow> rat \<Rightarrow> decimal \<Rightarrow> bool" where
  "between lo hi d \<longleftrightarrow> lo \<le> dec_value d \<and> dec_value d \<le> hi"

definition format_ok :: "(string \<times> json) list \<Rightarrow> bool" where
  "format_ok f \<longleftrightarrow> (\<exists>t \<in> {''text'', ''json_object'', ''json_schema''}. map_of f ''type'' = Some (JStr t) \<and>
     f = obj_of ((''type'', JStr t) # without [''type''] f))"

definition extra_ok :: "string list \<Rightarrow> (string \<times> json) list \<Rightarrow> bool" where
  "extra_ok ks ps \<longleftrightarrow> distinct (map fst ps) \<and> set ks \<inter> fst ` set ps = {} \<and> obj_of ps = ps"

definition request_ok :: "ChatCompletionRequest \<Rightarrow> bool" where
  "request_ok r \<longleftrightarrow>
     1 \<le> length (rq_model r) \<and> length (rq_model r) \<le> 256 \<and>
     rq_messages r \<noteq> [] \<and> list_all message_ok (rq_messages r) \<and>
     pred_option (between 0 2) (rq_temperature r) \<and> pred_option (between 0 1) (rq_top_p r) \<and>
     pred_option (\<lambda>n. 1 \<le> n \<and> n \<le> 128) (rq_n r) \<and>
     pred_option stop_ok (rq_stop r) \<and>
     pred_option (\<lambda>n. 1 \<le> n) (rq_max_tokens r) \<and> pred_option (\<lambda>n. 1 \<le> n) (rq_max_completion_tokens r) \<and>
     pred_option (between (- 2) 2) (rq_presence_penalty r) \<and> pred_option (between (- 2) 2) (rq_frequency_penalty r) \<and>
     pred_option (\<lambda>u. length u \<le> 256) (rq_user r) \<and>
     pred_option (list_all (\<lambda>t. td_name t \<noteq> [])) (rq_tools r) \<and>
     pred_option format_ok (rq_response_format r) \<and>
     extra_ok request_keys (rq_extra r)"

section \<open>Schemas read back what requests serialise to\<close>

lemma z_required_lookup: "map_of ps k = Some (g a) \<Longrightarrow> f (g a) = Some a \<Longrightarrow> z_required f ps k = Some a"
  by (simp add: z_required_def)

lemma z_optional_lookup: "map_of ps k = map_option g x \<Longrightarrow> (\<And>a. x = Some a \<Longrightarrow> f (g a) = Some a) \<Longrightarrow> z_optional f ps k = Some x"
  by (cases x) (simp_all add: z_optional_def)

lemma map_of_or_absent: "map_of (or_absent k f x) k' = (if k' = k then map_option f x else None)"
  by (cases x) (simp_all add: or_absent_def)

lemma map_of_rev_or_absent: "map_of (rev (or_absent k f x)) k' = (if k' = k then map_option f x else None)"
  by (cases x) (simp_all add: or_absent_def)

lemma those_list_all: "list_all (\<lambda>x. f (g x) = Some x) xs \<Longrightarrow> those (map f (map g xs)) = Some xs"
  by (induction xs) auto

lemma as_list_round: "list_all (\<lambda>x. f (g x) = Some x) xs \<Longrightarrow> as_list f (JArr (map g xs)) = Some xs"
  using those_list_all by (simp add: as_list_def)

lemma text_part_round: "is_text_part c \<Longrightarrow> textContentPartSchema (part_json c) = Some c"
  by (cases c) (simp_all add: textContentPartSchema_def z_required_def z_literal_def)

lemma part_round: "part_ok c \<Longrightarrow> contentPartSchema (part_json c) = Some c"
proof (cases c)
  case (TextPart w)
  then show ?thesis by (simp add: contentPartSchema_def z_union_def text_part_round [of "TextPart w", simplified])
next
  case (ImagePart url detail)
  assume "part_ok c"
  with ImagePart show ?thesis
    by (cases detail) (auto simp: contentPartSchema_def z_union_def textContentPartSchema_def imageContentPartSchema_def
        z_required_def z_optional_def z_literal_def z_nonempty_def z_literal_of_def details_def or_absent_def)
qed

lemma content_round:
  assumes "\<And>c. P c \<Longrightarrow> part (part_json c) = Some c" and "content_ok P c"
  shows "z_content part (content_json c) = Some c"
proof (cases c)
  case (ContentParts parts)
  with assms have "as_list part (JArr (map part_json parts)) = Some parts"
    by (intro as_list_round) (auto simp: list_all_iff)
  with ContentParts show ?thesis by (simp add: z_content_def z_union_def)
qed (simp add: z_content_def z_union_def)

lemma tool_call_round: "request_toolCallSchema (tool_call_json c) = Some c"
  by (simp add: request_toolCallSchema_def tool_call_json_def z_required_def z_literal_def)

lemma message_round: "message_ok m \<Longrightarrow> chatMessageSchema (message_json m) = Some m"
proof (cases m)
  case (AssistantMessage c n calls)
  assume "message_ok m"
  with AssistantMessage have ok: "pred_option (pred_option (content_ok is_text_part)) c" by simp
  let ?ps = "(''role'', JStr ''assistant'') # or_absent ''content'' (or_null content_json) c @ or_absent ''name'' JStr n
    @ or_absent ''tool_calls'' (\<lambda>cs. JArr (map tool_call_json cs)) calls"
  have look: "map_of ?ps ''content'' = map_option (or_null content_json) c" "map_of ?ps ''name'' = map_option JStr n"
    "map_of ?ps ''tool_calls'' = map_option (\<lambda>cs. JArr (map tool_call_json cs)) calls"
    by (simp_all add: map_of_or_absent map_add_def split: option.split)
  have not_null: "content_json a \<noteq> JNull" for a by (cases a) simp_all
  have "z_optional (nullable (z_content textContentPartSchema)) ?ps ''content'' = Some c"
  proof (rule z_optional_lookup [OF look(1)])
    fix a
    assume "c = Some a"
    with ok show "nullable (z_content textContentPartSchema) (or_null content_json a) = Some a"
      by (intro nullable_or_null) (simp add: not_null content_round [OF text_part_round])
  qed
  moreover have "z_optional as_str ?ps ''name'' = Some n"
    by (rule z_optional_lookup [OF look(2)]) simp
  moreover have "z_optional (as_list request_toolCallSchema) ?ps ''tool_calls'' = Some calls"
    by (rule z_optional_lookup [OF look(3)]) (simp add: as_list_round list_all_iff tool_call_round)
  ultimately show ?thesis
    using AssistantMessage
    by (simp add: chatMessageSchema_def z_union_def systemMessageSchema_def userMessageSchema_def assistantMessageSchema_def
        z_required_def z_literal_def)
next
  case (SystemMessage c n)
  assume "message_ok m"
  with SystemMessage show ?thesis
    by (cases n) (simp_all add: chatMessageSchema_def z_union_def systemMessageSchema_def z_required_def z_optional_def
        z_literal_def or_absent_def content_round [OF text_part_round])
next
  case (UserMessage c n)
  assume "message_ok m"
  with UserMessage show ?thesis
    by (cases n) (simp_all add: chatMessageSchema_def z_union_def systemMessageSchema_def userMessageSchema_def messageContentSchema_def
        z_required_def z_optional_def z_literal_def or_absent_def content_round [OF part_round])
next
  case (ToolMessage c i)
  assume "message_ok m"
  with ToolMessage show ?thesis
    by (simp add: chatMessageSchema_def z_union_def systemMessageSchema_def userMessageSchema_def assistantMessageSchema_def
        toolMessageSchema_def z_required_def z_literal_def content_round [OF text_part_round])
qed

lemma tool_round: "td_name t \<noteq> [] \<Longrightarrow> toolDefinitionSchema (tool_json t) = Some t"
  by (simp add: toolDefinitionSchema_def tool_json_def z_required_def z_optional_def z_literal_def z_nonempty_def map_of_or_absent
      map_add_def split: option.split)

lemma choice_round: "toolChoiceSchema (tool_choice_json c) = Some c"
  by (cases c) (simp_all add: toolChoiceSchema_def z_union_def z_literal_of_def tool_choices_def z_required_def z_literal_def)

lemma stop_round: "stop_ok x \<Longrightarrow> stopSchema (stop_json x) = Some x"
  by (cases x) (simp_all add: stopSchema_def z_union_def as_list_round list_all_iff)

lemma bias_round: "logitBiasSchema (JObj (map (\<lambda>(k, d). (k, dec_json d)) b)) = Some b"
  unfolding logitBiasSchema_def by (induction b) (auto simp: dec_json_def)

lemma format_round: "format_ok f \<Longrightarrow> responseFormatSchema (JObj f) = Some f"
  by (auto simp: format_ok_def responseFormatSchema_def z_required_def z_literal_of_def response_formats_def)

lemma number_round: "between lo hi d \<Longrightarrow> z_number lo hi (dec_json d) = Some d"
  by (simp add: between_def z_number_def dec_json_def)

lemma options_round: "streamOptionsSchema (JObj (or_absent ''include_usage'' JBool u)) = Some u"
  by (cases u) (simp_all add: streamOptionsSchema_def z_optional_def or_absent_def)

text \<open>Keys of a list of optional fields.\<close>

lemma or_absent_within: "fst ` set (or_absent k f x) \<subseteq> {k}"
  by (cases x) (simp_all add: or_absent_def)

lemma fresh_key:
  "k' \<notin> fst ` set []" "k \<noteq> k' \<Longrightarrow> k' \<notin> fst ` set ps \<Longrightarrow> k' \<notin> fst ` set ((k, v) # ps)"
  "k \<noteq> k' \<Longrightarrow> k' \<notin> fst ` set (or_absent k f x)"
  "k \<noteq> k' \<Longrightarrow> k' \<notin> fst ` set ps \<Longrightarrow> k' \<notin> fst ` set (or_absent k f x @ ps)"
  using or_absent_within [of k f x] by auto

lemma distinct_fields:
  "k \<notin> fst ` set ps \<Longrightarrow> distinct (map fst ps) \<Longrightarrow> distinct (map fst ((k, v) # ps))"
  "distinct (map fst (or_absent k f x))"
  "k \<notin> fst ` set ps \<Longrightarrow> distinct (map fst ps) \<Longrightarrow> distinct (map fst (or_absent k f x @ ps))"
  by (cases x; simp add: or_absent_def)+

lemma names_only:
  "array_index k = None \<Longrightarrow> list_all (\<lambda>p. \<not> is_index p) ps \<Longrightarrow> list_all (\<lambda>p. \<not> is_index p) ((k, v) # ps)"
  "array_index k = None \<Longrightarrow> list_all (\<lambda>p. \<not> is_index p) (or_absent k f x)"
  "array_index k = None \<Longrightarrow> list_all (\<lambda>p. \<not> is_index p) ps \<Longrightarrow> list_all (\<lambda>p. \<not> is_index p) (or_absent k f x @ ps)"
  by (cases x; simp add: or_absent_def is_index_def)+

lemma request_fields_keys:
  "fst ` set (request_fields r) \<subseteq> set request_keys" "distinct (map fst (request_fields r))" "list_all (\<lambda>p. \<not> is_index p) (request_fields r)"
proof -
  show "fst ` set (request_fields r) \<subseteq> set request_keys"
    unfolding request_fields_def request_keys_def set_append image_Un Un_subset_iff
    by (intro conjI order_trans [OF or_absent_within]) simp_all
  show "distinct (map fst (request_fields r))"
    unfolding request_fields_def append.simps by (intro distinct_fields fresh_key) simp_all
  show "list_all (\<lambda>p. \<not> is_index p) (request_fields r)"
    unfolding request_fields_def append.simps by (intro names_only) (simp_all add: array_index_name char_digit_def)
qed

lemma request_lookup:
  assumes "extra_ok request_keys (rq_extra r)" and "k \<in> set request_keys"
  shows "map_of (request_object r) k = map_of (rev (request_fields r)) k"
proof -
  from assms have "k \<notin> fst ` set (rev (rq_extra r))" by (auto simp: extra_ok_def)
  then have "map_of (rev (rq_extra r)) k = None" by (simp add: map_of_eq_None_iff)
  then show ?thesis by (simp add: request_object_def map_of_obj_of map_add_def)
qed

lemma request_fields_lookup:
  "map_of (rev (request_fields r)) ''model'' = Some (JStr (rq_model r))"
  "map_of (rev (request_fields r)) ''messages'' = Some (JArr (map message_json (rq_messages r)))"
  "map_of (rev (request_fields r)) ''temperature'' = map_option dec_json (rq_temperature r)"
  "map_of (rev (request_fields r)) ''top_p'' = map_option dec_json (rq_top_p r)"
  "map_of (rev (request_fields r)) ''n'' = map_option int_json (rq_n r)"
  "map_of (rev (request_fields r)) ''stream'' = map_option JBool (rq_stream r)"
  "map_of (rev (request_fields r)) ''stream_options'' = map_option (\<lambda>u. JObj (or_absent ''include_usage'' JBool u)) (rq_include_usage r)"
  "map_of (rev (request_fields r)) ''stop'' = map_option stop_json (rq_stop r)"
  "map_of (rev (request_fields r)) ''max_tokens'' = map_option int_json (rq_max_tokens r)"
  "map_of (rev (request_fields r)) ''max_completion_tokens'' = map_option int_json (rq_max_completion_tokens r)"
  "map_of (rev (request_fields r)) ''presence_penalty'' = map_option dec_json (rq_presence_penalty r)"
  "map_of (rev (request_fields r)) ''frequency_penalty'' = map_option dec_json (rq_frequency_penalty r)"
  "map_of (rev (request_fields r)) ''logit_bias'' = map_option (\<lambda>b. JObj (map (\<lambda>(k, d). (k, dec_json d)) b)) (rq_logit_bias r)"
  "map_of (rev (request_fields r)) ''user'' = map_option JStr (rq_user r)"
  "map_of (rev (request_fields r)) ''seed'' = map_option int_json (rq_seed r)"
  "map_of (rev (request_fields r)) ''tools'' = map_option (\<lambda>ts. JArr (map tool_json ts)) (rq_tools r)"
  "map_of (rev (request_fields r)) ''tool_choice'' = map_option tool_choice_json (rq_tool_choice r)"
  "map_of (rev (request_fields r)) ''response_format'' = map_option JObj (rq_response_format r)"
  by (simp_all add: request_fields_def map_of_rev_or_absent map_add_def split: option.split)

lemma request_round:
  assumes ok: "request_ok r"
  shows "chatCompletionRequestSchema (JObj (request_object r)) = Some r"
proof -
  have extra: "extra_ok request_keys (rq_extra r)" using ok by (simp add: request_ok_def)
  have look: "map_of (request_object r) k = map_of (rev (request_fields r)) k" if "list_ex (\<lambda>k'. k' = k) request_keys" for k
    by (rule request_lookup [OF extra]) (use that in \<open>auto simp: list_ex_iff\<close>)
  have opt: "z_optional f (request_object r) k = Some x"
    if "map_of (rev (request_fields r)) k = map_option g x" "list_ex (\<lambda>k'. k' = k) request_keys" "\<And>a. x = Some a \<Longrightarrow> f (g a) = Some a"
    for k and f :: "json \<Rightarrow> 'z option" and g x
    by (rule z_optional_lookup [of _ _ g]) (simp_all add: look that)
  note present = request_keys_def
  have "z_required (z_string 1 256) (request_object r) ''model'' = Some (rq_model r)"
    using ok by (simp add: z_required_def look present request_fields_lookup z_string_def request_ok_def)
  moreover have "z_required (z_array chatMessageSchema 1) (request_object r) ''messages'' = Some (rq_messages r)"
    using ok by (simp add: z_required_def look present request_fields_lookup request_ok_def z_array_def as_list_round list_all_iff
        message_round Suc_le_eq)
  moreover have "z_optional (z_number 0 2) (request_object r) ''temperature'' = Some (rq_temperature r)"
    by (rule opt [OF request_fields_lookup(3)]) (use ok in \<open>simp_all add: present request_ok_def number_round\<close>)
  moreover have "z_optional (z_number 0 1) (request_object r) ''top_p'' = Some (rq_top_p r)"
    by (rule opt [OF request_fields_lookup(4)]) (use ok in \<open>simp_all add: present request_ok_def number_round\<close>)
  moreover have "z_optional (z_int_between 1 128) (request_object r) ''n'' = Some (rq_n r)"
    by (rule opt [OF request_fields_lookup(5)]) (use ok in \<open>simp_all add: present request_ok_def z_int_between_def int_json_def\<close>)
  moreover have "z_optional as_bool (request_object r) ''stream'' = Some (rq_stream r)"
    by (rule opt [OF request_fields_lookup(6)]) (use ok in \<open>simp_all add: present request_ok_def\<close>)
  moreover have "z_optional streamOptionsSchema (request_object r) ''stream_options'' = Some (rq_include_usage r)"
    by (rule opt [OF request_fields_lookup(7)]) (use ok in \<open>simp_all add: present request_ok_def options_round\<close>)
  moreover have "z_optional stopSchema (request_object r) ''stop'' = Some (rq_stop r)"
    by (rule opt [OF request_fields_lookup(8)]) (use ok in \<open>simp_all add: present request_ok_def stop_round\<close>)
  moreover have "z_optional z_positive (request_object r) ''max_tokens'' = Some (rq_max_tokens r)"
    by (rule opt [OF request_fields_lookup(9)]) (use ok in \<open>simp_all add: present request_ok_def z_positive_def int_json_def\<close>)
  moreover have "z_optional z_positive (request_object r) ''max_completion_tokens'' = Some (rq_max_completion_tokens r)"
    by (rule opt [OF request_fields_lookup(10)]) (use ok in \<open>simp_all add: present request_ok_def z_positive_def int_json_def\<close>)
  moreover have "z_optional (z_number (- 2) 2) (request_object r) ''presence_penalty'' = Some (rq_presence_penalty r)"
    by (rule opt [OF request_fields_lookup(11)]) (use ok in \<open>simp_all add: present request_ok_def number_round\<close>)
  moreover have "z_optional (z_number (- 2) 2) (request_object r) ''frequency_penalty'' = Some (rq_frequency_penalty r)"
    by (rule opt [OF request_fields_lookup(12)]) (use ok in \<open>simp_all add: present request_ok_def number_round\<close>)
  moreover have "z_optional logitBiasSchema (request_object r) ''logit_bias'' = Some (rq_logit_bias r)"
    by (rule opt [OF request_fields_lookup(13)]) (use ok in \<open>simp_all add: present request_ok_def bias_round\<close>)
  moreover have "z_optional (z_string 0 256) (request_object r) ''user'' = Some (rq_user r)"
    by (rule opt [OF request_fields_lookup(14)]) (use ok in \<open>simp_all add: present request_ok_def z_string_def\<close>)
  moreover have "z_optional as_int (request_object r) ''seed'' = Some (rq_seed r)"
    by (rule opt [OF request_fields_lookup(15)]) (use ok in \<open>simp_all add: present request_ok_def int_json_def\<close>)
  moreover have "z_optional (as_list toolDefinitionSchema) (request_object r) ''tools'' = Some (rq_tools r)"
    by (rule opt [OF request_fields_lookup(16)]) (use ok in \<open>simp_all add: present request_ok_def as_list_round list_all_iff tool_round\<close>)
  moreover have "z_optional toolChoiceSchema (request_object r) ''tool_choice'' = Some (rq_tool_choice r)"
    by (rule opt [OF request_fields_lookup(17)]) (use ok in \<open>simp_all add: present request_ok_def choice_round\<close>)
  moreover have "z_optional responseFormatSchema (request_object r) ''response_format'' = Some (rq_response_format r)"
    by (rule opt [OF request_fields_lookup(18)]) (use ok in \<open>simp_all add: present request_ok_def format_round\<close>)
  moreover have "without request_keys (request_object r) = rq_extra r"
    unfolding request_object_def
    by (rule without_obj_of) (use extra request_fields_keys [of r] in \<open>auto simp: extra_ok_def\<close>)
  ultimately show ?thesis by (simp add: chatCompletionRequestSchema_def)
qed

section \<open>Schemas accept nothing else\<close>

definition accepts_only :: "(json \<Rightarrow> 'a option) \<Rightarrow> ('a \<Rightarrow> bool) \<Rightarrow> bool" where
  "accepts_only f P \<longleftrightarrow> (\<forall>j a. f j = Some a \<longrightarrow> P a)"

lemma accepts_required: "accepts_only f P \<Longrightarrow> z_required f ps k = Some a \<Longrightarrow> P a"
  by (auto simp: accepts_only_def z_required_def bind_eq_Some_conv)

lemma accepts_optional: "accepts_only f P \<Longrightarrow> z_optional f ps k = Some x \<Longrightarrow> pred_option P x"
  by (auto simp: accepts_only_def z_optional_def split: option.splits)

lemma accepts_union: "accepts_only f P \<Longrightarrow> accepts_only g P \<Longrightarrow> accepts_only (z_union f g) P"
  by (auto simp: accepts_only_def z_union_def split: option.splits)

lemma those_Some_all: "those xs = Some ys \<Longrightarrow> y \<in> set ys \<Longrightarrow> Some y \<in> set xs"
  by (induction xs arbitrary: ys) (auto split: option.splits)

lemma accepts_list: "accepts_only f P \<Longrightarrow> accepts_only (as_list f) (list_all P)"
  by (auto simp: accepts_only_def as_list_def list_all_iff split: json.splits dest!: those_Some_all)

lemma accepts_nullable: "accepts_only f P \<Longrightarrow> accepts_only (nullable f) (pred_option P)"
  by (auto simp: accepts_only_def nullable_def split: if_splits)

lemma accepts_content: "accepts_only part P \<Longrightarrow> accepts_only (z_content part) (content_ok P)"
  using accepts_list [of part P]
  by (auto simp: accepts_only_def z_content_def z_union_def split: option.splits)

lemma accepts_text_part: "accepts_only textContentPartSchema is_text_part"
  by (auto simp: accepts_only_def textContentPartSchema_def bind_eq_Some_conv)

lemma accepts_part: "accepts_only contentPartSchema part_ok"
proof -
  have "accepts_only (z_literal_of details) (\<lambda>d. d \<in> {''auto'', ''low'', ''high''})"
    by (auto simp: accepts_only_def z_literal_of_def details_def bind_eq_Some_conv split: if_splits)
  then have "accepts_only imageContentPartSchema part_ok"
    by (auto simp: accepts_only_def [of imageContentPartSchema] imageContentPartSchema_def bind_eq_Some_conv z_nonempty_def z_required_def
        dest: accepts_optional split: if_splits)
  moreover have "accepts_only textContentPartSchema part_ok"
    by (auto simp: accepts_only_def textContentPartSchema_def bind_eq_Some_conv)
  ultimately show ?thesis unfolding contentPartSchema_def by (intro accepts_union)
qed

lemmas accepts_texts = accepts_content [OF accepts_text_part]

lemma accepts_message: "accepts_only chatMessageSchema message_ok"
proof -
  have "accepts_only systemMessageSchema message_ok" "accepts_only toolMessageSchema message_ok"
    by (auto simp: accepts_only_def systemMessageSchema_def toolMessageSchema_def bind_eq_Some_conv
        dest: accepts_required [OF accepts_texts])
  moreover have "accepts_only userMessageSchema message_ok"
    by (auto simp: accepts_only_def userMessageSchema_def messageContentSchema_def bind_eq_Some_conv
        dest: accepts_required [OF accepts_content [OF accepts_part]])
  moreover have "accepts_only assistantMessageSchema message_ok"
    by (auto simp: accepts_only_def assistantMessageSchema_def bind_eq_Some_conv
        dest: accepts_optional [OF accepts_nullable [OF accepts_texts]])
  ultimately show ?thesis unfolding chatMessageSchema_def by (intro accepts_union)
qed

lemma accepts_messages: "accepts_only (z_array chatMessageSchema 1) (\<lambda>ms. ms \<noteq> [] \<and> list_all message_ok ms)"
  using accepts_list [OF accepts_message] by (auto simp: accepts_only_def z_array_def split: option.splits if_splits)

lemma accepts_numbers:
  "accepts_only (z_string lo hi) (\<lambda>w. lo \<le> length w \<and> length w \<le> hi)" "accepts_only (z_number l h) (between l h)"
  "accepts_only (z_int_between a b) (\<lambda>n. a \<le> n \<and> n \<le> b)" "accepts_only z_positive (\<lambda>n. 1 \<le> n)"
  by (auto simp: accepts_only_def z_string_def z_number_def between_def z_int_between_def z_positive_def bind_eq_Some_conv split: if_splits)

lemma accepts_stop: "accepts_only stopSchema stop_ok"
  unfolding stopSchema_def
  by (rule accepts_union) (auto simp: accepts_only_def bind_eq_Some_conv split: if_splits)

lemma accepts_tools: "accepts_only (as_list toolDefinitionSchema) (list_all (\<lambda>t. td_name t \<noteq> []))"
proof (rule accepts_list)
  have "accepts_only z_nonempty (\<lambda>w. w \<noteq> [])"
    by (auto simp: accepts_only_def z_nonempty_def bind_eq_Some_conv split: if_splits)
  then show "accepts_only toolDefinitionSchema (\<lambda>t. td_name t \<noteq> [])"
    by (auto simp: accepts_only_def [of toolDefinitionSchema] toolDefinitionSchema_def bind_eq_Some_conv dest: accepts_required)
qed

lemma responseFormat_sound:
  assumes "responseFormatSchema (JObj ps) = Some f" and "obj_of ps = ps"
  shows "format_ok f"
proof -
  from assms(1) obtain t where t: "t \<in> {''text'', ''json_object'', ''json_schema''}" "f = obj_of ((''type'', JStr t) # without [''type''] ps)"
    by (auto simp: responseFormatSchema_def z_required_def z_literal_of_def response_formats_def bind_eq_Some_conv split: if_splits)
  have d: "distinct (map fst (without [''type''] ps))" "obj_of (without [''type''] ps) = without [''type''] ps"
    using distinct_obj_of [of "without [''type''] ps"] obj_of_without [OF assms(2)] by simp_all
  have "without [''type''] (obj_of ([(''type'', JStr t)] @ without [''type''] ps)) = without [''type''] ps"
    by (rule without_obj_of) (use d in \<open>auto simp: without_def is_index_def array_index_name char_digit_def\<close>)
  with t have "f = obj_of ((''type'', JStr t) # without [''type''] f)" by simp
  moreover have "map_of f ''type'' = Some (JStr t)"
  proof -
    have "map_of (rev (without [''type''] ps)) ''type'' = None" by (auto simp: map_of_eq_None_iff without_def)
    with t(2) show ?thesis by (simp add: map_of_obj_of map_add_def)
  qed
  ultimately show ?thesis using t by (auto simp: format_ok_def)
qed

lemma chat_schema_sound:
  assumes "wf_json j" and "chatCompletionRequestSchema j = Some r"
  shows "request_ok r"
proof -
  from assms(2) obtain ps where j: "j = JObj ps" by (cases j) (auto simp: chatCompletionRequestSchema_def)
  with assms(1) have ps: "obj_of ps = ps" and wf: "\<And>k v. map_of ps k = Some v \<Longrightarrow> wf_json v"
    by (auto simp: own_ordered_obj_of list_all_iff dest!: map_of_SomeD)
  note fields = assms(2) [unfolded chatCompletionRequestSchema_def j as_obj.simps, simplified bind_eq_Some_conv, simplified]
  from fields have "z_optional responseFormatSchema ps ''response_format'' = Some (rq_response_format r)" by auto
  then have "pred_option format_ok (rq_response_format r)"
  proof (cases "rq_response_format r")
    case (Some f)
    with \<open>z_optional responseFormatSchema ps _ = _\<close> obtain v where "map_of ps ''response_format'' = Some v" "responseFormatSchema v = Some f"
      by (auto simp: z_optional_def split: option.splits)
    moreover from this(2) obtain qs where "v = JObj qs" by (cases v) (auto simp: responseFormatSchema_def)
    ultimately show ?thesis
      using wf responseFormat_sound [of qs f] Some by (fastforce simp: own_ordered_obj_of)
  qed simp
  moreover have "extra_ok request_keys (without request_keys ps)"
    using obj_of_without [OF ps, of request_keys] distinct_obj_of [of "without request_keys ps"]
    by (auto simp: extra_ok_def without_def)
  ultimately show ?thesis
    using fields
    by (auto simp: request_ok_def dest: accepts_required [OF accepts_numbers(1)] accepts_required [OF accepts_messages [unfolded One_nat_def]]
        accepts_optional [OF accepts_numbers(1)] accepts_optional [OF accepts_numbers(2)] accepts_optional [OF accepts_numbers(3)]
        accepts_optional [OF accepts_numbers(4)] accepts_optional [OF accepts_stop] accepts_optional [OF accepts_tools])
qed


definition demo_body :: json where
  "demo_body = JObj [(''model'', JStr ''gpt-4o''),
     (''messages'', JArr [JObj [(''role'', JStr ''user''), (''content'', JStr ''hi'')]]),
     (''temperature'', JNum 5 1), (''top_k'', JNum 40 0)]"


end
