(* ===== verification/Routes.thy ===== *)
theory Routes
  imports Failover Rate_Limiter OpenAI_Adapter Validation
begin

text \<open>
  The user-facing routes (\<open>src/routes/completions.ts\<close>, \<open>embeddings.ts\<close>, \<open>models.ts\<close>, \<open>http.ts\<close>) behind
  the authentication hook, with the error handler behind them: from a parsed HTTP request to the
  reply.  The reply of a stream is the list of the frames that are written.  A relayed chunk is
  serialised with the properties that the type of chunks names.
\<close>

section \<open>Requests and replies\<close>

datatype header_value = Header_text string | Header_list "string list"

record http_in =
  hi_id :: string
  hi_authorization :: "string option"
  hi_x_api_key :: "string option"
  hi_cache_control :: "header_value option"
  hi_body :: json

datatype reply_body = Body_json json | Body_frames "string list" | Body_error OpenAIErrorBody | Body_none

record http_reply =
  hy_status :: int
  hy_headers :: "(string \<times> string) list"
  hy_body :: reply_body

text \<open>The process singletons that the routes use; \<open>ap_issues\<close> is what zod finds wrong with a body.\<close>

record ('s, 'e) api =
  ap_deps :: "'s router_deps"
  ap_auth :: "'s auth_env"
  ap_auth_clock :: "'s \<Rightarrow> int \<times> int"
  ap_redis :: "'s redis_env"
  ap_prefix :: key_prefix
  ap_limits :: rl_settings
  ap_clock :: "'s \<Rightarrow> int"
  ap_uuid :: "'s \<Rightarrow> string"
  ap_tiktoken :: "'e tiktoken"
  ap_encoders :: "'s \<Rightarrow> 'e encoder_cache"
  ap_set_encoders :: "'e encoder_cache \<Rightarrow> 's \<Rightarrow> 's"
  ap_rateLimited :: "RateLimitReason option \<Rightarrow> 's \<Rightarrow> 's"
  ap_issues :: "json \<Rightarrow> zod_issue list"
  ap_redis_thrown :: "redis_error \<Rightarrow> thrown"
  ap_snapshot :: "'s \<Rightarrow> snapshot"
  ap_compare :: "string \<Rightarrow> string \<Rightarrow> int"

section \<open>Shared helpers\<close>

text \<open>
  \<open>clientAbortSignal\<close>: whether the signal is aborted when it is created, and what a \<open>close\<close> event
  of the socket does to it.
\<close>

record raw_reply =
  raw_destroyed :: bool
  raw_writableFinished :: bool

definition clientAbortSignal :: "raw_reply \<Rightarrow> bool" where
  "clientAbortSignal raw \<longleftrightarrow> raw_destroyed raw \<and> \<not> raw_writableFinished raw"

definition on_close :: "raw_reply \<Rightarrow> bool \<Rightarrow> bool" where
  "on_close raw aborted = (if \<not> raw_writableFinished raw then True else aborted)"

definition isBypassCache :: "http_in \<Rightarrow> bool" where
  "isBypassCache q = (case hi_cache_control q of Some (Header_text h) \<Rightarrow> toLowerCase h = ''no-cache'' | _ \<Rightarrow> False)"

fun cache_status_text :: "CacheStatus \<Rightarrow> string" where
  "cache_status_text CS_HIT = ''HIT''"
| "cache_status_text CS_MISS = ''MISS''"
| "cache_status_text CS_BYPASS = ''BYPASS''"
| "cache_status_text CS_SKIP = ''SKIP''"

definition gatewayHeaderObject :: "RouterMeta \<Rightarrow> string \<Rightarrow> (string \<times> string) list" where
  "gatewayHeaderObject m requestId =
     [(''x-request-id'', requestId), (''x-gateway-model'', rm_model m),
      (''x-gateway-latency-ms'', show_int (js_round (rm_latencyMs m))),
      (''x-gateway-cache-status'', cache_status_text (rm_cacheStatus m)),
      (''x-gateway-failover-count'', show_nat (rm_failoverCount m))]
     @ (case rm_provider m of Some p \<Rightarrow> [(''x-gateway-provider'', p)] | None \<Rightarrow> [])"

definition rateLimitHeaderObject :: "RateLimitResult \<Rightarrow> (string \<times> string) list" where
  "rateLimitHeaderObject r =
     [(''x-ratelimit-limit'', show_int (rr_limit r)), (''x-ratelimit-remaining'', show_int (rr_remaining r)),
      (''x-ratelimit-reset'', show_int (rr_resetUnixSec r))]"

text \<open>Setting a header replaces its value.\<close>

definition set_headers :: "(string \<times> string) list \<Rightarrow> (string \<times> string) list \<Rightarrow> (string \<times> string) list" where
  "set_headers new hs = fold (\<lambda>(k, v). AList.update k v) new hs"

section \<open>Chunks and embeddings as JSON\<close>

definition tool_delta_json :: "ToolCallDelta \<Rightarrow> json" where
  "tool_delta_json d = JObj ([(''index'', int_json (dt_index d))] @ or_absent ''id'' JStr (dt_id d)
     @ (if dt_has_type d then [(''type'', JStr ''function'')] else [])
     @ [(''function'', JObj (or_absent ''name'' JStr (dt_name d) @ or_absent ''arguments'' JStr (dt_arguments d)))])"

definition chunk_choice_json :: "ChatCompletionChunkChoice \<Rightarrow> json" where
  "chunk_choice_json c = JObj
     [(''index'', int_json (cc_index c)),
      (''delta'', JObj ((if cc_role c then [(''role'', JStr ''assistant'')] else [])
        @ or_absent ''content'' JStr (cc_content c)
        @ or_absent ''tool_calls'' (\<lambda>ds. JArr (map tool_delta_json ds)) (cc_tool_calls c))),
      (''finish_reason'', or_null (\<lambda>r. JStr (finish_text r)) (cc_finish_reason c)), (''logprobs'', JNull)]"

definition chunk_json :: "ChatCompletionChunk \<Rightarrow> json" where
  "chunk_json ck = JObj
     ([(''id'', JStr (ck_id ck)), (''object'', JStr ''chat.completion.chunk''), (''created'', int_json (ck_created ck)),
       (''model'', JStr (ck_model ck))]
      @ or_absent ''choices'' (\<lambda>cs. JArr (map chunk_choice_json cs)) (ck_choices ck)
      @ or_absent ''usage'' usage_json (ck_usage ck)
      @ or_absent ''system_fingerprint'' JStr (ck_system_fingerprint ck))"

definition embedding_response_json :: "EmbeddingResponse \<Rightarrow> json" where
  "embedding_response_json r = JObj
     [(''object'', JStr ''list''), (''data'', JArr (er_data r)), (''model'', JStr (er_model r)),
      (''usage'', JObj [(''prompt_tokens'', int_json (er_prompt_tokens r)), (''total_tokens'', int_json (er_total_tokens r))])]"

section \<open>The routes\<close>

text \<open>A route throws or replies; the headers that were set on the reply stay set when it throws.\<close>

type_synonym 's routed = "((thrown, http_reply) result \<times> (string \<times> string) list) \<times> 's"

definition requireContext :: "GatewayContext option \<Rightarrow> (thrown, GatewayContext) result" where
  "requireContext c = (case c of
     None \<Rightarrow> Inl (TGateway (AuthenticationError ''Missing authentication context.'' no_options)) | Some ctx \<Rightarrow> Inr ctx)"

definition enforceRateLimit ::
  "('s, 'e) api \<Rightarrow> GatewayContext \<Rightarrow> int \<Rightarrow> 's \<Rightarrow> ((thrown, unit) result \<times> (string \<times> string) list) \<times> 's" where
  "enforceRateLimit A ctx estimatedTokens s =
     (case rl_check (ap_redis A) (ap_limits A) (ap_prefix A) (apiKeyId ctx)
         \<lparr>rl_rpmLimit = rpmLimit ctx, rl_tpmLimit = tpmLimit ctx, rl_estimatedTokens = of_int estimatedTokens\<rparr>
         (ap_clock A s) (ap_uuid A s) s of
        (Inl e, s1) \<Rightarrow> ((Inl (ap_redis_thrown A e), []), s1)
      | (Inr limit, s1) \<Rightarrow>
          (let hs = rateLimitHeaderObject limit in
           if \<not> rr_allowed limit then
             ((Inl (TGateway (RateLimitError ''Rate limit exceeded.'' (of_int (rr_retryAfterSec limit)) no_options)), hs),
              ap_rateLimited A (rr_reason limit) s1)
           else ((Inr (), hs), s1)))"

definition invalid_body :: "('s, 'e) api \<Rightarrow> string \<Rightarrow> json \<Rightarrow> thrown" where
  "invalid_body A msg body = TGateway (ValidationError msg (no_options\<lparr>opt_issues := Some (ap_issues A body)\<rparr>))"

definition estimateChat :: "('s, 'e) api \<Rightarrow> ChatCompletionRequest \<Rightarrow> 's \<Rightarrow> int \<times> 's" where
  "estimateChat A r s =
     (case countChatTokens (ap_tiktoken A) (rq_messages r) (rq_model r) (ap_encoders A s) of
        (n, cache) \<Rightarrow> (n, ap_set_encoders A cache s))"

definition estimateEmbedding :: "('s, 'e) api \<Rightarrow> EmbeddingRequest \<Rightarrow> 's \<Rightarrow> int \<times> 's" where
  "estimateEmbedding A r s =
     (case countEmbeddingTokens (ap_tiktoken A) (eq_input r) (eq_model r) (ap_encoders A s) of
        (n, cache) \<Rightarrow> (n, ap_set_encoders A cache s))"

text \<open>The frames of a stream that was read to its end or to an error.\<close>

definition stream_frames :: "stream_end \<Rightarrow> ChatCompletionChunk list \<Rightarrow> string list" where
  "stream_frames e chunks =
     map (\<lambda>ck. serializeSSE (chunk_json ck)) chunks @ (case e of Broken _ \<Rightarrow> [] | _ \<Rightarrow> [SSE_DONE_FRAME])"

definition streaming_headers :: "(string \<times> string) list \<Rightarrow> RouterMeta \<Rightarrow> string \<Rightarrow> (string \<times> string) list" where
  "streaming_headers hs m requestId =
     set_headers hs (set_headers (gatewayHeaderObject m requestId)
       (set_headers [(''content-type'', ''text/event-stream''), (''cache-control'', ''no-cache''), (''connection'', ''keep-alive'')] hs))"

definition streamed :: "('s, 'e) api \<Rightarrow> http_in \<Rightarrow> ChatCompletionRequest \<Rightarrow> GatewayContext \<Rightarrow> (string \<times> string) list \<Rightarrow> 's \<Rightarrow> 's routed option" where
  "streamed A q body ctx hs s =
     (case prepareStream (ap_deps A) body ctx s of
        None \<Rightarrow> None
      | Some (Inl e, s1) \<Rightarrow> Some ((Inl e, hs), s1)
      | Some (Inr (m, ps), s1) \<Rightarrow>
          (case run_stream (ap_deps A) body ctx (\<lambda>n. True) ps s1 of
             None \<Rightarrow> None
           | Some ((e, chunks), s2) \<Rightarrow>
               Some ((Inr \<lparr>hy_status = 200, hy_headers = streaming_headers hs m (hi_id q),
                       hy_body = Body_frames (stream_frames e chunks)\<rparr>, hs), s2)))"

definition plain :: "('s, 'e) api \<Rightarrow> http_in \<Rightarrow> ChatCompletionRequest \<Rightarrow> GatewayContext \<Rightarrow> (string \<times> string) list \<Rightarrow> 's \<Rightarrow> 's routed option" where
  "plain A q body ctx hs s =
     (case chatCompletion (ap_deps A) body ctx (isBypassCache q) s of
        None \<Rightarrow> None
      | Some (Inl e, s1) \<Rightarrow> Some ((Inl e, hs), s1)
      | Some (Inr (response, m), s1) \<Rightarrow>
          Some ((Inr \<lparr>hy_status = 200, hy_headers = set_headers (gatewayHeaderObject m (hi_id q)) hs,
                  hy_body = Body_json (response_json response)\<rparr>, hs), s1))"

definition completionsRoute :: "('s, 'e) api \<Rightarrow> http_in \<Rightarrow> GatewayContext option \<Rightarrow> 's \<Rightarrow> 's routed option" where
  "completionsRoute A q gatewayContext s =
     (case chatCompletionRequestSchema (hi_body q) of
        None \<Rightarrow> Some ((Inl (invalid_body A ''Invalid chat completion request.'' (hi_body q)), []), s)
      | Some body \<Rightarrow>
          (case requireContext gatewayContext of
             Inl e \<Rightarrow> Some ((Inl e, []), s)
           | Inr ctx \<Rightarrow>
               (case estimateChat A body s of (estimatedTokens, s1) \<Rightarrow>
                  (case enforceRateLimit A ctx estimatedTokens s1 of
                     ((Inl e, hs), s2) \<Rightarrow> Some ((Inl e, hs), s2)
                   | ((Inr _, hs), s2) \<Rightarrow>
                       (if rq_stream body = Some True then streamed A q body ctx hs s2 else plain A q body ctx hs s2)))))"

definition embeddingsRoute :: "('s, 'e) api \<Rightarrow> http_in \<Rightarrow> GatewayContext option \<Rightarrow> 's \<Rightarrow> 's routed option" where
  "embeddingsRoute A q gatewayContext s =
     (case embeddingRequestSchema (hi_body q) of
        None \<Rightarrow> Some ((Inl (invalid_body A ''Invalid embeddings request.'' (hi_body q)), []), s)
      | Some body \<Rightarrow>
          (case requireContext gatewayContext of
             Inl e \<Rightarrow> Some ((Inl e, []), s)
           | Inr ctx \<Rightarrow>
               (case estimateEmbedding A body s of (estimatedTokens, s1) \<Rightarrow>
                  (case enforceRateLimit A ctx estimatedTokens s1 of
                     ((Inl e, hs), s2) \<Rightarrow> Some ((Inl e, hs), s2)
                   | ((Inr _, hs), s2) \<Rightarrow>
                       (case embeddings (ap_deps A) body ctx s2 of
                          None \<Rightarrow> None
                        | Some (Inl e, s3) \<Rightarrow> Some ((Inl e, hs), s3)
                        | Some (Inr (response, m), s3) \<Rightarrow>
                            Some ((Inr \<lparr>hy_status = 200, hy_headers = set_headers (gatewayHeaderObject m (hi_id q)) hs,
                                    hy_body = Body_json (embedding_response_json response)\<rparr>, hs), s3))))))"

fun adapter_text :: "AdapterType \<Rightarrow> string" where
  "adapter_text AdOpenai = ''openai''"
| "adapter_text AdAnthropic = ''anthropic''"
| "adapter_text AdGemini = ''gemini''"
| "adapter_text AdCohere = ''cohere''"
| "adapter_text AdMistral = ''mistral''"

definition model_json :: "ModelObject \<Rightarrow> json" where
  "model_json m = JObj [(''id'', JStr (mo_id m)), (''object'', JStr ''model''), (''created'', int_json (mo_created m)),
     (''owned_by'', JStr (adapter_text (mo_owned_by m)))]"

definition listed_models :: "(string \<Rightarrow> string \<Rightarrow> int) \<Rightarrow> snapshot \<Rightarrow> GatewayContext option \<Rightarrow> ModelObject list" where
  "listed_models compare snap gatewayContext =
     (let models = registry_listModels compare snap in
      case Option.bind gatewayContext allowedModels of
        None \<Rightarrow> models
      | Some allowed \<Rightarrow> if length allowed = 0 then models else filter (\<lambda>m. mo_id m \<in> set allowed) models)"

definition modelsRoute :: "('s, 'e) api \<Rightarrow> http_in \<Rightarrow> GatewayContext option \<Rightarrow> 's \<Rightarrow> 's routed option" where
  "modelsRoute A q gatewayContext s =
     (case rd_refreshIfStale (ap_deps A) s of
        (Inl e, s1) \<Rightarrow> Some ((Inl e, []), s1)
      | (Inr _, s1) \<Rightarrow>
          Some ((Inr \<lparr>hy_status = 200, hy_headers = [],
            hy_body = Body_json (JObj [(''object'', JStr ''list''),
              (''data'', JArr (map model_json (listed_models (ap_compare A) (ap_snapshot A s1) gatewayContext)))])\<rparr>, []), s1))"

section \<open>The authenticated API\<close>

text \<open>\<open>authPreHandler\<close>, the route, and the error handler when either throws.\<close>

definition error_reply :: "thrown \<Rightarrow> (string \<times> string) list \<Rightarrow> http_reply" where
  "error_reply e hs =
     (case errorHandler e False of
        SendError status new body \<Rightarrow> \<lparr>hy_status = status, hy_headers = set_headers new hs, hy_body = Body_error body\<rparr>
      | EndSocket \<Rightarrow> \<lparr>hy_status = 200, hy_headers = hs, hy_body = Body_none\<rparr>)"

definition v1_handle ::
  "('s, 'e) api \<Rightarrow> (('s, 'e) api \<Rightarrow> http_in \<Rightarrow> GatewayContext option \<Rightarrow> 's \<Rightarrow> 's routed option) \<Rightarrow> http_in \<Rightarrow> 's
     \<Rightarrow> (http_reply \<times> 's) option" where
  "v1_handle A route q s =
     (case authPreHandler (ap_auth A) (hi_authorization q) (hi_x_api_key q) (ap_auth_clock A s) s of
        (Inl e, s1) \<Rightarrow> Some (error_reply e [], s1)
      | (Inr ctx, s1) \<Rightarrow>
          (case route A q (Some ctx) s1 of
             None \<Rightarrow> None
           | Some ((Inl e, hs), s2) \<Rightarrow> Some (error_reply e hs, s2)
           | Some ((Inr reply, hs), s2) \<Rightarrow> Some (reply, s2)))"

section \<open>Guards\<close>

text \<open>The caller is authenticated, the body is valid and the limiter admits the request, in this order.\<close>

definition guards_passed :: "('s, 'e) api \<Rightarrow> http_in \<Rightarrow> 's \<Rightarrow> GatewayContext \<Rightarrow> ChatCompletionRequest \<Rightarrow> RateLimitResult \<Rightarrow> 's \<Rightarrow> bool" where
  "guards_passed A q s ctx body limit s' \<longleftrightarrow>
     (\<exists>s1 n s2. authPreHandler (ap_auth A) (hi_authorization q) (hi_x_api_key q) (ap_auth_clock A s) s = (Inr ctx, s1) \<and>
        chatCompletionRequestSchema (hi_body q) = Some body \<and> estimateChat A body s1 = (n, s2) \<and>
        rl_check (ap_redis A) (ap_limits A) (ap_prefix A) (apiKeyId ctx)
          \<lparr>rl_rpmLimit = rpmLimit ctx, rl_tpmLimit = tpmLimit ctx, rl_estimatedTokens = of_int n\<rparr>
          (ap_clock A s2) (ap_uuid A s2) s2 = (Inr limit, s') \<and> rr_allowed limit)"

lemma enforceRateLimit_deps [simp]: "enforceRateLimit (A\<lparr>ap_deps := D\<rparr>) = enforceRateLimit A"
  "estimateChat (A\<lparr>ap_deps := D\<rparr>) = estimateChat A" "invalid_body (A\<lparr>ap_deps := D\<rparr>) = invalid_body A"
  by (simp_all add: enforceRateLimit_def estimateChat_def invalid_body_def fun_eq_iff Let_def split: prod.split sum.split)

lemma enforceRateLimit_ok:
  "enforceRateLimit A ctx n s = ((Inr (), hs), s') \<Longrightarrow>
    \<exists>limit. rl_check (ap_redis A) (ap_limits A) (ap_prefix A) (apiKeyId ctx)
      \<lparr>rl_rpmLimit = rpmLimit ctx, rl_tpmLimit = tpmLimit ctx, rl_estimatedTokens = of_int n\<rparr>
      (ap_clock A s) (ap_uuid A s) s = (Inr limit, s') \<and> rr_allowed limit \<and> hs = rateLimitHeaderObject limit"
  by (auto simp: enforceRateLimit_def Let_def split: prod.splits sum.splits if_splits)

text \<open>
  C4. Nothing gets past the guards of the API.  A chat request whose key is not authenticated,
  whose body is not valid or that the limiter does not admit is answered with an error that is
  the same whatever the router is: the router, and with it the cache, the budget and every
  upstream, is not consulted.
\<close>

theorem v1_guards:
  "(\<exists>ctx body limit s'. guards_passed A q s ctx body limit s') \<or>
   (\<exists>e hs s'. v1_handle A completionsRoute q s = Some (error_reply e hs, s') \<and>
      (\<forall>D. v1_handle (A\<lparr>ap_deps := D\<rparr>) completionsRoute q s = Some (error_reply e hs, s')))"
proof (cases "authPreHandler (ap_auth A) (hi_authorization q) (hi_x_api_key q) (ap_auth_clock A s) s")
  case (Pair r s1)
  show ?thesis
  proof (cases r)
    case (Inl e)
    with Pair show ?thesis by (simp add: v1_handle_def) blast
  next
    case (Inr ctx)
    show ?thesis
    proof (cases "chatCompletionRequestSchema (hi_body q)")
      case None
      with Pair Inr show ?thesis by (simp add: v1_handle_def completionsRoute_def) blast
    next
      case (Some body)
      obtain n s2 where n: "estimateChat A body s1 = (n, s2)" by fastforce
      obtain x hs s3 where x: "enforceRateLimit A ctx n s2 = ((x, hs), s3)" by (metis prod.exhaust)
      show ?thesis
      proof (cases x)
        case (Inl e)
        with Pair Inr Some n x show ?thesis by (simp add: v1_handle_def completionsRoute_def requireContext_def) blast
      next
        case Inr': (Inr u)
        with x have "enforceRateLimit A ctx n s2 = ((Inr (), hs), s3)" by simp
        from enforceRateLimit_ok [OF this] Pair Inr Some n show ?thesis unfolding guards_passed_def by blast
      qed
    qed
  qed
qed

section \<open>Streams that clients can read\<close>

lemma wf_tool_delta_json [simp]: "wf_json (tool_delta_json d)"
  by (cases "dt_id d"; cases "dt_name d"; cases "dt_arguments d"; cases "dt_has_type d")
    (simp_all add: tool_delta_json_def wf_obj_simps int_json_def wf_num_def or_absent_def)

lemma wf_chunk_json: "wf_json (chunk_json ck)"
proof -
  have "wf_json (chunk_choice_json c)" for c
    by (cases "cc_content c"; cases "cc_tool_calls c"; cases "cc_role c"; cases "cc_finish_reason c")
      (simp_all add: chunk_choice_json_def wf_obj_simps int_json_def wf_num_def or_null_def or_absent_def)
  then show ?thesis
    by (cases "ck_choices ck"; cases "ck_usage ck"; cases "ck_system_fingerprint ck")
      (simp_all add: chunk_json_def wf_obj_simps int_json_def wf_num_def or_absent_def)
qed

text \<open>The bytes of the frames, cut into reads of the given lengths and a rest.\<close>

fun pieces :: "nat list \<Rightarrow> 'a list \<Rightarrow> 'a list list" where
  "pieces [] bs = [bs]"
| "pieces (n # ns) bs = take n bs # pieces ns (drop n bs)"

lemma concat_pieces [simp]: "concat (pieces ns bs) = bs"
  by (induction ns bs rule: pieces.induct) simp_all

lemma streamed_frames:
  assumes "v1_handle A completionsRoute q s = Some (reply, s')" and "hy_body reply = Body_frames frames"
  shows "\<exists>body ctx ps s1 e chunks. chatCompletionRequestSchema (hi_body q) = Some body \<and>
    run_stream (ap_deps A) body ctx (\<lambda>n. True) ps s1 = Some ((e, chunks), s') \<and> frames = stream_frames e chunks"
proof -
  have "hy_body (error_reply e hs) \<noteq> Body_frames frames" for e hs
    by (simp add: error_reply_def split: reply_action.split)
  with assms obtain body ctx hs hs' s1 where route: "chatCompletionRequestSchema (hi_body q) = Some body"
      "streamed A q body ctx hs s1 = Some ((Inr reply, hs'), s')"
    by (auto simp: v1_handle_def completionsRoute_def requireContext_def plain_def
        split: prod.splits sum.splits option.splits if_splits)
  moreover from this(2) obtain ps s2 e chunks where "run_stream (ap_deps A) body ctx (\<lambda>n. True) ps s2 = Some ((e, chunks), s')"
      "frames = stream_frames e chunks"
    using assms(2) by (auto simp: streamed_def split: prod.splits sum.splits option.splits)
  ultimately show ?thesis by blast
qed

lemma frames_readable:
  "parseSSEStream (pieces ns (utf8_encode (concat (stream_frames e chunks)))) None =
    (map (\<lambda>ck. data_event (stringify (chunk_json ck))) chunks @
       (if \<exists>x. e = Broken x then [] else [data_event SSE_DONE]), None)"
proof -
  let ?js = "map chunk_json chunks"
  have bytes: "concat (pieces ns (utf8_encode (concat (stream_frames e chunks)))) =
      utf8_encode (concat (map serializeSSE ?js) @ (if \<not> (\<exists>x. e = Broken x) then SSE_DONE_FRAME else []))"
    by (cases e) (simp_all add: stream_frames_def comp_def)
  have wf: "list_all wf_json ?js" by (simp add: list_all_iff wf_chunk_json)
  from frames_events [OF wf bytes] show ?thesis by (cases e) (simp_all add: comp_def)
qed

text \<open>
  C30. A client reads exactly the stream that the router yielded.  Whenever a chat request is
  answered with frames, they are those of a run of the router's stream, and in whatever pieces
  the bytes arrive, an event parser sees one event per chunk, in order, whose text parses to the
  chunk, and the terminal sentinel exactly when the upstream did not break off.
\<close>

theorem v1_stream_readable:
  "case v1_handle A completionsRoute q s of
     Some (reply, s') \<Rightarrow>
       (case hy_body reply of
          Body_frames frames \<Rightarrow>
            \<exists>body ctx ps s1 e chunks. chatCompletionRequestSchema (hi_body q) = Some body \<and>
              run_stream (ap_deps A) body ctx (\<lambda>n. True) ps s1 = Some ((e, chunks), s') \<and>
              parseSSEStream (pieces ns (utf8_encode (concat frames))) None =
                (map (\<lambda>ck. data_event (stringify (chunk_json ck))) chunks @
                   (if \<exists>x. e = Broken x then [] else [data_event SSE_DONE]), None) \<and>
              map (\<lambda>ck. json_parse (stringify (chunk_json ck))) chunks = map (\<lambda>ck. Some (chunk_json ck)) chunks
        | _ \<Rightarrow> True)
   | None \<Rightarrow> True"
proof -
  have goal: "\<exists>body ctx ps s1 e chunks. chatCompletionRequestSchema (hi_body q) = Some body \<and>
      run_stream (ap_deps A) body ctx (\<lambda>n. True) ps s1 = Some ((e, chunks), s') \<and>
      parseSSEStream (pieces ns (utf8_encode (concat frames))) None =
        (map (\<lambda>ck. data_event (stringify (chunk_json ck))) chunks @
           (if \<exists>x. e = Broken x then [] else [data_event SSE_DONE]), None) \<and>
      map (\<lambda>ck. json_parse (stringify (chunk_json ck))) chunks = map (\<lambda>ck. Some (chunk_json ck)) chunks"
    if "v1_handle A completionsRoute q s = Some (reply, s')" "hy_body reply = Body_frames frames" for reply s' frames
  proof -
    from streamed_frames [OF that] obtain body ctx ps s1 e chunks where
      "chatCompletionRequestSchema (hi_body q) = Some body"
      "run_stream (ap_deps A) body ctx (\<lambda>n. True) ps s1 = Some ((e, chunks), s')" "frames = stream_frames e chunks" by blast
    moreover have "map (\<lambda>ck. json_parse (stringify (chunk_json ck))) chunks = map (\<lambda>ck. Some (chunk_json ck)) chunks"
      by (simp add: json_round_trip wf_chunk_json)
    moreover note frames_readable [of ns e chunks]
    ultimately show ?thesis by blast
  qed
  show ?thesis
  proof (cases "v1_handle A completionsRoute q s")
    case (Some x)
    obtain reply s' where "x = (reply, s')" by fastforce
    with Some goal show ?thesis by (cases "hy_body reply") simp_all
  qed simp
qed

section \<open>The list of models\<close>

lemma snapshot_distinct: "distinct (map fst (candidatesByModel (load_snapshot decrypt rows)))"
proof -
  have push: "distinct (map fst (fold (push_candidate p) infos al))" if "distinct (map fst al)" for p infos al
    using that by (induction infos arbitrary: al) (simp_all add: push_candidate_def distinct_update)
  have "distinct (map fst (candidatesByModel (fold (load_row decrypt) rows snap)))"
    if "distinct (map fst (candidatesByModel snap))" for snap
    using that
  proof (induction rows arbitrary: snap)
    case (Cons row rows)
    have "distinct (map fst (candidatesByModel (load_row decrypt row snap)))"
      using Cons.prems push by (simp add: load_row_def Let_def split: sum.split)
    with Cons.IH show ?case by simp
  qed simp
  then show ?thesis by (simp add: load_snapshot_def Let_def empty_snapshot_def comp_def case_prod_beta)
qed

lemma registry_lists:
  "mo_id ` set (registry_listModels compare (load_snapshot decrypt rows)) = {i. serving decrypt rows i \<noteq> []}"
proof -
  let ?al = "candidatesByModel (load_snapshot decrypt rows)"
  have "mo_id ` set (registry_listModels compare (load_snapshot decrypt rows)) = {i. \<exists>cs. (i, cs) \<in> set ?al \<and> cs \<noteq> []}"
  proof -
    let ?g = "\<lambda>(m, cs). case cs of [] \<Rightarrow> []
      | c # _ \<Rightarrow> [\<lparr>mo_id = m, mo_created = 0, mo_owned_by = p_adapterType (mc_provider c)\<rparr>]"
    have g: "mo_id ` set (?g p) = {i. i = fst p \<and> snd p \<noteq> []}" for p by (cases p; cases "snd p") auto
    have "mo_id ` set (concat (map ?g al)) = {i. \<exists>cs. (i, cs) \<in> set al \<and> cs \<noteq> []}" for al
    proof (induction al)
      case (Cons p al)
      have "mo_id ` set (concat (map ?g (p # al))) = mo_id ` set (?g p) \<union> mo_id ` set (concat (map ?g al))"
        by (simp only: list.map concat.simps set_append image_Un)
      then show ?case unfolding g Cons by (cases p) auto
    qed simp
    then show ?thesis unfolding registry_listModels_def set_sort_by by blast
  qed
  also have "\<dots> = {i. candidates_of ?al i \<noteq> []}"
    by (auto simp: candidates_of_def map_of_eq_Some_iff [OF snapshot_distinct, symmetric] split: option.splits)
  finally show ?thesis by (simp add: load_snapshot_candidates)
qed

text \<open>
  The list of models is exactly what the key can use under these names: a model is listed
  if and only if some provider serves it, a request for it is resolved to the model itself and
  its providers, and the key is authorised for it.
\<close>

theorem models_listed_exact:
  "i \<in> mo_id ` set (listed_models compare (load_snapshot decrypt rows) (Some ctx)) \<longleftrightarrow>
     serving decrypt rows i \<noteq> [] \<and>
     resolveCandidates (load_snapshot decrypt rows) i = \<lparr>canonicalModel = i, candidates = serving decrypt rows i\<rparr> \<and>
     authorizeModel ctx i i = Inr ()"
proof -
  have "i \<in> mo_id ` set (listed_models compare (load_snapshot decrypt rows) (Some ctx)) \<longleftrightarrow>
      i \<in> mo_id ` set (registry_listModels compare (load_snapshot decrypt rows)) \<and> authorizeModel ctx i i = Inr ()"
    by (auto simp: listed_models_def authorizeModel_def Let_def split: option.split)
  then show ?thesis by (auto simp: registry_lists resolveCandidates_def load_snapshot_candidates)
qed

end
