(* ===== verification/Adapters.thy ===== *)
theory Adapters
  imports OpenAI_Adapter Anthropic Gemini Cohere Registry
begin

text \<open>
  The choice of an adapter by the type of the provider (\<open>createAdapter\<close> in
  \<open>src/providers/registry.ts\<close>) and what all five adapters promise the router.
\<close>

section \<open>Dispatch\<close>

definition adapter_chat ::
  "upstream \<Rightarrow> 'e tiktoken \<Rightarrow> BaseProvider \<Rightarrow> ChatCompletionRequest \<Rightarrow> 'e encoder_cache
     \<Rightarrow> (thrown, ChatCompletionResponse) result \<times> 'e encoder_cache" where
  "adapter_chat U T p request cache =
     (case p_adapterType p of
        AdOpenai \<Rightarrow> openai_chat U T p request cache
      | AdAnthropic \<Rightarrow> (anthropic_chat U p request, cache)
      | AdGemini \<Rightarrow> (gemini_chat U p request, cache)
      | AdCohere \<Rightarrow> (cohere_chat U p request, cache)
      | AdMistral \<Rightarrow> openai_chat U T p request cache)"

definition adapter_embed ::
  "upstream \<Rightarrow> 'e tiktoken \<Rightarrow> BaseProvider \<Rightarrow> EmbeddingRequest \<Rightarrow> 'e encoder_cache
     \<Rightarrow> (thrown, EmbeddingResponse) result \<times> 'e encoder_cache" where
  "adapter_embed U T p request cache =
     (case p_adapterType p of
        AdOpenai \<Rightarrow> (openai_embed U p request, cache)
      | AdAnthropic \<Rightarrow> (anthropic_embed p request, cache)
      | AdGemini \<Rightarrow> gemini_embed U T p request cache
      | AdCohere \<Rightarrow> cohere_embed U T p request cache
      | AdMistral \<Rightarrow> (openai_embed U p request, cache))"

text \<open>The request that an adapter sends for a chat completion, and for embeddings if it does.\<close>

definition chat_request :: "BaseProvider \<Rightarrow> ChatCompletionRequest \<Rightarrow> http_request" where
  "chat_request p request =
     (case p_adapterType p of
        AdAnthropic \<Rightarrow> anthropic_request p request False
      | AdGemini \<Rightarrow> gemini_request p (rq_model request) '':generateContent'' (gemini_body_json (gemini_translateRequest p request))
      | AdCohere \<Rightarrow> cohere_request p ''/v2/chat'' (cohere_translateRequest request False)
      | _ \<Rightarrow> openai_request p ''/chat/completions'' (buildChatBody p request False))"

section \<open>The common contract\<close>

text \<open>
  An exchange: the answer of \<open>post_json\<close>, read by the adapter.  The reader may reject the shape of
  an answer, with an error that lets the router try another provider.
\<close>

definition try_elsewhere :: "thrown \<Rightarrow> bool" where
  "try_elsewhere e \<longleftrightarrow> (\<exists>g. e = TGateway g \<and> wf_error g \<and> retryable g \<and> statusCode g = 502)"

definition closed_answer :: "ChatCompletionResponse \<Rightarrow> bool" where
  "closed_answer r \<longleftrightarrow> rs_choices r \<noteq> [] \<and> (\<forall>c \<in> set (rs_choices r). ch_finish_reason c \<noteq> None)"

lemma shape_error_elsewhere: "try_elsewhere (provider_error p msg 502 (Some True))"
  by (simp add: try_elsewhere_def provider_error_def ProviderError_def gateway_error_defs wf_error_def server_side_def)

locale adapter =
  fixes U :: upstream
    and p :: BaseProvider
    and query :: "'q \<Rightarrow> http_request"
    and read_answer :: "json \<Rightarrow> 'q \<Rightarrow> 'c \<Rightarrow> (thrown, 'a) result \<times> 'c"
    and perform :: "'q \<Rightarrow> 'c \<Rightarrow> (thrown, 'a) result \<times> 'c"
    and good :: "'a \<Rightarrow> bool"
  assumes perform_exchange:
      "perform q c = (case post_json U p (query q) of Inl e \<Rightarrow> (Inl e, c) | Inr raw \<Rightarrow> read_answer raw q c)"
    and reads_or_elsewhere: "case fst (read_answer raw q c) of Inl e \<Rightarrow> try_elsewhere e | Inr a \<Rightarrow> good a"
begin

lemma outcome:
  "case fst (perform q c) of
     Inr a \<Rightarrow> good a \<and> (\<exists>response. fa_outcome (up_fetch U (query q)) = Inr response \<and> response_ok response)
   | Inl e \<Rightarrow> transport_failure U (query q) e \<and>
       (\<forall>response. fa_outcome (up_fetch U (query q)) = Inr response \<longrightarrow> response_ok response \<longrightarrow> hr_text response \<noteq> Inl e \<longrightarrow> try_elsewhere e)"
proof (cases "post_json U p (query q)")
  case (Inl e)
  then have "fst (perform q c) = Inl e" by (simp add: perform_exchange)
  moreover have "try_elsewhere e"
    if "fa_outcome (up_fetch U (query q)) = Inr response" "response_ok response" "hr_text response \<noteq> Inl e" for response
    using Inl that shape_error_elsewhere
    by (auto simp: post_json_def post_def upstreamFetch_def ensureOk_def readJson_def try_elsewhere_def ProviderError_def
        gateway_error_defs wf_error_def server_side_def split: sum.splits option.splits)
  ultimately show ?thesis using post_json_failure [OF Inl] by simp
next
  case (Inr raw)
  then obtain response where "post U p (query q) False = Inr response"
    by (auto simp: post_json_def split: sum.splits)
  note ok = post_success [OF this]
  show ?thesis
  proof (cases "fst (read_answer raw q c)")
    case (Inl e)
    with reads_or_elsewhere [of raw q c] have "try_elsewhere e" by simp
    then have "transport_failure U (query q) e" by (auto simp: try_elsewhere_def transport_failure_def)
    with Inr Inl \<open>try_elsewhere e\<close> show ?thesis by (simp add: perform_exchange)
  next
    case (Inr a)
    with \<open>post_json U p (query q) = Inr raw\<close> reads_or_elsewhere [of raw q c] ok show ?thesis by (simp add: perform_exchange)
  qed
qed

end

section \<open>The adapters\<close>

definition openai_read :: "upstream \<Rightarrow> 'e tiktoken \<Rightarrow> BaseProvider \<Rightarrow> json \<Rightarrow> ChatCompletionRequest \<Rightarrow> 'e encoder_cache
    \<Rightarrow> (thrown, ChatCompletionResponse) result \<times> 'e encoder_cache" where
  "openai_read U T p raw request cache =
     (case chatResponseSchema raw of
        None \<Rightarrow> (Inl (provider_error p ''OpenAI returned an unexpected chat response shape.'' 502 (Some True)), cache)
      | Some d \<Rightarrow> (case normaliseChatResponse U T d request cache of (response, cache') \<Rightarrow> (Inr response, cache')))"

interpretation openai_adapter: adapter U p "\<lambda>q. openai_request p ''/chat/completions'' (buildChatBody p q False)"
    "openai_read U T p" "openai_chat U T p" closed_answer for U T p
proof
  fix raw q c
  show "openai_chat U T p q c = (case post_json U p (openai_request p ''/chat/completions'' (buildChatBody p q False)) of
      Inl e \<Rightarrow> (Inl e, c) | Inr raw \<Rightarrow> openai_read U T p raw q c)"
    by (simp add: openai_chat_def openai_read_def split: sum.split)
  have "closed_answer (fst (normaliseChatResponse U T d q c))" if "ud_choices d \<noteq> []" for d
    using that by (auto simp: normaliseChatResponse_def closed_answer_def normaliseChoice_def enumerate_eq_zip Let_def split: prod.split)
  then show "case fst (openai_read U T p raw q c) of Inl e \<Rightarrow> try_elsewhere e | Inr a \<Rightarrow> closed_answer a"
    using chat_schema_choices [of raw] by (auto simp: openai_read_def shape_error_elsewhere split: option.split prod.split) (metis fst_conv)
qed

interpretation anthropic_adapter: adapter U p "\<lambda>q. anthropic_request p q False"
    "\<lambda>raw q c. (case messageResponseSchema raw of
        None \<Rightarrow> Inl (provider_error p ''Anthropic returned an unexpected response shape.'' 502 (Some True))
      | Some d \<Rightarrow> Inr (translateResponse U d q), c)"
    "\<lambda>q c. (anthropic_chat U p q, c)" closed_answer for U p
  by unfold_locales (auto simp: anthropic_chat_def shape_error_elsewhere closed_answer_def translateResponse_def Let_def split: sum.split option.split prod.split)

interpretation gemini_adapter: adapter U p
    "\<lambda>q. gemini_request p (rq_model q) '':generateContent'' (gemini_body_json (gemini_translateRequest p q))"
    "\<lambda>raw q c. (gemini_translateResponse U p raw q, c)" "\<lambda>q c. (gemini_chat U p q, c)" closed_answer for U p
  by unfold_locales (auto simp: gemini_chat_def shape_error_elsewhere closed_answer_def gemini_translateResponse_def shapeError_def Let_def
      split: sum.split option.split prod.split)

interpretation cohere_adapter: adapter U p "\<lambda>q. cohere_request p ''/v2/chat'' (cohere_translateRequest q False)"
    "\<lambda>raw q c. (cohere_translateResponse U p raw q, c)" "\<lambda>q c. (cohere_chat U p q, c)" closed_answer for U p
  by unfold_locales (auto simp: cohere_chat_def shape_error_elsewhere closed_answer_def cohere_translateResponse_def cohere_shapeError_def
      Let_def split: sum.split option.split prod.split)

text \<open>
  C22. All five adapters keep one contract.  An answer comes from a successful exchange and closes:
  it has a choice, and every choice a finish reason.  A failure is an abort of the caller, a body
  that could not be read or a well-formed gateway error; and when the upstream did answer with a
  success, whatever its body held, the error is a retryable bad gateway, so that failover tries
  another provider.
\<close>

theorem adapters_chat_contract:
  "case fst (adapter_chat U T p request cache) of
     Inr response \<Rightarrow> closed_answer response \<and>
       (\<exists>r. fa_outcome (up_fetch U (chat_request p request)) = Inr r \<and> response_ok r)
   | Inl e \<Rightarrow> transport_failure U (chat_request p request) e \<and>
       (\<forall>r. fa_outcome (up_fetch U (chat_request p request)) = Inr r \<longrightarrow> response_ok r \<longrightarrow> hr_text r \<noteq> Inl e \<longrightarrow> try_elsewhere e)"
  using openai_adapter.outcome [where U = U and T = T and p = p and q = request and c = cache]
    anthropic_adapter.outcome [where U = U and p = p and q = request and c = cache]
    gemini_adapter.outcome [where U = U and p = p and q = request and c = cache]
    cohere_adapter.outcome [where U = U and p = p and q = request and c = cache]
  by (cases "p_adapterType p") (simp_all add: adapter_chat_def chat_request_def cong: sum.case_cong)

theorem adapters_chat_contract_witness:
  "\<exists>e. fst (adapter_chat (demo_upstream ''?'') demo_tiktoken demo_openai demo_chat_request []) = Inl e \<and> try_elsewhere e"
proof -
  let ?U = "demo_upstream ''?''" and ?q = "chat_request demo_openai demo_chat_request"
  have bad: "json_parse ''?'' = None" by code_simp
  have answer: "fa_outcome (up_fetch ?U ?q) = Inr \<lparr>hr_status = 200, hr_text = Inr ''?''\<rparr>" by (simp add: demo_upstream_def)
  have "post_json ?U demo_openai r = Inl e \<Longrightarrow> fst (adapter_chat ?U demo_tiktoken demo_openai demo_chat_request []) = Inl e"
    if "r = openai_request demo_openai ''/chat/completions'' (buildChatBody demo_openai demo_chat_request False)" for r e
    by (simp add: adapter_chat_def openai_chat_def demo_openai_def that)
  moreover have "\<exists>e. post_json ?U demo_openai r = Inl e" for r
    by (simp add: post_json_def post_def upstreamFetch_def demo_upstream_def ensureOk_def response_ok_def readJson_def bad)
  ultimately obtain e where e: "fst (adapter_chat ?U demo_tiktoken demo_openai demo_chat_request []) = Inl e" by blast
  with adapters_chat_contract [where U = ?U and T = demo_tiktoken and p = demo_openai and request = demo_chat_request and cache = "[]"] answer
  show ?thesis by (simp add: response_ok_def)
qed

end
