(* ===== verification/Dates.thy ===== *)
theory Dates
  imports Cost_Tracker "HOL-Library.Monad_Syntax"
begin

text \<open>
  ISO 8601 instants in UTC, as the administration API takes and shows them: the check
  \<open>z.string().datetime()\<close> with \<open>new Date(text)\<close>, and \<open>toISOString\<close>, for the years 0 to 9999.
\<close>

section \<open>Days\<close>

definition days_before_year :: "nat \<Rightarrow> nat" where
  "days_before_year y = sum_list (map (\<lambda>i. if leap_year i then 366 else 365) [0..<y])"

definition days_before_month :: "nat \<Rightarrow> nat \<Rightarrow> nat" where
  "days_before_month y m = sum_list (map (days_in_month y) [1..<m])"

text \<open>The number of a day, and the day \<open>n\<close> days after the first of a month.\<close>

definition day_number :: "nat \<Rightarrow> nat \<Rightarrow> nat \<Rightarrow> nat" where
  "day_number y m d = days_before_year y + days_before_month y m + d - 1"

function civil_from :: "nat \<Rightarrow> nat \<Rightarrow> nat \<Rightarrow> nat \<times> nat \<times> nat" where
  "civil_from y m n =
     (if n < days_in_month y m then (y, m, n + 1)
      else if m = 12 then civil_from (y + 1) 1 (n - days_in_month y m)
      else civil_from y (m + 1) (n - days_in_month y m))"
  by pat_completeness auto
termination
  by (relation "measure (\<lambda>(y, m, n). n)") (simp_all add: days_in_month_pos not_less less_le_trans [OF days_in_month_pos])

declare civil_from.simps [simp del]

definition epoch :: int where
  "epoch = int (day_number 1970 1 1)"

section \<open>Text\<close>

definition digits :: "nat \<Rightarrow> string \<Rightarrow> (nat \<times> string) option" where
  "digits n w = (if n \<le> length w then map_option (\<lambda>v. (v, drop n w)) (digits_value 0 (take n w)) else None)"

fun expect :: "char \<Rightarrow> string \<Rightarrow> string option" where
  "expect c [] = None"
| "expect c (d # w) = (if d = c then Some w else None)"

definition parse_day :: "string \<Rightarrow> (nat \<times> string) option" where
  "parse_day w = do {
     (y, w) \<leftarrow> digits 4 w;
     w \<leftarrow> expect (CHR ''-'') w;
     (m, w) \<leftarrow> digits 2 w;
     w \<leftarrow> expect (CHR ''-'') w;
     (d, w) \<leftarrow> digits 2 w;
     if 1 \<le> m \<and> m \<le> 12 \<and> 1 \<le> d \<and> d \<le> days_in_month y m then Some (day_number y m d, w) else None }"

definition is_digit :: "char \<Rightarrow> bool" where
  "is_digit c \<longleftrightarrow> char_digit c \<noteq> None"

text \<open>The fraction of a second, in milliseconds; further digits are dropped.\<close>

definition parse_fraction :: "string \<Rightarrow> (nat \<times> string) option" where
  "parse_fraction w =
     (let ds = takeWhile is_digit w in
      if ds = [] then None
      else map_option (\<lambda>v. (v, dropWhile is_digit w)) (digits_value 0 (take 3 (ds @ ''00''))))"

definition parse_seconds :: "string \<Rightarrow> (nat \<times> string) option" where
  "parse_seconds w = (case expect (CHR '':'') w of
     None \<Rightarrow> Some (0, w)
   | Some w \<Rightarrow> do {
       (s, w) \<leftarrow> digits 2 w;
       if s \<le> 59 then
         (case expect (CHR ''.'') w of
            None \<Rightarrow> Some (s * 1000, w)
          | Some w \<Rightarrow> map_option (\<lambda>(ms, w). (s * 1000 + ms, w)) (parse_fraction w))
       else None })"

definition new_Date :: "string \<Rightarrow> int option" where
  "new_Date w = do {
     (day, w) \<leftarrow> parse_day w;
     w \<leftarrow> expect (CHR ''T'') w;
     (h, w) \<leftarrow> digits 2 w;
     w \<leftarrow> expect (CHR '':'') w;
     (m, w) \<leftarrow> digits 2 w;
     (ms, w) \<leftarrow> parse_seconds w;
     if h \<le> 23 \<and> m \<le> 59 \<and> w = ''Z'' then Some ((int day - epoch) * 86400000 + int ((h * 60 + m) * 60000 + ms)) else None }"

definition two :: "nat \<Rightarrow> string" where
  "two n = pad_left 2 (show_nat n)"

definition time_text :: "nat \<Rightarrow> string" where
  "time_text ms = two (ms div 3600000) @ '':'' @ two (ms div 60000 mod 60) @ '':'' @ two (ms div 1000 mod 60)
     @ ''.'' @ pad_left 3 (show_nat (ms mod 1000)) @ ''Z''"

definition toISOString :: "int \<Rightarrow> string" where
  "toISOString t =
     (case civil_from 0 1 (nat (t div 86400000 + epoch)) of
        (y, m, d) \<Rightarrow> pad_left 4 (show_nat y) @ ''-'' @ two m @ ''-'' @ two d @ ''T'' @ time_text (nat (t mod 86400000)))"

section \<open>Instants survive printing\<close>

declare pad_left.simps [simp del]

lemma day_number_next:
  "1 \<le> m \<Longrightarrow> day_number y (m + 1) 1 = day_number y m 1 + days_in_month y m"
  "day_number (y + 1) 1 1 = day_number y 12 1 + 31"
proof -
  have months: "[1..<12] = [1, 2, 3, 4, 5, 6, 7, 8, 9, 10, 11 :: nat]" by code_simp
  show "1 \<le> m \<Longrightarrow> day_number y (m + 1) 1 = day_number y m 1 + days_in_month y m"
    by (simp add: day_number_def days_before_month_def)
  show "day_number (y + 1) 1 1 = day_number y 12 1 + 31"
    using months by (simp add: day_number_def days_before_month_def days_before_year_def days_in_month_def)
qed

lemma civil_from_spec:
  assumes "1 \<le> m" "m \<le> 12" "civil_from y m n = (y', m', d')"
  shows "day_number y' m' d' = day_number y m 1 + n \<and> 1 \<le> m' \<and> m' \<le> 12 \<and> 1 \<le> d' \<and> d' \<le> days_in_month y' m' \<and> y \<le> y'"
  using assms
proof (induction y m n rule: civil_from.induct)
  case (1 y m n)
  consider "n < days_in_month y m" | "\<not> n < days_in_month y m" "m = 12" | "\<not> n < days_in_month y m" "m \<noteq> 12" by blast
  then show ?case
  proof cases
    case 1
    with "1.prems" show ?thesis by (subst (asm) civil_from.simps) (auto simp: day_number_def)
  next
    case 2
    with "1.prems" have "civil_from (y + 1) 1 (n - days_in_month y m) = (y', m', d')" by (subst (asm) civil_from.simps) simp
    from "1.IH"(1) [OF 2 _ _ this] 2 day_number_next(2) [of y] show ?thesis by (auto simp: days_in_month_def)
  next
    case 3
    with "1.prems" have "civil_from y (m + 1) (n - days_in_month y m) = (y', m', d')" by (subst (asm) civil_from.simps) simp
    from "1.IH"(2) [OF 3 _ _ this] 3 "1.prems"(1,2) day_number_next(1) [of m y] show ?thesis by auto
  qed
qed

lemma length_show_nat: "n < 10 ^ k \<Longrightarrow> 0 < k \<Longrightarrow> length (show_nat n) \<le> k"
proof (induction k arbitrary: n)
  case (Suc k)
  show ?case
  proof (cases "n < 10")
    case False
    then have "0 < k" using Suc.prems by (cases k) auto
    with Suc.prems have "length (show_nat (n div 10)) \<le> k" by (intro Suc.IH) (simp_all add: less_mult_imp_div_less)
    with False show ?thesis by (simp add: show_nat.simps [of n])
  qed (simp add: show_nat.simps [of n])
qed simp

lemma digits_value_leading_zeros: "digits_value 0 (replicate j (CHR ''0'') @ w) = digits_value 0 w"
  by (induction j) (simp_all add: char_digit_def)

lemma length_pad: "n < 10 ^ k \<Longrightarrow> 0 < k \<Longrightarrow> length (pad_left k (show_nat n)) = k"
  using length_show_nat [of n k] by (simp add: pad_left.simps)

lemma pad_value: "digits_value 0 (pad_left k (show_nat n)) = Some n"
  by (simp add: pad_left.simps digits_value_leading_zeros digits_value_show_nat)

lemma digits_pad:
  assumes "n < 10 ^ k" "0 < k"
  shows "digits k (pad_left k (show_nat n) @ w) = Some (n, w)"
  using length_pad [OF assms] pad_value [of k n] by (simp add: digits_def)

lemma digits_two: "n < 100 \<Longrightarrow> digits 2 (two n @ w) = Some (n, w)"
  unfolding two_def by (rule digits_pad) simp_all

lemma parse_day_text:
  assumes "y < 10000" "1 \<le> m" "m \<le> 12" "1 \<le> d" "d \<le> days_in_month y m"
  shows "parse_day (pad_left 4 (show_nat y) @ ''-'' @ two m @ ''-'' @ two d @ w) = Some (day_number y m d, w)"
proof -
  have "d < 100" using assms(5) by (auto simp: days_in_month_def split: if_splits)
  with assms digits_pad [of y 4] show ?thesis by (simp add: parse_day_def digits_two)
qed

lemma all_digits_show: "list_all is_digit (show_nat n)"
  proof (induction n rule: show_nat.induct)
  case (1 n)
  have "is_digit (digit_char (n mod 10))" by (simp add: is_digit_def)
  with 1 show ?case by (subst show_nat.simps) auto
qed

lemma pad_digits: "list_all is_digit (pad_left k (show_nat n))"
  using all_digits_show [of n] by (auto simp: pad_left.simps list_all_iff is_digit_def char_digit_def)

lemma span_digits:
  assumes "list_all is_digit ds" "\<not> is_digit c"
  shows "takeWhile is_digit (ds @ c # w) = ds" "dropWhile is_digit (ds @ c # w) = c # w"
  using assms by (induction ds) auto

lemma parse_seconds_text:
  assumes "s < 60" "ms < 1000"
  shows "parse_seconds ('':'' @ two s @ ''.'' @ pad_left 3 (show_nat ms) @ ''Z'') = Some (s * 1000 + ms, ''Z'')"
proof -
  let ?p = "pad_left 3 (show_nat ms)"
  have len: "length ?p = 3" using assms length_pad [of ms 3] by simp
  have z: "\<not> is_digit (CHR ''Z'')" by (simp add: is_digit_def char_digit_def)
  from len have "?p \<noteq> []" by auto
  with len pad_value [of 3 ms] have "parse_fraction (?p @ ''Z'') = Some (ms, ''Z'')"
    unfolding parse_fraction_def span_digits [OF pad_digits z] by (simp)
  with assms show ?thesis by (simp add: parse_seconds_def digits_two)
qed

lemma days_before_year_step: "days_before_year (Suc y) = days_before_year y + (if leap_year y then 366 else 365)"
  by (simp add: days_before_year_def)

lemma day_number_first: "day_number y 1 1 = days_before_year y"
  by (simp add: day_number_def days_before_month_def)

lemma day_zero: "day_number 0 (Suc 0) (Suc 0) = 0"
  by (simp add: day_number_def days_before_month_def days_before_year_def)

lemma days_before_year_mono: "y \<le> z \<Longrightarrow> days_before_year y \<le> days_before_year z"
  by (induction z rule: dec_induct) (simp_all add: days_before_year_step)

lemma day_number_ge: "days_before_year y \<le> day_number y m d" if "1 \<le> d"
  using that by (simp add: day_number_def)

lemma civil_year_bound:
  assumes "civil_from 0 1 n = (y, m, d)" "n < day_number 10000 1 1"
  shows "y < 10000"
proof (rule ccontr)
  assume "\<not> y < 10000"
  then have "days_before_year 10000 \<le> days_before_year y" by (intro days_before_year_mono) simp
  moreover have "day_number y m d = n" "1 \<le> d"
    using civil_from_spec [OF _ _ assms(1)] by (simp_all add: day_zero)
  ultimately show False using assms(2) day_number_ge [of d y m] unfolding day_number_first by linarith
qed

theorem instant_round_trip:
  assumes "0 \<le> t div 86400000 + epoch" and "t div 86400000 + epoch < int (day_number 10000 1 1)"
  shows "new_Date (toISOString t) = Some t"
proof -
  define n where "n = nat (t div 86400000 + epoch)"
  define ms where "ms = nat (t mod 86400000)"
  obtain y m d where c: "civil_from 0 1 n = (y, m, d)" by (metis prod.exhaust)
  have n: "int n = t div 86400000 + epoch" and ms: "int ms = t mod 86400000" "ms < 86400000"
    using assms(1) by (simp_all add: n_def ms_def)
  have y: "y < 10000" using civil_year_bound [OF c] assms(2) n by linarith
  have spec: "day_number y m d = n" "1 \<le> m" "m \<le> 12" "1 \<le> d" "d \<le> days_in_month y m"
    using civil_from_spec [OF _ _ c] by (simp_all add: day_zero)
  let ?h = "ms div 3600000" and ?mi = "ms div 60000 mod 60" and ?s = "ms div 1000 mod 60" and ?f = "ms mod 1000"
  have h: "?h < 24" using ms(2) by simp
  have "?h = ms div 60000 div 60" using div_mult2_eq [of ms 60000 60] by simp
  then have hours: "?h * 60 + ?mi = ms div 60000" by simp
  have "ms div 60000 = ms div 1000 div 60" using div_mult2_eq [of ms 1000 60] by simp
  then have minutes: "ms div 60000 * 60 + ?s = ms div 1000" by simp
  have regroup: "a * 60000 + (b * 1000 + c) = (a * 60 + b) * 1000 + c" for a b c :: nat by simp
  have sum: "(?h * 60 + ?mi) * 60000 + (?s * 1000 + ?f) = ms" unfolding hours regroup minutes by simp
  have day: "parse_day (pad_left 4 (show_nat y) @ ''-'' @ two m @ ''-'' @ two d @ w) = Some (n, w)" for w
    using parse_day_text [OF y spec(2-5)] spec(1) by simp
  have secs: "parse_seconds ('':'' @ two ?s @ ''.'' @ pad_left 3 (show_nat ?f) @ ''Z'') = Some (?s * 1000 + ?f, ''Z'')"
    by (rule parse_seconds_text) simp_all
  have printed: "toISOString t = pad_left 4 (show_nat y) @ ''-'' @ two m @ ''-'' @ two d @ ''T'' @ two ?h @ '':'' @ two ?mi @
      '':'' @ two ?s @ ''.'' @ pad_left 3 (show_nat ?f) @ ''Z''"
    unfolding toISOString_def n_def [symmetric] c time_text_def ms_def [symmetric] by simp
  have "new_Date (toISOString t) = Some ((int n - epoch) * 86400000 + int ((?h * 60 + ?mi) * 60000 + (?s * 1000 + ?f)))"
    unfolding printed new_Date_def day using secs h digits_two [of ?h] digits_two [of ?mi] by simp
  also have "\<dots> = Some t" unfolding sum n ms(1) by simp
  finally show ?thesis .
qed

end
