(* ===== verification/Admin_Keys.thy ===== *)
theory Admin_Keys
  imports Routes Crypto Dates
begin

text \<open>
  The administration of API keys (\<open>src/routes/admin/keys.ts\<close>) behind the admin gate
  (\<open>src/routes/admin/index.ts\<close>): schemas, statements on the table \<open>api_keys\<close> and handlers.  The
  database runs a statement, a function on the rows, as one step; generated ids, random bytes, the
  clock and the coercion to \<open>numeric(10, 4)\<close> are parameters.
\<close>

section \<open>Schemas\<close>

definition INT32_MAX :: int where "INT32_MAX = 2147483647"

definition is_uuid :: "string \<Rightarrow> bool" where
  "is_uuid w \<longleftrightarrow> (let parts = split_at (CHR ''-'') w in
     map length parts = [8, 4, 4, 4, 12] \<and> list_all (\<lambda>c. hex_value (lower_char c) \<noteq> None) (concat parts))"

definition z_uuid :: "json \<Rightarrow> string option" where
  "z_uuid j = Option.bind (as_str j) (\<lambda>w. if is_uuid w then Some w else None)"

definition z_datetime :: "json \<Rightarrow> string option" where
  "z_datetime j = Option.bind (as_str j) (\<lambda>w. if new_Date w \<noteq> None then Some w else None)"

definition z_price :: "json \<Rightarrow> decimal option" where
  "z_price j = Option.bind (as_num j) (\<lambda>d. if 0 \<le> dec_value d then Some d else None)"

record CreateKey =
  ck_name :: "string option"
  ck_ownerId :: "string option"
  ck_monthlyBudgetUsd :: "decimal option"
  ck_allowedModels :: "string list option"
  ck_rpmLimit :: "int option"
  ck_tpmLimit :: "int option"
  ck_expiresAt :: "string option"

definition createKeySchema :: "json \<Rightarrow> CreateKey option" where
  "createKeySchema j = do {
     ps \<leftarrow> as_obj j;
     n \<leftarrow> z_optional (z_string 0 256) ps ''name'';
     ow \<leftarrow> z_optional z_uuid ps ''ownerId'';
     b \<leftarrow> z_optional z_price ps ''monthlyBudgetUsd'';
     al \<leftarrow> z_optional (as_list as_str) ps ''allowedModels'';
     rpm \<leftarrow> z_optional (z_int_between 1 INT32_MAX) ps ''rpmLimit'';
     tpm \<leftarrow> z_optional (z_int_between 1 INT32_MAX) ps ''tpmLimit'';
     ex \<leftarrow> z_optional z_datetime ps ''expiresAt'';
     Some \<lparr>ck_name = n, ck_ownerId = ow, ck_monthlyBudgetUsd = b, ck_allowedModels = al,
       ck_rpmLimit = rpm, ck_tpmLimit = tpm, ck_expiresAt = ex\<rparr> }"

text \<open>A field that is \<open>nullable().optional()\<close> is absent, \<open>null\<close> or a value.\<close>

record PatchKey =
  pk_name :: "string option"
  pk_isActive :: "bool option"
  pk_monthlyBudgetUsd :: "decimal option option"
  pk_allowedModels :: "string list option option"
  pk_rpmLimit :: "int option"
  pk_tpmLimit :: "int option"
  pk_expiresAt :: "string option option"

definition patchKeySchema :: "json \<Rightarrow> PatchKey option" where
  "patchKeySchema j = do {
     ps \<leftarrow> as_obj j;
     n \<leftarrow> z_optional (z_string 0 256) ps ''name'';
     act \<leftarrow> z_optional as_bool ps ''isActive'';
     b \<leftarrow> z_optional (nullable z_price) ps ''monthlyBudgetUsd'';
     al \<leftarrow> z_optional (nullable (as_list as_str)) ps ''allowedModels'';
     rpm \<leftarrow> z_optional (z_int_between 1 INT32_MAX) ps ''rpmLimit'';
     tpm \<leftarrow> z_optional (z_int_between 1 INT32_MAX) ps ''tpmLimit'';
     ex \<leftarrow> z_optional (nullable z_datetime) ps ''expiresAt'';
     Some \<lparr>pk_name = n, pk_isActive = act, pk_monthlyBudgetUsd = b, pk_allowedModels = al,
       pk_rpmLimit = rpm, pk_tpmLimit = tpm, pk_expiresAt = ex\<rparr> }"

definition body_or_empty :: "json \<Rightarrow> json" where
  "body_or_empty j = (if j = JNull then JObj [] else j)"

section \<open>Statements on the table\<close>

text \<open>A statement fails, or gives the rows it returns and the table it leaves.\<close>

type_synonym key_statement = "api_key_row list \<Rightarrow> (thrown, api_key_row list \<times> api_key_row list) result"

record 's keys_env =
  ke_auth :: "'s auth_env"
  ke_cipher :: cipher
  ke_admin_key :: string
  ke_random :: "'s \<Rightarrow> bytes"
  ke_uuid :: "'s \<Rightarrow> string"
  ke_clock :: "'s \<Rightarrow> int"
  ke_numeric :: "string \<Rightarrow> (thrown, string) result"
  ke_unique_violation :: thrown
  ke_run :: "key_statement \<Rightarrow> 's \<Rightarrow> (thrown, api_key_row list) result \<times> 's"
  ke_logs :: "'s \<Rightarrow> (thrown, RequestLogEntry list) result \<times> 's"
  ke_issues :: "json \<Rightarrow> zod_issue list"

text \<open>The column \<open>monthly_budget_usd\<close>, from \<open>String(body.monthlyBudgetUsd)\<close>.\<close>

definition budget_column :: "'s keys_env \<Rightarrow> decimal option \<Rightarrow> (thrown, string option) result" where
  "budget_column K b = (case b of
     None \<Rightarrow> Inr None
   | Some d \<Rightarrow> (case ke_numeric K (stringify (dec_json d)) of Inl e \<Rightarrow> Inl e | Inr w \<Rightarrow> Inr (Some w)))"

text \<open>The insert with the defaults of the columns, and the update of the row with an id.\<close>

definition new_row :: "string \<Rightarrow> int \<Rightarrow> string \<Rightarrow> string option \<Rightarrow> CreateKey \<Rightarrow> api_key_row" where
  "new_row i now hash budget b =
     \<lparr>ak_id = i, ak_keyHash = hash, ak_name = ck_name b, ak_ownerId = ck_ownerId b, ak_isActive = True,
      ak_expiresAt = Option.bind (ck_expiresAt b) new_Date, ak_monthlyBudgetUsd = budget,
      ak_allowedModels = ck_allowedModels b, ak_rpmLimit = nullish (ck_rpmLimit b) 60,
      ak_tpmLimit = nullish (ck_tpmLimit b) 100000, ak_createdAt = now, ak_updatedAt = now\<rparr>"

definition insert_key :: "'s keys_env \<Rightarrow> string \<Rightarrow> int \<Rightarrow> string \<Rightarrow> CreateKey \<Rightarrow> key_statement" where
  "insert_key K i now hash b rows =
     (case budget_column K (ck_monthlyBudgetUsd b) of
        Inl e \<Rightarrow> Inl e
      | Inr budget \<Rightarrow>
          if \<exists>r \<in> set rows. ak_keyHash r = hash \<or> ak_id r = i then Inl (ke_unique_violation K)
          else (let row = new_row i now hash budget b in Inr ([row], rows @ [row])))"

definition patched_row :: "int \<Rightarrow> string option option \<Rightarrow> PatchKey \<Rightarrow> api_key_row \<Rightarrow> api_key_row" where
  "patched_row now budget b row = row
     \<lparr>ak_name := nullish_opt (pk_name b) (ak_name row),
      ak_isActive := nullish (pk_isActive b) (ak_isActive row),
      ak_monthlyBudgetUsd := nullish budget (ak_monthlyBudgetUsd row),
      ak_allowedModels := nullish (pk_allowedModels b) (ak_allowedModels row),
      ak_rpmLimit := nullish (pk_rpmLimit b) (ak_rpmLimit row),
      ak_tpmLimit := nullish (pk_tpmLimit b) (ak_tpmLimit row),
      ak_expiresAt := (case pk_expiresAt b of None \<Rightarrow> ak_expiresAt row | Some w \<Rightarrow> Option.bind w new_Date),
      ak_updatedAt := now\<rparr>"

definition update_rows :: "string \<Rightarrow> (api_key_row \<Rightarrow> api_key_row) \<Rightarrow> api_key_row list \<Rightarrow> api_key_row list \<times> api_key_row list" where
  "update_rows i f rows = (map f (filter (\<lambda>r. ak_id r = i) rows), map (\<lambda>r. if ak_id r = i then f r else r) rows)"

definition patch_key :: "'s keys_env \<Rightarrow> string \<Rightarrow> int \<Rightarrow> PatchKey \<Rightarrow> key_statement" where
  "patch_key K i now b rows =
     (case pk_monthlyBudgetUsd b of
        None \<Rightarrow> Inr (update_rows i (patched_row now None b) rows)
      | Some d \<Rightarrow>
          (case budget_column K d of
             Inl e \<Rightarrow> Inl e
           | Inr budget \<Rightarrow> Inr (update_rows i (patched_row now (Some budget) b) rows)))"

definition delete_key :: "string \<Rightarrow> int \<Rightarrow> key_statement" where
  "delete_key i now rows = Inr (update_rows i (\<lambda>r. r\<lparr>ak_isActive := False, ak_updatedAt := now\<rparr>) rows)"

section \<open>Handlers\<close>

definition date_json :: "int \<Rightarrow> json" where
  "date_json t = JStr (toISOString t)"

definition toKeyDto :: "api_key_row \<Rightarrow> (string \<times> json) list" where
  "toKeyDto row =
     [(''id'', JStr (ak_id row)),
      (''name'', or_null JStr (ak_name row)),
      (''ownerId'', or_null JStr (ak_ownerId row)),
      (''isActive'', JBool (ak_isActive row)),
      (''expiresAt'', or_null date_json (ak_expiresAt row)),
      (''monthlyBudgetUsd'', or_null dec_json (Option.bind (ak_monthlyBudgetUsd row) Number_text)),
      (''allowedModels'', or_null (\<lambda>ms. JArr (map JStr ms)) (ak_allowedModels row)),
      (''rpmLimit'', JNum (ak_rpmLimit row) 0),
      (''tpmLimit'', JNum (ak_tpmLimit row) 0),
      (''createdAt'', date_json (ak_createdAt row)),
      (''updatedAt'', date_json (ak_updatedAt row))]"

definition invalid_key :: "'s keys_env \<Rightarrow> string \<Rightarrow> json \<Rightarrow> thrown" where
  "invalid_key K msg body = TGateway (ValidationError msg (no_options\<lparr>opt_issues := Some (ke_issues K body)\<rparr>))"

definition key_not_found :: thrown where
  "key_not_found = TGateway (NotFoundError ''API key not found.'' no_options)"

definition json_reply :: "int \<Rightarrow> json \<Rightarrow> http_reply" where
  "json_reply status j = \<lparr>hy_status = status, hy_headers = [], hy_body = Body_json j\<rparr>"

definition parseId :: "string \<Rightarrow> (thrown, string) result" where
  "parseId i = (if is_uuid i then Inr i else Inl (TGateway (ValidationError ''Invalid id.'' (no_options\<lparr>opt_param := Some ''id''\<rparr>))))"

definition keys_create :: "'s keys_env \<Rightarrow> json \<Rightarrow> 's \<Rightarrow> (thrown, http_reply) result \<times> 's" where
  "keys_create K body s =
     (case createKeySchema (body_or_empty body) of
        None \<Rightarrow> (Inl (invalid_key K ''Invalid key payload.'' body), s)
      | Some b \<Rightarrow>
          (case generateApiKey (ke_cipher K) (ke_random K s) of
             (raw, hash) \<Rightarrow>
               (case ke_run K (insert_key K (ke_uuid K s) (ke_clock K s) hash b) s of
                  (Inl e, s1) \<Rightarrow> (Inl e, s1)
                | (Inr [], s1) \<Rightarrow> (Inl (TError (plain_error ''Error'' ''Failed to create API key.'')), s1)
                | (Inr (row # _), s1) \<Rightarrow> (Inr (json_reply 201 (JObj (toKeyDto row @ [(''key'', JStr raw)]))), s1))))"

definition keys_list :: "'s keys_env \<Rightarrow> 's \<Rightarrow> (thrown, http_reply) result \<times> 's" where
  "keys_list K s =
     (case ae_table (ke_auth K) s of
        (Inl e, s1) \<Rightarrow> (Inl e, s1)
      | (Inr rows, s1) \<Rightarrow> (Inr (json_reply 200 (JObj [(''data'', JArr (map (\<lambda>r. JObj (toKeyDto r)) rows))])), s1))"

definition keys_read :: "'s keys_env \<Rightarrow> string \<Rightarrow> 's \<Rightarrow> (thrown, http_reply) result \<times> 's" where
  "keys_read K i s =
     (case parseId i of
        Inl e \<Rightarrow> (Inl e, s)
      | Inr i \<Rightarrow>
          (case ae_table (ke_auth K) s of
             (Inl e, s1) \<Rightarrow> (Inl e, s1)
           | (Inr rows, s1) \<Rightarrow>
               (case find (\<lambda>r. ak_id r = i) rows of
                  None \<Rightarrow> (Inl key_not_found, s1)
                | Some row \<Rightarrow> (Inr (json_reply 200 (JObj (toKeyDto row))), s1))))"

text \<open>
  \<open>PATCH\<close> and \<open>DELETE\<close> update the row first and then drop the cached context of its key.
\<close>

definition update_returning :: "'s keys_env \<Rightarrow> key_statement \<Rightarrow> 's \<Rightarrow> (thrown, api_key_row) result \<times> 's" where
  "update_returning K f s =
     (case ke_run K f s of
        (Inl e, s1) \<Rightarrow> (Inl e, s1)
      | (Inr [], s1) \<Rightarrow> (Inl key_not_found, s1)
      | (Inr (row # _), s1) \<Rightarrow> (Inr row, s1))"

definition patch_row :: "'s keys_env \<Rightarrow> string \<Rightarrow> json \<Rightarrow> 's \<Rightarrow> (thrown, api_key_row) result \<times> 's" where
  "patch_row K i body s =
     (case parseId i of
        Inl e \<Rightarrow> (Inl e, s)
      | Inr i \<Rightarrow>
          (case patchKeySchema (body_or_empty body) of
             None \<Rightarrow> (Inl (invalid_key K ''Invalid key update.'' body), s)
           | Some b \<Rightarrow> update_returning K (patch_key K i (ke_clock K s) b) s))"

definition delete_row :: "'s keys_env \<Rightarrow> string \<Rightarrow> 's \<Rightarrow> (thrown, api_key_row) result \<times> 's" where
  "delete_row K i s =
     (case parseId i of
        Inl e \<Rightarrow> (Inl e, s)
      | Inr i \<Rightarrow> update_returning K (delete_key i (ke_clock K s)) s)"

definition then_invalidate ::
  "'s keys_env \<Rightarrow> (api_key_row \<Rightarrow> json) \<Rightarrow> (thrown, api_key_row) result \<times> 's \<Rightarrow> (thrown, http_reply) result \<times> 's" where
  "then_invalidate K answer r = (case r of
     (Inl e, s1) \<Rightarrow> (Inl e, s1)
   | (Inr row, s1) \<Rightarrow> (Inr (json_reply 200 (answer row)), invalidateAuthCache (ke_auth K) (ak_keyHash row) s1))"

definition keys_patch :: "'s keys_env \<Rightarrow> string \<Rightarrow> json \<Rightarrow> 's \<Rightarrow> (thrown, http_reply) result \<times> 's" where
  "keys_patch K i body s = then_invalidate K (\<lambda>row. JObj (toKeyDto row)) (patch_row K i body s)"

definition keys_delete :: "'s keys_env \<Rightarrow> string \<Rightarrow> 's \<Rightarrow> (thrown, http_reply) result \<times> 's" where
  "keys_delete K i s =
     then_invalidate K (\<lambda>row. JObj [(''id'', JStr (ak_id row)), (''deleted'', JBool True)]) (delete_row K i s)"

text \<open>The usage report; \<open>sum\<close> skips the absent values, and the numbers are kept exact.\<close>

record usage_report =
  ur_totalRequests :: nat
  ur_totalTokens :: int
  ur_totalCostUsd :: rat
  ur_cacheHits :: nat
  ur_monthToDateSpendUsd :: "rat option"

definition keys_usage :: "'s keys_env \<Rightarrow> string \<Rightarrow> 's \<Rightarrow> (thrown, usage_report) result \<times> 's" where
  "keys_usage K i s =
     (case parseId i of
        Inl e \<Rightarrow> (Inl e, s)
      | Inr i \<Rightarrow>
          (case ke_logs K s of
             (Inl e, s1) \<Rightarrow> (Inl e, s1)
           | (Inr logs, s1) \<Rightarrow>
               (let mine = filter (\<lambda>l. le_apiKeyId l = Some i) logs in
                case getMonthlySpendUsd (ae_redis (ke_auth K)) (ae_prefix (ke_auth K)) i (ke_clock K s1) s1 of
                  (spend, s2) \<Rightarrow>
                    (Inr \<lparr>ur_totalRequests = length mine,
                       ur_totalTokens = sum_list (List.map_filter le_totalTokens mine),
                       ur_totalCostUsd = sum_list (List.map_filter le_costUsd mine),
                       ur_cacheHits = length (filter le_cacheHit mine),
                       ur_monthToDateSpendUsd = spend\<rparr>, s2))))"

section \<open>The admin gate\<close>

definition extractAdminKey :: "string option \<Rightarrow> string option \<Rightarrow> string option" where
  "extractAdminKey authorization x_api_key =
     (case authorization of
        Some auth \<Rightarrow>
          if startsWith auth ''Bearer '' then Some (trim (drop (length ''Bearer '') auth)) else map_option trim x_api_key
      | None \<Rightarrow> map_option trim x_api_key)"

definition adminAuthPreHandler :: "'s keys_env \<Rightarrow> http_in \<Rightarrow> (thrown, unit) result" where
  "adminAuthPreHandler K q =
     (case extractAdminKey (hi_authorization q) (hi_x_api_key q) of
        None \<Rightarrow> Inl (TGateway (PermissionError ''Admin authentication required.'' no_options))
      | Some key \<Rightarrow>
          if timingSafeEqual (ke_cipher K) key (ke_admin_key K) then Inr ()
          else Inl (TGateway (PermissionError ''Admin authentication required.'' no_options)))"

definition admin_handle ::
  "'s keys_env \<Rightarrow> ('s \<Rightarrow> (thrown, http_reply) result \<times> 's) \<Rightarrow> http_in \<Rightarrow> 's \<Rightarrow> http_reply \<times> 's" where
  "admin_handle K handler q s =
     (case adminAuthPreHandler K q of
        Inl e \<Rightarrow> (error_reply e [], s)
      | Inr _ \<Rightarrow> (case handler s of (Inl e, s1) \<Rightarrow> (error_reply e [], s1) | (Inr reply, s1) \<Rightarrow> (reply, s1)))"

end
