(* ===== verification/Key_Histories.thy ===== *)
theory Key_Histories
  imports Admin_Keys
begin

text \<open>
  What the administration of keys means for authentication, whose cache it invalidates: histories
  of requests and administration, the contract of the database they run on (locale
  \<open>key_store\<close>, interpreted on a reference store), and the interleaving that the invalidation does
  not cover.
\<close>

section \<open>Histories of a table and its cache\<close>

datatype key_event = Key_request string "int \<times> int" | Key_create json | Key_patch string json | Key_delete string

fun key_step :: "'s keys_env \<Rightarrow> key_event \<Rightarrow> 's \<Rightarrow> 's" where
  "key_step K (Key_request raw now) s = snd (authenticateKey (ke_auth K) raw now s)"
| "key_step K (Key_create body) s = snd (keys_create K body s)"
| "key_step K (Key_patch i body) s = snd (keys_patch K i body s)"
| "key_step K (Key_delete i) s = snd (keys_delete K i s)"

text \<open>Redis answers when an update drops the cached context.\<close>

definition invalidated :: "'s keys_env \<Rightarrow> (thrown, api_key_row) result \<times> 's \<Rightarrow> bool" where
  "invalidated K r \<longleftrightarrow> (case r of
     (Inl e, s1) \<Rightarrow> True
   | (Inr row, s1) \<Rightarrow> is_ok (fst (round_trip (ae_redis (ke_auth K))
       (command (DEL [authKey (ae_prefix (ke_auth K)) (ak_keyHash row)])) s1)))"

fun key_reached :: "'s keys_env \<Rightarrow> key_event \<Rightarrow> 's \<Rightarrow> bool" where
  "key_reached K (Key_patch i body) s = invalidated K (patch_row K i body s)"
| "key_reached K (Key_delete i) s = invalidated K (delete_row K i s)"
| "key_reached K x s = True"

fun keys_reached :: "'s keys_env \<Rightarrow> key_event list \<Rightarrow> 's \<Rightarrow> bool" where
  "keys_reached K [] s = True"
| "keys_reached K (x # xs) s = (key_reached K x s \<and> keys_reached K xs (key_step K x s))"

definition keys_wf :: "api_key_row list \<Rightarrow> bool" where
  "keys_wf rows \<longleftrightarrow> distinct (map ak_id rows) \<and> distinct (map ak_keyHash rows)"

definition keeps_key :: "(api_key_row \<Rightarrow> api_key_row) \<Rightarrow> bool" where
  "keeps_key f \<longleftrightarrow> (\<forall>r. ak_id (f r) = ak_id r \<and> ak_keyHash (f r) = ak_keyHash r)"

lemma update_rows_wf: "keeps_key f \<Longrightarrow> keys_wf (snd (update_rows i f rows)) = keys_wf rows"
proof -
  assume f: "keeps_key f"
  have "map ak_id (snd (update_rows i f rows)) = map ak_id rows" "map ak_keyHash (snd (update_rows i f rows)) = map ak_keyHash rows"
    using f by (simp_all add: update_rows_def keeps_key_def)
  then show ?thesis by (simp add: keys_wf_def)
qed

lemma update_rows_none: "fst (update_rows i f rows) = [] \<Longrightarrow> snd (update_rows i f rows) = rows"
  unfolding update_rows_def snd_conv by (rule map_idI) (auto simp: filter_empty_conv)

lemma update_rows_other:
  assumes wf: "keys_wf rows" and f: "keeps_key f" and out: "fst (update_rows i f rows) = row # others"
    and r: "r \<in> set rows" "ak_keyHash r \<noteq> ak_keyHash row"
  shows "r \<in> set (snd (update_rows i f rows))"
proof -
  obtain r0 where r0: "r0 \<in> set rows" "ak_id r0 = i" "row = f r0"
  proof -
    have "row \<in> set (fst (update_rows i f rows))" using out by simp
    with that show thesis by (auto simp: update_rows_def)
  qed
  have "ak_id r \<noteq> i"
  proof
    assume "ak_id r = i"
    with wf r0(1,2) r(1) have "r = r0" unfolding keys_wf_def distinct_map by (auto dest: inj_onD)
    with r(2) r0(3) f show False by (simp add: keeps_key_def)
  qed
  with r(1) show ?thesis by (force simp: update_rows_def)
qed

lemma insert_keyD:
  assumes "insert_key K i now hash b rows = Inr (out, rows')"
  obtains budget where "budget_column K (ck_monthlyBudgetUsd b) = Inr budget" "out = [new_row i now hash budget b]"
    "rows' = rows @ [new_row i now hash budget b]" "\<forall>r \<in> set rows. ak_keyHash r \<noteq> hash \<and> ak_id r \<noteq> i"
proof (cases "budget_column K (ck_monthlyBudgetUsd b)")
  case (Inr budget)
  with assms that show thesis by (auto simp: insert_key_def Let_def split: if_splits)
qed (use assms in \<open>simp add: insert_key_def\<close>)

lemma patch_key_updates:
  "patch_key K i now b rows = Inr (out, rows') \<Longrightarrow> \<exists>f. keeps_key f \<and> (out, rows') = update_rows i f rows"
proof -
  have "keeps_key (patched_row now budget b)" for budget by (simp add: keeps_key_def patched_row_def)
  then show "patch_key K i now b rows = Inr (out, rows') \<Longrightarrow> ?thesis"
    by (cases "pk_monthlyBudgetUsd b") (auto simp: patch_key_def split: sum.splits, metis+)
qed

lemma delete_key_updates:
  "delete_key i now rows = Inr (out, rows') \<Longrightarrow> \<exists>f. keeps_key f \<and> (out, rows') = update_rows i f rows"
  by (auto simp: delete_key_def keeps_key_def intro!: exI [of _ "\<lambda>r. r\<lparr>ak_isActive := False, ak_updatedAt := now\<rparr>"])

lemma find_unique:
  assumes "x \<in> set xs" "P x" and one: "\<And>y. y \<in> set xs \<Longrightarrow> P y \<Longrightarrow> y = x"
  shows "find P xs = Some x"
proof (cases "find P xs")
  case None
  with assms(1,2) show ?thesis by (simp add: find_None_iff)
next
  case (Some y)
  from find_member [OF this] have "y = x" by (intro one) simp_all
  with Some show ?thesis by simp
qed

lemma cache_holds_restrict:
  assumes "cache_holds T pre d" and "\<And>r. r \<in> T \<Longrightarrow> ak_keyHash r \<noteq> h0 \<Longrightarrow> r \<in> T'" and "live d (authKey pre h0) = None"
  shows "cache_holds T' pre d"
  unfolding text_entries_def
proof
  fix h
  have "text_entry (context_entry T h) (live d (authKey pre h))" using assms(1) by (simp add: text_entries_def)
  then show "text_entry (context_entry T' h) (live d (authKey pre h))"
  proof (cases rule: text_entry_E)
    case (2 w ttl)
    with assms(3) have "h \<noteq> h0" by auto
    with 2 assms(2) show ?thesis by (auto simp: context_entry_def)
  qed simp
qed

lemma cache_holds_mono: "cache_holds T pre d \<Longrightarrow> T \<subseteq> T' \<Longrightarrow> cache_holds T' pre d"
  unfolding text_entries_def
proof
  fix h
  assume "\<forall>h. text_entry (context_entry T h) (live d (authKey pre h))" and T: "T \<subseteq> T'"
  then have "text_entry (context_entry T h) (live d (authKey pre h))" by blast
  then show "text_entry (context_entry T' h) (live d (authKey pre h))"
    by (cases rule: text_entry_E) (use T in \<open>auto simp: context_entry_def\<close>)
qed

section \<open>The contract of the database\<close>

locale key_store = auth_cache "ke_auth K" view
  for K :: "'s keys_env" and view :: "'s \<Rightarrow> db" +
  fixes table :: "'s \<Rightarrow> api_key_row list"
  assumes call_table: "table (snd (e_call (ae_redis (ke_auth K)) c s)) = table s"
    and tick_table: "table (e_tick (ae_redis (ke_auth K)) s) = table s"
    and table_read: "ae_table (ke_auth K) s = (Inr rows, s1) \<Longrightarrow> rows = table s"
    and table_kept: "table (snd (ae_table (ke_auth K) s)) = table s"
    and run_ok: "ke_run K f s = (Inr out, s1) \<Longrightarrow> f (table s) = Inr (out, table s1)"
    and run_fail: "ke_run K f s = (Inl e, s1) \<Longrightarrow> table s1 = table s"
    and run_time: "\<exists>dt \<ge> 0. view (snd (ke_run K f s)) = advance dt (view s)"
begin

lemma exec_table: "table (snd (exec (e_call (ae_redis (ke_auth K))) p s)) = table s"
proof (induction p arbitrary: s)
  case (Call c k)
  obtain r s' where c: "e_call (ae_redis (ke_auth K)) c s = (r, s')" by fastforce
  with call_table [of c s] Call.IH [of "k r" s'] show ?case by (cases r) auto
qed auto

lemma round_trip_table: "round_trip (ae_redis (ke_auth K)) p s = (r, s1) \<Longrightarrow> table s1 = table s"
  using exec_table [of p "e_tick (ae_redis (ke_auth K)) s"] tick_table [of s]
  by (auto simp: round_trip_def Let_def split: if_splits prod.splits sum.splits)

lemma round_trip_table_snd: "table (snd (round_trip (ae_redis (ke_auth K)) p s)) = table s"
  by (rule round_trip_table [OF prod.collapse [symmetric]])

lemma cache_path_table: "cache_path (ke_auth K) h now s = (r, s1) \<Longrightarrow> table s1 = table s"
  by (auto simp: cache_path_def Let_def round_trip_table_snd dest!: round_trip_table
      split: prod.splits sum.splits option.splits if_splits rreply.splits rval.splits)

lemma db_path_table: "db_path (ke_auth K) h now s = (r, s1) \<Longrightarrow> table s1 = table s"
  using table_kept [of s]
  by (auto simp: db_path_def Let_def round_trip_table_snd split: prod.splits sum.splits option.splits if_splits)

lemma authenticateKey_table: "authenticateKey (ke_auth K) raw now s = (r, s1) \<Longrightarrow> table s1 = table s"
  by (auto simp: authenticateKey_def Let_def dest!: cache_path_table db_path_table split: prod.splits option.splits)

text \<open>The cache is current: it holds contexts of active rows that the table holds now.\<close>

definition current :: "'s \<Rightarrow> bool" where
  "current s \<longleftrightarrow> keys_wf (table s) \<and> cache_holds (set (table s)) (ae_prefix (ke_auth K)) (view s)"

lemma authenticateKey_rows:
  "fst (ae_table (ke_auth K) (snd (cache_path (ke_auth K) h now s))) = Inr rows \<Longrightarrow> set rows \<subseteq> set (table s)"
  using cache_path_table [OF prod.collapse [symmetric], of h now s] table_read [OF prod_eqI [of _ "(Inr rows, _)"]]
  by (metis fst_conv order_refl prod.collapse table_read)

lemma authenticateKey_now:
  assumes "authenticateKey (ke_auth K) raw now s = (r, s')" and "current s"
  shows "current s'"
    and "r = Inr c \<Longrightarrow> \<exists>row \<in> set (table s). ak_keyHash row = ae_hash (ke_auth K) raw \<and> ak_isActive row \<and>
      c = context_of_row row \<and> (\<forall>t. ak_expiresAt row = Some t \<longrightarrow> fst now < t \<or> snd now < t)"
proof -
  have holds: "cache_holds (set (table s)) (ae_prefix (ke_auth K)) (view s)" and wf: "keys_wf (table s)"
    using assms(2) by (simp_all add: current_def)
  note here = authenticateKey_current [OF assms(1) holds, OF authenticateKey_rows]
  show "current s'" using here(1) wf authenticateKey_table [OF assms(1)] by (simp add: current_def)
  show "r = Inr c \<Longrightarrow> \<exists>row \<in> set (table s). ak_keyHash row = ae_hash (ke_auth K) raw \<and> ak_isActive row \<and>
      c = context_of_row row \<and> (\<forall>t. ak_expiresAt row = Some t \<longrightarrow> fst now < t \<or> snd now < t)"
    by (rule here(2))
qed

lemma run_view: "ke_run K f s = (r, s1) \<Longrightarrow> cache_holds T pre (view s) \<Longrightarrow> cache_holds T pre (view s1)"
  using run_time [of f s] text_entries_advance by fastforce

lemma create_current: "current s \<Longrightarrow> current (snd (keys_create K body s))"
proof (cases "createKeySchema (body_or_empty body)")
  case (Some b)
  assume cur: "current s"
  obtain raw hash where key: "generateApiKey (ke_cipher K) (ke_random K s) = (raw, hash)" by fastforce
  obtain r s1 where run: "ke_run K (insert_key K (ke_uuid K s) (ke_clock K s) hash b) s = (r, s1)" by fastforce
  have "current s1"
  proof (cases r)
    case (Inl e)
    with run cur run_fail [of _ s e s1] run_view [OF run] show ?thesis by (simp add: current_def)
  next
    case (Inr out)
    with run_ok run have "insert_key K (ke_uuid K s) (ke_clock K s) hash b (table s) = Inr (out, table s1)" by blast
    from insert_keyD [OF this] obtain budget where
      "table s1 = table s @ [new_row (ke_uuid K s) (ke_clock K s) hash budget b]"
      and "\<forall>r \<in> set (table s). ak_keyHash r \<noteq> hash \<and> ak_id r \<noteq> ke_uuid K s" by blast
    with cur run_view [OF run, of "set (table s)"] cache_holds_mono [of "set (table s)" _ "view s1" "set (table s1)"]
    show ?thesis by (auto simp: current_def keys_wf_def new_row_def)
  qed
  with Some key run show ?thesis by (auto simp: keys_create_def split: sum.splits list.splits)
qed (simp add: keys_create_def)

lemma invalidate_current:
  assumes wf: "keys_wf (table s)" and holds: "cache_holds T (ae_prefix (ke_auth K)) (view s)"
    and del: "is_ok (fst (round_trip (ae_redis (ke_auth K)) (command (DEL [authKey (ae_prefix (ke_auth K)) h])) s))"
    and T: "\<And>r. r \<in> T \<Longrightarrow> ak_keyHash r \<noteq> h \<Longrightarrow> r \<in> set (table s)"
  shows "current (invalidateAuthCache (ke_auth K) h s)"
proof -
  let ?k = "authKey (ae_prefix (ke_auth K)) h"
  obtain x s1 where rt: "round_trip (ae_redis (ke_auth K)) (command (DEL [?k])) s = (x, s1)" by fastforce
  from round_trip_atomic [OF rt] obtain dt where "0 \<le> dt"
    "(x = Inl Unreachable \<and> view s1 = advance dt (view s)) \<or>
     (\<exists>y. exec redis_spec (command (DEL [?k])) (advance dt (view s)) = (y, view s1) \<and>
          x = (case y of Inl e \<Rightarrow> Inl (ScriptError e) | Inr a \<Rightarrow> Inr a))" by (rule atomic_runE)
  with del rt have "view s1 = del_keys [?k] (advance dt (view s))" by (auto simp: command_def)
  then have "live (view s1) ?k = None" by simp
  moreover have "cache_holds T (ae_prefix (ke_auth K)) (view s1)"
    using round_trip_entries [OF rt _ holds] by (simp add: keeps_entries_def)
  ultimately have "cache_holds (set (table s)) (ae_prefix (ke_auth K)) (view s1)"
    using cache_holds_restrict T by blast
  with wf round_trip_table [OF rt] rt show ?thesis by (simp add: current_def invalidateAuthCache_def)
qed

lemma update_current:
  assumes cur: "current s" and f: "\<And>rows out rows'. f rows = Inr (out, rows') \<Longrightarrow> \<exists>g. keeps_key g \<and> (out, rows') = update_rows i g rows"
    and inv: "invalidated K (update_returning K f s)"
  shows "current (snd (then_invalidate K answer (update_returning K f s)))"
proof -
  obtain r s1 where run: "ke_run K f s = (r, s1)" by fastforce
  note holds = run_view [OF run, of "set (table s)"]
  show ?thesis
  proof (cases r)
    case (Inl e)
    with run cur run_fail [of f s e s1] holds show ?thesis by (simp add: current_def update_returning_def then_invalidate_def)
  next
    case (Inr out)
    with run_ok run have "f (table s) = Inr (out, table s1)" by blast
    from f [OF this] obtain g where g: "keeps_key g" and up: "(out, table s1) = update_rows i g (table s)" by blast
    then have out: "fst (update_rows i g (table s)) = out" and tab: "table s1 = snd (update_rows i g (table s))"
      by (metis fst_conv, metis snd_conv)
    show ?thesis
    proof (cases out)
      case Nil
      with Inr run cur holds tab update_rows_none [of i g "table s"] out show ?thesis
        by (simp add: current_def update_returning_def then_invalidate_def)
    next
      case (Cons row others)
      with Inr run have res: "update_returning K f s = (Inr row, s1)" by (simp add: update_returning_def)
      have wf: "keys_wf (table s)" and wf1: "keys_wf (table s1)"
        using cur update_rows_wf [OF g] by (simp_all add: current_def tab)
      have "current (invalidateAuthCache (ke_auth K) (ak_keyHash row) s1)"
        using invalidate_current [OF wf1 holds, of "ak_keyHash row"] cur inv update_rows_other [OF wf g] out Cons
        by (simp add: res invalidated_def current_def tab)
      then show ?thesis by (simp add: res then_invalidate_def)
    qed
  qed
qed

lemma key_step_current: "current s \<Longrightarrow> key_reached K x s \<Longrightarrow> current (key_step K x s)"
proof (cases x)
  case (Key_request raw now)
  then show "current s \<Longrightarrow> ?thesis" using authenticateKey_now(1) [OF prod.collapse [symmetric]] by simp
next
  case (Key_create body)
  then show "current s \<Longrightarrow> ?thesis" by (simp add: create_current)
next
  case (Key_patch i body)
  assume "current s" "key_reached K x s"
  with Key_patch update_current [OF _ patch_key_updates] show ?thesis
    by (auto simp: keys_patch_def patch_row_def then_invalidate_def split: sum.splits option.splits)
next
  case (Key_delete i)
  assume "current s" "key_reached K x s"
  with Key_delete update_current [OF _ delete_key_updates] show ?thesis
    by (auto simp: keys_delete_def delete_row_def then_invalidate_def split: sum.splits)
qed

lemma keys_run_current: "current s \<Longrightarrow> keys_reached K xs s \<Longrightarrow> current (fold (key_step K) xs s)"
  by (induction xs arbitrary: s) (simp_all add: key_step_current)

lemma cache_absent:
  assumes "live (view s) (authKey (ae_prefix (ke_auth K)) h) = None"
  shows "fst (cache_path (ke_auth K) h now s) = None"
proof -
  let ?k = "authKey (ae_prefix (ke_auth K)) h"
  obtain x s1 where rt: "round_trip (ae_redis (ke_auth K)) (command (GET ?k)) s = (x, s1)" by fastforce
  from round_trip_atomic [OF rt] obtain dt where "0 \<le> dt"
    "(x = Inl Unreachable \<and> view s1 = advance dt (view s)) \<or>
     (\<exists>y. exec redis_spec (command (GET ?k)) (advance dt (view s)) = (y, view s1) \<and>
          x = (case y of Inl e \<Rightarrow> Inl (ScriptError e) | Inr a \<Rightarrow> Inr a))" by (rule atomic_runE)
  with assms have "x = Inl Unreachable \<or> x = Inr RNil" by (auto simp: command_def live_advance)
  with rt show ?thesis by (auto simp: cache_path_def Let_def)
qed

lemma db_path_finds:
  assumes "is_ok (fst (ae_table (ke_auth K) s))" and "keys_wf (table s)" and "row \<in> set (table s)" "ak_isActive row"
    and "\<forall>t. ak_expiresAt row = Some t \<longrightarrow> now < t"
  shows "fst (db_path (ke_auth K) (ak_keyHash row) now s) = Inr (context_of_row row)"
proof -
  obtain s1 where tab: "ae_table (ke_auth K) s = (Inr (table s), s1)"
    using assms(1) table_read by (metis is_ok_iff prod.collapse)
  have "find (\<lambda>r. ak_keyHash r = ak_keyHash row \<and> ak_isActive r) (table s) = Some row"
    using assms(2-4) by (intro find_unique) (auto simp: keys_wf_def distinct_map dest: inj_onD)
  with tab assms(5) show ?thesis by (auto simp: db_path_def Let_def split: option.splits)
qed

lemma authenticateKey_finds:
  assumes "live (view s) (authKey (ae_prefix (ke_auth K)) (ae_hash (ke_auth K) raw)) = None"
    and "\<And>s. is_ok (fst (ae_table (ke_auth K) s))" and "keys_wf (table s)"
    and "row \<in> set (table s)" "ak_isActive row" "ak_keyHash row = ae_hash (ke_auth K) raw"
    and "\<forall>t. ak_expiresAt row = Some t \<longrightarrow> snd now < t"
  shows "fst (authenticateKey (ke_auth K) raw now s) = Inr (context_of_row row)"
proof -
  obtain s1 where cp: "cache_path (ke_auth K) (ae_hash (ke_auth K) raw) (fst now) s = (None, s1)"
    using cache_absent [OF assms(1)] by (metis prod.collapse)
  have "fst (db_path (ke_auth K) (ak_keyHash row) (snd now) s1) = Inr (context_of_row row)"
    using assms(2-5,7) cache_path_table [OF cp] by (intro db_path_finds) simp_all
  with cp assms(6) show ?thesis by (simp add: authenticateKey_def Let_def)
qed

end

section \<open>A reference store\<close>

record key_server =
  kv_server :: ref_server
  kv_rows :: "api_key_row list"

definition keys_redis :: "key_server redis_env" where
  "keys_redis = \<lparr>e_call = (\<lambda>c s. case ref_call c (kv_server s) of (r, x) \<Rightarrow> (r, s\<lparr>kv_server := x\<rparr>)),
     e_tick = (\<lambda>s. s\<lparr>kv_server := ref_tick (kv_server s)\<rparr>), e_up = (\<lambda>s. rs_up (kv_server s)),
     e_known = (\<lambda>s. rs_known (kv_server s)), e_sha = (\<lambda>n s. n \<in> rs_shas (kv_server s)), e_set_sha = (\<lambda>n b s. s)\<rparr>"

definition ref_keys :: "cipher \<Rightarrow> int \<Rightarrow> bytes \<Rightarrow> string \<Rightarrow> key_server keys_env" where
  "ref_keys A ttl random uuid =
     \<lparr>ke_auth = \<lparr>ae_redis = keys_redis, ae_prefix = ''gw:'', ae_hash = hashApiKey A,
        ae_table = (\<lambda>s. (Inr (kv_rows s), s)), ae_ttl = ttl\<rparr>,
      ke_cipher = A, ke_admin_key = ''admin'', ke_random = (\<lambda>s. random), ke_uuid = (\<lambda>s. uuid),
      ke_clock = (\<lambda>s. clock (rs_db (kv_server s))), ke_numeric = Inr, ke_unique_violation = TValue ''duplicate key'',
      ke_run = (\<lambda>f s. case f (kv_rows s) of Inl e \<Rightarrow> (Inl e, s) | Inr (out, rows) \<Rightarrow> (Inr out, s\<lparr>kv_rows := rows\<rparr>)),
      ke_logs = (\<lambda>s. (Inr [], s)), ke_issues = (\<lambda>j. [])\<rparr>"

definition kv_view :: "key_server \<Rightarrow> db" where
  "kv_view s = rs_db (kv_server s)"

lemma keys_redis_service: "redis_service keys_redis kv_view"
proof
  fix c s
  show "redis_spec c (kv_view s) = (fst (e_call keys_redis c s), kv_view (snd (e_call keys_redis c s)))"
    by (simp add: keys_redis_def ref_call_def kv_view_def split: prod.splits)
next
  fix s
  show "\<exists>dt\<ge>0. kv_view (e_tick keys_redis s) = advance dt (kv_view s)"
    using ref.tick_doc [of "kv_server s"] by (simp add: keys_redis_def kv_view_def ref_env_def)
qed (simp add: keys_redis_def)

interpretation ref_store: key_store "ref_keys A ttl random uuid" kv_view kv_rows for A ttl random uuid
proof (intro key_store.intro auth_cache.intro auth_cache_axioms.intro key_store_axioms.intro)
  show "redis_service (ae_redis (ke_auth (ref_keys A ttl random uuid))) kv_view"
    using keys_redis_service by (simp add: ref_keys_def)
  show "\<exists>dt\<ge>0. kv_view (snd (ae_table (ke_auth (ref_keys A ttl random uuid)) s)) = advance dt (kv_view s)" for s
    by (intro exI [of _ 0]) (simp add: ref_keys_def)
  show "\<exists>dt\<ge>0. kv_view (snd (ke_run (ref_keys A ttl random uuid) f s)) = advance dt (kv_view s)" for f s
    by (intro exI [of _ 0]) (simp add: ref_keys_def kv_view_def split: sum.splits prod.splits)
qed (auto simp: ref_keys_def keys_redis_def split: sum.splits prod.splits)

lemma ref_store: "key_store (ref_keys A ttl random uuid) kv_view kv_rows"
  by (rule ref_store.key_store_axioms)

text \<open>
  C7. Changes to keys take effect at once.  Whatever requests were served and whatever keys were
  created, patched and deleted in between, as long as Redis answered whenever a change dropped a
  cached context, a request is admitted only with the context that the table holds for its key
  now: the row is active now, and its limits, models and budget are the present ones.
\<close>

theorem key_changes_prompt:
  assumes "key_store K view table" and "keys_wf (table s)"
    and "\<And>h. live (view s) (authKey (ae_prefix (ke_auth K)) h) = None" and "keys_reached K xs s"
    and "authPreHandler (ke_auth K) authorization x_api_key now (fold (key_step K) xs s) = (Inr c, s')"
  shows "\<exists>raw row. extractApiKey authorization x_api_key = Some raw \<and> row \<in> set (table (fold (key_step K) xs s)) \<and>
    ak_keyHash row = ae_hash (ke_auth K) raw \<and> ak_isActive row \<and> c = context_of_row row \<and>
    (\<forall>t. ak_expiresAt row = Some t \<longrightarrow> fst now < t \<or> snd now < t)"
proof -
  have "key_store.current K view table s"
    using assms(2) text_entries_absent [OF assms(3)] by (simp add: key_store.current_def [OF assms(1)])
  note now = key_store.keys_run_current [OF assms(1) this assms(4)]
  from assms(5) obtain raw where raw: "extractApiKey authorization x_api_key = Some raw"
    and auth: "authenticateKey (ke_auth K) raw now (fold (key_step K) xs s) = (Inr c, s')"
    by (auto simp: authPreHandler_def split: option.splits)
  from key_store.authenticateKey_now(2) [OF assms(1) auth now refl] raw show ?thesis by blast
qed

text \<open>A store with one key, which expires at 5000, and whose limit is then changed.\<close>

definition demo_raw :: string where
  "demo_raw = ''gw-1''"

definition demo_store :: "cipher \<Rightarrow> int option \<Rightarrow> key_server" where
  "demo_store A ex = \<lparr>kv_server = ref_init 0, kv_rows = [demo_key_row
     \<lparr>ak_id := ''00000000-0000-0000-0000-000000000000'', ak_keyHash := hashApiKey A demo_raw, ak_expiresAt := ex\<rparr>]\<rparr>"

definition demo_patch :: json where
  "demo_patch = JObj [(''rpmLimit'', JNum 5 0)]"

lemma demo_patch_schema:
  "patchKeySchema demo_patch = Some \<lparr>pk_name = None, pk_isActive = None, pk_monthlyBudgetUsd = None, pk_allowedModels = None,
     pk_rpmLimit = Some 5, pk_tpmLimit = None, pk_expiresAt = None\<rparr>"
  by (simp add: patchKeySchema_def demo_patch_def z_defs z_int_between_def INT32_MAX_def)

lemma demo_uuid: "is_uuid ''00000000-0000-0000-0000-000000000000''"
proof -
  have "hex_value (CHR ''0'') = Some 0" "lower_char (CHR ''0'') = CHR ''0''"
    by (simp_all add: hex_value_def lower_char_def)
  then show ?thesis by (simp add: is_uuid_def Let_def)
qed

lemma keys_round_trip:
  assumes "rs_schedule (kv_server s) = []" "rs_up (kv_server s)" "redis_spec c (kv_view s) = (r, d)" "\<forall>e. r \<noteq> RErr e"
  shows "round_trip keys_redis (command c) s = (Inr r, s\<lparr>kv_server := (kv_server s)\<lparr>rs_db := d\<rparr>\<rparr>)"
proof -
  have "e_tick keys_redis s = s" using assms(1) by (simp add: keys_redis_def ref_tick_def)
  moreover have "exec (e_call keys_redis) (command c) s = (Inr r, s\<lparr>kv_server := (kv_server s)\<lparr>rs_db := d\<rparr>\<rparr>)"
    using assms(3,4) by (cases r) (simp_all add: command_def keys_redis_def ref_call_def kv_view_def)
  ultimately show ?thesis using assms(2) by (simp add: round_trip_def keys_redis_def)
qed

definition demo_patched :: "cipher \<Rightarrow> int option \<Rightarrow> api_key_row" where
  "demo_patched A ex = demo_key_row\<lparr>ak_id := ''00000000-0000-0000-0000-000000000000'', ak_keyHash := hashApiKey A demo_raw,
     ak_expiresAt := ex, ak_rpmLimit := 5, ak_updatedAt := 0\<rparr>"

lemma demo_patch_row:
  "patch_row (ref_keys A ttl random uuid) ''00000000-0000-0000-0000-000000000000'' demo_patch (demo_store A ex) =
     (Inr (demo_patched A ex), (demo_store A ex)\<lparr>kv_rows := [demo_patched A ex]\<rparr>)"
proof -
  have "body_or_empty demo_patch = demo_patch" by (simp add: body_or_empty_def demo_patch_def)
  then show ?thesis
    by (simp add: patch_row_def parseId_def demo_uuid demo_patch_schema update_returning_def ref_keys_def patch_key_def
        update_rows_def demo_store_def patched_row_def demo_patched_def demo_key_row_def ref_init_def nullish_def nullish_opt_def)
qed

lemma del_empty: "del_keys ks (empty_db t) = empty_db t"
  by (simp add: del_keys_def empty_db_def fun_eq_iff)

lemma demo_patch_step:
  "\<exists>x. round_trip keys_redis (command (DEL [authKey ''gw:'' (hashApiKey A demo_raw)]))
      ((demo_store A ex)\<lparr>kv_rows := [demo_patched A ex]\<rparr>) = (Inr x, (demo_store A ex)\<lparr>kv_rows := [demo_patched A ex]\<rparr>)"
  using keys_round_trip [of "(demo_store A ex)\<lparr>kv_rows := [demo_patched A ex]\<rparr>" "DEL [authKey ''gw:'' (hashApiKey A demo_raw)]"]
  by (simp add: demo_store_def ref_init_def kv_view_def del_empty)

lemma ref_keys_simps [simp]:
  "ae_redis (ke_auth (ref_keys A ttl random uuid)) = keys_redis" "ae_prefix (ke_auth (ref_keys A ttl random uuid)) = ''gw:''"
  "ae_hash (ke_auth (ref_keys A ttl random uuid)) = hashApiKey A" "is_ok (fst (ae_table (ke_auth (ref_keys A ttl random uuid)) s))"
  by (simp_all add: ref_keys_def)

theorem key_changes_prompt_witness:
  "\<exists>row. ak_keyHash row = hashApiKey demo_cipher demo_raw \<and> ak_isActive row \<and> rpmLimit (context_of_row row) = 5"
proof -
  let ?K = "ref_keys demo_cipher 300 [] []" and ?s = "demo_store demo_cipher (Some 5000)"
    and ?xs = "[Key_patch ''00000000-0000-0000-0000-000000000000'' demo_patch]" and ?row = "demo_patched demo_cipher (Some 5000)"
  let ?s1 = "?s\<lparr>kv_rows := [?row]\<rparr>"
  have row: "ak_keyHash ?row = hashApiKey demo_cipher demo_raw" "ak_isActive ?row" "ak_expiresAt ?row = Some 5000"
    by (simp_all add: demo_patched_def demo_key_row_def)
  obtain x where del: "round_trip keys_redis (command (DEL [authKey ''gw:'' (hashApiKey demo_cipher demo_raw)])) ?s1 = (Inr x, ?s1)"
    using demo_patch_step by blast
  have step: "fold (key_step ?K) ?xs ?s = ?s1"
    by (simp add: keys_patch_def demo_patch_row then_invalidate_def invalidateAuthCache_def row del)
  have reached: "keys_reached ?K ?xs ?s" by (simp add: demo_patch_row invalidated_def row del)
  have empty: "live (kv_view ?s) k = None" "live (kv_view ?s1) k = None" for k
    by (simp_all add: demo_store_def kv_view_def ref_init_def)
  have wf: "keys_wf (kv_rows ?s)" "keys_wf (kv_rows ?s1)" by (simp_all add: demo_store_def keys_wf_def)
  have "fst (authenticateKey (ke_auth ?K) demo_raw (1000, 1001) ?s1) = Inr (context_of_row ?row)"
    by (rule ref_store.authenticateKey_finds) (use empty wf row in simp_all)
  moreover have key: "extractApiKey (Some (''Bearer '' @ demo_raw)) None = Some demo_raw" by code_simp
  ultimately obtain s2 where auth:
    "authPreHandler (ke_auth ?K) (Some (''Bearer '' @ demo_raw)) None (1000, 1001) (fold (key_step ?K) ?xs ?s) = (Inr (context_of_row ?row), s2)"
    unfolding step by (simp add: authPreHandler_def) (metis prod.collapse)
  from key_changes_prompt [OF ref_store wf(1) empty(1) reached auth]
  obtain r where "r \<in> set (kv_rows ?s1)" "ak_keyHash r = hashApiKey demo_cipher demo_raw" "ak_isActive r" unfolding step key by auto
  then show ?thesis by (intro exI [of _ r]) (simp add: context_of_row_def demo_patched_def)
qed

section \<open>The window that the invalidation leaves\<close>

text \<open>\<open>authenticateKey\<close> awaits the database and then Redis; other requests run in between.\<close>

definition db_lookup :: "'s auth_env \<Rightarrow> string \<Rightarrow> int \<Rightarrow> 's \<Rightarrow> (thrown, GatewayContext) result \<times> 's" where
  "db_lookup A h now s =
     (case ae_table A s of
        (Inl e, s1) \<Rightarrow> (Inl e, s1)
      | (Inr rows, s1) \<Rightarrow>
          (case find (\<lambda>r. ak_keyHash r = h \<and> ak_isActive r) rows of
             None \<Rightarrow> (Inl (auth_error ''Invalid API key.''), s1)
           | Some row \<Rightarrow>
               if (case ak_expiresAt row of Some t \<Rightarrow> t \<le> now | None \<Rightarrow> False)
               then (Inl (auth_error ''API key has expired.''), s1) else (Inr (context_of_row row), s1)))"

definition db_store :: "'s auth_env \<Rightarrow> string \<Rightarrow> GatewayContext \<Rightarrow> 's \<Rightarrow> 's" where
  "db_store A h c s = snd (round_trip (ae_redis A)
     (command (SET_PX (authKey (ae_prefix A) h) (VStr (stringify (context_json c))) (1000 * ae_ttl A))) s)"

lemma db_path_steps:
  "db_path A h now s = (case db_lookup A h now s of (Inl e, s1) \<Rightarrow> (Inl e, s1) | (Inr c, s1) \<Rightarrow> (Inr c, db_store A h c s1))"
  by (simp add: db_path_def db_lookup_def db_store_def Let_def split: sum.split prod.split option.split)

lemma stored_then_served:
  assumes "rs_up (kv_server s)" "rs_schedule (kv_server s) = []" "wf_context c" "expiresAtMs c = None" "0 < ttl"
  shows "fst (authenticateKey (ke_auth (ref_keys A ttl random uuid)) raw now
    (db_store (ke_auth (ref_keys A ttl random uuid)) (hashApiKey A raw) c s)) = Inr c"
proof -
  let ?A = "ke_auth (ref_keys A ttl random uuid)" and ?k = "authKey ''gw:'' (hashApiKey A raw)"
    and ?w = "stringify (context_json c)" and ?ms = "1000 * ttl"
  have ttl: "ae_ttl ?A = ttl" by (simp add: ref_keys_def)
  define d where "d = put ?k (OStr (VStr ?w)) (Some (clock (kv_view s) + ?ms)) (kv_view s)"
  define s1 where "s1 = s\<lparr>kv_server := (kv_server s)\<lparr>rs_db := d\<rparr>\<rparr>"
  have put: "db_store ?A (hashApiKey A raw) c s = s1"
    using keys_round_trip [of s "SET_PX ?k (VStr ?w) ?ms"] assms by (simp add: db_store_def ttl s1_def d_def)
  have s1: "rs_schedule (kv_server s1) = []" "rs_up (kv_server s1)" "kv_view s1 = d"
    using assms by (simp_all add: s1_def kv_view_def)
  have live: "live d ?k = Some (OStr (VStr ?w), Some (clock d + ?ms))" using assms(5) by (simp add: d_def)
  have get: "round_trip keys_redis (command (GET ?k)) s1 = (Inr (RBulk (VStr ?w)), s1)"
    using keys_round_trip [OF s1(1,2), of "GET ?k"] live s1(3) by (simp add: s1_def)
  obtain s2 where touch: "round_trip keys_redis (command (PEXPIRE ?k ?ms)) s1 = (Inr (RInt 1), s2)"
    using keys_round_trip [OF s1(1,2), of "PEXPIRE ?k ?ms"] live s1(3) assms(5) by simp
  show ?thesis
    using cached_context [OF assms(3)] assms(4)
    by (simp add: put authenticateKey_def cache_path_def get touch ttl Let_def)
qed



section \<open>A created key works\<close>

lemma hex_not_space: "hex_value c \<noteq> None \<Longrightarrow> \<not> is_space c"
  by (auto simp: hex_value_def is_space_def Let_def split: if_splits)

lemma trim_id: "w \<noteq> [] \<Longrightarrow> \<not> is_space (hd w) \<Longrightarrow> \<not> is_space (last w) \<Longrightarrow> trim w = w"
proof -
  assume w: "w \<noteq> []" "\<not> is_space (hd w)" "\<not> is_space (last w)"
  have "dropWhile is_space w = w" using w(1,2) by (cases w) simp_all
  moreover have "dropWhile is_space (rev w) = rev w" using w(1,3) by (cases w rule: rev_cases) simp_all
  ultimately show ?thesis by (simp add: trim_def)
qed

lemma generated_key_extracted:
  assumes "generateApiKey A random = (raw, hash)"
  shows "extractApiKey (Some (''Bearer '' @ raw)) None = Some raw" and "hash = hashApiKey A raw"
proof -
  let ?h = "to_hex (take API_KEY_RANDOM_BYTES random)"
  have raw: "raw = ''gw-'' @ ?h" and "hash = hashApiKey A raw" using assms by (auto simp: generateApiKey_def Let_def)
  then show "hash = hashApiKey A raw" by blast
  have "\<not> is_space (last raw)"
  proof (cases "?h = []")
    case True
    then show ?thesis by (simp add: raw is_space_def)
  next
    case False
    then have "hex_value (last ?h) \<noteq> None" using to_hex_facts(2) [of "take API_KEY_RANDOM_BYTES random"] last_in_set by (auto simp: list_all_iff)
    with False show ?thesis by (simp add: raw hex_not_space)
  qed
  then have "trim raw = raw" by (intro trim_id) (simp_all add: raw is_space_def)
  moreover have "startsWith (toLowerCase (''Bearer '' @ raw)) ''bearer ''"
  proof -
    have "toLowerCase ''Bearer '' = ''bearer ''" by code_simp
    then have "toLowerCase (''Bearer '' @ raw) = ''bearer '' @ toLowerCase raw" by (simp add: toLowerCase_def)
    then show ?thesis by (metis startsWith_append)
  qed
  ultimately show "extractApiKey (Some (''Bearer '' @ raw)) None = Some raw"
    by (simp add: extractApiKey_def Let_def) (simp add: raw)
qed


definition demo_creation :: json where
  "demo_creation = JObj [(''rpmLimit'', JNum 5 0)]"

lemma demo_creation_schema:
  "createKeySchema (body_or_empty demo_creation) = Some \<lparr>ck_name = None, ck_ownerId = None, ck_monthlyBudgetUsd = None,
     ck_allowedModels = None, ck_rpmLimit = Some 5, ck_tpmLimit = None, ck_expiresAt = None\<rparr>"
  by (simp add: createKeySchema_def body_or_empty_def demo_creation_def z_defs z_int_between_def INT32_MAX_def)


section \<open>What is read can be written back\<close>

lemma nullable_datetime:
  assumes "pred_option (\<lambda>t. 0 \<le> t div 86400000 + epoch \<and> t div 86400000 + epoch < int (day_number 10000 1 1)) x"
  shows "nullable z_datetime (or_null date_json x) = Some (map_option toISOString x)"
    and "Option.bind (map_option toISOString x) new_Date = x"
  using assms
  by (cases x; simp add: nullable_def or_null_def date_json_def z_datetime_def instant_round_trip)+

definition writable :: "'s keys_env \<Rightarrow> api_key_row \<Rightarrow> bool" where
  "writable K row \<longleftrightarrow>
     (\<exists>n. ak_name row = Some n \<and> length n \<le> 256) \<and>
     pred_option (\<lambda>w. \<exists>d. Number_text w = Some d \<and> 0 \<le> dec_value d \<and> ke_numeric K (stringify (dec_json d)) = Inr w) (ak_monthlyBudgetUsd row) \<and>
     1 \<le> ak_rpmLimit row \<and> ak_rpmLimit row \<le> INT32_MAX \<and> 1 \<le> ak_tpmLimit row \<and> ak_tpmLimit row \<le> INT32_MAX \<and>
     pred_option (\<lambda>t. 0 \<le> t div 86400000 + epoch \<and> t div 86400000 + epoch < int (day_number 10000 1 1)) (ak_expiresAt row)"

definition written_back :: "api_key_row \<Rightarrow> PatchKey" where
  "written_back row = \<lparr>pk_name = ak_name row, pk_isActive = Some (ak_isActive row),
     pk_monthlyBudgetUsd = Some (Option.bind (ak_monthlyBudgetUsd row) Number_text), pk_allowedModels = Some (ak_allowedModels row),
     pk_rpmLimit = Some (ak_rpmLimit row), pk_tpmLimit = Some (ak_tpmLimit row),
     pk_expiresAt = Some (map_option toISOString (ak_expiresAt row))\<rparr>"

lemma dto_accepted:
  assumes "writable K row"
  shows "patchKeySchema (JObj (toKeyDto row)) = Some (written_back row)"
proof -
  obtain n where n: "ak_name row = Some n" "length n \<le> 256" using assms by (auto simp: writable_def)
  have budget: "nullable z_price (or_null dec_json (Option.bind (ak_monthlyBudgetUsd row) Number_text)) =
      Some (Option.bind (ak_monthlyBudgetUsd row) Number_text)"
    using assms by (cases "ak_monthlyBudgetUsd row") (auto simp: writable_def nullable_def or_null_def z_price_def dec_json_def)
  have models: "nullable (as_list as_str) (or_null (\<lambda>ms. JArr (map JStr ms)) (ak_allowedModels row)) = Some (ak_allowedModels row)"
    by (intro nullable_or_null) (simp add: as_list_JArr)
  have dates: "nullable z_datetime (or_null date_json (ak_expiresAt row)) = Some (map_option toISOString (ak_expiresAt row))"
    using assms by (intro nullable_datetime) (simp add: writable_def)
  show ?thesis
    using assms n budget models dates
    by (simp add: patchKeySchema_def toKeyDto_def written_back_def writable_def z_defs z_string_def z_int_between_def or_null_def)
qed

lemma written_back_row:
  assumes "writable K row"
  shows "\<exists>budget. budget_column K (Option.bind (ak_monthlyBudgetUsd row) Number_text) = Inr budget \<and>
    patched_row now (Some budget) (written_back row) row = row\<lparr>ak_updatedAt := now\<rparr>"
proof -
  have "budget_column K (Option.bind (ak_monthlyBudgetUsd row) Number_text) = Inr (ak_monthlyBudgetUsd row)"
    using assms by (cases "ak_monthlyBudgetUsd row") (auto simp: writable_def budget_column_def)
  moreover have "Option.bind (map_option toISOString (ak_expiresAt row)) new_Date = ak_expiresAt row"
    using assms by (intro nullable_datetime) (simp add: writable_def)
  moreover obtain n where "ak_name row = Some n" using assms by (auto simp: writable_def)
  ultimately show ?thesis by (intro exI [of _ "ak_monthlyBudgetUsd row"]) (simp add: patched_row_def written_back_def)
qed

lemma update_rows_cong: "(\<And>r. r \<in> set rows \<Longrightarrow> ak_id r = i \<Longrightarrow> f r = g r) \<Longrightarrow> update_rows i f rows = update_rows i g rows"
  by (auto simp: update_rows_def)

text \<open>
  What a key's page shows can be written back.  The object that reading a key returns is
  accepted as an update of that key, and the update changes nothing but the time of the last
  change, whatever the models, the budget as the column prints it, the limits and the expiry are;
  only a key without a name cannot be written back like this.
\<close>

theorem key_write_back:
  assumes "writable K row" and "row \<in> set rows" and "keys_wf rows"
  shows "\<exists>b. patchKeySchema (JObj (toKeyDto row)) = Some b \<and>
    patch_key K (ak_id row) now b rows = Inr (update_rows (ak_id row) (\<lambda>r. r\<lparr>ak_updatedAt := now\<rparr>) rows)"
proof -
  obtain budget where b: "budget_column K (Option.bind (ak_monthlyBudgetUsd row) Number_text) = Inr budget"
    "patched_row now (Some budget) (written_back row) row = row\<lparr>ak_updatedAt := now\<rparr>"
    using written_back_row [OF assms(1)] by blast
  have "r = row" if "r \<in> set rows" "ak_id r = ak_id row" for r
    using assms(2,3) that by (auto simp: keys_wf_def distinct_map dest: inj_onD)
  then have "update_rows (ak_id row) (patched_row now (Some budget) (written_back row)) rows =
      update_rows (ak_id row) (\<lambda>r. r\<lparr>ak_updatedAt := now\<rparr>) rows"
    using b(2) by (intro update_rows_cong) auto
  moreover have "pk_monthlyBudgetUsd (written_back row) = Some (Option.bind (ak_monthlyBudgetUsd row) Number_text)"
    by (simp add: written_back_def)
  ultimately show ?thesis using dto_accepted [OF assms(1)] b(1) by (simp add: patch_key_def)
qed

theorem key_write_back_witness:
  "\<exists>b. patchKeySchema (JObj (toKeyDto (demo_key_row\<lparr>ak_name := Some ''n'', ak_monthlyBudgetUsd := Some ''12.5''\<rparr>))) = Some b"
proof -
  let ?row = "demo_key_row\<lparr>ak_name := Some ''n'', ak_monthlyBudgetUsd := Some ''12.5''\<rparr>"
  have "days_before_year 1971 \<le> days_before_year 10000" by (rule days_before_year_mono) simp
  then have "epoch < int (day_number 10000 1 1)"
    using days_before_year_step [of 1970] unfolding epoch_def day_number_first by (simp split: if_splits)
  moreover have "Number_text ''12.5'' = Some (125, 1)" "stringify (dec_json (125, 1)) = ''12.5''" by code_simp+
  ultimately have "writable (ref_keys demo_cipher 300 [] []) ?row"
    by (simp add: writable_def demo_key_row_def INT32_MAX_def ref_keys_def dec_value_def epoch_def)
  then show ?thesis using key_write_back [of _ ?row "[?row]"] by (auto simp: keys_wf_def)
qed

end
