(* ===== verification/Config.thy ===== *)
theory Config
  imports Rate_Limiter Circuit_Breaker Crypto Dates
begin

text \<open>
  The configuration (\<open>src/config/index.ts\<close>): the schema of the environment variables with its
  coercions, and \<open>loadConfig\<close>, which reports every variable that is wrong.  The syntax of URLs, which
  zod leaves to the platform's \<open>URL\<close>, is the parameter \<open>U\<close>; of an issue only the path is kept.
\<close>

section \<open>Numbers in text\<close>

text \<open>
  \<open>Number(text)\<close>: white space around is ignored, the empty text is zero, and hexadecimal, octal
  and binary literals are read.  A finite number is exact; from half a unit above the largest
  double on it is infinite.
\<close>

datatype js_number = Fin decimal | Infinite bool | NaN

definition to_number :: "nat \<Rightarrow> nat \<Rightarrow> js_number" where
  "to_number m k = (if (2 ^ 1024 - 2 ^ 970) * 10 ^ k \<le> m then Infinite True else Fin (int m, k))"

definition radix_literal :: "nat \<Rightarrow> string \<Rightarrow> js_number" where
  "radix_literal b w =
     (case those (map hex_value w) of
        None \<Rightarrow> NaN
      | Some ds \<Rightarrow> if ds \<noteq> [] \<and> list_all (\<lambda>d. d < b) ds then to_number (foldl (\<lambda>n d. n * b + d) 0 ds) 0 else NaN)"

text \<open>The exponent part: absent, or a sign and digits up to the end.\<close>

definition exponent_part :: "string \<Rightarrow> int option" where
  "exponent_part w =
     (case w of
        [] \<Rightarrow> Some 0
      | e # r \<Rightarrow>
          if e \<noteq> CHR ''e'' \<and> e \<noteq> CHR ''E'' then None
          else (case r of
                  [] \<Rightarrow> None
                | s # r' \<Rightarrow>
                    if s = CHR ''-'' then map_option (\<lambda>n. - int n) (read_nat r')
                    else if s = CHR ''+'' then map_option int (read_nat r') else map_option int (read_nat r)))"

definition fraction_part :: "string \<Rightarrow> string \<times> string" where
  "fraction_part w = (case w of
     [] \<Rightarrow> ([], [])
   | c # r \<Rightarrow> if c = CHR ''.'' then (takeWhile is_digit r, dropWhile is_digit r) else ([], w))"

definition unsigned_literal :: "string \<Rightarrow> js_number" where
  "unsigned_literal w =
     (if w = ''Infinity'' then Infinite True
      else let ip = takeWhile is_digit w; (fp, r) = fraction_part (dropWhile is_digit w) in
        if ip = [] \<and> fp = [] then NaN
        else (case (digits_value 0 (ip @ fp), exponent_part r) of
                (Some m, Some e) \<Rightarrow> to_number (m * 10 ^ nat e) (length fp + nat (- e))
              | _ \<Rightarrow> NaN))"

fun negated :: "js_number \<Rightarrow> js_number" where
  "negated (Fin (m, k)) = Fin (- m, k)"
| "negated (Infinite up) = Infinite (\<not> up)"
| "negated NaN = NaN"

definition js_Number :: "string \<Rightarrow> js_number" where
  "js_Number w =
     (let t = trim w; p = toLowerCase (take 2 t) in
      if t = [] then Fin (0, 0)
      else if p = ''0x'' then radix_literal 16 (drop 2 t)
      else if p = ''0o'' then radix_literal 8 (drop 2 t)
      else if p = ''0b'' then radix_literal 2 (drop 2 t)
      else if hd t = CHR ''-'' then negated (unsigned_literal (tl t))
      else if hd t = CHR ''+'' then unsigned_literal (tl t)
      else unsigned_literal t)"

section \<open>Variables\<close>

type_synonym environment = "string \<Rightarrow> string option"

definition z_enum :: "string list \<Rightarrow> string \<Rightarrow> string option" where
  "z_enum ws w = (if w \<in> set ws then Some w else None)"

definition z_text :: "nat \<Rightarrow> string \<Rightarrow> string option" where
  "z_text n w = (if n \<le> length w then Some w else None)"

definition z_url :: "(string \<Rightarrow> bool) \<Rightarrow> string \<Rightarrow> string option" where
  "z_url U w = (if U w then Some w else None)"

definition booleanFromString :: "string \<Rightarrow> bool option" where
  "booleanFromString w =
     (if w \<in> {''true'', ''1'', ''yes''} then Some True else if w \<in> {''false'', ''0'', ''no''} then Some False else None)"

definition coerce_int :: "int \<Rightarrow> int option \<Rightarrow> string \<Rightarrow> int option" where
  "coerce_int lo hi w =
     (case js_Number w of
        Fin (m, k) \<Rightarrow>
          (let n = m div 10 ^ k in
           if m mod 10 ^ k = 0 \<and> lo \<le> n \<and> (case hi of None \<Rightarrow> True | Some h \<Rightarrow> n \<le> h) then Some n else None)
      | _ \<Rightarrow> None)"

definition coerce_number :: "rat \<Rightarrow> rat option \<Rightarrow> string \<Rightarrow> js_number option" where
  "coerce_number lo hi w =
     (case js_Number w of
        Fin d \<Rightarrow> if lo \<le> dec_value d \<and> (case hi of None \<Rightarrow> True | Some h \<Rightarrow> dec_value d \<le> h) then Some (Fin d) else None
      | Infinite up \<Rightarrow> if up \<and> hi = None then Some (Infinite up) else None
      | NaN \<Rightarrow> None)"

definition hex32ByteKey :: "string \<Rightarrow> string option" where
  "hex32ByteKey w = (if HEX_32_BYTES w then Some w else None)"

definition previous_key :: "string \<Rightarrow> string option option" where
  "previous_key w = (if w = [] then Some None else map_option Some (hex32ByteKey w))"

definition LOAD_BALANCER_STRATEGIES :: "(string \<times> StrategyName) list" where
  "LOAD_BALANCER_STRATEGIES =
     [(''ROUND_ROBIN'', ROUND_ROBIN), (''WEIGHTED_ROUND_ROBIN'', WEIGHTED_ROUND_ROBIN),
      (''LEAST_CONNECTIONS'', LEAST_CONNECTIONS), (''LATENCY_BASED'', LATENCY_BASED), (''RANDOM'', RANDOM)]"

text \<open>
  One property of the object schema: the variable, its schema and its default.  The results of
  all properties are put together, or all their issues.
\<close>

definition part :: "(string list, 'a) result \<Rightarrow> (string list, 'a \<Rightarrow> 'b) result \<Rightarrow> (string list, 'b) result" where
  "part x r =
     (case (r, x) of
        (Inr g, Inr a) \<Rightarrow> Inr (g a)
      | (Inr g, Inl ks) \<Rightarrow> Inl ks
      | (Inl ks, Inr a) \<Rightarrow> Inl ks
      | (Inl ks, Inl ks') \<Rightarrow> Inl (ks @ ks'))"

definition var ::
  "string \<Rightarrow> (string \<Rightarrow> 'a option) \<Rightarrow> 'a option \<Rightarrow> environment
     \<Rightarrow> (string list, 'a \<Rightarrow> 'b) result \<Rightarrow> (string list, 'b) result" where
  "var k f dflt env = part (case (case env k of None \<Rightarrow> dflt | Some w \<Rightarrow> f w) of None \<Rightarrow> Inl [k] | Some a \<Rightarrow> Inr a)"

section \<open>The schema\<close>

text \<open>The fields are grouped as the sections of the schema group them.\<close>

record RuntimeConfig =
  c_NODE_ENV :: string
  c_LOG_LEVEL :: string
  c_LOG_PRETTY :: bool

definition runtimeSchema :: "environment \<Rightarrow> (string list, RuntimeConfig) result" where
  "runtimeSchema env =
    (let r = Inr RuntimeConfig.make;
         r = var ''NODE_ENV'' (z_enum [''development'', ''production'', ''test'']) (Some ''development'') env r;
         r = var ''LOG_LEVEL'' (z_enum [''trace'', ''debug'', ''info'', ''warn'', ''error'', ''fatal'']) (Some ''info'') env r
      in var ''LOG_PRETTY'' booleanFromString (Some False) env r)"

record HttpConfig =
  c_HOST :: string
  c_PORT :: int
  c_TRUST_PROXY :: bool
  c_MAX_REQUEST_BODY_BYTES :: int
  c_SHUTDOWN_TIMEOUT_MS :: int
  c_KEEP_ALIVE_TIMEOUT_MS :: int

definition httpSchema :: "environment \<Rightarrow> (string list, HttpConfig) result" where
  "httpSchema env =
    (let r = Inr HttpConfig.make;
         r = var ''HOST'' (z_text 1) (Some ''0.0.0.0'') env r;
         r = var ''PORT'' (coerce_int 1 (Some 65535)) (Some 8080) env r;
         r = var ''TRUST_PROXY'' booleanFromString (Some True) env r;
         r = var ''MAX_REQUEST_BODY_BYTES'' (coerce_int 1024 None) (Some 10485760) env r;
         r = var ''SHUTDOWN_TIMEOUT_MS'' (coerce_int 0 None) (Some 30000) env r
      in var ''KEEP_ALIVE_TIMEOUT_MS'' (coerce_int 0 None) (Some 72000) env r)"

record PostgresConfig =
  c_DATABASE_URL :: string
  c_DATABASE_POOL_MAX :: int
  c_DATABASE_POOL_MIN :: int
  c_DATABASE_IDLE_TIMEOUT_MS :: int
  c_DATABASE_CONNECTION_TIMEOUT_MS :: int
  c_DATABASE_STATEMENT_TIMEOUT_MS :: int
  c_DATABASE_SSL :: bool

definition postgresSchema :: "(string \<Rightarrow> bool) \<Rightarrow> environment \<Rightarrow> (string list, PostgresConfig) result" where
  "postgresSchema U env =
    (let r = Inr PostgresConfig.make;
         r = var ''DATABASE_URL'' (z_url U) None env r;
         r = var ''DATABASE_POOL_MAX'' (coerce_int 1 None) (Some 20) env r;
         r = var ''DATABASE_POOL_MIN'' (coerce_int 0 None) (Some 2) env r;
         r = var ''DATABASE_IDLE_TIMEOUT_MS'' (coerce_int 0 None) (Some 30000) env r;
         r = var ''DATABASE_CONNECTION_TIMEOUT_MS'' (coerce_int 1 None) (Some 5000) env r;
         r = var ''DATABASE_STATEMENT_TIMEOUT_MS'' (coerce_int 0 None) (Some 15000) env r
      in var ''DATABASE_SSL'' booleanFromString (Some False) env r)"

record RedisConfig =
  c_REDIS_URL :: string
  c_REDIS_KEY_PREFIX :: string
  c_REDIS_CONNECT_TIMEOUT_MS :: int
  c_REDIS_MAX_RETRIES_PER_REQUEST :: int

definition redisSchema :: "(string \<Rightarrow> bool) \<Rightarrow> environment \<Rightarrow> (string list, RedisConfig) result" where
  "redisSchema U env =
    (let r = Inr RedisConfig.make;
         r = var ''REDIS_URL'' (z_url U) None env r;
         r = var ''REDIS_KEY_PREFIX'' (z_text 0) (Some ''gw:'') env r;
         r = var ''REDIS_CONNECT_TIMEOUT_MS'' (coerce_int 1 None) (Some 5000) env r
      in var ''REDIS_MAX_RETRIES_PER_REQUEST'' (coerce_int 1 None) (Some 3) env r)"

record SecurityConfig =
  c_ENCRYPTION_KEY :: string
  c_ENCRYPTION_KEY_PREVIOUS :: "string option"
  c_ADMIN_API_KEY :: string
  c_AUTH_CACHE_TTL_SECONDS :: int

definition securitySchema :: "environment \<Rightarrow> (string list, SecurityConfig) result" where
  "securitySchema env =
    (let r = Inr SecurityConfig.make;
         r = var ''ENCRYPTION_KEY'' hex32ByteKey None env r;
         r = var ''ENCRYPTION_KEY_PREVIOUS'' previous_key (Some None) env r;
         r = var ''ADMIN_API_KEY'' (z_text 16) None env r
      in var ''AUTH_CACHE_TTL_SECONDS'' (coerce_int 1 None) (Some 30) env r)"

record RegistryConfig =
  c_REGISTRY_CACHE_TTL_SECONDS :: int
  c_PROVIDER_TIMEOUT_MS :: int

definition registrySchema :: "environment \<Rightarrow> (string list, RegistryConfig) result" where
  "registrySchema env =
    (let r = Inr RegistryConfig.make;
         r = var ''REGISTRY_CACHE_TTL_SECONDS'' (coerce_int 1 None) (Some 60) env r
      in var ''PROVIDER_TIMEOUT_MS'' (coerce_int 1 None) (Some 60000) env r)"

record BalancerConfig =
  c_LOAD_BALANCER_STRATEGY :: StrategyName
  c_LB_LATENCY_EMA_ALPHA :: js_number
  c_LB_FAILURE_PENALTY_MS :: int

definition balancerSchema :: "environment \<Rightarrow> (string list, BalancerConfig) result" where
  "balancerSchema env =
    (let r = Inr BalancerConfig.make;
         r = var ''LOAD_BALANCER_STRATEGY'' (map_of LOAD_BALANCER_STRATEGIES) (Some LATENCY_BASED) env r;
         r = var ''LB_LATENCY_EMA_ALPHA'' (coerce_number (1 / 100) (Some 1)) (Some (Fin (3, 1))) env r
      in var ''LB_FAILURE_PENALTY_MS'' (coerce_int 0 None) (Some 30000) env r)"

record BreakerConfig =
  c_CB_FAILURE_THRESHOLD :: int
  c_CB_SUCCESS_THRESHOLD :: int
  c_CB_TIMEOUT_MS :: int
  c_CB_WINDOW_MS :: int
  c_CB_HALF_OPEN_MAX_PROBES :: int

definition breakerSchema :: "environment \<Rightarrow> (string list, BreakerConfig) result" where
  "breakerSchema env =
    (let r = Inr BreakerConfig.make;
         r = var ''CB_FAILURE_THRESHOLD'' (coerce_int 1 None) (Some 5) env r;
         r = var ''CB_SUCCESS_THRESHOLD'' (coerce_int 1 None) (Some 2) env r;
         r = var ''CB_TIMEOUT_MS'' (coerce_int 1 None) (Some 30000) env r;
         r = var ''CB_WINDOW_MS'' (coerce_int 1 None) (Some 60000) env r
      in var ''CB_HALF_OPEN_MAX_PROBES'' (coerce_int 1 None) (Some 1) env r)"

record LimiterConfig =
  c_RATE_LIMIT_ENABLED :: bool
  c_RATE_LIMIT_DEFAULT_RPM :: int
  c_RATE_LIMIT_DEFAULT_TPM :: int
  c_RATE_LIMIT_BURST_ENABLED :: bool
  c_RATE_LIMIT_BURST_MULTIPLIER :: js_number
  c_RATE_LIMIT_BURST_WINDOW_MS :: int

definition limiterSchema :: "environment \<Rightarrow> (string list, LimiterConfig) result" where
  "limiterSchema env =
    (let r = Inr LimiterConfig.make;
         r = var ''RATE_LIMIT_ENABLED'' booleanFromString (Some True) env r;
         r = var ''RATE_LIMIT_DEFAULT_RPM'' (coerce_int 1 None) (Some 60) env r;
         r = var ''RATE_LIMIT_DEFAULT_TPM'' (coerce_int 1 None) (Some 100000) env r;
         r = var ''RATE_LIMIT_BURST_ENABLED'' booleanFromString (Some True) env r;
         r = var ''RATE_LIMIT_BURST_MULTIPLIER'' (coerce_number 1 None) (Some (Fin (2, 0))) env r
      in var ''RATE_LIMIT_BURST_WINDOW_MS'' (coerce_int 1 None) (Some 10000) env r)"

record CacheConfig =
  c_CACHE_ENABLED :: bool
  c_CACHE_DEFAULT_TTL_SECONDS :: int
  c_CACHE_MAX_VALUE_BYTES :: int

definition cacheSchema :: "environment \<Rightarrow> (string list, CacheConfig) result" where
  "cacheSchema env =
    (let r = Inr CacheConfig.make;
         r = var ''CACHE_ENABLED'' booleanFromString (Some True) env r;
         r = var ''CACHE_DEFAULT_TTL_SECONDS'' (coerce_int 1 None) (Some 3600) env r
      in var ''CACHE_MAX_VALUE_BYTES'' (coerce_int 1 None) (Some 262144) env r)"

record RetryConfig =
  c_RETRY_MAX_ATTEMPTS :: int
  c_RETRY_BASE_DELAY_MS :: int
  c_RETRY_MAX_DELAY_MS :: int

definition retrySchema :: "environment \<Rightarrow> (string list, RetryConfig) result" where
  "retrySchema env =
    (let r = Inr RetryConfig.make;
         r = var ''RETRY_MAX_ATTEMPTS'' (coerce_int 1 None) (Some 3) env r;
         r = var ''RETRY_BASE_DELAY_MS'' (coerce_int 1 None) (Some 200) env r
      in var ''RETRY_MAX_DELAY_MS'' (coerce_int 1 None) (Some 5000) env r)"

record ObservabilityConfig =
  c_METRICS_ENABLED :: bool
  c_OTEL_ENABLED :: bool
  c_OTEL_SERVICE_NAME :: string
  c_OTEL_EXPORTER_OTLP_ENDPOINT :: "string option"
  c_OTEL_TRACES_SAMPLER_RATIO :: js_number

definition observabilitySchema :: "(string \<Rightarrow> bool) \<Rightarrow> environment \<Rightarrow> (string list, ObservabilityConfig) result" where
  "observabilitySchema U env =
    (let r = Inr ObservabilityConfig.make;
         r = var ''METRICS_ENABLED'' booleanFromString (Some True) env r;
         r = var ''OTEL_ENABLED'' booleanFromString (Some False) env r;
         r = var ''OTEL_SERVICE_NAME'' (z_text 0) (Some ''ai-gateway'') env r;
         r = var ''OTEL_EXPORTER_OTLP_ENDPOINT'' (\<lambda>w. map_option Some (z_url U w)) (Some None) env r
      in var ''OTEL_TRACES_SAMPLER_RATIO'' (coerce_number 0 (Some 1)) (Some (Fin (1, 1))) env r)"

record JobsConfig =
  c_HEALTH_MONITOR_ENABLED :: bool
  c_HEALTH_MONITOR_INTERVAL_MS :: int

definition jobsSchema :: "environment \<Rightarrow> (string list, JobsConfig) result" where
  "jobsSchema env =
    (let r = Inr JobsConfig.make;
         r = var ''HEALTH_MONITOR_ENABLED'' booleanFromString (Some True) env r
      in var ''HEALTH_MONITOR_INTERVAL_MS'' (coerce_int 1000 None) (Some 30000) env r)"

record AppConfig =
  cfg_runtime :: RuntimeConfig
  cfg_http :: HttpConfig
  cfg_postgres :: PostgresConfig
  cfg_redis :: RedisConfig
  cfg_security :: SecurityConfig
  cfg_registry :: RegistryConfig
  cfg_balancer :: BalancerConfig
  cfg_breaker :: BreakerConfig
  cfg_limiter :: LimiterConfig
  cfg_cache :: CacheConfig
  cfg_retry :: RetryConfig
  cfg_observability :: ObservabilityConfig
  cfg_jobs :: JobsConfig

definition configSchema :: "(string \<Rightarrow> bool) \<Rightarrow> environment \<Rightarrow> (string list, AppConfig) result" where
  "configSchema U env =
    (let r = Inr AppConfig.make;
         r = part (runtimeSchema env) r;
         r = part (httpSchema env) r;
         r = part (postgresSchema U env) r;
         r = part (redisSchema U env) r;
         r = part (securitySchema env) r;
         r = part (registrySchema env) r;
         r = part (balancerSchema env) r;
         r = part (breakerSchema env) r;
         r = part (limiterSchema env) r;
         r = part (cacheSchema env) r;
         r = part (retrySchema env) r;
         r = part (observabilitySchema U env) r
      in part (jobsSchema env) r)"

definition loadConfig :: "(string \<Rightarrow> bool) \<Rightarrow> (string list \<Rightarrow> string) \<Rightarrow> environment \<Rightarrow> (thrown, AppConfig) result" where
  "loadConfig U describe env =
     (case configSchema U env of
        Inl ks \<Rightarrow> Inl (TError (plain_error ''ConfigValidationError''
          (''Invalid environment configuration:'' @ [CHR 0x0A] @ describe ks @ [CHR 0x0A] @
           ''Refer to .env.example / docs/configuration.md for the full variable reference.'')))
      | Inr c \<Rightarrow> Inr c)"

definition isProduction :: "AppConfig \<Rightarrow> bool" where
  "isProduction cfg \<longleftrightarrow> c_NODE_ENV (cfg_runtime cfg) = ''production''"

definition isTest :: "AppConfig \<Rightarrow> bool" where
  "isTest cfg \<longleftrightarrow> c_NODE_ENV (cfg_runtime cfg) = ''test''"

section \<open>Every loaded configuration is admissible\<close>

lemma part_Inr: "part x r = Inr b \<longleftrightarrow> (\<exists>g a. r = Inr g \<and> x = Inr a \<and> b = g a)"
  by (auto simp: part_def split: sum.splits)

lemma var_Inr: "var k f dflt env r = Inr b \<longleftrightarrow>
  (\<exists>g a. r = Inr g \<and> (case env k of None \<Rightarrow> dflt | Some w \<Rightarrow> f w) = Some a \<and> b = g a)"
  by (auto simp: var_def part_Inr split: option.splits)

definition issues :: "(string list, 'a) result \<Rightarrow> string list" where
  "issues r = (case r of Inl ks \<Rightarrow> ks | Inr a \<Rightarrow> [])"

lemma coerce_int_bounds: "coerce_int lo hi w = Some n \<Longrightarrow> lo \<le> n \<and> (\<forall>h. hi = Some h \<longrightarrow> n \<le> h)"
  by (auto simp: coerce_int_def Let_def split: js_number.splits prod.splits if_splits option.splits)

lemma int_var: "(case x of None \<Rightarrow> Some d | Some w \<Rightarrow> coerce_int lo hi w) = Some n \<Longrightarrow> lo \<le> d \<Longrightarrow> lo \<le> n"
  by (auto dest: coerce_int_bounds split: option.splits)

lemma int_var_upper:
  "(case x of None \<Rightarrow> Some d | Some w \<Rightarrow> coerce_int lo (Some hi) w) = Some n \<Longrightarrow> d \<le> hi \<Longrightarrow> n \<le> hi"
  by (auto dest: coerce_int_bounds split: option.splits)

definition at_least :: "rat \<Rightarrow> js_number \<Rightarrow> bool" where
  "at_least lo x = (case x of Fin d \<Rightarrow> lo \<le> dec_value d | Infinite up \<Rightarrow> up | NaN \<Rightarrow> False)"

definition at_most :: "rat \<Rightarrow> js_number \<Rightarrow> bool" where
  "at_most hi x = (case x of Fin d \<Rightarrow> dec_value d \<le> hi | Infinite up \<Rightarrow> \<not> up | NaN \<Rightarrow> False)"

lemma coerce_number_bounds:
  "coerce_number lo hi w = Some x \<Longrightarrow> at_least lo x" "coerce_number lo (Some h) w = Some x \<Longrightarrow> at_most h x"
  by (auto simp: coerce_number_def at_least_def at_most_def split: js_number.splits if_splits option.splits)

lemma number_var:
  "(case y of None \<Rightarrow> Some d | Some w \<Rightarrow> coerce_number lo hi w) = Some x \<Longrightarrow> at_least lo d \<Longrightarrow> at_least lo x"
  "(case y of None \<Rightarrow> Some d | Some w \<Rightarrow> coerce_number lo (Some h) w) = Some x \<Longrightarrow> at_most h d \<Longrightarrow> at_most h x"
  by (auto dest: coerce_number_bounds split: option.splits)

lemma key_var:
  "(case x of None \<Rightarrow> None | Some w \<Rightarrow> hex32ByteKey w) = Some k \<Longrightarrow> HEX_32_BYTES k"
  "(case x of None \<Rightarrow> Some None | Some w \<Rightarrow> previous_key w) = Some (Some k) \<Longrightarrow> HEX_32_BYTES k"
  by (auto simp: hex32ByteKey_def previous_key_def split: option.splits if_splits)

lemma text_var: "(case x of None \<Rightarrow> None | Some w \<Rightarrow> z_text n w) = Some k \<Longrightarrow> n \<le> length k"
  by (auto simp: z_text_def split: option.splits if_splits)

text \<open>What the schema guarantees of the fields that the other components read.\<close>

lemma breaker_fields:
  "breakerSchema env = Inr b \<Longrightarrow> 1 \<le> c_CB_FAILURE_THRESHOLD b \<and> 1 \<le> c_CB_SUCCESS_THRESHOLD b \<and> 1 \<le> c_CB_TIMEOUT_MS b \<and>
     1 \<le> c_CB_WINDOW_MS b \<and> 1 \<le> c_CB_HALF_OPEN_MAX_PROBES b"
  by (auto simp: breakerSchema_def Let_def var_Inr BreakerConfig.make_def elim!: int_var)

lemma limiter_fields:
  "limiterSchema env = Inr b \<Longrightarrow> at_least 1 (c_RATE_LIMIT_BURST_MULTIPLIER b) \<and> 1 \<le> c_RATE_LIMIT_BURST_WINDOW_MS b"
  by (auto simp: limiterSchema_def Let_def var_Inr LimiterConfig.make_def elim!: int_var number_var)
    (simp_all add: at_least_def dec_value_def)

lemma security_fields:
  "securitySchema env = Inr b \<Longrightarrow> HEX_32_BYTES (c_ENCRYPTION_KEY b) \<and> pred_option HEX_32_BYTES (c_ENCRYPTION_KEY_PREVIOUS b) \<and>
     16 \<le> length (c_ADMIN_API_KEY b) \<and> 1 \<le> c_AUTH_CACHE_TTL_SECONDS b"
  by (auto simp: securitySchema_def Let_def var_Inr SecurityConfig.make_def pred_option_def elim!: int_var key_var text_var)

lemma other_fields:
  "registrySchema env = Inr r \<Longrightarrow> 1 \<le> c_REGISTRY_CACHE_TTL_SECONDS r"
  "cacheSchema env = Inr h \<Longrightarrow> 1 \<le> c_CACHE_DEFAULT_TTL_SECONDS h"
  "httpSchema env = Inr w \<Longrightarrow> 1 \<le> c_PORT w \<and> c_PORT w \<le> 65535"
  by (auto simp: registrySchema_def cacheSchema_def httpSchema_def Let_def var_Inr RegistryConfig.make_def CacheConfig.make_def
      HttpConfig.make_def elim!: int_var int_var_upper)

lemma config_sections:
  "configSchema U env = Inr c \<Longrightarrow> breakerSchema env = Inr (cfg_breaker c) \<and> limiterSchema env = Inr (cfg_limiter c) \<and>
     securitySchema env = Inr (cfg_security c) \<and> registrySchema env = Inr (cfg_registry c) \<and>
     cacheSchema env = Inr (cfg_cache c) \<and> httpSchema env = Inr (cfg_http c)"
  by (auto simp: configSchema_def Let_def part_Inr AppConfig.make_def)

definition breaker_options :: "AppConfig \<Rightarrow> CircuitBreakerOptions" where
  "breaker_options c = \<lparr>failureThreshold = c_CB_FAILURE_THRESHOLD (cfg_breaker c), successThreshold = c_CB_SUCCESS_THRESHOLD (cfg_breaker c),
     timeoutMs = c_CB_TIMEOUT_MS (cfg_breaker c), windowMs = c_CB_WINDOW_MS (cfg_breaker c), halfOpenMaxProbes = c_CB_HALF_OPEN_MAX_PROBES (cfg_breaker c)\<rparr>"

text \<open>The settings of the limiter, for a finite burst multiplier.\<close>

definition limiter_settings :: "AppConfig \<Rightarrow> rl_settings option" where
  "limiter_settings c = (case c_RATE_LIMIT_BURST_MULTIPLIER (cfg_limiter c) of
     Fin d \<Rightarrow> Some \<lparr>RATE_LIMIT_ENABLED = c_RATE_LIMIT_ENABLED (cfg_limiter c), RATE_LIMIT_BURST_ENABLED = c_RATE_LIMIT_BURST_ENABLED (cfg_limiter c),
       RATE_LIMIT_BURST_MULTIPLIER = dec_value d, RATE_LIMIT_BURST_WINDOW_MS = c_RATE_LIMIT_BURST_WINDOW_MS (cfg_limiter c)\<rparr>
   | _ \<Rightarrow> None)"

lemma masterKey_ok: "HEX_32_BYTES w \<Longrightarrow> is_ok (masterKey w)"
proof -
  assume hex: "HEX_32_BYTES w"
  have "length (from_hex v) = n" if "length v = 2 * n" "list_all (\<lambda>c. hex_value c \<noteq> None) v" for v n
    using that
  proof (induction v arbitrary: n rule: from_hex.induct)
    case (1 a b v)
    then show ?case by (cases n) (auto split: option.splits)
  qed (simp_all, presburger?)
  from this [of w 32] hex show ?thesis by (simp add: masterKey_def HEX_32_BYTES_def MASTER_KEY_BYTES_def Let_def)
qed


text \<open>The environment of a minimal deployment; everything else takes its default.\<close>

definition demo_env :: environment where
  "demo_env = [''DATABASE_URL'' \<mapsto> ''postgres://db'', ''REDIS_URL'' \<mapsto> ''redis://r'',
     ''ENCRYPTION_KEY'' \<mapsto> replicate 64 (CHR ''a''), ''ADMIN_API_KEY'' \<mapsto> ''0123456789abcdef'']"

lemma part_Inr_Inr [simp]: "part (Inr a) (Inr g) = Inr (g a)"
  by (simp add: part_def)

lemmas demo_eval = Let_def var_def demo_env_def z_url_def z_text_def

lemma demo_sections:
  "\<exists>r. runtimeSchema demo_env = Inr r" "\<exists>r. httpSchema demo_env = Inr r" "\<exists>r. postgresSchema (\<lambda>w. True) demo_env = Inr r"
  "\<exists>r. redisSchema (\<lambda>w. True) demo_env = Inr r" "\<exists>r. registrySchema demo_env = Inr r" "\<exists>r. balancerSchema demo_env = Inr r"
  "\<exists>r. cacheSchema demo_env = Inr r" "\<exists>r. retrySchema demo_env = Inr r" "\<exists>r. observabilitySchema (\<lambda>w. True) demo_env = Inr r"
  "\<exists>r. jobsSchema demo_env = Inr r"
  by (simp_all add: demo_eval runtimeSchema_def httpSchema_def postgresSchema_def redisSchema_def registrySchema_def
      balancerSchema_def cacheSchema_def retrySchema_def observabilitySchema_def jobsSchema_def)

lemma demo_security: "\<exists>r. securitySchema demo_env = Inr r"
proof -
  have "hex_value (CHR ''a'') = Some 10" by (simp add: hex_value_def)
  then have "HEX_32_BYTES (replicate 64 (CHR ''a''))" by (simp add: HEX_32_BYTES_def list_all_iff)
  then show ?thesis by (simp add: securitySchema_def demo_eval hex32ByteKey_def)
qed

lemma demo_breaker:
  "breakerSchema demo_env = Inr (BreakerConfig.make 5 2 30000 60000 1)"
  "limiterSchema demo_env = Inr (LimiterConfig.make True 60 100000 True (Fin (2, 0)) 10000)"
  by (simp_all add: breakerSchema_def limiterSchema_def demo_eval)

lemma demo_config:
  "\<exists>c. configSchema (\<lambda>w. True) demo_env = Inr c \<and> breaker_options c = default_cb \<and> limiter_settings c = Some default_rl"
proof -
  have "\<exists>c. configSchema (\<lambda>w. True) demo_env = Inr c \<and> cfg_breaker c = BreakerConfig.make 5 2 30000 60000 1 \<and>
      cfg_limiter c = LimiterConfig.make True 60 100000 True (Fin (2, 0)) 10000"
    using demo_sections demo_security by (auto simp: configSchema_def Let_def demo_breaker AppConfig.make_def)
  then show ?thesis
    by (auto simp: breaker_options_def default_cb_def limiter_settings_def default_rl_def dec_value_def
        BreakerConfig.make_def LimiterConfig.make_def)
qed


section \<open>Every offending variable is reported\<close>

text \<open>Whether two results report a variable alike.\<close>

definition alike :: "string \<Rightarrow> (string list, 'a) result \<Rightarrow> (string list, 'b) result \<Rightarrow> bool" where
  "alike k r r' \<longleftrightarrow> (k \<in> set (issues r) \<longleftrightarrow> k \<in> set (issues r'))"

lemma issues_part: "issues (part x r) = issues r @ issues x"
  by (auto simp: issues_def part_def split: sum.split)

lemma alike_Inr: "alike k (Inr a) (Inr b)"
  by (simp add: alike_def issues_def)

lemma alike_part: "alike k x x' \<Longrightarrow> alike k r r' \<Longrightarrow> alike k (part x r) (part x' r')"
  by (simp add: alike_def issues_part)

lemma alike_var: "env k = env' k \<Longrightarrow> alike k r r' \<Longrightarrow> alike k (var j f d env r) (var j f d env' r')"
  unfolding var_def by (rule alike_part) (auto simp: alike_def issues_def split: option.split)

lemma configSchema_alike:
  assumes "env k = env' k"
  shows "alike k (configSchema U env) (configSchema U env')"
  unfolding configSchema_def Let_def runtimeSchema_def httpSchema_def postgresSchema_def redisSchema_def registrySchema_def
    balancerSchema_def cacheSchema_def retrySchema_def observabilitySchema_def jobsSchema_def securitySchema_def
    breakerSchema_def limiterSchema_def
  by (intro alike_part alike_var alike_Inr assms)

text \<open>A result without a value has issues.\<close>

definition complains :: "(string list, 'a) result \<Rightarrow> bool" where
  "complains r \<longleftrightarrow> (is_ok r \<longleftrightarrow> issues r = [])"

lemma complains_part: "complains x \<Longrightarrow> complains r \<Longrightarrow> complains (part x r)"
  by (auto simp: complains_def part_def issues_def split: sum.splits)

lemma complains_var: "complains r \<Longrightarrow> complains (var j f d env r)"
  unfolding var_def by (rule complains_part) (auto simp: complains_def issues_def split: option.split)

lemma complains_Inr: "complains (Inr a)"
  by (simp add: complains_def issues_def)

lemma configSchema_complains: "complains (configSchema U env)"
  unfolding configSchema_def Let_def runtimeSchema_def httpSchema_def postgresSchema_def redisSchema_def registrySchema_def
    balancerSchema_def cacheSchema_def retrySchema_def observabilitySchema_def jobsSchema_def securitySchema_def
    breakerSchema_def limiterSchema_def
  by (intro complains_part complains_var complains_Inr)



end
