(* ===== verification/Health_Monitor.thy ===== *)
theory Health_Monitor
  imports Circuit_Breaker Registry "HOL-Library.Multiset"
begin

text \<open>
  The health monitor (\<open>src/services/health-monitor.ts\<close>): what one run of probes writes into
  \<open>provider_health\<close>, in whatever order the probes finish, and the protocol of the timer, the run in
  flight and \<open>stop\<close>, as a step relation.  The answers to the probes, the clock and the failures of
  the database are parameters.
\<close>

section \<open>One probe\<close>

definition HEALTHY :: string where "HEALTHY = ''healthy''"
definition DEGRADED :: string where "DEGRADED = ''degraded''"
definition UNHEALTHY :: string where "UNHEALTHY = ''unhealthy''"
definition UNKNOWN :: string where "UNKNOWN = ''unknown''"

definition DEGRADED_LATENCY_MS :: int where "DEGRADED_LATENCY_MS = 2000"

record ProviderProbeRow =
  pp_id :: string
  pp_name :: string
  pp_healthCheckUrl :: "string option"
  pp_timeoutMs :: int

record health_record =
  he_status :: string
  he_latencyMs :: "int option"
  he_errorMessage :: "string option"
  he_checkedAt :: int

type_synonym health_table = "string \<Rightarrow> health_record option"

text \<open>
  What happens to one probe: the answer of \<open>fetch\<close> (a status code) to a URL under a timeout, the time
  that it takes, and the outcomes of the two upserts that it can make, with the times at which they
  are made.
\<close>

record probe =
  pb_fetch :: "string \<Rightarrow> int \<Rightarrow> (thrown, int) result"
  pb_elapsedMs :: int
  pb_first :: "int \<times> thrown option"
  pb_second :: "int \<times> thrown option"

definition upsertHealth ::
  "string \<Rightarrow> string \<Rightarrow> int option \<Rightarrow> string option \<Rightarrow> int \<times> thrown option \<Rightarrow> health_table \<Rightarrow> (thrown, unit) result \<times> health_table" where
  "upsertHealth p status latency msg w table =
     (case snd w of
        Some e \<Rightarrow> (Inl e, table)
      | None \<Rightarrow> (Inr (), table(p \<mapsto> \<lparr>he_status = status, he_latencyMs = latency, he_errorMessage = msg, he_checkedAt = fst w\<rparr>)))"

definition answer_ok :: "int \<Rightarrow> bool" where
  "answer_ok code \<longleftrightarrow> 200 \<le> code \<and> code \<le> 299"

definition probe_status :: "int \<Rightarrow> int \<Rightarrow> string" where
  "probe_status code latencyMs =
     (if answer_ok code then if latencyMs > DEGRADED_LATENCY_MS then DEGRADED else HEALTHY else UNHEALTHY)"

text \<open>
  The \<open>try\<close> block covers the first upsert, so that a failed write is recorded like a failed probe.
\<close>

definition checkProvider :: "ProviderProbeRow \<Rightarrow> probe \<Rightarrow> health_table \<Rightarrow> (thrown, unit) result \<times> health_table" where
  "checkProvider row pb table =
     (case pp_healthCheckUrl row of
        None \<Rightarrow> upsertHealth (pp_id row) UNKNOWN None None (pb_first pb) table
      | Some url \<Rightarrow>
        if length url = 0 then upsertHealth (pp_id row) UNKNOWN None None (pb_first pb) table
        else
        (let attempt = (case pb_fetch pb url (pp_timeoutMs row) of
               Inl e \<Rightarrow> (Inl e, table)
             | Inr code \<Rightarrow>
                 upsertHealth (pp_id row) (probe_status code (pb_elapsedMs pb)) (Some (pb_elapsedMs pb))
                   (if answer_ok code then None else Some (''HTTP '' @ show_int code)) (pb_first pb) table)
         in case attempt of
              (Inr _, table1) \<Rightarrow> (Inr (), table1)
            | (Inl e, table1) \<Rightarrow> upsertHealth (pp_id row) UNHEALTHY None (Some (toErrorMessage e)) (pb_second pb) table1))"

section \<open>One run\<close>

text \<open>The checks of a run, in the order in which they write; the run rejects when one of them does.\<close>

definition run_check :: "ProviderProbeRow \<times> probe \<Rightarrow> health_table \<Rightarrow> health_table" where
  "run_check c table = snd (checkProvider (fst c) (snd c) table)"

definition run_checks :: "(ProviderProbeRow \<times> probe) list \<Rightarrow> health_table \<Rightarrow> health_table" where
  "run_checks cs table = fold run_check cs table"

definition circuitStateValue :: "string \<Rightarrow> nat" where
  "circuitStateValue st = (if st = ''OPEN'' then 2 else if st = ''HALF_OPEN'' then 1 else 0)"

text \<open>The gauge is labelled with the name of the provider, or its id when the registry lacks it.\<close>

definition refreshCircuitGauge ::
  "snapshot \<Rightarrow> (thrown, CircuitBreakerStatus list) result \<Rightarrow> (string \<Rightarrow> nat option) \<Rightarrow> (string \<Rightarrow> nat option)" where
  "refreshCircuitGauge snap getAllStates gauge =
     (case getAllStates of
        Inl _ \<Rightarrow> gauge
      | Inr states \<Rightarrow>
          fold (\<lambda>st g. g((case getProvider snap (cs_providerId st) of Some p \<Rightarrow> p_name p | None \<Rightarrow> cs_providerId st)
            \<mapsto> circuitStateValue (cs_state st))) states gauge)"

text \<open>What a check leaves for its provider, if it leaves something.\<close>

definition check_record :: "ProviderProbeRow \<Rightarrow> probe \<Rightarrow> health_record option" where
  "check_record row pb =
     (let failed = (\<lambda>e. case snd (pb_second pb) of
              Some _ \<Rightarrow> None
            | None \<Rightarrow> Some \<lparr>he_status = UNHEALTHY, he_latencyMs = None, he_errorMessage = Some (toErrorMessage e),
                he_checkedAt = fst (pb_second pb)\<rparr>)
      in if pp_healthCheckUrl row \<in> {None, Some []} then
           (case snd (pb_first pb) of
              Some _ \<Rightarrow> None
            | None \<Rightarrow> Some \<lparr>he_status = UNKNOWN, he_latencyMs = None, he_errorMessage = None, he_checkedAt = fst (pb_first pb)\<rparr>)
         else (case (pb_fetch pb (the (pp_healthCheckUrl row)) (pp_timeoutMs row), snd (pb_first pb)) of
              (Inl e, _) \<Rightarrow> failed e
            | (Inr code, Some e) \<Rightarrow> failed e
            | (Inr code, None) \<Rightarrow>
                Some \<lparr>he_status = probe_status code (pb_elapsedMs pb), he_latencyMs = Some (pb_elapsedMs pb),
                  he_errorMessage = (if answer_ok code then None else Some (''HTTP '' @ show_int code)),
                  he_checkedAt = fst (pb_first pb)\<rparr>))"

lemma run_check_record:
  "run_check (row, pb) table = (case check_record row pb of None \<Rightarrow> table | Some r \<Rightarrow> table(pp_id row \<mapsto> r))"
  by (auto simp: run_check_def checkProvider_def check_record_def upsertHealth_def Let_def split: sum.splits option.splits)

lemma run_check_commute:
  assumes "pp_id (fst c) \<noteq> pp_id (fst d)"
  shows "run_check c \<circ> run_check d = run_check d \<circ> run_check c"
proof -
  obtain row pb row' pb' where "c = (row, pb)" "d = (row', pb')" by (metis prod.collapse)
  with assms show ?thesis by (auto simp: fun_eq_iff run_check_record fun_upd_twist split: option.splits)
qed

lemma run_checks_other: "p \<notin> set (map (pp_id \<circ> fst) cs) \<Longrightarrow> run_checks cs table p = table p"
  unfolding run_checks_def
proof (induction cs arbitrary: table)
  case (Cons c cs)
  obtain row pb where c: "c = (row, pb)" by (cases c)
  with Cons.prems have "run_check c table p = table p" by (auto simp: run_check_record split: option.splits)
  with Cons show ?case by simp
qed simp

lemma run_checks_own:
  assumes "distinct (map (pp_id \<circ> fst) cs)" "(row, pb) \<in> set cs"
  shows "run_checks cs table (pp_id row) = (case check_record row pb of None \<Rightarrow> table (pp_id row) | Some r \<Rightarrow> Some r)"
  using assms
proof (induction cs arbitrary: table)
  case (Cons c cs)
  show ?case
  proof (cases "c = (row, pb)")
    case True
    with Cons.prems have "pp_id row \<notin> set (map (pp_id \<circ> fst) cs)" by auto
    with True run_checks_other [of "pp_id row" cs "run_check c table"] show ?thesis
      by (simp add: run_checks_def run_check_record split: option.splits)
  next
    case False
    with Cons.prems have m: "(row, pb) \<in> set cs" by auto
    with Cons.prems have "pp_id (fst c) \<noteq> pp_id row" by force
    then have "run_check c table (pp_id row) = table (pp_id row)"
      by (cases c) (auto simp: run_check_record split: option.splits)
    moreover have "run_checks cs (run_check c table) (pp_id row) =
      (case check_record row pb of None \<Rightarrow> run_check c table (pp_id row) | Some r \<Rightarrow> Some r)"
      using Cons.IH [of "run_check c table"] Cons.prems m by simp
    ultimately show ?thesis by (simp add: run_checks_def split: option.split)
  qed
qed simp



section \<open>The timer, the run in flight and stop\<close>

text \<open>
  A run is querying the providers, waiting for a number of checks, or refreshing the gauge.  When a
  check rejects, \<open>Promise.all\<close> rejects at once: the run is over, and its other checks stray.  The
  callbacks \<open>catch\<close> and \<open>finally\<close> are part of the step that settles the run.
\<close>

datatype phase = Querying | Probing nat | Gauging

record monitor =
  hm_timer :: bool
  hm_stopped :: bool
  hm_run :: "phase option"
  hm_stray :: nat
  hm_started :: nat

definition new_monitor :: monitor where
  "new_monitor = \<lparr>hm_timer = False, hm_stopped = False, hm_run = None, hm_stray = 0, hm_started = 0\<rparr>"

definition hm_running :: "monitor \<Rightarrow> bool" where
  "hm_running s \<longleftrightarrow> hm_run s \<noteq> None"

definition tick :: "monitor \<Rightarrow> monitor" where
  "tick s =
     (if hm_running s \<or> hm_stopped s then s
      else s\<lparr>hm_run := Some Querying, hm_started := Suc (hm_started s)\<rparr>)"

definition start :: "bool \<Rightarrow> monitor \<Rightarrow> monitor" where
  "start enabled s = (if hm_timer s \<or> \<not> enabled then s else tick (s\<lparr>hm_timer := True\<rparr>))"

definition stop :: "monitor \<Rightarrow> monitor" where
  "stop s = s\<lparr>hm_stopped := True, hm_timer := False\<rparr>"

text \<open>The checks that are still to settle, and when the \<open>await this.current\<close> of \<open>stop\<close> returns.\<close>

definition probing :: "nat \<Rightarrow> phase" where
  "probing n = (if n = 0 then Gauging else Probing n)"

definition checks_in_flight :: "monitor \<Rightarrow> nat" where
  "checks_in_flight s = hm_stray s + (case hm_run s of Some (Probing n) \<Rightarrow> n | _ \<Rightarrow> 0)"

definition stop_returned :: "monitor \<Rightarrow> bool" where
  "stop_returned s \<longleftrightarrow> hm_stopped s \<and> \<not> hm_running s"

datatype event =
  Start bool | Interval | Stop | Rows nat | Query_failed | Check_done | Check_failed | Stray_done | Gauge_done

inductive mstep :: "event \<Rightarrow> monitor \<Rightarrow> monitor \<Rightarrow> bool" where
  ms_start: "mstep (Start enabled) s (start enabled s)"
| ms_interval: "hm_timer s \<Longrightarrow> mstep Interval s (tick s)"
| ms_stop: "mstep Stop s (stop s)"
| ms_rows: "hm_run s = Some Querying \<Longrightarrow> mstep (Rows n) s (s\<lparr>hm_run := Some (probing n)\<rparr>)"
| ms_query_failed: "hm_run s = Some Querying \<Longrightarrow> mstep Query_failed s (s\<lparr>hm_run := None\<rparr>)"
| ms_check_done: "hm_run s = Some (Probing (Suc n)) \<Longrightarrow> mstep Check_done s (s\<lparr>hm_run := Some (probing n)\<rparr>)"
| ms_check_failed: "hm_run s = Some (Probing (Suc n)) \<Longrightarrow>
    mstep Check_failed s (s\<lparr>hm_run := None, hm_stray := hm_stray s + n\<rparr>)"
| ms_stray_done: "hm_stray s = Suc n \<Longrightarrow> mstep Stray_done s (s\<lparr>hm_stray := n\<rparr>)"
| ms_gauge_done: "hm_run s = Some Gauging \<Longrightarrow> mstep Gauge_done s (s\<lparr>hm_run := None\<rparr>)"

inductive_cases mstepE: "mstep e s t"

inductive msteps :: "event list \<Rightarrow> monitor \<Rightarrow> monitor \<Rightarrow> bool" where
  msteps_refl: "msteps [] s s"
| msteps_step: "mstep e s t \<Longrightarrow> msteps es t u \<Longrightarrow> msteps (e # es) s u"

inductive_cases msteps_ConsE: "msteps (e # es) s u"
inductive_cases msteps_NilE: "msteps [] s u"

lemmas monitor_defs = tick_def start_def stop_def probing_def hm_running_def checks_in_flight_def stop_returned_def

text \<open>What the steps outside the program do not decide: the steps of the run and of its checks.\<close>

definition work_event :: "event \<Rightarrow> bool" where
  "work_event e \<longleftrightarrow> e \<notin> {Start True, Start False, Interval, Stop}"

definition phase_rank :: "monitor \<Rightarrow> nat \<times> nat \<times> nat" where
  "phase_rank s = (case hm_run s of
      None \<Rightarrow> (0, 0, hm_stray s)
    | Some Gauging \<Rightarrow> (1, 0, hm_stray s)
    | Some (Probing n) \<Rightarrow> (2, n, hm_stray s)
    | Some Querying \<Rightarrow> (3, 0, hm_stray s))"

definition rank_less :: "((nat \<times> nat \<times> nat) \<times> (nat \<times> nat \<times> nat)) set" where
  "rank_less = less_than <*lex*> less_than <*lex*> less_than"

lemma wf_rank_less: "wf rank_less"
  by (auto simp: rank_less_def)

lemma work_step_rank: "mstep e s t \<Longrightarrow> work_event e \<Longrightarrow> (phase_rank t, phase_rank s) \<in> rank_less"
  by (erule mstepE) (auto simp: work_event_def phase_rank_def rank_less_def probing_def split: option.splits phase.splits)

lemma work_enabled:
  assumes "hm_run s \<noteq> Some (Probing 0)" "hm_running s"
  shows "\<exists>e t. work_event e \<and> mstep e s t"
proof -
  consider "hm_run s = Some Querying" | n where "hm_run s = Some (Probing (Suc n))" | "hm_run s = Some Gauging"
    using assms by (cases "hm_run s") (auto simp: hm_running_def dest: phase.exhaust old.nat.exhaust, metis phase.exhaust old.nat.exhaust)
  then show ?thesis
  proof cases
    case 1 then show ?thesis using ms_query_failed by (force simp: work_event_def)
  next
    case 2 then show ?thesis using ms_check_done by (force simp: work_event_def)
  next
    case 3 then show ?thesis using ms_gauge_done by (force simp: work_event_def)
  qed
qed

lemma mstep_probing: "mstep e s t \<Longrightarrow> hm_run s \<noteq> Some (Probing 0) \<Longrightarrow> hm_run t \<noteq> Some (Probing 0)"
  by (erule mstepE) (auto simp: monitor_defs split: if_splits)

lemma mstep_stopped: "mstep e s t \<Longrightarrow> hm_stopped s \<Longrightarrow> hm_stopped t \<and> hm_started t = hm_started s"
  by (erule mstepE) (auto simp: monitor_defs)

lemma mstep_idle: "mstep e s t \<Longrightarrow> hm_stopped s \<Longrightarrow> hm_run s = None \<Longrightarrow> hm_run t = None \<and> checks_in_flight t \<le> checks_in_flight s"
  by (erule mstepE) (auto simp: monitor_defs)

lemma mstep_stray: "mstep e s t \<Longrightarrow> e \<noteq> Check_failed \<Longrightarrow> hm_stray s = 0 \<Longrightarrow> hm_stray t = 0"
  by (erule mstepE) (auto simp: monitor_defs)

lemma msteps_probing: "msteps es s t \<Longrightarrow> hm_run s \<noteq> Some (Probing 0) \<Longrightarrow> hm_run t \<noteq> Some (Probing 0)"
  by (induction rule: msteps.induct) (auto dest: mstep_probing)

lemma msteps_stopped: "msteps es s t \<Longrightarrow> hm_stopped s \<Longrightarrow> hm_stopped t \<and> hm_started t = hm_started s"
  by (induction rule: msteps.induct) (auto dest: mstep_stopped)

lemma msteps_stray: "msteps es s t \<Longrightarrow> Check_failed \<notin> set es \<Longrightarrow> hm_stray s = 0 \<Longrightarrow> hm_stray t = 0"
  by (induction rule: msteps.induct) (auto dest: mstep_stray)

lemma msteps_idle:
  "msteps es s t \<Longrightarrow> stop_returned s \<Longrightarrow> stop_returned t \<and> checks_in_flight t \<le> checks_in_flight s"
proof (induction rule: msteps.induct)
  case (msteps_step e s t es u)
  then have "stop_returned t" "checks_in_flight t \<le> checks_in_flight s"
    using mstep_idle mstep_stopped by (auto simp: stop_returned_def hm_running_def)
  with msteps_step.IH show ?case by auto
qed simp

lemma stopped_work_returns:
  assumes "hm_stopped s" "hm_run s \<noteq> Some (Probing 0)"
  shows "\<exists>es t. msteps es s t \<and> (\<forall>e \<in> set es. work_event e) \<and> stop_returned t"
  using wf_rank_less assms
proof (induction "phase_rank s" arbitrary: s rule: wf_induct_rule)
  case less
  show ?case
  proof (cases "hm_running s")
    case True
    with work_enabled less.prems obtain e t where e: "work_event e" "mstep e s t" by blast
    moreover have "hm_stopped t" "hm_run t \<noteq> Some (Probing 0)"
      using e less.prems mstep_stopped mstep_probing by blast+
    ultimately obtain es u where "msteps es t u" "\<forall>e \<in> set es. work_event e" "stop_returned u"
      using less.hyps work_step_rank by blast
    with e show ?thesis using msteps_step by (metis set_ConsD)
  next
    case False
    with less.prems show ?thesis
      by (intro exI [of _ "[]"] exI [of _ s]) (simp add: stop_returned_def msteps_refl)
  qed
qed


lemma monitor_trace_idle:
  "msteps [Start True, Query_failed, Stop] new_monitor
     \<lparr>hm_timer = False, hm_stopped = True, hm_run = None, hm_stray = 0, hm_started = 1\<rparr>"
proof -
  have "mstep (Start True) new_monitor \<lparr>hm_timer = True, hm_stopped = False, hm_run = Some Querying, hm_stray = 0, hm_started = 1\<rparr>"
    using ms_start [of True new_monitor] by (simp add: new_monitor_def monitor_defs)
  moreover have "mstep Query_failed \<lparr>hm_timer = True, hm_stopped = False, hm_run = Some Querying, hm_stray = 0, hm_started = 1\<rparr>
      \<lparr>hm_timer = True, hm_stopped = False, hm_run = None, hm_stray = 0, hm_started = 1\<rparr>"
    using ms_query_failed [of "\<lparr>hm_timer = True, hm_stopped = False, hm_run = Some Querying, hm_stray = 0, hm_started = 1\<rparr>"]
    by simp
  moreover have "mstep Stop \<lparr>hm_timer = True, hm_stopped = False, hm_run = None, hm_stray = 0, hm_started = 1\<rparr>
      \<lparr>hm_timer = False, hm_stopped = True, hm_run = None, hm_stray = 0, hm_started = 1\<rparr>"
    using ms_stop [of "\<lparr>hm_timer = True, hm_stopped = False, hm_run = None, hm_stray = 0, hm_started = 1\<rparr>"]
    by (simp add: monitor_defs)
  ultimately show ?thesis by (blast intro: msteps_step msteps_refl)
qed


lemma monitor_trace_stray:
  "msteps [Start True, Rows 2, Check_failed, Stop] new_monitor
     \<lparr>hm_timer = False, hm_stopped = True, hm_run = None, hm_stray = 1, hm_started = 1\<rparr>"
proof -
  have "mstep (Start True) new_monitor \<lparr>hm_timer = True, hm_stopped = False, hm_run = Some Querying, hm_stray = 0, hm_started = 1\<rparr>"
    using ms_start [of True new_monitor] by (simp add: new_monitor_def monitor_defs)
  moreover have "mstep (Rows 2) \<lparr>hm_timer = True, hm_stopped = False, hm_run = Some Querying, hm_stray = 0, hm_started = 1\<rparr>
      \<lparr>hm_timer = True, hm_stopped = False, hm_run = Some (Probing 2), hm_stray = 0, hm_started = 1\<rparr>"
    using ms_rows [of "\<lparr>hm_timer = True, hm_stopped = False, hm_run = Some Querying, hm_stray = 0, hm_started = 1\<rparr>" 2]
    by (simp add: monitor_defs)
  moreover have "mstep Check_failed \<lparr>hm_timer = True, hm_stopped = False, hm_run = Some (Probing 2), hm_stray = 0, hm_started = 1\<rparr>
      \<lparr>hm_timer = True, hm_stopped = False, hm_run = None, hm_stray = 1, hm_started = 1\<rparr>"
    using ms_check_failed [of "\<lparr>hm_timer = True, hm_stopped = False, hm_run = Some (Probing 2), hm_stray = 0, hm_started = 1\<rparr>" 1]
    by (simp add: numeral_2_eq_2)
  moreover have "mstep Stop \<lparr>hm_timer = True, hm_stopped = False, hm_run = None, hm_stray = 1, hm_started = 1\<rparr>
      \<lparr>hm_timer = False, hm_stopped = True, hm_run = None, hm_stray = 1, hm_started = 1\<rparr>"
    using ms_stop [of "\<lparr>hm_timer = True, hm_stopped = False, hm_run = None, hm_stray = 1, hm_started = 1\<rparr>"]
    by (simp add: monitor_defs)
  ultimately show ?thesis by (blast intro: msteps_step msteps_refl)
qed

text \<open>
  A check whose write fails breaks the barrier: \<open>stop\<close> returns while the other check of the run is
  still in flight.
\<close>

lemma stop_returns_early:
  "\<exists>s. msteps [Start True, Rows 2, Check_failed, Stop] new_monitor s \<and> stop_returned s \<and> checks_in_flight s = 1"
  using monitor_trace_stray by (force simp: stop_returned_def hm_running_def checks_in_flight_def)

end
