(* ===== verification/Admin_Providers.thy ===== *)
theory Admin_Providers
  imports Admin_Keys Health_Monitor
begin

text \<open>
  The administration of providers and models (\<open>src/routes/admin/providers.ts\<close>): schemas, statements
  on the tables, the handlers with the reload of the registry that follows each change, and what
  histories of calls do to the registry.  A select returns rows in the order of the lists.  The
  clock, generated ids, nonces and the failures of the database are parameters of each call.
\<close>

section \<open>Schemas\<close>

definition ADAPTER_TYPES :: "(string \<times> AdapterType) list" where
  "ADAPTER_TYPES = [(''openai'', AdOpenai), (''anthropic'', AdAnthropic), (''gemini'', AdGemini),
     (''cohere'', AdCohere), (''mistral'', AdMistral)]"

definition adapter_name :: "AdapterType \<Rightarrow> string" where
  "adapter_name ad = (case ad of AdOpenai \<Rightarrow> ''openai'' | AdAnthropic \<Rightarrow> ''anthropic'' | AdGemini \<Rightarrow> ''gemini''
     | AdCohere \<Rightarrow> ''cohere'' | AdMistral \<Rightarrow> ''mistral'')"

definition z_link :: "(string \<Rightarrow> bool) \<Rightarrow> json \<Rightarrow> string option" where
  "z_link U j = Option.bind (as_str j) (\<lambda>w. if U w then Some w else None)"

record CreateProvider =
  cp_name :: string
  cp_baseUrl :: string
  cp_adapterType :: AdapterType
  cp_apiKey :: string
  cp_weight :: "int option"
  cp_priority :: "int option"
  cp_isActive :: "bool option"
  cp_healthCheckUrl :: "string option"
  cp_timeoutMs :: "int option"

definition createProviderSchema :: "(string \<Rightarrow> bool) \<Rightarrow> json \<Rightarrow> CreateProvider option" where
  "createProviderSchema U j = do {
     ps \<leftarrow> as_obj j;
     n \<leftarrow> z_required (z_string 1 128) ps ''name'';
     u \<leftarrow> z_required (z_link U) ps ''baseUrl'';
     ad \<leftarrow> z_required (z_literal_of ADAPTER_TYPES) ps ''adapterType'';
     k \<leftarrow> z_required z_nonempty ps ''apiKey'';
     w \<leftarrow> z_optional (z_int_between 0 INT32_MAX) ps ''weight'';
     pri \<leftarrow> z_optional (z_int_between 1 INT32_MAX) ps ''priority'';
     act \<leftarrow> z_optional as_bool ps ''isActive'';
     h \<leftarrow> z_optional (z_link U) ps ''healthCheckUrl'';
     t \<leftarrow> z_optional (z_int_between 1 INT32_MAX) ps ''timeoutMs'';
     Some \<lparr>cp_name = n, cp_baseUrl = u, cp_adapterType = ad, cp_apiKey = k, cp_weight = w, cp_priority = pri,
       cp_isActive = act, cp_healthCheckUrl = h, cp_timeoutMs = t\<rparr> }"

record PatchProvider =
  up_name :: "string option"
  up_baseUrl :: "string option"
  up_apiKey :: "string option"
  up_weight :: "int option"
  up_priority :: "int option"
  up_isActive :: "bool option"
  up_healthCheckUrl :: "string option option"
  up_timeoutMs :: "int option"

definition patchProviderSchema :: "(string \<Rightarrow> bool) \<Rightarrow> json \<Rightarrow> PatchProvider option" where
  "patchProviderSchema U j = do {
     ps \<leftarrow> as_obj j;
     n \<leftarrow> z_optional (z_string 1 128) ps ''name'';
     u \<leftarrow> z_optional (z_link U) ps ''baseUrl'';
     k \<leftarrow> z_optional z_nonempty ps ''apiKey'';
     w \<leftarrow> z_optional (z_int_between 0 INT32_MAX) ps ''weight'';
     pri \<leftarrow> z_optional (z_int_between 1 INT32_MAX) ps ''priority'';
     act \<leftarrow> z_optional as_bool ps ''isActive'';
     h \<leftarrow> z_optional (nullable (z_link U)) ps ''healthCheckUrl'';
     t \<leftarrow> z_optional (z_int_between 1 INT32_MAX) ps ''timeoutMs'';
     Some \<lparr>up_name = n, up_baseUrl = u, up_apiKey = k, up_weight = w, up_priority = pri, up_isActive = act,
       up_healthCheckUrl = h, up_timeoutMs = t\<rparr> }"

record CreateModel =
  md_modelId :: string
  md_displayName :: "string option"
  md_contextWindow :: "int option"
  md_maxOutputTokens :: "int option"
  md_inputPricePer1k :: "decimal option"
  md_outputPricePer1k :: "decimal option"
  md_supportsStreaming :: "bool option"
  md_supportsTools :: "bool option"
  md_supportsVision :: "bool option"
  md_isActive :: "bool option"

definition modelSchema :: "json \<Rightarrow> CreateModel option" where
  "modelSchema j = do {
     ps \<leftarrow> as_obj j;
     m \<leftarrow> z_required z_nonempty ps ''modelId'';
     dn \<leftarrow> z_optional as_str ps ''displayName'';
     cw \<leftarrow> z_optional (z_int_between 1 INT32_MAX) ps ''contextWindow'';
     mo \<leftarrow> z_optional (z_int_between 1 INT32_MAX) ps ''maxOutputTokens'';
     ip \<leftarrow> z_optional z_price ps ''inputPricePer1k'';
     op \<leftarrow> z_optional z_price ps ''outputPricePer1k'';
     ss \<leftarrow> z_optional as_bool ps ''supportsStreaming'';
     st \<leftarrow> z_optional as_bool ps ''supportsTools'';
     sv \<leftarrow> z_optional as_bool ps ''supportsVision'';
     act \<leftarrow> z_optional as_bool ps ''isActive'';
     Some \<lparr>md_modelId = m, md_displayName = dn, md_contextWindow = cw, md_maxOutputTokens = mo,
       md_inputPricePer1k = ip, md_outputPricePer1k = op, md_supportsStreaming = ss, md_supportsTools = st,
       md_supportsVision = sv, md_isActive = act\<rparr> }"

section \<open>Tables\<close>

record provider_entry =
  pe_id :: string
  pe_name :: string
  pe_baseUrl :: string
  pe_adapterType :: AdapterType
  pe_encryptedApiKey :: string
  pe_weight :: int
  pe_priority :: int
  pe_isActive :: bool
  pe_healthCheckUrl :: "string option"
  pe_timeoutMs :: int
  pe_createdAt :: int
  pe_updatedAt :: int

record model_entry =
  me_id :: string
  me_providerId :: string
  me_modelId :: string
  me_displayName :: "string option"
  me_contextWindow :: "int option"
  me_maxOutputTokens :: "int option"
  me_inputPricePer1k :: "string option"
  me_outputPricePer1k :: "string option"
  me_supportsStreaming :: bool
  me_supportsTools :: bool
  me_supportsVision :: bool
  me_isActive :: bool
  me_createdAt :: int

record provider_store =
  tb_providers :: "provider_entry list"
  tb_models :: "model_entry list"
  tb_health :: health_table
  tb_registry :: registry_state

text \<open>
  The environment of the handlers; \<open>pv_numeric\<close> is the coercion to \<open>numeric(10, 6)\<close>.  A call brings
  an id, two readings of the clock, a nonce, and the failures of its statement and its reload.
\<close>

record providers_env =
  pv_cipher :: cipher
  pv_deployment :: deployment
  pv_url :: "string \<Rightarrow> bool"
  pv_numeric :: "string \<Rightarrow> (thrown, string) result"
  pv_unique_violation :: thrown
  pv_foreign_violation :: thrown
  pv_issues :: "json \<Rightarrow> zod_issue list"

record provider_call =
  pc_uuid :: string
  pc_now :: int
  pc_loadedAt :: int
  pc_iv :: bytes
  pc_database :: "thrown option"
  pc_reload :: "thrown option"

section \<open>The query of the registry\<close>

definition model_row :: "model_entry \<Rightarrow> provider_model_row" where
  "model_row m = \<lparr>mr_modelId = me_modelId m, mr_displayName = me_displayName m, mr_contextWindow = me_contextWindow m,
     mr_maxOutputTokens = me_maxOutputTokens m, mr_inputPricePer1k = me_inputPricePer1k m,
     mr_outputPricePer1k = me_outputPricePer1k m, mr_supportsStreaming = me_supportsStreaming m,
     mr_supportsTools = me_supportsTools m, mr_supportsVision = me_supportsVision m\<rparr>"

definition joined_row :: "model_entry list \<Rightarrow> provider_entry \<Rightarrow> provider_row" where
  "joined_row ms r = \<lparr>pr_id = pe_id r, pr_name = pe_name r, pr_adapterType = pe_adapterType r, pr_baseUrl = pe_baseUrl r,
     pr_encryptedApiKey = pe_encryptedApiKey r, pr_timeoutMs = pe_timeoutMs r, pr_weight = pe_weight r,
     pr_priority = pe_priority r,
     pr_models = map model_row (filter (\<lambda>m. me_providerId m = pe_id r \<and> me_isActive m) ms)\<rparr>"

definition registry_rows :: "provider_store \<Rightarrow> provider_row list" where
  "registry_rows S = map (joined_row (tb_models S)) (filter pe_isActive (tb_providers S))"

definition fresh_snapshot :: "providers_env \<Rightarrow> provider_store \<Rightarrow> snapshot" where
  "fresh_snapshot E S = load_snapshot (decrypt (pv_cipher E) (pv_deployment E)) (registry_rows S)"

definition registry_load :: "providers_env \<Rightarrow> provider_call \<Rightarrow> provider_store \<Rightarrow> (thrown, unit) result \<times> provider_store" where
  "registry_load E c S =
     (case pc_reload c of
        Some e \<Rightarrow> (Inl e, S)
      | None \<Rightarrow> (Inr (), S\<lparr>tb_registry := (tb_registry S)\<lparr>rg_snapshot := fresh_snapshot E S, rg_loadedAtMs := pc_loadedAt c\<rparr>\<rparr>))"

section \<open>Statements\<close>

type_synonym 'a provider_statement = "provider_store \<Rightarrow> (thrown, 'a list \<times> provider_store) result"

definition statement ::
  "provider_call \<Rightarrow> 'a provider_statement \<Rightarrow> provider_store \<Rightarrow> (thrown, 'a list) result \<times> provider_store" where
  "statement c f S =
     (case pc_database c of
        Some e \<Rightarrow> (Inl e, S)
      | None \<Rightarrow> (case f S of Inl e \<Rightarrow> (Inl e, S) | Inr (out, S1) \<Rightarrow> (Inr out, S1)))"

definition new_provider :: "provider_call \<Rightarrow> string \<Rightarrow> CreateProvider \<Rightarrow> provider_entry" where
  "new_provider c envelope b =
     \<lparr>pe_id = pc_uuid c, pe_name = cp_name b, pe_baseUrl = cp_baseUrl b, pe_adapterType = cp_adapterType b,
      pe_encryptedApiKey = envelope, pe_weight = nullish (cp_weight b) 1, pe_priority = nullish (cp_priority b) 1,
      pe_isActive = nullish (cp_isActive b) True, pe_healthCheckUrl = cp_healthCheckUrl b,
      pe_timeoutMs = nullish (cp_timeoutMs b) 60000, pe_createdAt = pc_now c, pe_updatedAt = pc_now c\<rparr>"

definition insert_provider :: "providers_env \<Rightarrow> provider_call \<Rightarrow> string \<Rightarrow> CreateProvider \<Rightarrow> provider_entry provider_statement" where
  "insert_provider E c envelope b S =
     (if \<exists>r \<in> set (tb_providers S). pe_id r = pc_uuid c \<or> pe_name r = cp_name b then Inl (pv_unique_violation E)
      else Inr ([new_provider c envelope b], S\<lparr>tb_providers := tb_providers S @ [new_provider c envelope b]\<rparr>))"

definition update_providers ::
  "string \<Rightarrow> (provider_entry \<Rightarrow> provider_entry) \<Rightarrow> provider_store \<Rightarrow> provider_entry list \<times> provider_store" where
  "update_providers i f S =
     (map f (filter (\<lambda>r. pe_id r = i) (tb_providers S)),
      S\<lparr>tb_providers := map (\<lambda>r. if pe_id r = i then f r else r) (tb_providers S)\<rparr>)"

definition patched_provider :: "provider_call \<Rightarrow> string option \<Rightarrow> PatchProvider \<Rightarrow> provider_entry \<Rightarrow> provider_entry" where
  "patched_provider c envelope b r = r
     \<lparr>pe_name := nullish (up_name b) (pe_name r),
      pe_baseUrl := nullish (up_baseUrl b) (pe_baseUrl r),
      pe_encryptedApiKey := nullish envelope (pe_encryptedApiKey r),
      pe_weight := nullish (up_weight b) (pe_weight r),
      pe_priority := nullish (up_priority b) (pe_priority r),
      pe_isActive := nullish (up_isActive b) (pe_isActive r),
      pe_healthCheckUrl := nullish (up_healthCheckUrl b) (pe_healthCheckUrl r),
      pe_timeoutMs := nullish (up_timeoutMs b) (pe_timeoutMs r),
      pe_updatedAt := pc_now c\<rparr>"

text \<open>The name is unique, so that a row cannot take the name of another.\<close>

definition patch_provider ::
  "providers_env \<Rightarrow> provider_call \<Rightarrow> string \<Rightarrow> string option \<Rightarrow> PatchProvider \<Rightarrow> provider_entry provider_statement" where
  "patch_provider E c i envelope b S =
     (if (\<exists>r \<in> set (tb_providers S). pe_id r = i) \<and>
         (\<exists>r \<in> set (tb_providers S). pe_id r \<noteq> i \<and> up_name b = Some (pe_name r))
      then Inl (pv_unique_violation E)
      else Inr (update_providers i (patched_provider c envelope b) S))"

definition delete_provider :: "provider_call \<Rightarrow> string \<Rightarrow> provider_entry provider_statement" where
  "delete_provider c i S = Inr (update_providers i (\<lambda>r. r\<lparr>pe_isActive := False, pe_updatedAt := pc_now c\<rparr>) S)"

definition price_column :: "providers_env \<Rightarrow> decimal option \<Rightarrow> (thrown, string option) result" where
  "price_column E b = (case b of
     None \<Rightarrow> Inr None
   | Some d \<Rightarrow> (case pv_numeric E (stringify (dec_json d)) of Inl e \<Rightarrow> Inl e | Inr w \<Rightarrow> Inr (Some w)))"

definition new_model :: "provider_call \<Rightarrow> string \<Rightarrow> string option \<Rightarrow> string option \<Rightarrow> CreateModel \<Rightarrow> model_entry" where
  "new_model c i inp outp b =
     \<lparr>me_id = pc_uuid c, me_providerId = i, me_modelId = md_modelId b, me_displayName = md_displayName b,
      me_contextWindow = md_contextWindow b, me_maxOutputTokens = md_maxOutputTokens b,
      me_inputPricePer1k = inp, me_outputPricePer1k = outp,
      me_supportsStreaming = nullish (md_supportsStreaming b) True,
      me_supportsTools = nullish (md_supportsTools b) False,
      me_supportsVision = nullish (md_supportsVision b) False,
      me_isActive = nullish (md_isActive b) True, me_createdAt = pc_now c\<rparr>"

definition insert_model :: "providers_env \<Rightarrow> provider_call \<Rightarrow> string \<Rightarrow> CreateModel \<Rightarrow> model_entry provider_statement" where
  "insert_model E c i b S =
     (case (price_column E (md_inputPricePer1k b), price_column E (md_outputPricePer1k b)) of
        (Inl e, _) \<Rightarrow> Inl e
      | (Inr _, Inl e) \<Rightarrow> Inl e
      | (Inr inp, Inr outp) \<Rightarrow>
          if \<exists>m \<in> set (tb_models S). me_id m = pc_uuid c then Inl (pv_unique_violation E)
          else if \<forall>r \<in> set (tb_providers S). pe_id r \<noteq> i then Inl (pv_foreign_violation E)
          else Inr ([new_model c i inp outp b], S\<lparr>tb_models := tb_models S @ [new_model c i inp outp b]\<rparr>))"

definition delete_models :: "string \<Rightarrow> string \<Rightarrow> model_entry provider_statement" where
  "delete_models i modelId S =
     (let gone = (\<lambda>m. me_providerId m = i \<and> me_modelId m = modelId)
      in Inr (filter gone (tb_models S), S\<lparr>tb_models := filter (\<lambda>m. \<not> gone m) (tb_models S)\<rparr>))"

section \<open>Handlers\<close>

definition toProviderDto :: "provider_entry \<Rightarrow> (string \<times> json) list" where
  "toProviderDto r =
     [(''id'', JStr (pe_id r)),
      (''name'', JStr (pe_name r)),
      (''baseUrl'', JStr (pe_baseUrl r)),
      (''adapterType'', JStr (adapter_name (pe_adapterType r))),
      (''weight'', int_json (pe_weight r)),
      (''priority'', int_json (pe_priority r)),
      (''isActive'', JBool (pe_isActive r)),
      (''healthCheckUrl'', or_null JStr (pe_healthCheckUrl r)),
      (''timeoutMs'', int_json (pe_timeoutMs r)),
      (''hasApiKey'', JBool (length (pe_encryptedApiKey r) > 0)),
      (''createdAt'', date_json (pe_createdAt r)),
      (''updatedAt'', date_json (pe_updatedAt r))]"

definition model_dto :: "model_entry \<Rightarrow> json" where
  "model_dto m = JObj
     [(''id'', JStr (me_id m)),
      (''providerId'', JStr (me_providerId m)),
      (''modelId'', JStr (me_modelId m)),
      (''displayName'', or_null JStr (me_displayName m)),
      (''contextWindow'', or_null int_json (me_contextWindow m)),
      (''maxOutputTokens'', or_null int_json (me_maxOutputTokens m)),
      (''inputPricePer1k'', or_null JStr (me_inputPricePer1k m)),
      (''outputPricePer1k'', or_null JStr (me_outputPricePer1k m)),
      (''supportsStreaming'', JBool (me_supportsStreaming m)),
      (''supportsTools'', JBool (me_supportsTools m)),
      (''supportsVision'', JBool (me_supportsVision m)),
      (''isActive'', JBool (me_isActive m)),
      (''createdAt'', date_json (me_createdAt m))]"

definition health_dto :: "string \<Rightarrow> health_record \<Rightarrow> json" where
  "health_dto i h = JObj
     [(''providerId'', JStr i),
      (''status'', JStr (he_status h)),
      (''latencyMs'', or_null int_json (he_latencyMs h)),
      (''errorMessage'', or_null JStr (he_errorMessage h)),
      (''checkedAt'', date_json (he_checkedAt h))]"

definition invalid_payload :: "providers_env \<Rightarrow> string \<Rightarrow> json \<Rightarrow> thrown" where
  "invalid_payload E msg body = TGateway (ValidationError msg (no_options\<lparr>opt_issues := Some (pv_issues E body)\<rparr>))"

definition not_found :: "string \<Rightarrow> thrown" where
  "not_found msg = TGateway (NotFoundError msg no_options)"

definition parseProviderId :: "string \<Rightarrow> (thrown, string) result" where
  "parseProviderId i = (if is_uuid i then Inr i else Inl (TGateway (ValidationError ''Invalid id.'' (no_options\<lparr>opt_param := Some ''id''\<rparr>))))"

definition parseModelParams :: "string \<Rightarrow> string \<Rightarrow> (thrown, string \<times> string) result" where
  "parseModelParams i modelId =
     (if is_uuid i \<and> modelId \<noteq> [] then Inr (i, modelId)
      else Inl (TGateway (ValidationError ''Invalid id or modelId.'' no_options)))"

text \<open>The end of every change: the rows of the statement, the reload, the answer.\<close>

definition then_reload ::
  "providers_env \<Rightarrow> provider_call \<Rightarrow> thrown \<Rightarrow> ('a \<Rightarrow> http_reply) \<Rightarrow> (thrown, 'a list) result \<times> provider_store
     \<Rightarrow> (thrown, http_reply) result \<times> provider_store" where
  "then_reload E c none answer r = (case r of
     (Inl e, S1) \<Rightarrow> (Inl e, S1)
   | (Inr [], S1) \<Rightarrow> (Inl none, S1)
   | (Inr (row # _), S1) \<Rightarrow>
       (case registry_load E c S1 of (Inl e, S2) \<Rightarrow> (Inl e, S2) | (Inr _, S2) \<Rightarrow> (Inr (answer row), S2)))"

type_synonym provider_handler = "provider_store \<Rightarrow> (thrown, http_reply) result \<times> provider_store"

definition providers_list :: "provider_call \<Rightarrow> provider_handler" where
  "providers_list c S =
     (case statement c (\<lambda>S. Inr (tb_providers S, S)) S of
        (Inl e, S1) \<Rightarrow> (Inl e, S1)
      | (Inr rows, S1) \<Rightarrow> (Inr (json_reply 200 (JObj [(''data'', JArr (map (\<lambda>r. JObj (toProviderDto r)) rows))])), S1))"

definition providers_create :: "providers_env \<Rightarrow> provider_call \<Rightarrow> json \<Rightarrow> provider_handler" where
  "providers_create E c body S =
     (case createProviderSchema (pv_url E) (body_or_empty body) of
        None \<Rightarrow> (Inl (invalid_payload E ''Invalid provider payload.'' body), S)
      | Some b \<Rightarrow>
          (case encrypt (pv_cipher E) (pc_iv c) (cp_apiKey b) (de_master (pv_deployment E)) of
             Inl e \<Rightarrow> (Inl e, S)
           | Inr envelope \<Rightarrow>
               then_reload E c (TError (plain_error ''Error'' ''Failed to create provider.''))
                 (\<lambda>r. json_reply 201 (JObj (toProviderDto r))) (statement c (insert_provider E c envelope b) S)))"

definition providers_read :: "provider_call \<Rightarrow> string \<Rightarrow> provider_handler" where
  "providers_read c i S =
     (case parseProviderId i of
        Inl e \<Rightarrow> (Inl e, S)
      | Inr i \<Rightarrow>
          (case statement c (\<lambda>S. Inr (filter (\<lambda>r. pe_id r = i) (tb_providers S), S)) S of
             (Inl e, S1) \<Rightarrow> (Inl e, S1)
           | (Inr [], S1) \<Rightarrow> (Inl (not_found ''Provider not found.''), S1)
           | (Inr (r # _), S1) \<Rightarrow> (Inr (json_reply 200 (JObj (toProviderDto r))), S1)))"

text \<open>A patch that brings a credential encrypts it before the statement runs.\<close>

definition new_envelope :: "providers_env \<Rightarrow> provider_call \<Rightarrow> string option \<Rightarrow> (thrown, string option) result" where
  "new_envelope E c apiKey =
     (case apiKey of
        None \<Rightarrow> Inr None
      | Some k \<Rightarrow>
          (case encrypt (pv_cipher E) (pc_iv c) k (de_master (pv_deployment E)) of Inl e \<Rightarrow> Inl e | Inr w \<Rightarrow> Inr (Some w)))"

definition providers_patch :: "providers_env \<Rightarrow> provider_call \<Rightarrow> string \<Rightarrow> json \<Rightarrow> provider_handler" where
  "providers_patch E c i body S =
     (case parseProviderId i of
        Inl e \<Rightarrow> (Inl e, S)
      | Inr i \<Rightarrow>
          (case patchProviderSchema (pv_url E) (body_or_empty body) of
             None \<Rightarrow> (Inl (invalid_payload E ''Invalid provider update.'' body), S)
           | Some b \<Rightarrow>
               (case new_envelope E c (up_apiKey b) of
                  Inl e \<Rightarrow> (Inl e, S)
                | Inr w \<Rightarrow>
                    then_reload E c (not_found ''Provider not found.'') (\<lambda>r. json_reply 200 (JObj (toProviderDto r)))
                      (statement c (patch_provider E c i w b) S))))"

definition providers_delete :: "providers_env \<Rightarrow> provider_call \<Rightarrow> string \<Rightarrow> provider_handler" where
  "providers_delete E c i S =
     (case parseProviderId i of
        Inl e \<Rightarrow> (Inl e, S)
      | Inr i \<Rightarrow>
          then_reload E c (not_found ''Provider not found.'')
            (\<lambda>r. json_reply 200 (JObj [(''id'', JStr (pe_id r)), (''deleted'', JBool True)]))
            (statement c (delete_provider c i) S))"

definition models_list :: "provider_call \<Rightarrow> string \<Rightarrow> provider_handler" where
  "models_list c i S =
     (case parseProviderId i of
        Inl e \<Rightarrow> (Inl e, S)
      | Inr i \<Rightarrow>
          (case statement c (\<lambda>S. Inr (filter (\<lambda>m. me_providerId m = i) (tb_models S), S)) S of
             (Inl e, S1) \<Rightarrow> (Inl e, S1)
           | (Inr ms, S1) \<Rightarrow> (Inr (json_reply 200 (JObj [(''data'', JArr (map model_dto ms))])), S1)))"

text \<open>An insert returns its row, so that the case without a row never comes up.\<close>

definition models_create :: "providers_env \<Rightarrow> provider_call \<Rightarrow> string \<Rightarrow> json \<Rightarrow> provider_handler" where
  "models_create E c i body S =
     (case parseProviderId i of
        Inl e \<Rightarrow> (Inl e, S)
      | Inr i \<Rightarrow>
          (case modelSchema (body_or_empty body) of
             None \<Rightarrow> (Inl (invalid_payload E ''Invalid model payload.'' body), S)
           | Some b \<Rightarrow>
               then_reload E c (TError (plain_error ''Error'' ''''))
                 (\<lambda>m. json_reply 201 (model_dto m)) (statement c (insert_model E c i b) S)))"

definition models_delete :: "providers_env \<Rightarrow> provider_call \<Rightarrow> string \<Rightarrow> string \<Rightarrow> provider_handler" where
  "models_delete E c i modelId S =
     (case parseModelParams i modelId of
        Inl e \<Rightarrow> (Inl e, S)
      | Inr (i, modelId) \<Rightarrow>
          then_reload E c (not_found ''Model not found for this provider.'')
            (\<lambda>_. json_reply 200 (JObj [(''modelId'', JStr modelId), (''deleted'', JBool True)]))
            (statement c (delete_models i modelId) S))"

definition health_read :: "provider_call \<Rightarrow> string \<Rightarrow> provider_handler" where
  "health_read c i S =
     (case parseProviderId i of
        Inl e \<Rightarrow> (Inl e, S)
      | Inr i \<Rightarrow>
          (case statement c (\<lambda>S. Inr (case tb_health S i of None \<Rightarrow> [] | Some h \<Rightarrow> [h], S)) S of
             (Inl e, S1) \<Rightarrow> (Inl e, S1)
           | (Inr [], S1) \<Rightarrow> (Inl (not_found ''No health record for this provider.''), S1)
           | (Inr (h # _), S1) \<Rightarrow> (Inr (json_reply 200 (health_dto i h)), S1)))"

datatype provider_event =
  List_providers | Create_provider json | Read_provider string | Patch_provider string json | Delete_provider string
| List_models string | Create_model string json | Delete_model string string | Read_health string

fun providersRoutes :: "providers_env \<Rightarrow> provider_call \<Rightarrow> provider_event \<Rightarrow> provider_handler" where
  "providersRoutes E c List_providers S = providers_list c S"
| "providersRoutes E c (Create_provider body) S = providers_create E c body S"
| "providersRoutes E c (Read_provider i) S = providers_read c i S"
| "providersRoutes E c (Patch_provider i body) S = providers_patch E c i body S"
| "providersRoutes E c (Delete_provider i) S = providers_delete E c i S"
| "providersRoutes E c (List_models i) S = models_list c i S"
| "providersRoutes E c (Create_model i body) S = models_create E c i body S"
| "providersRoutes E c (Delete_model i m) S = models_delete E c i m S"
| "providersRoutes E c (Read_health i) S = health_read c i S"

fun providers_history ::
  "providers_env \<Rightarrow> (provider_call \<times> provider_event) list \<Rightarrow> provider_store \<Rightarrow> (thrown, http_reply) result list \<times> provider_store" where
  "providers_history E [] S = ([], S)"
| "providers_history E ((c, ev) # xs) S =
     (case providersRoutes E c ev S of (reply, S1) \<Rightarrow>
        (case providers_history E xs S1 of (replies, S2) \<Rightarrow> (reply # replies, S2)))"

end
