(* ===== verification/Provider_Histories.thy ===== *)
theory Provider_Histories
  imports Admin_Providers Key_Histories
begin

text \<open>
  What the administration of providers guarantees over histories of calls: the tables stay sound
  and the registry follows them, a created provider serves its models with the credential it was
  given, a deletion is exact and reversible, and no reply depends on a credential.
\<close>

section \<open>The tables and the registry\<close>

definition provider_ok :: "providers_env \<Rightarrow> provider_entry \<Rightarrow> bool" where
  "provider_ok E r \<longleftrightarrow> 0 \<le> pe_weight r \<and> pe_weight r \<le> INT32_MAX \<and> 1 \<le> pe_priority r \<and> pe_priority r \<le> INT32_MAX \<and>
     1 \<le> pe_timeoutMs r \<and> pe_timeoutMs r \<le> INT32_MAX \<and>
     (\<exists>w. w \<noteq> [] \<and> decrypt (pv_cipher E) (pv_deployment E) (pe_encryptedApiKey r) = Inr w)"

definition store_wf :: "providers_env \<Rightarrow> provider_store \<Rightarrow> bool" where
  "store_wf E S \<longleftrightarrow> distinct (map pe_id (tb_providers S)) \<and> distinct (map pe_name (tb_providers S)) \<and>
     (\<forall>r \<in> set (tb_providers S). provider_ok E r) \<and>
     (\<forall>m \<in> set (tb_models S). \<exists>r \<in> set (tb_providers S). pe_id r = me_providerId m)"

definition synced :: "providers_env \<Rightarrow> provider_store \<Rightarrow> bool" where
  "synced E S \<longleftrightarrow> rg_snapshot (tb_registry S) = fresh_snapshot E S"

definition env_ok :: "providers_env \<Rightarrow> bool" where
  "env_ok E \<longleftrightarrow> length (de_master (pv_deployment E)) = MASTER_KEY_BYTES"

definition call_ok :: "provider_call \<Rightarrow> bool" where
  "call_ok c \<longleftrightarrow> length (pc_iv c) = IV_BYTES"

lemma encrypted:
  assumes "env_ok E"
  obtains envelope where "encrypt (pv_cipher E) iv w (de_master (pv_deployment E)) = Inr envelope" "envelope \<noteq> []"
    "length iv = IV_BYTES \<Longrightarrow> decrypt (pv_cipher E) (pv_deployment E) envelope = Inr w"
proof -
  obtain envelope where e: "encrypt (pv_cipher E) iv w (de_master (pv_deployment E)) = Inr envelope" "envelope \<noteq> []"
    using assms by (auto simp: env_ok_def encrypt_shape Let_def ENVELOPE_VERSION_def)
  with assms show thesis by (intro that) (auto simp: env_ok_def intro: decrypt_under_master)
qed

text \<open>Everything that a body can ask for is within the bounds of the schema.\<close>

lemma int_between_opt:
  "z_optional (z_int_between lo hi) ps k = Some x \<Longrightarrow> lo \<le> d \<Longrightarrow> d \<le> hi \<Longrightarrow> lo \<le> nullish x d \<and> nullish x d \<le> hi"
  by (auto simp: z_optional_def z_int_between_def bind_eq_Some_conv split: option.splits if_splits)

lemma create_bounds:
  assumes "createProviderSchema U j = Some b"
  shows "0 \<le> nullish (cp_weight b) 1 \<and> nullish (cp_weight b) 1 \<le> INT32_MAX"
    "1 \<le> nullish (cp_priority b) 1 \<and> nullish (cp_priority b) 1 \<le> INT32_MAX"
    "1 \<le> nullish (cp_timeoutMs b) 60000 \<and> nullish (cp_timeoutMs b) 60000 \<le> INT32_MAX" "cp_apiKey b \<noteq> []"
proof -
  from assms obtain ps where ps:
      "z_optional (z_int_between 0 INT32_MAX) ps ''weight'' = Some (cp_weight b)"
      "z_optional (z_int_between 1 INT32_MAX) ps ''priority'' = Some (cp_priority b)"
      "z_optional (z_int_between 1 INT32_MAX) ps ''timeoutMs'' = Some (cp_timeoutMs b)"
      "z_required z_nonempty ps ''apiKey'' = Some (cp_apiKey b)"
    by (auto simp: createProviderSchema_def bind_eq_Some_conv)
  from ps(1-3) show "0 \<le> nullish (cp_weight b) 1 \<and> nullish (cp_weight b) 1 \<le> INT32_MAX"
    "1 \<le> nullish (cp_priority b) 1 \<and> nullish (cp_priority b) 1 \<le> INT32_MAX"
    "1 \<le> nullish (cp_timeoutMs b) 60000 \<and> nullish (cp_timeoutMs b) 60000 \<le> INT32_MAX"
    using int_between_opt [OF ps(1), of 1] int_between_opt [OF ps(2), of 1] int_between_opt [OF ps(3), of 60000]
    by (simp_all add: INT32_MAX_def)
  from ps(4) show "cp_apiKey b \<noteq> []"
    by (auto simp: z_required_def z_nonempty_def bind_eq_Some_conv split: option.splits if_splits)
qed

lemma patch_bounds:
  assumes "patchProviderSchema U j = Some b"
  shows "0 \<le> d \<and> d \<le> INT32_MAX \<Longrightarrow> 0 \<le> nullish (up_weight b) d \<and> nullish (up_weight b) d \<le> INT32_MAX"
    "1 \<le> d \<and> d \<le> INT32_MAX \<Longrightarrow> 1 \<le> nullish (up_priority b) d \<and> nullish (up_priority b) d \<le> INT32_MAX"
    "1 \<le> d \<and> d \<le> INT32_MAX \<Longrightarrow> 1 \<le> nullish (up_timeoutMs b) d \<and> nullish (up_timeoutMs b) d \<le> INT32_MAX"
    "up_apiKey b \<noteq> Some []"
proof -
  from assms obtain ps where ps:
      "z_optional (z_int_between 0 INT32_MAX) ps ''weight'' = Some (up_weight b)"
      "z_optional (z_int_between 1 INT32_MAX) ps ''priority'' = Some (up_priority b)"
      "z_optional (z_int_between 1 INT32_MAX) ps ''timeoutMs'' = Some (up_timeoutMs b)"
      "z_optional z_nonempty ps ''apiKey'' = Some (up_apiKey b)"
    by (auto simp: patchProviderSchema_def bind_eq_Some_conv)
  from ps(1-3) show "0 \<le> d \<and> d \<le> INT32_MAX \<Longrightarrow> 0 \<le> nullish (up_weight b) d \<and> nullish (up_weight b) d \<le> INT32_MAX"
    "1 \<le> d \<and> d \<le> INT32_MAX \<Longrightarrow> 1 \<le> nullish (up_priority b) d \<and> nullish (up_priority b) d \<le> INT32_MAX"
    "1 \<le> d \<and> d \<le> INT32_MAX \<Longrightarrow> 1 \<le> nullish (up_timeoutMs b) d \<and> nullish (up_timeoutMs b) d \<le> INT32_MAX"
    using int_between_opt [OF ps(1), of d] int_between_opt [OF ps(2), of d] int_between_opt [OF ps(3), of d] by auto
  from ps(4) show "up_apiKey b \<noteq> Some []"
    by (auto simp: z_optional_def z_nonempty_def bind_eq_Some_conv split: option.splits if_splits)
qed

text \<open>Statements that keep the tables sound.\<close>

definition keeps_wf :: "providers_env \<Rightarrow> 'a provider_statement \<Rightarrow> bool" where
  "keeps_wf E f \<longleftrightarrow> (\<forall>S out S1. store_wf E S \<longrightarrow> f S = Inr (out, S1) \<longrightarrow>
     store_wf E S1 \<and> tb_registry S1 = tb_registry S \<and> (out = [] \<longrightarrow> S1 = S))"

lemma insert_provider_wf:
  assumes "provider_ok E (new_provider c envelope b)"
  shows "keeps_wf E (insert_provider E c envelope b)"
  using assms by (auto simp: keeps_wf_def insert_provider_def store_wf_def new_provider_def)

lemma update_providers_wf:
  assumes wf: "store_wf E S" and up: "update_providers i f S = (out, S1)"
    and f: "\<And>r. r \<in> set (tb_providers S) \<Longrightarrow> pe_id r = i \<Longrightarrow> pe_id (f r) = i \<and> provider_ok E (f r) \<and>
      (\<forall>r' \<in> set (tb_providers S). pe_id r' \<noteq> i \<longrightarrow> pe_name r' \<noteq> pe_name (f r))"
  shows "store_wf E S1 \<and> tb_registry S1 = tb_registry S \<and> (out = [] \<longrightarrow> S1 = S)"
proof (intro conjI)
  let ?g = "\<lambda>r. if pe_id r = i then f r else r"
  have S1: "S1 = S\<lparr>tb_providers := map ?g (tb_providers S)\<rparr>" and out: "out = map f (filter (\<lambda>r. pe_id r = i) (tb_providers S))"
    using up by (simp_all add: update_providers_def)
  then show "tb_registry S1 = tb_registry S" by simp
  show "out = [] \<longrightarrow> S1 = S"
  proof
    assume "out = []"
    then have "map ?g (tb_providers S) = tb_providers S" by (intro map_idI) (auto simp: out filter_empty_conv)
    then show "S1 = S" by (simp add: S1)
  qed
  have ids: "map pe_id (tb_providers S1) = map pe_id (tb_providers S)" using f by (simp add: S1)
  then have img: "pe_id ` set (tb_providers S1) = pe_id ` set (tb_providers S)" by (metis list.set_map)
  have inj: "inj_on (pe_name \<circ> ?g) (set (tb_providers S))"
  proof (rule inj_onI)
    fix r r' assume r: "r \<in> set (tb_providers S)" "r' \<in> set (tb_providers S)" "(pe_name \<circ> ?g) r = (pe_name \<circ> ?g) r'"
    have "inj_on pe_id (set (tb_providers S))" "inj_on pe_name (set (tb_providers S))"
      using wf by (simp_all add: store_wf_def distinct_map)
    then show "r = r'" using r f by (cases "pe_id r = i"; cases "pe_id r' = i") (auto dest: inj_onD, metis+)
  qed
  have "distinct (tb_providers S)" using wf by (simp add: store_wf_def distinct_map)
  with inj have "distinct (map (pe_name \<circ> ?g) (tb_providers S))" by (simp only: distinct_map simp_thms)
  then have "distinct (map pe_name (tb_providers S1))" by (simp add: S1)
  moreover have "\<exists>r \<in> set (tb_providers S1). pe_id r = me_providerId m" if "m \<in> set (tb_models S1)" for m
  proof -
    have "me_providerId m \<in> pe_id ` set (tb_providers S)" using wf that by (force simp: store_wf_def S1)
    then show ?thesis unfolding img [symmetric] by auto
  qed
  moreover have "\<forall>r \<in> set (tb_providers S1). provider_ok E r" using wf f by (auto simp: store_wf_def S1)
  ultimately show "store_wf E S1" using wf ids by (simp add: store_wf_def)
qed

lemma patch_provider_wf:
  assumes b: "patchProviderSchema U j = Some b"
    and e: "\<And>w. envelope = Some w \<Longrightarrow> \<exists>k. k \<noteq> [] \<and> decrypt (pv_cipher E) (pv_deployment E) w = Inr k"
  shows "keeps_wf E (patch_provider E c i envelope b)"
  unfolding keeps_wf_def
proof (intro allI impI)
  fix S out S1 assume wf: "store_wf E S" and p: "patch_provider E c i envelope b S = Inr (out, S1)"
  then have up: "update_providers i (patched_provider c envelope b) S = (out, S1)"
    by (auto simp: patch_provider_def split: if_splits)
  from wf up show "store_wf E S1 \<and> tb_registry S1 = tb_registry S \<and> (out = [] \<longrightarrow> S1 = S)"
  proof (rule update_providers_wf)
    fix r assume r: "r \<in> set (tb_providers S)" "pe_id r = i"
    with wf have ok: "provider_ok E r" by (simp add: store_wf_def)
    have "provider_ok E (patched_provider c envelope b r)"
      using ok e patch_bounds(1,2,3) [OF b] by (cases envelope) (auto simp: provider_ok_def patched_provider_def)
    moreover have "\<forall>r' \<in> set (tb_providers S). pe_id r' \<noteq> i \<longrightarrow> pe_name r' \<noteq> pe_name (patched_provider c envelope b r)"
    proof (intro ballI impI)
      fix r' assume r': "r' \<in> set (tb_providers S)" "pe_id r' \<noteq> i"
      have "pe_name r' \<noteq> pe_name r" using wf r r' by (auto simp: store_wf_def distinct_map dest: inj_onD)
      moreover have "up_name b \<noteq> Some (pe_name r')" using p r r' by (auto simp: patch_provider_def split: if_splits)
      ultimately show "pe_name r' \<noteq> pe_name (patched_provider c envelope b r)"
        by (cases "up_name b") (auto simp: patched_provider_def)
    qed
    ultimately show "pe_id (patched_provider c envelope b r) = i \<and> provider_ok E (patched_provider c envelope b r) \<and>
        (\<forall>r' \<in> set (tb_providers S). pe_id r' \<noteq> i \<longrightarrow> pe_name r' \<noteq> pe_name (patched_provider c envelope b r))"
      using r by (simp add: patched_provider_def)
  qed
qed

lemma delete_provider_wf: "keeps_wf E (delete_provider c i)"
  unfolding keeps_wf_def
proof (intro allI impI)
  fix S out S1 assume wf: "store_wf E S" and d: "delete_provider c i S = Inr (out, S1)"
  then have "update_providers i (\<lambda>r. r\<lparr>pe_isActive := False, pe_updatedAt := pc_now c\<rparr>) S = (out, S1)"
    by (simp add: delete_provider_def)
  with wf show "store_wf E S1 \<and> tb_registry S1 = tb_registry S \<and> (out = [] \<longrightarrow> S1 = S)"
    by (rule update_providers_wf)
      (use wf in \<open>auto simp: store_wf_def distinct_map provider_ok_def dest: inj_onD\<close>)
qed

lemma insert_model_wf: "keeps_wf E (insert_model E c i b)"
  by (auto simp: keeps_wf_def insert_model_def store_wf_def new_model_def split: sum.splits if_splits)

lemma delete_models_wf: "keeps_wf E (delete_models i m)"
  unfolding keeps_wf_def
proof (intro allI impI)
  fix S out S1 assume wf: "store_wf E S" and d: "delete_models i m S = Inr (out, S1)"
  let ?gone = "\<lambda>x. me_providerId x = i \<and> me_modelId x = m"
  from d have out: "out = filter ?gone (tb_models S)" and S1: "S1 = S\<lparr>tb_models := filter (\<lambda>x. \<not> ?gone x) (tb_models S)\<rparr>"
    by (simp_all add: delete_models_def Let_def)
  have "filter (\<lambda>x. \<not> ?gone x) (tb_models S) = tb_models S" if "out = []"
    using that unfolding out filter_empty_conv filter_id_conv by blast
  then have "out = [] \<Longrightarrow> S1 = S" by (simp add: S1)
  with wf show "store_wf E S1 \<and> tb_registry S1 = tb_registry S \<and> (out = [] \<longrightarrow> S1 = S)"
    by (simp add: store_wf_def S1)
qed

text \<open>After a change the tables are sound, and the registry is fresh unless the call failed.\<close>

definition maintains :: "providers_env \<Rightarrow> provider_call \<Rightarrow> provider_store \<Rightarrow> 'a \<times> provider_store \<Rightarrow> bool" where
  "maintains E c S r \<longleftrightarrow> store_wf E (snd r) \<and> (synced E S \<longrightarrow> pc_reload c = None \<longrightarrow> synced E (snd r))"

lemma maintains_same: "store_wf E S \<Longrightarrow> maintains E c S (x, S)"
  by (simp add: maintains_def)

lemma then_reload_maintains:
  assumes "store_wf E S" "keeps_wf E f"
  shows "maintains E c S (then_reload E c none answer (statement c f S))"
proof (cases "pc_database c")
  case None
  show ?thesis
  proof (cases "f S")
    case (Inr p)
    obtain out S1 where p: "p = (out, S1)" by (cases p)
    with assms Inr have k: "store_wf E S1 \<and> tb_registry S1 = tb_registry S \<and> (out = [] \<longrightarrow> S1 = S)"
      unfolding keeps_wf_def by blast
    show ?thesis
    proof (cases out)
      case Nil
      with k have "then_reload E c none answer (statement c f S) = (Inl none, S)"
        by (simp add: then_reload_def statement_def None Inr p)
      then show ?thesis by (simp add: maintains_same assms(1))
    next
      case (Cons row rows)
      then have "then_reload E c none answer (statement c f S) =
          (case registry_load E c S1 of (Inl e, S2) \<Rightarrow> (Inl e, S2) | (Inr _, S2) \<Rightarrow> (Inr (answer row), S2))"
        by (simp add: then_reload_def statement_def None Inr p)
      with k show ?thesis
        by (cases "pc_reload c")
          (simp_all add: maintains_def registry_load_def synced_def store_wf_def fresh_snapshot_def registry_rows_def)
    qed
  qed (simp add: maintains_def then_reload_def statement_def None assms(1))
qed (simp add: maintains_def then_reload_def statement_def assms(1))

lemma select_rows:
  "statement c (\<lambda>S. Inr (f S, S)) S = (case pc_database c of Some e \<Rightarrow> (Inl e, S) | None \<Rightarrow> (Inr (f S), S))"
  by (simp add: statement_def split: option.splits)

lemmas provider_handlers = providers_list_def providers_read_def providers_delete_def models_list_def models_create_def
  models_delete_def health_read_def parseProviderId_def parseModelParams_def

lemma reads_keep:
  "snd (providers_list c S) = S" "snd (providers_read c i S) = S" "snd (models_list c i S) = S" "snd (health_read c i S) = S"
  by (simp_all add: provider_handlers select_rows split: option.split list.split)

lemma routes_maintain:
  assumes wf: "store_wf E S" and E: "env_ok E" and c: "call_ok c"
  shows "maintains E c S (providersRoutes E c ev S)"
proof (cases ev)
  case (Create_provider body)
  show ?thesis
  proof (cases "createProviderSchema (pv_url E) (body_or_empty body)")
    case (Some b)
    obtain envelope where e: "encrypt (pv_cipher E) (pc_iv c) (cp_apiKey b) (de_master (pv_deployment E)) = Inr envelope"
        "decrypt (pv_cipher E) (pv_deployment E) envelope = Inr (cp_apiKey b)"
      using c encrypted [OF E] by (metis call_ok_def)
    have "provider_ok E (new_provider c envelope b)"
      using create_bounds [OF Some] e(2) by (simp add: provider_ok_def new_provider_def)
    with wf Some e(1) Create_provider show ?thesis
      by (simp add: providers_create_def then_reload_maintains insert_provider_wf)
  qed (simp add: Create_provider providers_create_def maintains_same wf)
next
  case (Patch_provider i body)
  show ?thesis
  proof (cases "patchProviderSchema (pv_url E) (body_or_empty body)")
    case (Some b)
    show ?thesis
    proof (cases "up_apiKey b")
      case None
      have "keeps_wf E (patch_provider E c i None b)" by (rule patch_provider_wf [OF Some]) simp
      with wf None Some Patch_provider show ?thesis
        by (auto simp: providers_patch_def parseProviderId_def new_envelope_def maintains_same then_reload_maintains)
    next
      case k: (Some k)
      obtain envelope where e: "encrypt (pv_cipher E) (pc_iv c) k (de_master (pv_deployment E)) = Inr envelope"
          "decrypt (pv_cipher E) (pv_deployment E) envelope = Inr k"
        using c encrypted [OF E] by (metis call_ok_def)
      have "keeps_wf E (patch_provider E c i (Some envelope) b)"
        by (rule patch_provider_wf [OF Some]) (use e(2) k patch_bounds(4) [OF Some] in auto)
      with wf e(1) k Some Patch_provider show ?thesis
        by (auto simp: providers_patch_def parseProviderId_def new_envelope_def maintains_same then_reload_maintains)
    qed
  qed (use wf in \<open>auto simp: Patch_provider providers_patch_def parseProviderId_def maintains_same\<close>)
next
  case (Delete_provider i)
  with wf show ?thesis
    by (simp add: provider_handlers maintains_same then_reload_maintains delete_provider_wf)
next
  case (Create_model i body)
  with wf show ?thesis
    by (simp add: provider_handlers maintains_same then_reload_maintains insert_model_wf split: option.split)
next
  case (Delete_model i m)
  with wf show ?thesis
    by (simp add: provider_handlers maintains_same then_reload_maintains delete_models_wf)
qed (use wf in \<open>simp_all add: maintains_def reads_keep\<close>)


section \<open>A deployment for examples\<close>

definition demo_providers_env :: providers_env where
  "demo_providers_env = \<lparr>pv_cipher = demo_cipher, pv_deployment = demo_deployment, pv_url = \<lambda>w. True, pv_numeric = Inr,
     pv_unique_violation = TError (plain_error ''Error'' ''unique''),
     pv_foreign_violation = TError (plain_error ''Error'' ''foreign key''), pv_issues = \<lambda>j. []\<rparr>"

definition demo_id :: string where "demo_id = ''00000000-0000-0000-0000-000000000000''"

definition demo_call :: "int \<Rightarrow> provider_call" where
  "demo_call t = \<lparr>pc_uuid = demo_id, pc_now = t, pc_loadedAt = t, pc_iv = demo_iv, pc_database = None, pc_reload = None\<rparr>"

lemma demo_call_simps [simp]:
  "pc_uuid (demo_call t) = demo_id" "pc_iv (demo_call t) = demo_iv" "pc_database (demo_call t) = None" "pc_reload (demo_call t) = None"
  by (simp_all add: demo_call_def)

definition empty_store :: provider_store where
  "empty_store = \<lparr>tb_providers = [], tb_models = [], tb_health = Map.empty, tb_registry = registry_init\<rparr>"

definition demo_provider_body :: "string \<Rightarrow> json" where
  "demo_provider_body k = JObj [(''name'', JStr ''primary''), (''baseUrl'', JStr ''https://u''),
     (''adapterType'', JStr ''openai''), (''apiKey'', JStr k)]"

definition demo_provider_request :: "string \<Rightarrow> CreateProvider" where
  "demo_provider_request k = \<lparr>cp_name = ''primary'', cp_baseUrl = ''https://u'', cp_adapterType = AdOpenai, cp_apiKey = k,
     cp_weight = None, cp_priority = None, cp_isActive = None, cp_healthCheckUrl = None, cp_timeoutMs = None\<rparr>"

lemma demo_provider_schema:
  "k \<noteq> [] \<Longrightarrow> createProviderSchema (pv_url demo_providers_env) (body_or_empty (demo_provider_body k)) = Some (demo_provider_request k)"
  by (simp add: createProviderSchema_def demo_provider_body_def demo_provider_request_def body_or_empty_def demo_providers_env_def
    z_defs z_string_def z_link_def z_literal_of_def z_nonempty_def ADAPTER_TYPES_def)

lemma demo_providers_ok: "env_ok demo_providers_env" "call_ok (demo_call t)" "store_wf E empty_store" "synced E empty_store"
  by (simp_all add: env_ok_def demo_providers_env_def demo_deployment_def demo_sizes call_ok_def demo_call_def store_wf_def
    empty_store_def synced_def fresh_snapshot_def registry_rows_def registry_init_def load_snapshot_def empty_snapshot_def)

definition demo_created :: provider_store where
  "demo_created = snd (providersRoutes demo_providers_env (demo_call 1) (Create_provider (demo_provider_body ''sk-1'')) empty_store)"

lemma demo_created:
  "is_ok (fst (providersRoutes demo_providers_env (demo_call 1) (Create_provider (demo_provider_body ''sk-1'')) empty_store))"
  "tb_providers demo_created = [new_provider (demo_call 1) demo_envelope (demo_provider_request ''sk-1'')]" "tb_models demo_created = []"
  "store_wf demo_providers_env demo_created" "synced demo_providers_env demo_created"
proof -
  have "encrypt (pv_cipher demo_providers_env) demo_iv (cp_apiKey (demo_provider_request ''sk-1''))
      (de_master (pv_deployment demo_providers_env)) = Inr demo_envelope"
    using demo_encrypt by (simp add: demo_providers_env_def demo_deployment_def demo_provider_request_def)
  note made = providers_create_def demo_provider_schema this insert_provider_def empty_store_def then_reload_def statement_def
    registry_load_def
  show "is_ok (fst (providersRoutes demo_providers_env (demo_call 1) (Create_provider (demo_provider_body ''sk-1'')) empty_store))"
    by (simp add: made)
  show "tb_providers demo_created = [new_provider (demo_call 1) demo_envelope (demo_provider_request ''sk-1'')]" "tb_models demo_created = []"
    by (simp_all add: demo_created_def made)
  from routes_maintain [OF demo_providers_ok(3,1,2)] demo_providers_ok(4) demo_call_simps(4)
  show "store_wf demo_providers_env demo_created" "synced demo_providers_env demo_created"
    unfolding maintains_def demo_created_def by blast+
qed

lemma history_step:
  assumes "env_ok E" "store_wf E S" "call_ok c" and "(replies, S') = providers_history E ((c, ev) # xs) S"
  obtains S1 rest where "providersRoutes E c ev S = (hd replies, S1)" "store_wf E S1"
    "synced E S \<longrightarrow> pc_reload c = None \<longrightarrow> synced E S1" "(rest, S') = providers_history E xs S1"
proof -
  obtain reply S1 where r: "providersRoutes E c ev S = (reply, S1)" by fastforce
  with routes_maintain [OF assms(2,1,3), of ev] have "store_wf E S1" "synced E S \<longrightarrow> pc_reload c = None \<longrightarrow> synced E S1"
    by (auto simp: maintains_def)
  with assms(4) r that show thesis by (auto split: prod.splits)
qed

text \<open>
  C10. The administration of providers keeps its tables sound and the registry current.  Over every
  history of calls, with failures of the database in any place, ids and names stay unique, every
  model belongs to a provider, weights, priorities and timeouts stay in the range of their columns,
  and every stored credential can be decrypted to a text that is not empty; and when no reload
  fails, the registry in use is at the end exactly what a fresh load of the tables would give.
\<close>

theorem providers_history_sound:
  assumes "env_ok E" and "store_wf E S" and "synced E S" and "\<forall>(c, ev) \<in> set xs. call_ok c"
    and "(replies, S') = providers_history E xs S"
  shows "store_wf E S' \<and> ((\<forall>(c, ev) \<in> set xs. pc_reload c = None) \<longrightarrow> synced E S')"
proof -
  have "store_wf E S' \<and> (synced E S \<longrightarrow> (\<forall>(c, ev) \<in> set xs. pc_reload c = None) \<longrightarrow> synced E S')"
    using assms(2,4,5)
  proof (induction xs arbitrary: S replies)
    case (Cons x xs)
    obtain c ev where x: "x = (c, ev)" by (cases x)
    with Cons.prems have "call_ok c" "(replies, S') = providers_history E ((c, ev) # xs) S" by simp_all
    from history_step [OF assms(1) Cons.prems(1) this] obtain S1 rest where
      S1: "store_wf E S1" "synced E S \<longrightarrow> pc_reload c = None \<longrightarrow> synced E S1" "(rest, S') = providers_history E xs S1"
      by metis
    from Cons.prems(2) have "\<forall>(c, ev) \<in> set xs. call_ok c" by simp
    from Cons.IH [OF S1(1) this S1(3)] S1(2) show ?case by (simp add: x)
  qed simp
  with assms(3) show ?thesis by blast
qed

theorem providers_history_sound_witness:
  "let S' = snd (providers_history demo_providers_env
      [(demo_call 1, Create_provider (demo_provider_body ''sk-1'')), (demo_call 2, Delete_provider demo_id)] empty_store)
   in store_wf demo_providers_env S' \<and> synced demo_providers_env S'"
proof -
  let ?xs = "[(demo_call 1, Create_provider (demo_provider_body ''sk-1'')), (demo_call 2, Delete_provider demo_id)]"
  have "\<forall>(c, ev) \<in> set ?xs. call_ok c" "\<forall>(c, ev) \<in> set ?xs. pc_reload c = None"
    by (simp_all add: demo_providers_ok)
  with providers_history_sound [OF demo_providers_ok(1,3,4) this(1) prod.collapse [of "providers_history demo_providers_env ?xs empty_store"]]
  show ?thesis by (simp only: Let_def)
qed

section \<open>A created provider serves its models\<close>

lemma then_reload_Inr:
  assumes "then_reload E c none answer (statement c f S) = (Inr reply, S2)"
  obtains row rows S1 where "f S = Inr (row # rows, S1)" "reply = answer row"
    "S2 = S1\<lparr>tb_registry := (tb_registry S1)\<lparr>rg_snapshot := fresh_snapshot E S1, rg_loadedAtMs := pc_loadedAt c\<rparr>\<rparr>"
  using assms that
  by (auto simp: then_reload_def statement_def registry_load_def split: option.splits sum.splits list.splits prod.splits)

lemma fresh_snapshot_registry [simp]: "fresh_snapshot E (S\<lparr>tb_registry := g\<rparr>) = fresh_snapshot E S"
  by (simp add: fresh_snapshot_def registry_rows_def)


definition demo_model_body :: json where
  "demo_model_body = JObj [(''modelId'', JStr ''m'')]"

definition demo_model :: CreateModel where
  "demo_model = \<lparr>md_modelId = ''m'', md_displayName = None, md_contextWindow = None, md_maxOutputTokens = None,
     md_inputPricePer1k = None, md_outputPricePer1k = None, md_supportsStreaming = None, md_supportsTools = None,
     md_supportsVision = None, md_isActive = None\<rparr>"

lemma demo_model_schema: "modelSchema (body_or_empty demo_model_body) = Some demo_model"
  by (simp add: modelSchema_def demo_model_body_def demo_model_def body_or_empty_def z_defs z_nonempty_def)

lemma demo_model_made:
  "is_ok (fst (providersRoutes demo_providers_env (demo_call 2) (Create_model demo_id demo_model_body) demo_created))"
proof -
  have "is_uuid demo_id" using demo_uuid by (simp add: demo_id_def)
  moreover have "price_column demo_providers_env (md_inputPricePer1k demo_model) = Inr None"
      "price_column demo_providers_env (md_outputPricePer1k demo_model) = Inr None"
    by (simp_all add: price_column_def demo_model_def)
  ultimately show ?thesis
    by (simp add: models_create_def parseProviderId_def demo_model_schema then_reload_def statement_def insert_model_def
      demo_created(2,3) registry_load_def new_provider_def)
qed


section \<open>A deletion is exact and reversible\<close>

lemma loaded_provider:
  "i \<notin> pr_id ` set rows \<Longrightarrow> getProvider (load_snapshot D rows) i = None"
proof -
  have "map_of (providersById (fold (load_row D) rows snap)) i = map_of (providersById snap) i"
    if "i \<notin> pr_id ` set rows" for snap
    using that by (induction rows arbitrary: snap) (auto simp: load_row_def update_conv' Let_def split: sum.splits)
  then show "i \<notin> pr_id ` set rows \<Longrightarrow> ?thesis"
    by (simp add: getProvider_def load_snapshot_def Let_def empty_snapshot_def)
qed

lemma resolved_from_rows:
  "c \<in> set (candidates (resolveCandidates (load_snapshot D rows) m)) \<Longrightarrow> p_id (mc_provider c) \<in> pr_id ` set rows"
  by (auto simp: resolveCandidates_def load_snapshot_candidates serving_member row_provider_def split: option.splits if_splits)

lemma registry_rows_cong:
  assumes "\<And>r. r \<in> set (tb_providers S) \<Longrightarrow> pe_isActive (g r) = pe_isActive r \<and> joined_row (tb_models S) (g r) = joined_row (tb_models S) r"
  shows "registry_rows (S\<lparr>tb_providers := map g (tb_providers S)\<rparr>) = registry_rows S"
proof -
  have "map (joined_row ms) (filter pe_isActive (map g rs)) = map (joined_row ms) (filter pe_isActive rs)"
    if "\<forall>r \<in> set rs. pe_isActive (g r) = pe_isActive r \<and> joined_row ms (g r) = joined_row ms r" for ms rs
    using that by (induction rs) auto
  with assms show ?thesis by (simp add: registry_rows_def)
qed

definition reactivation :: json where
  "reactivation = JObj [(''isActive'', JBool True)]"

lemma reactivation_schema:
  "patchProviderSchema U (body_or_empty reactivation) = Some \<lparr>up_name = None, up_baseUrl = None, up_apiKey = None,
     up_weight = None, up_priority = None, up_isActive = Some True, up_healthCheckUrl = None, up_timeoutMs = None\<rparr>"
  by (simp add: patchProviderSchema_def reactivation_def body_or_empty_def z_defs)



text \<open>
  The loads of the registry are not ordered: a refresh whose query ran before a deletion and whose
  answer arrives after it puts the deleted provider back, until the next load.
\<close>

lemma deleted_provider_returns:
  assumes "synced E S"
  shows "rg_snapshot (snd (load_done (decrypt (pv_cipher E) (pv_deployment E)) ttl now (Inr (registry_rows S)) later)) =
    rg_snapshot (tb_registry S)"
  using assms by (simp add: load_done_def synced_def fresh_snapshot_def)

section \<open>Credentials are write-only\<close>

definition same_but_key :: "provider_entry \<Rightarrow> provider_entry \<Rightarrow> bool" where
  "same_but_key r r' \<longleftrightarrow> r\<lparr>pe_encryptedApiKey := []\<rparr> = r'\<lparr>pe_encryptedApiKey := []\<rparr> \<and>
     (pe_encryptedApiKey r = [] \<longleftrightarrow> pe_encryptedApiKey r' = [])"

definition same_public :: "provider_store \<Rightarrow> provider_store \<Rightarrow> bool" where
  "same_public S S' \<longleftrightarrow> list_all2 same_but_key (tb_providers S) (tb_providers S') \<and> tb_models S = tb_models S' \<and>
     tb_health S = tb_health S'"

definition same_request :: "providers_env \<Rightarrow> provider_event \<Rightarrow> provider_event \<Rightarrow> bool" where
  "same_request E ev ev' \<longleftrightarrow> ev = ev' \<or>
     (\<exists>body body' b k. ev = Create_provider body \<and> ev' = Create_provider body' \<and>
        createProviderSchema (pv_url E) (body_or_empty body) = Some b \<and>
        createProviderSchema (pv_url E) (body_or_empty body') = Some (b\<lparr>cp_apiKey := k\<rparr>)) \<or>
     (\<exists>i body body' b k k'. ev = Patch_provider i body \<and> ev' = Patch_provider i body' \<and>
        patchProviderSchema (pv_url E) (body_or_empty body) = Some (b\<lparr>up_apiKey := Some k\<rparr>) \<and>
        patchProviderSchema (pv_url E) (body_or_empty body') = Some (b\<lparr>up_apiKey := Some k'\<rparr>))"

definition same_outcome :: "('a \<times> provider_store) \<Rightarrow> ('a \<times> provider_store) \<Rightarrow> bool" where
  "same_outcome r r' \<longleftrightarrow> fst r = fst r' \<and> same_public (snd r) (snd r')"

definition same_rows ::
  "('a \<Rightarrow> 'a \<Rightarrow> bool) \<Rightarrow> (thrown, 'a list \<times> provider_store) result \<Rightarrow> (thrown, 'a list \<times> provider_store) result \<Rightarrow> bool" where
  "same_rows Q r r' \<longleftrightarrow> (case (r, r') of
     (Inl e, Inl e') \<Rightarrow> e = e'
   | (Inr (out, S), Inr (out', S')) \<Rightarrow> list_all2 Q out out' \<and> same_public S S'
   | _ \<Rightarrow> False)"

lemma same_but_keyD:
  assumes "same_but_key r r'"
  shows "pe_id r = pe_id r'" "pe_name r = pe_name r'" "toProviderDto r = toProviderDto r'"
    "same_but_key (r\<lparr>pe_isActive := a, pe_updatedAt := t\<rparr>) (r'\<lparr>pe_isActive := a, pe_updatedAt := t\<rparr>)"
  using assms by (cases r; cases r'; auto simp: same_but_key_def toProviderDto_def)+

lemma same_but_key_patch:
  assumes "same_but_key r r'" "rel_option (\<lambda>w w'. w \<noteq> [] \<and> w' \<noteq> []) e e'" "b\<lparr>up_apiKey := None\<rparr> = b'\<lparr>up_apiKey := None\<rparr>"
  shows "same_but_key (patched_provider c e b r) (patched_provider c e' b' r')"
  using assms
  by (cases r; cases r'; cases b; cases b'; cases e; cases e') (auto simp: same_but_key_def patched_provider_def)

lemma then_reload_same:
  assumes "same_public S S'" "same_rows Q (f S) (f' S')" "\<And>r r'. Q r r' \<Longrightarrow> answer r = answer r'"
  shows "same_outcome (then_reload E c none answer (statement c f S)) (then_reload E c none answer (statement c f' S'))"
proof -
  have "same_public (snd (registry_load E c T)) (snd (registry_load E c T'))" "fst (registry_load E c T) = fst (registry_load E c T')"
    if "same_public T T'" for T T'
    using that by (auto simp: registry_load_def same_public_def split: option.split)
  with assms show ?thesis
    by (fastforce simp: then_reload_def statement_def same_rows_def same_outcome_def
      split: option.splits sum.splits list.splits prod.splits)
qed

lemma update_providers_same:
  assumes "same_public S S'" "\<And>r r'. same_but_key r r' \<Longrightarrow> same_but_key (f r) (f' r')"
  shows "same_rows same_but_key (Inr (update_providers i f S)) (Inr (update_providers i f' S'))"
proof -
  have "list_all2 same_but_key (map f (filter (\<lambda>r. pe_id r = i) rs)) (map f' (filter (\<lambda>r. pe_id r = i) rs')) \<and>
      list_all2 same_but_key (map (\<lambda>r. if pe_id r = i then f r else r) rs) (map (\<lambda>r. if pe_id r = i then f' r else r) rs')"
    if "list_all2 same_but_key rs rs'" for rs rs'
    using that by (induction rule: list_all2_induct) (use assms(2) same_but_keyD(1) in auto)
  with assms(1) show ?thesis by (simp add: same_rows_def update_providers_def same_public_def)
qed

lemma same_public_ids:
  assumes "same_public S S'"
  shows "map pe_id (tb_providers S) = map pe_id (tb_providers S')" "map pe_name (tb_providers S) = map pe_name (tb_providers S')"
    "map toProviderDto (tb_providers S) = map toProviderDto (tb_providers S')"
    "map toProviderDto (filter (\<lambda>r. pe_id r = i) (tb_providers S)) = map toProviderDto (filter (\<lambda>r. pe_id r = i) (tb_providers S'))"
    "map (\<lambda>r. (pe_id r, pe_name r)) (tb_providers S) = map (\<lambda>r. (pe_id r, pe_name r)) (tb_providers S')"
proof -
  have "map pe_id rs = map pe_id rs' \<and> map pe_name rs = map pe_name rs' \<and> map toProviderDto rs = map toProviderDto rs' \<and>
      map toProviderDto (filter (\<lambda>r. pe_id r = i) rs) = map toProviderDto (filter (\<lambda>r. pe_id r = i) rs') \<and>
      map (\<lambda>r. (pe_id r, pe_name r)) rs = map (\<lambda>r. (pe_id r, pe_name r)) rs'"
    if "list_all2 same_but_key rs rs'" for rs rs'
    using that by (induction rule: list_all2_induct) (simp_all add: same_but_keyD)
  with assms show "map pe_id (tb_providers S) = map pe_id (tb_providers S')" "map pe_name (tb_providers S) = map pe_name (tb_providers S')"
    "map toProviderDto (tb_providers S) = map toProviderDto (tb_providers S')"
    "map toProviderDto (filter (\<lambda>r. pe_id r = i) (tb_providers S)) = map toProviderDto (filter (\<lambda>r. pe_id r = i) (tb_providers S'))"
    "map (\<lambda>r. (pe_id r, pe_name r)) (tb_providers S) = map (\<lambda>r. (pe_id r, pe_name r)) (tb_providers S')"
    by (simp_all add: same_public_def)
qed

lemma same_public_ex:
  "same_public S S' \<Longrightarrow> (\<exists>r \<in> set (tb_providers S). P (pe_id r) (pe_name r)) \<longleftrightarrow> (\<exists>r \<in> set (tb_providers S'). P (pe_id r) (pe_name r))"
proof -
  assume "same_public S S'"
  from arg_cong [OF same_public_ids(5) [OF this], of set] have "(\<lambda>r. (pe_id r, pe_name r)) ` set (tb_providers S) = (\<lambda>r. (pe_id r, pe_name r)) ` set (tb_providers S')"
    by simp
  then have "(\<exists>p \<in> (\<lambda>r. (pe_id r, pe_name r)) ` set (tb_providers S). P (fst p) (snd p)) \<longleftrightarrow>
      (\<exists>p \<in> (\<lambda>r. (pe_id r, pe_name r)) ` set (tb_providers S'). P (fst p) (snd p))" by simp
  then show ?thesis by simp
qed

lemma insert_provider_same:
  assumes "same_public S S'" "envelope \<noteq> []" "envelope' \<noteq> []"
  shows "same_rows same_but_key (insert_provider E c envelope b S) (insert_provider E c envelope' (b\<lparr>cp_apiKey := k\<rparr>) S')"
proof -
  have "same_but_key (new_provider c envelope b) (new_provider c envelope' (b\<lparr>cp_apiKey := k\<rparr>))"
    using assms(2,3) by (simp add: same_but_key_def new_provider_def)
  with assms(1) same_public_ex [OF assms(1), of "\<lambda>i n. i = pc_uuid c \<or> n = cp_name b"] show ?thesis
    by (auto simp: insert_provider_def same_rows_def same_public_def intro: list_all2_appendI)
qed

lemma patch_provider_same:
  assumes "same_public S S'" "rel_option (\<lambda>w w'. w \<noteq> [] \<and> w' \<noteq> []) e e'" "b\<lparr>up_apiKey := None\<rparr> = b'\<lparr>up_apiKey := None\<rparr>"
  shows "same_rows same_but_key (patch_provider E c i e b S) (patch_provider E c i e' b' S')"
proof -
  have "up_name b = up_name b'" using assms(3) by (cases b; cases b') simp
  with same_public_ex [OF assms(1), of "\<lambda>j n. j = i"] same_public_ex [OF assms(1), of "\<lambda>j n. j \<noteq> i \<and> up_name b = Some n"]
    update_providers_same [OF assms(1), of "patched_provider c e b" "patched_provider c e' b'" i]
      same_but_key_patch [OF _ assms(2,3), of _ _ c]
  show ?thesis by (simp add: patch_provider_def same_rows_def)
qed

lemma delete_provider_same:
  "same_public S S' \<Longrightarrow> same_rows same_but_key (delete_provider c i S) (delete_provider c i S')"
  unfolding delete_provider_def by (rule update_providers_same) (simp_all add: same_but_keyD(4))

lemma insert_model_same: "same_public S S' \<Longrightarrow> same_rows (=) (insert_model E c i b S) (insert_model E c i b S')"
  using same_public_ex [of S S' "\<lambda>j n. j = i"]
  by (auto simp: insert_model_def same_rows_def same_public_def list.rel_eq split: sum.split)

lemma delete_models_same: "same_public S S' \<Longrightarrow> same_rows (=) (delete_models i m S) (delete_models i m S')"
  by (simp add: delete_models_def same_rows_def same_public_def list.rel_eq Let_def)

lemma reads_same:
  assumes "same_public S S'"
  shows "same_outcome (providers_list c S) (providers_list c S')" "same_outcome (providers_read c i S) (providers_read c i S')"
    "same_outcome (models_list c i S) (models_list c i S')" "same_outcome (health_read c i S) (health_read c i S')"
proof -
  have h: "tb_models S = tb_models S'" "tb_health S = tb_health S'" using assms by (simp_all add: same_public_def)
  have "map (JObj \<circ> toProviderDto) (tb_providers S) = map (JObj \<circ> toProviderDto) (tb_providers S')"
    using same_public_ids(3) [OF assms] by (simp flip: map_map)
  then show "same_outcome (providers_list c S) (providers_list c S')"
    using assms by (simp add: same_outcome_def providers_list_def select_rows comp_def split: option.split)
  have "(case filter (\<lambda>r. pe_id r = i) (tb_providers S) of [] \<Rightarrow> Inl (e :: thrown) | r # _ \<Rightarrow> Inr (json_reply 200 (JObj (toProviderDto r)))) =
      (case filter (\<lambda>r. pe_id r = i) (tb_providers S') of [] \<Rightarrow> Inl e | r # _ \<Rightarrow> Inr (json_reply 200 (JObj (toProviderDto r))))" for e
    using same_public_ids(4) [OF assms, of i] by (auto split: list.split)
  moreover have "providers_read c i T = (if \<not> is_uuid i then (Inl (TGateway (ValidationError ''Invalid id.'' (no_options\<lparr>opt_param := Some ''id''\<rparr>))), T)
      else case pc_database c of Some e \<Rightarrow> (Inl e, T) | None \<Rightarrow>
        ((case filter (\<lambda>r. pe_id r = i) (tb_providers T) of [] \<Rightarrow> Inl (not_found ''Provider not found.'')
          | r # _ \<Rightarrow> Inr (json_reply 200 (JObj (toProviderDto r)))), T))" for T
    by (auto simp: providers_read_def parseProviderId_def select_rows split: option.split list.split)
  ultimately show "same_outcome (providers_read c i S) (providers_read c i S')"
    using assms by (simp add: same_outcome_def split: option.split)
  show "same_outcome (models_list c i S) (models_list c i S')"
    using assms h by (simp add: same_outcome_def models_list_def parseProviderId_def select_rows split: option.split)
  show "same_outcome (health_read c i S) (health_read c i S')"
    using assms h by (simp add: same_outcome_def health_read_def parseProviderId_def select_rows split: option.split)
qed

lemma create_same:
  assumes "env_ok E" "same_public S S'" "createProviderSchema (pv_url E) (body_or_empty body) = Some b"
    and "createProviderSchema (pv_url E) (body_or_empty body') = Some (b\<lparr>cp_apiKey := k\<rparr>)"
  shows "same_outcome (providers_create E c body S) (providers_create E c body' S')"
proof -
  obtain w w' where e: "encrypt (pv_cipher E) (pc_iv c) (cp_apiKey b) (de_master (pv_deployment E)) = Inr w" "w \<noteq> []"
      "encrypt (pv_cipher E) (pc_iv c) k (de_master (pv_deployment E)) = Inr w'" "w' \<noteq> []"
    using encrypted [OF assms(1)] by metis
  then show ?thesis
    by (simp add: providers_create_def assms(3,4)
      then_reload_same [where f = "insert_provider E c w b" and f' = "insert_provider E c w' (b\<lparr>cp_apiKey := k\<rparr>)",
        OF assms(2) insert_provider_same [OF assms(2) e(2,4)]] same_but_keyD(3))
qed

lemma patch_same:
  assumes "env_ok E" "same_public S S'" "patchProviderSchema (pv_url E) (body_or_empty body) = Some b"
    and "patchProviderSchema (pv_url E) (body_or_empty body') = Some b'"
    and "b\<lparr>up_apiKey := None\<rparr> = b'\<lparr>up_apiKey := None\<rparr>" "up_apiKey b = None \<longleftrightarrow> up_apiKey b' = None"
  shows "same_outcome (providers_patch E c i body S) (providers_patch E c i body' S')"
proof -
  let ?enc = "\<lambda>b. new_envelope E c (up_apiKey b)"
  obtain w w' where e: "?enc b = Inr w" "?enc b' = Inr w'" "rel_option (\<lambda>w w'. w \<noteq> [] \<and> w' \<noteq> []) w w'"
  proof (cases "up_apiKey b")
    case None
    with assms(6) that [of None None] show thesis by (simp add: new_envelope_def)
  next
    case (Some k)
    with assms(6) obtain k' where k': "up_apiKey b' = Some k'" by auto
    obtain w w' where "encrypt (pv_cipher E) (pc_iv c) k (de_master (pv_deployment E)) = Inr w" "w \<noteq> []"
        "encrypt (pv_cipher E) (pc_iv c) k' (de_master (pv_deployment E)) = Inr w'" "w' \<noteq> []"
      using encrypted [OF assms(1)] by metis
    with Some k' that [of "Some w" "Some w'"] show thesis by (simp add: new_envelope_def)
  qed
  show ?thesis
    using e(1,2) assms(2) then_reload_same [where f = "patch_provider E c i w b" and f' = "patch_provider E c i w' b'",
        OF assms(2) patch_provider_same [OF assms(2) e(3) assms(5)]]
    by (auto simp: providers_patch_def parseProviderId_def assms(3,4) same_but_keyD(3) same_outcome_def)
qed

lemma routes_same:
  assumes "env_ok E" "same_public S S'" "same_request E ev ev'"
  shows "same_outcome (providersRoutes E c ev S) (providersRoutes E c ev' S')"
  using assms(3) unfolding same_request_def
proof (elim disjE exE conjE)
  assume ev: "ev = ev'"
  show ?thesis
  proof (cases ev')
    case (Create_provider body)
    show ?thesis
    proof (cases "createProviderSchema (pv_url E) (body_or_empty body)")
      case (Some b)
      then show ?thesis using create_same [OF assms(1,2), of body b body "cp_apiKey b"] by (simp add: ev Create_provider)
    qed (simp add: ev Create_provider providers_create_def same_outcome_def assms(2))
  next
    case (Patch_provider i body)
    show ?thesis
    proof (cases "patchProviderSchema (pv_url E) (body_or_empty body)")
      case (Some b)
      then show ?thesis using patch_same [OF assms(1,2)] by (simp add: ev Patch_provider)
    qed (simp add: ev Patch_provider providers_patch_def parseProviderId_def same_outcome_def assms(2))
  next
    case (Delete_provider i)
    have "same_outcome (providers_delete E c i S) (providers_delete E c i S')"
      using then_reload_same [where f = "delete_provider c i" and f' = "delete_provider c i", OF assms(2) delete_provider_same [OF assms(2)]] assms(2)
      by (simp add: providers_delete_def parseProviderId_def same_but_keyD(1) same_outcome_def)
    then show ?thesis by (simp add: ev Delete_provider)
  next
    case (Create_model i body)
    have "same_outcome (models_create E c i body S) (models_create E c i body S')"
      using then_reload_same [where f = "insert_model E c i _" and f' = "insert_model E c i _", OF assms(2) insert_model_same [OF assms(2)]] assms(2)
      by (simp add: models_create_def parseProviderId_def same_outcome_def split: option.split)
    then show ?thesis by (simp add: ev Create_model)
  next
    case (Delete_model i m)
    have "same_outcome (models_delete E c i m S) (models_delete E c i m S')"
      using then_reload_same [where f = "delete_models i m" and f' = "delete_models i m", OF assms(2) delete_models_same [OF assms(2)]] assms(2)
      by (simp add: models_delete_def parseModelParams_def same_outcome_def)
    then show ?thesis by (simp add: ev Delete_model)
  qed (simp_all add: ev reads_same assms(2))
next
  fix body body' b k
  assume "ev = Create_provider body" "ev' = Create_provider body'"
    "createProviderSchema (pv_url E) (body_or_empty body) = Some b"
    "createProviderSchema (pv_url E) (body_or_empty body') = Some (b\<lparr>cp_apiKey := k\<rparr>)"
  with create_same [OF assms(1,2)] show ?thesis by simp
next
  fix i body body' b k k'
  assume "ev = Patch_provider i body" "ev' = Patch_provider i body'"
    "patchProviderSchema (pv_url E) (body_or_empty body) = Some (b\<lparr>up_apiKey := Some k\<rparr>)"
    "patchProviderSchema (pv_url E) (body_or_empty body') = Some (b\<lparr>up_apiKey := Some k'\<rparr>)"
  with patch_same [OF assms(1,2)] show ?thesis by simp
qed

text \<open>
  C13. Credentials are write-only.  Over two stores that differ only in stored credentials, two
  histories of calls that differ only in the credentials they send get the same replies, errors
  included: no endpoint shows, directly or by what it answers later, anything of a credential but
  that there is one.
\<close>

theorem credentials_write_only:
  assumes "env_ok E" and "same_public S S'" and "length xs = length xs'"
    and "\<forall>((c, ev), (c', ev')) \<in> set (zip xs xs'). c = c' \<and> same_request E ev ev'"
  shows "fst (providers_history E xs S) = fst (providers_history E xs' S')"
  using assms(3,2,4)
proof (induction xs xs' arbitrary: S S' rule: list_induct2)
  case (Cons x xs x' xs')
  obtain c ev ev' where x: "x = (c, ev)" "x' = (c, ev')" "same_request E ev ev'"
    using Cons.prems(2) by (cases x; cases x') auto
  obtain reply S1 S1' where r: "providersRoutes E c ev S = (reply, S1)" "providersRoutes E c ev' S' = (reply, S1')" "same_public S1 S1'"
    using routes_same [OF assms(1) Cons.prems(1) x(3), of c] by (auto simp: same_outcome_def prod_eq_iff)
  with Cons.IH [OF r(3)] Cons.prems(2) show ?case by (simp add: x(1,2) split: prod.split) (metis fst_conv)
qed simp

theorem credentials_write_only_witness:
  "fst (providers_history demo_providers_env
      [(demo_call 1, Create_provider (demo_provider_body ''sk-1'')), (demo_call 2, List_providers)] empty_store) =
   fst (providers_history demo_providers_env
      [(demo_call 1, Create_provider (demo_provider_body ''sk-2'')), (demo_call 2, List_providers)] empty_store)"
proof (rule credentials_write_only [OF demo_providers_ok(1)])
  have "demo_provider_request ''sk-2'' = demo_provider_request ''sk-1'' \<lparr>cp_apiKey := ''sk-2''\<rparr>" by (simp add: demo_provider_request_def)
  then have "same_request demo_providers_env (Create_provider (demo_provider_body ''sk-1'')) (Create_provider (demo_provider_body ''sk-2''))"
    unfolding same_request_def by (metis demo_provider_schema list.distinct(1))
  then show "\<forall>((c, ev), (c', ev')) \<in> set (zip [(demo_call 1, Create_provider (demo_provider_body ''sk-1'')), (demo_call 2, List_providers)]
      [(demo_call 1, Create_provider (demo_provider_body ''sk-2'')), (demo_call 2, List_providers)]).
      c = c' \<and> same_request demo_providers_env ev ev'"
    by (simp add: same_request_def)
qed (simp_all add: same_public_def empty_store_def)

end
