(* ===== verification/Migrations.thy ===== *)
theory Migrations
  imports Config Dates
begin

text \<open>
  The scripts that maintain the schema: the migration runner (\<open>scripts/migrate.ts\<close>) over a database
  whose schema, statements and failures are parameters, and the job that creates the partition of
  the next month (\<open>scripts/create-partition.ts\<close> with the SQL function that it calls).
\<close>

section \<open>The migration runner\<close>

definition NO_TX_DIRECTIVE :: string where
  "NO_TX_DIRECTIVE = ''-- migrate:no-transaction''"

record 's ledger_db =
  lb_schema :: 's
  lb_ledger :: "string list"

text \<open>
  The server: a script runs, or fails and leaves (outside a transaction) what it leaves; the insert
  into the ledger and the commit can fail.
\<close>

record 's migration_server =
  sv_query :: "string \<Rightarrow> 's \<Rightarrow> (thrown, unit) result \<times> 's"
  sv_insert :: "string \<Rightarrow> thrown option"
  sv_commit :: "string \<Rightarrow> thrown option"
  sv_unique_violation :: thrown

definition insert_ledger :: "'s migration_server \<Rightarrow> string \<Rightarrow> 's ledger_db \<Rightarrow> (thrown, unit) result \<times> 's ledger_db" where
  "insert_ledger V name d =
     (case sv_insert V name of
        Some e \<Rightarrow> (Inl e, d)
      | None \<Rightarrow>
          if name \<in> set (lb_ledger d) then (Inl (sv_unique_violation V), d)
          else (Inr (), d\<lparr>lb_ledger := lb_ledger d @ [name]\<rparr>))"

definition applyTransactional ::
  "'s migration_server \<Rightarrow> string \<Rightarrow> string \<Rightarrow> 's ledger_db \<Rightarrow> (thrown, unit) result \<times> 's ledger_db" where
  "applyTransactional V name sql d =
     (case sv_query V sql (lb_schema d) of
        (Inl e, _) \<Rightarrow> (Inl e, d)
      | (Inr _, s1) \<Rightarrow>
          (case insert_ledger V name (d\<lparr>lb_schema := s1\<rparr>) of
             (Inl e, _) \<Rightarrow> (Inl e, d)
           | (Inr _, d2) \<Rightarrow> (case sv_commit V name of Some e \<Rightarrow> (Inl e, d) | None \<Rightarrow> (Inr (), d2))))"

definition applyNonTransactional ::
  "'s migration_server \<Rightarrow> string \<Rightarrow> string \<Rightarrow> 's ledger_db \<Rightarrow> (thrown, unit) result \<times> 's ledger_db" where
  "applyNonTransactional V name sql d =
     (case sv_query V sql (lb_schema d) of
        (Inl e, s1) \<Rightarrow> (Inl e, d\<lparr>lb_schema := s1\<rparr>)
      | (Inr _, s1) \<Rightarrow> insert_ledger V name (d\<lparr>lb_schema := s1\<rparr>))"

definition apply_file :: "'s migration_server \<Rightarrow> string \<times> string \<Rightarrow> 's ledger_db \<Rightarrow> (thrown, unit) result \<times> 's ledger_db" where
  "apply_file V f d =
     (if \<not> includes_sub (snd f) NO_TX_DIRECTIVE then applyTransactional V (fst f) (snd f) d
      else applyNonTransactional V (fst f) (snd f) d)"

fun migrate_loop ::
  "'s migration_server \<Rightarrow> string set \<Rightarrow> (string \<times> string) list \<Rightarrow> nat \<Rightarrow> 's ledger_db \<Rightarrow> (thrown, nat) result \<times> 's ledger_db" where
  "migrate_loop V applied [] appliedCount d = (Inr appliedCount, d)"
| "migrate_loop V applied (f # fs) appliedCount d =
     (if fst f \<in> applied then migrate_loop V applied fs appliedCount d
      else (case apply_file V f d of
              (Inl e, d1) \<Rightarrow> (Inl e, d1)
            | (Inr _, d1) \<Rightarrow> migrate_loop V applied fs (Suc appliedCount) d1))"

text \<open>The directory is a list of names with their contents; \<open>localeCompare\<close> is a parameter.\<close>

definition migration_files :: "(string \<Rightarrow> string \<Rightarrow> int) \<Rightarrow> (string \<times> string) list \<Rightarrow> (string \<times> string) list" where
  "migration_files compare dir = sort_by (\<lambda>a b. compare (fst a) (fst b)) (filter (\<lambda>f. endsWith (fst f) ''.sql'') dir)"

definition migrate ::
  "'s migration_server \<Rightarrow> (string \<Rightarrow> string \<Rightarrow> int) \<Rightarrow> (string \<times> string) list \<Rightarrow> 's ledger_db \<Rightarrow> (thrown, nat) result \<times> 's ledger_db" where
  "migrate V compare dir d = migrate_loop V (set (lb_ledger d)) (migration_files compare dir) 0 d"

section \<open>Interrupted migrations\<close>

text \<open>One server can go on where the other failed: what succeeds on the one succeeds alike on the other.\<close>

definition goes_on :: "'s migration_server \<Rightarrow> 's migration_server \<Rightarrow> bool" where
  "goes_on V V' \<longleftrightarrow> (\<forall>sql s s'. sv_query V sql s = (Inr (), s') \<longrightarrow> sv_query V' sql s = (Inr (), s')) \<and>
     (\<forall>n. sv_insert V' n = None) \<and> (\<forall>n. sv_commit V' n = None)"

lemma migrate_loop_pending:
  "migrate_loop V applied fs n d = migrate_loop V {} (filter (\<lambda>f. fst f \<notin> applied) fs) n d"
  by (induction fs arbitrary: n d) (auto split: prod.splits sum.splits)

lemma apply_transactional:
  assumes "\<not> includes_sub (snd f) NO_TX_DIRECTIVE"
  shows "apply_file V f d = (Inl e, d1) \<Longrightarrow> d1 = d"
    "apply_file V f d = (Inr u, d1) \<Longrightarrow> lb_ledger d1 = lb_ledger d @ [fst f] \<and> fst f \<notin> set (lb_ledger d)"
    "apply_file V f d = (Inr u, d1) \<Longrightarrow> goes_on V V' \<Longrightarrow> apply_file V' f d = (Inr u, d1)"
  using assms
  by (auto simp: apply_file_def applyTransactional_def insert_ledger_def goes_on_def
      split: prod.splits sum.splits option.splits if_splits)

lemma migrate_loop_count: "migrate_loop V {} fs n d = (r, d') \<Longrightarrow> migrate_loop V {} fs m d = (map_sum id (\<lambda>k. k - n + m) r, d')"
proof (induction fs arbitrary: n m d)
  case (Cons f fs)
  show ?case
  proof (cases "apply_file V f d")
    case (Pair r1 d1)
    show ?thesis
    proof (cases r1)
      case (Inr u)
      with Pair Cons.prems have l: "migrate_loop V {} fs (Suc n) d1 = (r, d')" by simp
      have "n < k" if "r = Inr k" for k
      proof -
        have "migrate_loop V {} xs j x = (Inr k, y) \<Longrightarrow> j \<le> k" for xs j x y
          by (induction xs arbitrary: j x) (fastforce split: prod.splits sum.splits)+
        with l that show ?thesis by fastforce
      qed
      with Cons.IH [OF l, of "Suc m"] Pair Inr show ?thesis by (cases r) auto
    qed (use Pair Cons.prems in auto)
  qed
qed auto

text \<open>A run over pending transactional files: it goes through, or stops before a file and leaves the prefix applied.\<close>

lemma migrate_loop_stops:
  assumes "\<forall>f \<in> set fs. \<not> includes_sub (snd f) NO_TX_DIRECTIVE" "goes_on V V'" "migrate_loop V {} fs n d = (r, d1)"
  obtains before after where "fs = before @ after" "migrate_loop V' {} before n d = (Inr (n + length before), d1)"
    "lb_ledger d1 = lb_ledger d @ map fst before" "is_ok r \<longrightarrow> after = []"
  using assms
proof (induction fs arbitrary: n d thesis)
  case (Cons f fs)
  obtain r1 d2 where a: "apply_file V f d = (r1, d2)" by fastforce
  show ?case
  proof (cases r1)
    case (Inl e)
    with a Cons.prems apply_transactional(1) [of f V d e d2] have "d1 = d" "r = Inl e" by auto
    then show ?thesis by (intro Cons.prems(1) [of "[]" "f # fs"]) simp_all
  next
    case (Inr u)
    with a Cons.prems have l: "migrate_loop V {} fs (Suc n) d2 = (r, d1)" by simp
    have f: "lb_ledger d2 = lb_ledger d @ [fst f]" "apply_file V' f d = (Inr u, d2)"
      using apply_transactional(2,3) [of f V d u d2] a Inr Cons.prems(2,3) by auto
    from Cons.IH [OF _ _ Cons.prems(3) l] Cons.prems(2) obtain before after where
      "fs = before @ after" "migrate_loop V' {} before (Suc n) d2 = (Inr (Suc n + length before), d1)"
      "lb_ledger d1 = lb_ledger d2 @ map fst before" "is_ok r \<longrightarrow> after = []" by auto
    with f show ?thesis by (intro Cons.prems(1) [of "f # before" after]) simp_all
  qed
qed auto

lemma migrate_loop_append:
  "migrate_loop V {} (xs @ ys) n d =
     (case migrate_loop V {} xs n d of (Inl e, d1) \<Rightarrow> (Inl e, d1) | (Inr m, d1) \<Rightarrow> migrate_loop V {} ys m d1)"
  by (induction xs arbitrary: n d) (auto split: prod.splits sum.splits)

lemma pending_after:
  assumes "distinct (map fst fs)" "filter (\<lambda>f. fst f \<notin> L) fs = before @ after"
  shows "filter (\<lambda>f. fst f \<notin> L \<union> fst ` set before) fs = after"
proof -
  have "filter (\<lambda>f. fst f \<notin> L \<union> fst ` set before) fs = filter (\<lambda>f. fst f \<notin> fst ` set before) (before @ after)"
    unfolding assms(2) [symmetric] filter_filter by (rule filter_cong) auto
  moreover have "distinct (map fst (before @ after))"
    unfolding assms(2) [symmetric] using assms(1) by (rule distinct_map_filter)
  then have "\<forall>f \<in> set after. fst f \<notin> fst ` set before" by auto
  ultimately show ?thesis by (simp add: filter_empty_conv filter_id_conv)
qed

text \<open>
  C31. Migrations can be interrupted and repeated.  When every file is transactional, then after a
  run that failed anywhere, a run that goes through brings the database to the state that a single
  run without the failure would have produced; and a further run applies nothing and changes
  nothing.
\<close>

theorem migrations_resume:
  assumes "distinct (map fst dir)" and "\<forall>f \<in> set dir. \<not> includes_sub (snd f) NO_TX_DIRECTIVE" and "goes_on V V'"
    and "(r1, d1) = migrate V compare dir d" and "(Inr n2, d2) = migrate V' compare dir d1"
  shows "fst (migrate V' compare dir d2) = Inr 0 \<and> snd (migrate V' compare dir d2) = d2 \<and>
    (\<exists>n. migrate V' compare dir d = (Inr n, d2))"
proof -
  let ?fs = "migration_files compare dir"
  let ?todo = "\<lambda>d. filter (\<lambda>f. fst f \<notin> set (lb_ledger d)) ?fs"
  have files: "distinct (map fst ?fs)" "\<forall>f \<in> set ?fs. \<not> includes_sub (snd f) NO_TX_DIRECTIVE"
    using assms(1,2) by (auto simp: migration_files_def distinct_map inj_on_def)
  have run: "migrate W compare dir x = migrate_loop W {} (?todo x) 0 x" for W x
    unfolding migrate_def by (rule migrate_loop_pending)
  have g: "goes_on V' V'" using assms(3) by (simp add: goes_on_def)
  have "\<forall>f \<in> set (?todo d). \<not> includes_sub (snd f) NO_TX_DIRECTIVE" using files(2) by simp
  moreover have "migrate_loop V {} (?todo d) 0 d = (r1, d1)" using assms(4) by (simp add: run)
  ultimately obtain before after where s: "?todo d = before @ after" "migrate_loop V' {} before 0 d = (Inr (0 + length before), d1)"
      "lb_ledger d1 = lb_ledger d @ map fst before"
    using migrate_loop_stops [OF _ assms(3)] by metis
  have "?todo d1 = after" using pending_after [OF files(1) s(1)] by (simp add: s(3))
  with assms(5) have l: "migrate_loop V' {} after 0 d1 = (Inr n2, d2)" by (simp add: run)
  then have "\<exists>n. migrate V' compare dir d = (Inr n, d2)"
    using migrate_loop_count [OF l, of "length before"] by (simp add: run s(1) migrate_loop_append s(2))
  moreover have "?todo d2 = []"
  proof -
    have "\<forall>f \<in> set after. \<not> includes_sub (snd f) NO_TX_DIRECTIVE" using files(2) s(1) by (metis Un_iff filter_is_subset set_append subsetD)
    from migrate_loop_stops [OF this g l] obtain before' after' where
      "after = before' @ after'" "lb_ledger d2 = lb_ledger d1 @ map fst before'" "after' = []" by auto
    with pending_after [OF files(1), of "set (lb_ledger d1)" before' after'] \<open>?todo d1 = after\<close> show ?thesis by simp
  qed
  ultimately show ?thesis by (simp add: run)
qed

text \<open>The witness: a server on which the second file fails, and one on which it does not.\<close>

definition demo_migration_server :: "bool \<Rightarrow> string list migration_server" where
  "demo_migration_server ok = \<lparr>sv_query = \<lambda>sql s. if sql = ''two'' \<and> \<not> ok then (Inl (TError (plain_error ''Error'' ''down'')), s) else (Inr (), s @ [sql]),
     sv_insert = \<lambda>n. None, sv_commit = \<lambda>n. None, sv_unique_violation = TError (plain_error ''Error'' ''unique'')\<rparr>"

definition demo_dir :: "(string \<times> string) list" where
  "demo_dir = [(''0001.sql'', ''one''), (''0002.sql'', ''two''), (''notes.md'', ''text'')]"

definition demo_compare :: "string \<Rightarrow> string \<Rightarrow> int" where
  "demo_compare a b = (if a = b then 0 else if a = ''0001.sql'' then -1 else 1)"

lemma demo_files: "migration_files demo_compare demo_dir = [(''0001.sql'', ''one''), (''0002.sql'', ''two'')]"
  by (simp add: migration_files_def demo_dir_def endsWith_def startsWith_def demo_compare_def)

lemma demo_migrations:
  "migrate (demo_migration_server False) demo_compare demo_dir \<lparr>lb_schema = [], lb_ledger = []\<rparr> =
     (Inl (TError (plain_error ''Error'' ''down'')), \<lparr>lb_schema = [''one''], lb_ledger = [''0001.sql'']\<rparr>)"
  "migrate (demo_migration_server True) demo_compare demo_dir \<lparr>lb_schema = [''one''], lb_ledger = [''0001.sql'']\<rparr> =
     (Inr 1, \<lparr>lb_schema = [''one'', ''two''], lb_ledger = [''0001.sql'', ''0002.sql'']\<rparr>)"
  by (simp_all add: migrate_def demo_files demo_migration_server_def apply_file_def applyTransactional_def insert_ledger_def
    NO_TX_DIRECTIVE_def startsWith_def)

theorem migrations_resume_witness:
  "fst (migrate (demo_migration_server True) demo_compare demo_dir
     \<lparr>lb_schema = [''one'', ''two''], lb_ledger = [''0001.sql'', ''0002.sql'']\<rparr>) = Inr 0"
proof -
  have "distinct (map fst demo_dir)" "\<forall>f \<in> set demo_dir. \<not> includes_sub (snd f) NO_TX_DIRECTIVE"
    by (simp_all add: demo_dir_def NO_TX_DIRECTIVE_def startsWith_def)
  moreover have "goes_on (demo_migration_server False) (demo_migration_server True)"
    by (auto simp: goes_on_def demo_migration_server_def split: if_splits)
  ultimately show ?thesis
    using migrations_resume [OF _ _ _ demo_migrations(1) [symmetric] demo_migrations(2) [symmetric]] by blast
qed

text \<open>A file that opts out is not atomic: when the insert into the ledger fails, it will run again.\<close>

lemma no_transaction_repeats:
  assumes "includes_sub sql NO_TX_DIRECTIVE" "sv_query V sql (lb_schema d) = (Inr (), s1)" "sv_insert V name = Some e"
  shows "apply_file V (name, sql) d = (Inl e, d\<lparr>lb_schema := s1\<rparr>)"
  using assms by (simp add: apply_file_def applyNonTransactional_def insert_ledger_def)

section \<open>The partition of the next month\<close>

text \<open>
  The arguments are read by \<open>Number\<close>; without them the month after that of the clock is taken, with
  the overflow of \<open>Date.UTC\<close> into the next year.  The SQL function covers the days from the first of
  the month up to the first of the next.  The error leaves out the numbers that the message shows.
\<close>

definition utc_month :: "int \<Rightarrow> nat \<times> nat" where
  "utc_month now = (case civil_from 0 1 (nat (now div 86400000 + epoch)) of (y, m, d) \<Rightarrow> (y, m))"

definition next_month :: "nat \<times> nat \<Rightarrow> nat \<times> nat" where
  "next_month ym = (if snd ym + 1 > 12 then (fst ym + 1, 1) else (fst ym, snd ym + 1))"

definition integral :: "js_number \<Rightarrow> int option" where
  "integral x = (case x of Fin (n, k) \<Rightarrow> if n mod 10 ^ k = 0 then Some (n div 10 ^ k) else None | _ \<Rightarrow> None)"

definition targetYearMonth :: "string option \<Rightarrow> string option \<Rightarrow> int \<Rightarrow> js_number \<times> js_number" where
  "targetYearMonth yearArg monthArg now =
     (case (yearArg, monthArg) of
        (Some y, Some m) \<Rightarrow> (js_Number y, js_Number m)
      | _ \<Rightarrow> (case next_month (utc_month now) of (y, m) \<Rightarrow> (Fin (int y, 0), Fin (int m, 0))))"

definition create_partition_args :: "string option \<Rightarrow> string option \<Rightarrow> int \<Rightarrow> (thrown, int \<times> int) result" where
  "create_partition_args yearArg monthArg now =
     (case targetYearMonth yearArg monthArg now of (year, month) \<Rightarrow>
        (case (integral year, integral month) of
           (Some y, Some m) \<Rightarrow>
             if m < 1 \<or> m > 12 then Inl (TError (plain_error ''Error'' ''Invalid year/month'')) else Inr (y, m)
         | _ \<Rightarrow> Inl (TError (plain_error ''Error'' ''Invalid year/month''))))"

definition partition_days :: "nat \<times> nat \<Rightarrow> nat \<times> nat" where
  "partition_days ym = (day_number (fst ym) (snd ym) 1, day_number (fst (next_month ym)) (snd (next_month ym)) 1)"

definition in_partition :: "nat \<times> nat \<Rightarrow> int \<Rightarrow> bool" where
  "in_partition ym t \<longleftrightarrow> int (fst (partition_days ym)) \<le> t div 86400000 + epoch \<and> t div 86400000 + epoch < int (snd (partition_days ym))"

lemma utc_month_bounds:
  assumes "0 \<le> t div 86400000 + epoch"
  shows "1 \<le> snd (utc_month t) \<and> snd (utc_month t) \<le> 12 \<and> in_partition (utc_month t) t"
proof -
  obtain y m d where c: "civil_from 0 1 (nat (t div 86400000 + epoch)) = (y, m, d)" by (metis prod_cases3)
  from civil_from_spec [OF _ _ c] have s: "day_number y m d = day_number 0 1 1 + nat (t div 86400000 + epoch)"
      "1 \<le> m" "m \<le> 12" "1 \<le> d" "d \<le> days_in_month y m" by auto
  have "day_number y m 1 + days_in_month y m = day_number (fst (next_month (y, m))) (snd (next_month (y, m))) 1"
    using s(2,3) day_number_next(1) [of m y] day_number_next(2) [of y]
    by (cases "m = 12") (auto simp: next_month_def days_in_month_def)
  moreover have "day_number y m d = day_number y m 1 + (d - 1)" using s(4) by (simp add: day_number_def)
  ultimately have "day_number y m 1 \<le> day_number y m d" "day_number y m d < day_number (fst (next_month (y, m))) (snd (next_month (y, m))) 1"
    using s(4,5) by linarith+
  with s assms c show ?thesis
    by (auto simp: utc_month_def in_partition_def partition_days_def day_zero)
qed

text \<open>
  The partitions tile the time line and the job is early enough.  Run without arguments at any
  instant, the job asks for a partition with an admissible month that begins exactly where the one
  of the current month ends, and each instant of the month after the current one falls into it.
\<close>

theorem partition_ready:
  assumes "0 \<le> now div 86400000 + epoch" and "0 \<le> t div 86400000 + epoch"
  shows "\<exists>y m. create_partition_args None None now = Inr (int y, int m) \<and> 1 \<le> m \<and> m \<le> 12 \<and>
    fst (partition_days (y, m)) = snd (partition_days (utc_month now)) \<and>
    (utc_month t = next_month (utc_month now) \<longrightarrow> in_partition (y, m) t)"
proof -
  obtain y m where ym: "next_month (utc_month now) = (y, m)" by fastforce
  have m: "1 \<le> m \<and> m \<le> 12" using utc_month_bounds [OF assms(1)] ym by (auto simp: next_month_def split: if_splits)
  have "create_partition_args None None now = Inr (int y, int m)"
    using m by (simp add: create_partition_args_def targetYearMonth_def ym integral_def)
  moreover have "fst (partition_days (y, m)) = snd (partition_days (utc_month now))"
    by (simp add: partition_days_def ym)
  moreover have "in_partition (y, m) t" if "utc_month t = next_month (utc_month now)"
    using utc_month_bounds [OF assms(2)] that by (simp add: ym)
  ultimately show ?thesis using m by blast
qed

theorem partition_ready_witness:
  "\<exists>y m. create_partition_args None None 0 = Inr (int y, int m) \<and> fst (partition_days (y, m)) = snd (partition_days (utc_month 0))"
  using partition_ready [of 0 0] by (auto simp: epoch_def)

end
