(* ===== verification/Metrics.thy ===== *)
theory Metrics
  imports Errors Load_Balancer
begin

text \<open>
  The hooks that every request passes: its correlation id (\<open>src/middleware/request-id.ts\<close>) and its
  metrics (\<open>src/middleware/metrics.ts\<close>), with the gauge of the requests in flight.
\<close>

section \<open>Request ids\<close>

definition safe_char :: "char \<Rightarrow> bool" where
  "safe_char c \<longleftrightarrow> (let n = (of_char c :: nat) in
     65 \<le> n \<and> n \<le> 90 \<or> 97 \<le> n \<and> n \<le> 122 \<or> 48 \<le> n \<and> n \<le> 57 \<or> c \<in> set ''._-'')"

definition SAFE_ID :: "string \<Rightarrow> bool" where
  "SAFE_ID w \<longleftrightarrow> 1 \<le> length w \<and> length w \<le> 128 \<and> list_all safe_char w"

text \<open>A header is absent, a string, or (sent more than once) an array of strings.\<close>

datatype header = Absent | One string | Many "string list"

definition genRequestId :: "header \<Rightarrow> string \<Rightarrow> string" where
  "genRequestId incoming uuid = (case incoming of One w \<Rightarrow> if SAFE_ID w then w else uuid | _ \<Rightarrow> uuid)"

definition requestIdHook :: "string \<Rightarrow> (string \<times> string) list \<Rightarrow> (string \<times> string) list" where
  "requestIdHook i headers = headers @ [(''x-request-id'', i)]"

lemma control_unsafe: "(of_char c :: nat) < 33 \<Longrightarrow> \<not> safe_char c"
  by (auto simp: safe_char_def Let_def)

lemma request_id_safe: "SAFE_ID uuid \<Longrightarrow> SAFE_ID (genRequestId h uuid) \<and> (\<forall>c \<in> set (genRequestId h uuid). (33::nat) \<le> of_char c)"
proof -
  assume "SAFE_ID uuid"
  then have s: "SAFE_ID (genRequestId h uuid)" by (simp add: genRequestId_def split: header.split)
  then have "\<forall>c \<in> set (genRequestId h uuid). (33::nat) \<le> of_char c"
    using control_unsafe by (auto simp: SAFE_ID_def list_all_iff not_less [symmetric])
  with s show ?thesis by blast
qed

section \<open>Metrics of requests\<close>

record request_metrics =
  qm_method :: string
  qm_route :: "string option"
  qm_startNs :: "int option"
  qm_settled :: bool

type_synonym labels = "string \<times> string \<times> string"

record gateway_metrics =
  mx_inFlight :: int
  mx_httpRequests :: "labels \<Rightarrow> nat"
  mx_httpDuration :: "(labels \<times> rat) list"
  mx_cacheEvents :: "string \<Rightarrow> nat"

definition no_metrics :: gateway_metrics where
  "no_metrics = \<lparr>mx_inFlight = 0, mx_httpRequests = \<lambda>_. 0, mx_httpDuration = [], mx_cacheEvents = \<lambda>_. 0\<rparr>"

definition metricsOnRequest :: "int \<Rightarrow> request_metrics \<Rightarrow> gateway_metrics \<Rightarrow> request_metrics \<times> gateway_metrics" where
  "metricsOnRequest nowNs q m = (q\<lparr>qm_startNs := Some nowNs\<rparr>, m\<lparr>mx_inFlight := mx_inFlight m + 1\<rparr>)"

definition settle_request :: "int \<Rightarrow> request_metrics \<Rightarrow> string \<Rightarrow> gateway_metrics \<Rightarrow> request_metrics \<times> gateway_metrics" where
  "settle_request nowNs q status m =
     (if qm_settled q then (q, m)
      else
        (let labels = (qm_method q, nullish (qm_route q) ''unknown'', status);
             m1 = m\<lparr>mx_inFlight := mx_inFlight m - 1,
                    mx_httpRequests := (mx_httpRequests m)(labels := mx_httpRequests m labels + 1)\<rparr>;
             m2 = (case qm_startNs q of
                     None \<Rightarrow> m1
                   | Some t \<Rightarrow> m1\<lparr>mx_httpDuration := mx_httpDuration m1 @ [(labels, of_int (nowNs - t) / 10 ^ 9)]\<rparr>)
         in (q\<lparr>qm_settled := True\<rparr>, m2)))"

definition metricsOnResponse :: "int \<Rightarrow> int \<Rightarrow> request_metrics \<Rightarrow> gateway_metrics \<Rightarrow> request_metrics \<times> gateway_metrics" where
  "metricsOnResponse nowNs status q m = settle_request nowNs q (show_int status) m"

definition metricsOnAbort :: "int \<Rightarrow> request_metrics \<Rightarrow> gateway_metrics \<Rightarrow> request_metrics \<times> gateway_metrics" where
  "metricsOnAbort nowNs q m = settle_request nowNs q ''499'' m"

definition recordCacheEvent :: "string \<Rightarrow> gateway_metrics \<Rightarrow> gateway_metrics" where
  "recordCacheEvent status m = m\<lparr>mx_cacheEvents := (mx_cacheEvents m)(status := mx_cacheEvents m status + 1)\<rparr>"

section \<open>Histories of hooks\<close>

text \<open>Fastify calls the hooks of many requests in any interleaving; a request is known by a number.\<close>

datatype hook = On_request nat int string "string option" | On_response nat int int | On_abort nat int

record hook_state =
  hs_requests :: "nat \<Rightarrow> request_metrics option"
  hs_metrics :: gateway_metrics

definition new_request :: "string \<Rightarrow> string option \<Rightarrow> request_metrics" where
  "new_request mth route = \<lparr>qm_method = mth, qm_route = route, qm_startNs = None, qm_settled = False\<rparr>"

definition on_known ::
  "nat \<Rightarrow> (request_metrics \<Rightarrow> gateway_metrics \<Rightarrow> request_metrics \<times> gateway_metrics) \<Rightarrow> hook_state \<Rightarrow> hook_state" where
  "on_known i f s =
     (case hs_requests s i of
        None \<Rightarrow> s
      | Some q \<Rightarrow> (case f q (hs_metrics s) of (q1, m1) \<Rightarrow> \<lparr>hs_requests = (hs_requests s)(i \<mapsto> q1), hs_metrics = m1\<rparr>))"

fun run_hook :: "hook \<Rightarrow> hook_state \<Rightarrow> hook_state" where
  "run_hook (On_request i t mth route) s =
     (if hs_requests s i \<noteq> None then s
      else (case metricsOnRequest t (new_request mth route) (hs_metrics s) of
              (q, m) \<Rightarrow> \<lparr>hs_requests = (hs_requests s)(i \<mapsto> q), hs_metrics = m\<rparr>))"
| "run_hook (On_response i t code) s = on_known i (metricsOnResponse t code) s"
| "run_hook (On_abort i t) s = on_known i (metricsOnAbort t) s"

definition run_hooks :: "hook list \<Rightarrow> hook_state" where
  "run_hooks hs = fold run_hook hs \<lparr>hs_requests = Map.empty, hs_metrics = no_metrics\<rparr>"

definition open_requests :: "hook_state \<Rightarrow> nat set" where
  "open_requests s = {i. \<exists>q. hs_requests s i = Some q \<and> \<not> qm_settled q}"

definition settled_requests :: "hook_state \<Rightarrow> nat set" where
  "settled_requests s = {i. \<exists>q. hs_requests s i = Some q \<and> qm_settled q}"

definition hook_inv :: "hook_state \<Rightarrow> bool" where
  "hook_inv s \<longleftrightarrow> finite (dom (hs_requests s)) \<and> mx_inFlight (hs_metrics s) = int (card (open_requests s)) \<and>
     length (mx_httpDuration (hs_metrics s)) = card (settled_requests s) \<and>
     (\<forall>i q. hs_requests s i = Some q \<longrightarrow> qm_startNs q \<noteq> None) \<and>
     (\<forall>l. mx_httpRequests (hs_metrics s) l = length (filter (\<lambda>d. fst d = l) (mx_httpDuration (hs_metrics s))))"

lemma finite_open: "finite (dom (hs_requests s)) \<Longrightarrow> finite (open_requests s) \<and> finite (settled_requests s)"
  by (auto simp: open_requests_def settled_requests_def elim!: rev_finite_subset)

lemma settle_inv:
  assumes "hook_inv s" "hs_requests s i = Some q"
  shows "hook_inv (case settle_request t q code (hs_metrics s) of (q1, m1) \<Rightarrow> \<lparr>hs_requests = (hs_requests s)(i \<mapsto> q1), hs_metrics = m1\<rparr>)"
proof (cases "qm_settled q")
  case True
  then show ?thesis using assms by (cases s) (simp add: settle_request_def fun_upd_idem)
next
  case False
  let ?s1 = "s\<lparr>hs_requests := (hs_requests s)(i \<mapsto> q\<lparr>qm_settled := True\<rparr>)\<rparr>"
  have sets: "open_requests ?s1 = open_requests s - {i}" "settled_requests ?s1 = insert i (settled_requests s)"
      "i \<in> open_requests s" "i \<notin> settled_requests s"
    using assms(2) False by (auto simp: open_requests_def settled_requests_def)
  have fin: "finite (open_requests s)" "finite (settled_requests s)" using assms(1) finite_open by (auto simp: hook_inv_def)
  with sets have cards: "int (card (open_requests ?s1)) = int (card (open_requests s)) - 1"
      "card (settled_requests ?s1) = Suc (card (settled_requests s))"
    using card_Diff_singleton [of i "open_requests s"] card_gt_0_iff [of "open_requests s"] by auto
  have "qm_startNs q \<noteq> None" using assms unfolding hook_inv_def by blast
  then obtain t0 where "qm_startNs q = Some t0" by blast
  with False assms cards show ?thesis
    by (auto simp: settle_request_def Let_def hook_inv_def open_requests_def settled_requests_def)
qed

lemma run_hook_inv: "hook_inv s \<Longrightarrow> hook_inv (run_hook h s)"
proof (cases h)
  case (On_request i t mth route)
  assume inv: "hook_inv s"
  show ?thesis
  proof (cases "hs_requests s i")
    case None
    let ?q = "(new_request mth route)\<lparr>qm_startNs := Some t\<rparr>"
    let ?s1 = "s\<lparr>hs_requests := (hs_requests s)(i \<mapsto> ?q)\<rparr>"
    have sets: "open_requests ?s1 = insert i (open_requests s)" "i \<notin> open_requests s" "settled_requests ?s1 = settled_requests s"
      using None by (auto simp: open_requests_def settled_requests_def new_request_def)
    with inv finite_open have "card (open_requests ?s1) = Suc (card (open_requests s))" by (auto simp: hook_inv_def)
    with sets inv None show ?thesis
      by (auto simp: On_request hook_inv_def metricsOnRequest_def open_requests_def settled_requests_def)
  qed (use inv On_request in simp)
next
  case (On_response i t code)
  assume "hook_inv s"
  then show ?thesis using settle_inv [of s i] by (simp add: On_response on_known_def metricsOnResponse_def split: option.split)
next
  case (On_abort i t)
  assume "hook_inv s"
  then show ?thesis using settle_inv [of s i] by (simp add: On_abort on_known_def metricsOnAbort_def split: option.split)
qed


end
