(* ===== verification/Lifecycle.thy ===== *)
theory Lifecycle
  imports Config Routes "HOL-Library.Sublist"
begin

text \<open>
  The life of a process: connections (\<open>src/database/index.ts\<close>, \<open>src/database/redis.ts\<close>), the probes
  \<open>/health\<close> and \<open>/ready\<close> (\<open>src/app.ts\<close>), start-up and graceful shutdown (\<open>src/index.ts\<close>).  What the
  drivers and the steps do, and how long they take, are parameters.
\<close>

section \<open>Connections\<close>

definition retryStrategy :: "int \<Rightarrow> int" where
  "retryStrategy attempt = min (attempt * 200) 2000"

text \<open>The pool of the process, if it exists, with the number of clients that are checked out.\<close>

record connections =
  cn_pool :: "nat option"
  cn_redis :: bool

definition getPool :: "connections \<Rightarrow> connections" where
  "getPool k = (case cn_pool k of None \<Rightarrow> k\<lparr>cn_pool := Some 0\<rparr> | Some _ \<Rightarrow> k)"

definition check_out :: "connections \<Rightarrow> connections" where
  "check_out k = (case cn_pool (getPool k) of None \<Rightarrow> k | Some n \<Rightarrow> k\<lparr>cn_pool := Some (n + 1)\<rparr>)"

definition release :: "connections \<Rightarrow> connections" where
  "release k = k\<lparr>cn_pool := map_option (\<lambda>n. n - 1) (cn_pool k)\<rparr>"

text \<open>The loop that connects, until it is done or a connection fails; it returns the clients it got.\<close>

fun connect_loop :: "(thrown, unit) result list \<Rightarrow> nat \<Rightarrow> connections \<Rightarrow> nat \<times> connections" where
  "connect_loop [] clients k = (clients, k)"
| "connect_loop (Inl e # outs) clients k = (clients, getPool k)"
| "connect_loop (Inr u # outs) clients k = connect_loop outs (clients + 1) (check_out k)"

definition warmUpPool :: "nat \<Rightarrow> (nat \<Rightarrow> (thrown, unit) result) \<Rightarrow> connections \<Rightarrow> connections" where
  "warmUpPool target connect k =
     (if target = 0 then k
      else (case connect_loop (map connect [0..<target]) 0 k of (clients, k1) \<Rightarrow> (release ^^ clients) k1))"

definition closeDatabase :: "(thrown, unit) result \<Rightarrow> connections \<Rightarrow> (thrown, unit) result \<times> connections" where
  "closeDatabase ended k = (if cn_pool k = None then (Inr (), k) else (ended, k\<lparr>cn_pool := None\<rparr>))"

text \<open>A failure of \<open>quit\<close> leads to \<open>disconnect\<close>, which does not fail.\<close>

definition closeRedis :: "(thrown, unit) result \<Rightarrow> connections \<Rightarrow> (thrown, unit) result \<times> connections" where
  "closeRedis quit k = (Inr (), if cn_redis k then k\<lparr>cn_redis := False\<rparr> else k)"

lemma check_out_pool: "cn_pool (check_out k) = Some (nullish (cn_pool k) 0 + 1)"
  by (simp add: check_out_def getPool_def nullish_def split: option.split)

lemma connect_loop_out:
  "connect_loop outs c k = (c1, k1) \<Longrightarrow> c \<le> c1 \<and> nullish (cn_pool k1) 0 = nullish (cn_pool k) 0 + (c1 - c)"
proof (induction outs arbitrary: c k)
  case (Cons r outs)
  show ?case
  proof (cases r)
    case (Inl e)
    with Cons.prems show ?thesis by (auto simp: getPool_def split: option.splits)
  next
    case (Inr u)
    with Cons.prems have "connect_loop outs (c + 1) (check_out k) = (c1, k1)" by simp
    from Cons.IH [OF this] show ?thesis unfolding check_out_pool nullish_simps by arith
  qed
qed simp

lemma releases: "nullish (cn_pool ((release ^^ n) k)) 0 = nullish (cn_pool k) 0 - n"
  by (induction n) (auto simp: release_def nullish_def split: option.splits)

text \<open>Warming up returns every client that it took, also when it stops half-way.\<close>

lemma warm_up_returns: "nullish (cn_pool (warmUpPool target connect k)) 0 = nullish (cn_pool k) 0"
proof (cases "target = 0")
  case False
  obtain c k1 where l: "connect_loop (map connect [0..<target]) 0 k = (c, k1)" by fastforce
  from connect_loop_out [OF l] False show ?thesis by (simp add: warmUpPool_def l releases)
qed (simp add: warmUpPool_def)

lemma close_twice:
  "snd (closeDatabase e1 (snd (closeDatabase e0 k))) = snd (closeDatabase e0 k)"
  "fst (closeDatabase e1 (snd (closeDatabase e0 k))) = Inr ()"
  "snd (closeRedis q1 (snd (closeRedis q0 k))) = snd (closeRedis q0 k)"
  by (simp_all add: closeDatabase_def closeRedis_def)

section \<open>Probes\<close>

definition checkDatabaseHealth :: "(thrown, nat) result \<Rightarrow> bool" where
  "checkDatabaseHealth rows = (case rows of Inr n \<Rightarrow> n = 1 | Inl e \<Rightarrow> False)"

definition checkRedisHealth :: "(thrown, string) result \<Rightarrow> bool" where
  "checkRedisHealth pong = (case pong of Inr w \<Rightarrow> w = ''PONG'' | Inl e \<Rightarrow> False)"

definition health_route :: http_reply where
  "health_route = \<lparr>hy_status = 200, hy_headers = [], hy_body = Body_json (JObj [(''status'', JStr ''ok'')])\<rparr>"

definition ready_route :: "(thrown, nat) result \<Rightarrow> (thrown, string) result \<Rightarrow> http_reply" where
  "ready_route rows pong =
     (let database = checkDatabaseHealth rows; redis = checkRedisHealth pong; ready = database \<and> redis in
      \<lparr>hy_status = (if ready then 200 else 503), hy_headers = [],
       hy_body = Body_json (JObj [(''status'', JStr (if ready then ''ready'' else ''not_ready'')),
         (''checks'', JObj [(''database'', JBool database), (''redis'', JBool redis)])])\<rparr>)"

lemma ready_iff: "hy_status (ready_route rows pong) = 200 \<longleftrightarrow> rows = Inr 1 \<and> pong = Inr ''PONG''"
  by (auto simp: ready_route_def checkDatabaseHealth_def checkRedisHealth_def Let_def split: sum.splits)

section \<open>Start-up and shutdown\<close>

text \<open>A step completes or fails after a time, or never settles.\<close>

datatype step_outcome = Completes int | Fails int thrown | Hangs

text \<open>At the millisecond of the limit the timer is taken to fire first.\<close>

definition withTimeout :: "step_outcome \<Rightarrow> int \<Rightarrow> string \<Rightarrow> step_outcome" where
  "withTimeout promise ms label =
     (let timeout = Fails ms (TError (plain_error ''Error'' (label @ '' timed out after '' @ show_int ms @ ''ms''))) in
      case promise of
        Completes t \<Rightarrow> if t < ms then Completes t else timeout
      | Fails t e \<Rightarrow> if t < ms then Fails t e else timeout
      | Hangs \<Rightarrow> timeout)"

datatype ending = Exits nat | Serves | Never_ends

text \<open>Steps that are awaited one after the other; a failure ends the process with code 1.\<close>

fun run_steps :: "('a \<Rightarrow> step_outcome) \<Rightarrow> ending \<Rightarrow> 'a list \<Rightarrow> 'a list \<times> ending" where
  "run_steps out fin [] = ([], fin)"
| "run_steps out fin (x # xs) =
     (case out x of
        Completes _ \<Rightarrow> (case run_steps out fin xs of (ys, e) \<Rightarrow> (x # ys, e))
      | Fails _ _ \<Rightarrow> ([x], Exits 1)
      | Hangs \<Rightarrow> ([x], Never_ends))"

datatype startup_step = Init_tracing | Warm_up | Connect_redis | Load_registry | Init_router | Start_monitor | Build_app | Listen

definition main :: "(startup_step \<Rightarrow> step_outcome) \<Rightarrow> startup_step list \<times> ending" where
  "main out = run_steps out Serves [Init_tracing, Warm_up, Connect_redis, Load_registry, Init_router, Start_monitor, Build_app, Listen]"

datatype shutdown_step = Close_app | Stop_monitor | Flush_logs | Close_redis | Close_database | Stop_tracing

definition SHUTDOWN_STEPS :: "shutdown_step list" where
  "SHUTDOWN_STEPS = [Close_app, Stop_monitor, Flush_logs, Close_redis, Close_database, Stop_tracing]"

record process =
  gp_shuttingDown :: bool
  gp_steps :: "shutdown_step list"
  gp_ending :: ending

definition running :: process where
  "running = \<lparr>gp_shuttingDown = False, gp_steps = [], gp_ending = Serves\<rparr>"

definition shutdown :: "int \<Rightarrow> (shutdown_step \<Rightarrow> step_outcome) \<Rightarrow> process \<Rightarrow> process" where
  "shutdown limitMs out p =
     (if gp_shuttingDown p then p
      else (case run_steps (out(Close_app := withTimeout (out Close_app) limitMs ''app.close'')) (Exits 0) SHUTDOWN_STEPS of
              (steps, e) \<Rightarrow> \<lparr>gp_shuttingDown = True, gp_steps = steps, gp_ending = e\<rparr>))"

definition drained :: "int \<Rightarrow> (shutdown_step \<Rightarrow> step_outcome) \<Rightarrow> bool" where
  "drained limitMs out \<longleftrightarrow> (\<exists>t. out Close_app = Completes t \<and> t < limitMs)"

definition completes :: "step_outcome \<Rightarrow> bool" where
  "completes r \<longleftrightarrow> (case r of Completes _ \<Rightarrow> True | _ \<Rightarrow> False)"

lemma completes_simps [simp]: "completes (Completes t)" "\<not> completes (Fails t e)" "\<not> completes Hangs"
  by (simp_all add: completes_def)

lemma run_steps_prefix: "prefix (fst (run_steps out fin xs)) xs"
  by (induction xs) (auto split: step_outcome.split prod.split)

lemma run_steps_ran:
  "run_steps out fin xs = (ys @ z # zs, e) \<Longrightarrow> \<forall>y \<in> set ys. completes (out y)"
proof (induction xs arbitrary: ys)
  case (Cons x xs)
  then show ?case by (cases ys) (auto simp: completes_def split: step_outcome.splits prod.splits)
qed simp

lemma run_steps_ending:
  "run_steps out fin xs = (ys, e) \<Longrightarrow>
     (if \<forall>x \<in> set xs. completes (out x) then ys = xs \<and> e = fin
      else ys \<noteq> [] \<and> \<not> completes (out (last ys)) \<and> e = (if out (last ys) = Hangs then Never_ends else Exits 1))"
proof (induction xs arbitrary: ys)
  case (Cons x xs)
  show ?case
  proof (cases "out x")
    case (Completes t)
    with Cons.prems obtain ys' where ys: "ys = x # ys'" "run_steps out fin xs = (ys', e)" by (auto split: prod.splits)
    with Cons.IH [OF ys(2)] Completes show ?thesis by (auto split: if_splits)
  qed (use Cons.prems in auto)
qed simp

lemma withTimeout_completes: "completes (withTimeout r ms l) \<longleftrightarrow> (\<exists>t. r = Completes t \<and> t < ms)" "withTimeout r ms l \<noteq> Hangs"
  by (auto simp: withTimeout_def completes_def Let_def split: step_outcome.splits)

text \<open>
  C33. Shutdown is orderly.  Whatever signals arrive, the steps run at most once and in their
  order; Redis and the database are closed only after the server has drained within its limit, the
  monitor has stopped and the queued logs have been written; the process ends with code 0 exactly if
  every step completes, and it never waits for the draining.
\<close>

theorem shutdown_orderly:
  assumes "p = ((shutdown limitMs out) ^^ Suc n) running"
  shows "prefix (gp_steps p) SHUTDOWN_STEPS \<and> p = shutdown limitMs out running \<and>
    (Close_redis \<in> set (gp_steps p) \<or> Close_database \<in> set (gp_steps p) \<longrightarrow>
       drained limitMs out \<and> completes (out Stop_monitor) \<and> completes (out Flush_logs)) \<and>
    (gp_ending p = Exits 0 \<longleftrightarrow> drained limitMs out \<and> (\<forall>x. x \<noteq> Close_app \<longrightarrow> completes (out x))) \<and>
    (gp_ending p = Never_ends \<longrightarrow> drained limitMs out \<and> (\<exists>x. x \<noteq> Close_app \<and> out x = Hangs))"
proof -
  let ?out = "out(Close_app := withTimeout (out Close_app) limitMs ''app.close'')"
  have "shutdown limitMs out (shutdown limitMs out x) = shutdown limitMs out x" for x
    by (simp add: shutdown_def split: prod.split)
  then have once: "p = shutdown limitMs out running" unfolding assms by (induction n) simp_all
  obtain ys e where r: "run_steps ?out (Exits 0) SHUTDOWN_STEPS = (ys, e)" by fastforce
  then have p: "gp_steps p = ys" "gp_ending p = e" by (simp_all add: once shutdown_def running_def)
  have pre: "prefix ys SHUTDOWN_STEPS" using run_steps_prefix [of ?out "Exits 0" SHUTDOWN_STEPS] by (simp add: r)
  have app: "completes (?out Close_app) \<longleftrightarrow> drained limitMs out" "?out Close_app \<noteq> Hangs"
    by (simp_all add: withTimeout_completes drained_def)
  have steps: "ys \<in> {[], [Close_app], [Close_app, Stop_monitor], [Close_app, Stop_monitor, Flush_logs],
      [Close_app, Stop_monitor, Flush_logs, Close_redis], [Close_app, Stop_monitor, Flush_logs, Close_redis, Close_database],
      SHUTDOWN_STEPS}"
    using pre by (auto simp: SHUTDOWN_STEPS_def prefix_Cons)
  have closed: "drained limitMs out \<and> completes (out Stop_monitor) \<and> completes (out Flush_logs)"
    if c: "Close_redis \<in> set ys \<or> Close_database \<in> set ys"
  proof -
    obtain zs where "ys = [Close_app, Stop_monitor, Flush_logs] @ Close_redis # zs"
      using c steps by (auto simp: SHUTDOWN_STEPS_def)
    with run_steps_ran [of ?out "Exits 0" SHUTDOWN_STEPS "[Close_app, Stop_monitor, Flush_logs]"] r
    have "\<forall>x \<in> {Close_app, Stop_monitor, Flush_logs}. completes (?out x)" by simp
    with app show ?thesis by auto
  qed
  have all: "set SHUTDOWN_STEPS = UNIV"
    using shutdown_step.exhaust by (auto simp: SHUTDOWN_STEPS_def)
  have "(\<forall>x. completes (?out x)) \<longleftrightarrow> drained limitMs out \<and> (\<forall>x. x \<noteq> Close_app \<longrightarrow> completes (out x))"
    using app(1) by auto
  moreover have "e = Never_ends \<longrightarrow> drained limitMs out \<and> (\<exists>x. x \<noteq> Close_app \<and> out x = Hangs)" "e = Exits 0 \<longleftrightarrow> (\<forall>x. completes (?out x))"
  proof -
    have c: "if \<forall>x. completes (?out x) then e = Exits 0
        else ys \<noteq> [] \<and> \<not> completes (?out (last ys)) \<and> e = (if ?out (last ys) = Hangs then Never_ends else Exits 1)"
      using run_steps_ending [OF r] unfolding all ball_UNIV by meson
    then show "e = Exits 0 \<longleftrightarrow> (\<forall>x. completes (?out x))" by (auto simp del: fun_upd_apply split: if_splits)
    show "e = Never_ends \<longrightarrow> drained limitMs out \<and> (\<exists>x. x \<noteq> Close_app \<and> out x = Hangs)"
    proof
      assume "e = Never_ends"
      with c have "ys \<noteq> []" "?out (last ys) = Hangs" by (auto simp del: fun_upd_apply split: if_splits)
      then obtain zs z where z: "ys = zs @ [z]" "?out z = Hangs" by (metis append_butlast_last_id)
      then have "z \<noteq> Close_app" using app(2) by metis
      then have "hd zs = Close_app" "zs \<noteq> []" using steps z(1) by (auto simp: SHUTDOWN_STEPS_def)
      then have "completes (?out Close_app)"
        using run_steps_ran [of ?out "Exits 0" SHUTDOWN_STEPS zs z "[]" e] r z(1) hd_in_set by fastforce
      with app(1) z \<open>z \<noteq> Close_app\<close> show "drained limitMs out \<and> (\<exists>x. x \<noteq> Close_app \<and> out x = Hangs)" by auto
    qed
  qed
  ultimately show ?thesis using pre once closed unfolding p by blast
qed

text \<open>
  A drain that exceeds its limit skips everything else: the queued logs are lost and the connections
  are not closed.
\<close>

lemma slow_drain_skips:
  "\<not> drained limitMs out \<Longrightarrow> gp_steps (shutdown limitMs out running) = [Close_app] \<and> gp_ending (shutdown limitMs out running) = Exits 1"
  by (auto simp: drained_def shutdown_def running_def SHUTDOWN_STEPS_def withTimeout_def Let_def split: step_outcome.splits)

text \<open>A step without a limit can keep the process waiting.\<close>

lemma flush_can_hang:
  "gp_ending (shutdown 30000 (\<lambda>x. if x = Flush_logs then Hangs else Completes 1) running) = Never_ends"
  by (simp add: shutdown_def running_def SHUTDOWN_STEPS_def withTimeout_def Let_def)

theorem shutdown_orderly_witness:
  "let p = (shutdown 30000 (\<lambda>x. Completes 5) ^^ Suc 1) running in gp_ending p = Exits 0 \<and> prefix (gp_steps p) SHUTDOWN_STEPS"
proof -
  have "drained 30000 (\<lambda>x. Completes 5)" "completes (Completes 5)" by (simp_all add: drained_def completes_def)
  with shutdown_orderly [OF refl, where n = 1 and limitMs = 30000 and out = "\<lambda>x. Completes 5"]
  show ?thesis unfolding Let_def by blast
qed

end
