(* ===== verification/Admin_Reads.thy ===== *)
theory Admin_Reads
  imports Config Admin_Keys Circuit_Breaker Cache "HOL-Library.Multiset"
begin

text \<open>
  The reads of the administration API and the operations behind them: the request logs
  (\<open>src/routes/admin/logs.ts\<close>), all breakers with the manual reset
  (\<open>src/routes/admin/circuit-breakers.ts\<close>, \<open>getAllStates\<close>), and the statistics of the cache with its
  invalidation (\<open>src/routes/admin/cache.ts\<close>, \<open>getStats\<close>).
\<close>

section \<open>The query of the request logs\<close>

record request_log_row = RequestLogEntry +
  lr_id :: string
  lr_createdAt :: int

record LogQuery =
  lq_apiKeyId :: "string option"
  lq_providerId :: "string option"
  lq_modelId :: "string option"
  lq_statusCode :: "int option"
  lq_cacheHit :: "bool option"
  lq_from :: "int option"
  lq_to :: "int option"
  lq_limit :: nat
  lq_offset :: nat

text \<open>The parameters of the URL are texts; one that is repeated is not modelled.\<close>

definition q_optional :: "(string \<Rightarrow> 'a option) \<Rightarrow> (string \<Rightarrow> string option) \<Rightarrow> string \<Rightarrow> 'a option option" where
  "q_optional f q k = (case q k of None \<Rightarrow> Some None | Some w \<Rightarrow> map_option Some (f w))"

definition q_integer :: "string \<Rightarrow> int option" where
  "q_integer w = (case js_Number w of
     Fin (n, k) \<Rightarrow> if n mod 10 ^ k = 0 then Some (n div 10 ^ k) else None | _ \<Rightarrow> None)"

definition querySchema :: "(string \<Rightarrow> string option) \<Rightarrow> LogQuery option" where
  "querySchema q = do {
     k \<leftarrow> q_optional (\<lambda>w. if is_uuid w then Some w else None) q ''apiKeyId'';
     p \<leftarrow> q_optional (\<lambda>w. if is_uuid w then Some w else None) q ''providerId'';
     m \<leftarrow> q_optional Some q ''modelId'';
     st \<leftarrow> q_optional q_integer q ''statusCode'';
     hit \<leftarrow> q_optional (map_of [(''true'', True), (''false'', False)]) q ''cacheHit'';
     f \<leftarrow> q_optional new_Date q ''from'';
     t \<leftarrow> q_optional new_Date q ''to'';
     l \<leftarrow> q_optional (coerce_int 1 (Some 1000)) q ''limit'';
     off \<leftarrow> q_optional (coerce_int 0 None) q ''offset'';
     Some \<lparr>lq_apiKeyId = k, lq_providerId = p, lq_modelId = m, lq_statusCode = st, lq_cacheHit = hit, lq_from = f,
       lq_to = t, lq_limit = nat (nullish l 50), lq_offset = nat (nullish off 0)\<rparr> }"

text \<open>A comparison with a column that is null does not hold.\<close>

definition conditions :: "LogQuery \<Rightarrow> (request_log_row \<Rightarrow> bool) list" where
  "conditions q =
     (case lq_apiKeyId q of None \<Rightarrow> [] | Some v \<Rightarrow> [\<lambda>r. le_apiKeyId r = Some v]) @
     (case lq_providerId q of None \<Rightarrow> [] | Some v \<Rightarrow> [\<lambda>r. le_providerId r = Some v]) @
     (case lq_modelId q of None \<Rightarrow> [] | Some v \<Rightarrow> [\<lambda>r. le_modelId r = Some v]) @
     (case lq_statusCode q of None \<Rightarrow> [] | Some v \<Rightarrow> [\<lambda>r. le_statusCode r = Some v]) @
     (case lq_cacheHit q of None \<Rightarrow> [] | Some v \<Rightarrow> [\<lambda>r. le_cacheHit r = v]) @
     (case lq_from q of None \<Rightarrow> [] | Some v \<Rightarrow> [\<lambda>r. v \<le> lr_createdAt r]) @
     (case lq_to q of None \<Rightarrow> [] | Some v \<Rightarrow> [\<lambda>r. lr_createdAt r \<le> v])"

text \<open>
  The server orders the rows by \<open>created_at\<close>, newest first, and rows of the same instant as it likes:
  \<open>order\<close> is a parameter.
\<close>

record logs_reply =
  ly_data :: "request_log_row list"
  ly_limit :: nat
  ly_offset :: nat
  ly_count :: nat

definition logs_route ::
  "((string \<Rightarrow> string option) \<Rightarrow> zod_issue list) \<Rightarrow> (request_log_row list \<Rightarrow> request_log_row list) \<Rightarrow> (string \<Rightarrow> string option)
     \<Rightarrow> (thrown, request_log_row list) result \<Rightarrow> (thrown, logs_reply) result" where
  "logs_route zissues order query table =
     (case querySchema query of
        None \<Rightarrow> Inl (TGateway (ValidationError ''Invalid log query parameters.'' (no_options\<lparr>opt_issues := Some (zissues query)\<rparr>)))
      | Some q \<Rightarrow>
          (case table of
             Inl e \<Rightarrow> Inl e
           | Inr rows \<Rightarrow>
               (let rows = take (lq_limit q) (drop (lq_offset q) (order (filter (\<lambda>r. list_all (\<lambda>c. c r) (conditions q)) rows)))
                in Inr \<lparr>ly_data = rows, ly_limit = lq_limit q, ly_offset = lq_offset q, ly_count = length rows\<rparr>)))"

text \<open>What the parameters ask for.\<close>

definition wanted :: "LogQuery \<Rightarrow> request_log_row \<Rightarrow> bool" where
  "wanted q r \<longleftrightarrow> (\<forall>v. lq_apiKeyId q = Some v \<longrightarrow> le_apiKeyId r = Some v) \<and>
     (\<forall>v. lq_providerId q = Some v \<longrightarrow> le_providerId r = Some v) \<and> (\<forall>v. lq_modelId q = Some v \<longrightarrow> le_modelId r = Some v) \<and>
     (\<forall>v. lq_statusCode q = Some v \<longrightarrow> le_statusCode r = Some v) \<and> (\<forall>v. lq_cacheHit q = Some v \<longrightarrow> le_cacheHit r = v) \<and>
     (\<forall>v. lq_from q = Some v \<longrightarrow> v \<le> lr_createdAt r) \<and> (\<forall>v. lq_to q = Some v \<longrightarrow> lr_createdAt r \<le> v)"

definition newest_first :: "(request_log_row list \<Rightarrow> request_log_row list) \<Rightarrow> bool" where
  "newest_first order \<longleftrightarrow> (\<forall>rows. mset (order rows) = mset rows \<and> sorted (map (\<lambda>r. - lr_createdAt r) (order rows)))"

lemma conditions_wanted: "list_all (\<lambda>c. c r) (conditions q) \<longleftrightarrow> wanted q r"
  by (auto simp: conditions_def wanted_def split: option.split)

lemma query_limits: "querySchema w = Some q \<Longrightarrow> 1 \<le> lq_limit q \<and> lq_limit q \<le> 1000"
proof -
  assume "querySchema w = Some q"
  then obtain l where l: "q_optional (coerce_int 1 (Some 1000)) w ''limit'' = Some l" "lq_limit q = nat (nullish l 50)"
    by (auto simp: querySchema_def bind_eq_Some_conv)
  then have "1 \<le> nullish l 50 \<and> nullish l 50 \<le> 1000"
    by (auto simp: q_optional_def split: option.splits dest!: coerce_int_bounds)
  then show ?thesis by (simp add: l(2) le_nat_iff nat_le_iff)
qed

lemma pages: "concat (map (\<lambda>k. take n (drop (k * n) xs)) [0..<m]) = take (m * n) xs"
proof (induction m)
  case (Suc m)
  have "take (m * n + n) xs = take (m * n) xs @ take n (drop (m * n) xs)" by (rule take_add)
  with Suc show ?case by (simp add: add.commute)
qed simp


definition demo_query :: LogQuery where
  "demo_query = \<lparr>lq_apiKeyId = None, lq_providerId = None, lq_modelId = None, lq_statusCode = None, lq_cacheHit = None,
     lq_from = None, lq_to = None, lq_limit = 50, lq_offset = 0\<rparr>"

lemma demo_query_schema: "querySchema Map.empty = Some demo_query"
  by (simp add: querySchema_def q_optional_def demo_query_def)

definition demo_log :: "int \<Rightarrow> request_log_row" where
  "demo_log t = \<lparr>le_apiKeyId = None, le_providerId = None, le_modelId = None, le_promptTokens = None, le_completionTokens = None,
     le_totalTokens = None, le_costUsd = None, le_latencyMs = None, le_statusCode = Some 200, le_cacheHit = False,
     le_failoverCount = 0, le_errorMessage = None, lr_id = ''r'', lr_createdAt = t\<rparr>"


section \<open>All breakers\<close>

text \<open>
  The pages of a \<open>SCAN\<close> are a parameter, as for the flush of the cache; a \<open>SCAN\<close> that never returns to
  the cursor \<open>0\<close> is \<open>None\<close>.
\<close>

partial_function (option) scan_loop ::
  "(string \<Rightarrow> 's \<Rightarrow> (redis_error, string \<times> string list) result \<times> 's) \<Rightarrow> string \<Rightarrow> string list \<Rightarrow> 's
     \<Rightarrow> ((redis_error, string list) result \<times> 's) option" where
  "scan_loop scan cursor found s =
     (case scan cursor s of
        (Inl e, s1) \<Rightarrow> Some (Inl e, s1)
      | (Inr (nxt, batch), s1) \<Rightarrow>
          if nxt \<noteq> ''0'' then scan_loop scan nxt (found @ batch) s1 else Some (Inr (found @ batch), s1))"

text \<open>The pattern \<open>cb:(.+):state\<close> at the end of a key, from the left; a dot is not a line break.\<close>

fun state_key_id :: "string \<Rightarrow> string option" where
  "state_key_id [] = None"
| "state_key_id (c # w) =
     (let rest = drop 2 w; n = length rest - length '':state'' in
      if startsWith (c # w) ''cb:'' \<and> length rest > length '':state'' \<and> drop n rest = '':state'' \<and>
         list_all (\<lambda>x. x \<noteq> CHR 0x0A \<and> x \<noteq> CHR 0x0D) (take n rest)
      then Some (take n rest) else state_key_id w)"

text \<open>A status with a count that is not a number is known by the id of its provider alone.\<close>

fun states_of ::
  "'s redis_env \<Rightarrow> key_prefix \<Rightarrow> string list \<Rightarrow> 's
     \<Rightarrow> (redis_error, (string \<times> CircuitBreakerStatus option) list) result \<times> 's" where
  "states_of E pre [] s = (Inr [], s)"
| "states_of E pre (key # keys) s =
     (case state_key_id key of
        None \<Rightarrow> states_of E pre keys s
      | Some p \<Rightarrow>
          (case cb_getState E pre p s of
             (Inl e, s1) \<Rightarrow> (Inl e, s1)
           | (Inr st, s1) \<Rightarrow>
               (case states_of E pre keys s1 of (Inl e, s2) \<Rightarrow> (Inl e, s2) | (Inr sts, s2) \<Rightarrow> (Inr ((p, st) # sts), s2))))"

definition getAllStates ::
  "'s redis_env \<Rightarrow> key_prefix \<Rightarrow> (string \<Rightarrow> 's \<Rightarrow> (redis_error, string \<times> string list) result \<times> 's)
     \<Rightarrow> (string \<Rightarrow> string \<Rightarrow> int) \<Rightarrow> 's \<Rightarrow> ((redis_error, (string \<times> CircuitBreakerStatus option) list) result \<times> 's) option" where
  "getAllStates E pre scan compare s =
     (case scan_loop scan ''0'' [] s of
        None \<Rightarrow> None
      | Some (Inl e, s1) \<Rightarrow> Some (Inl e, s1)
      | Some (Inr keys, s1) \<Rightarrow>
          (case states_of E pre keys s1 of
             (Inl e, s2) \<Rightarrow> Some (Inl e, s2)
           | (Inr sts, s2) \<Rightarrow>
               Some (Inr (sort_by (\<lambda>a b. compare (fst a) (fst b)) sts), s2)))"

lemma state_key_id_skip:
  "\<not> startsWith (c # w) ''cb:'' \<Longrightarrow> state_key_id (c # w) = state_key_id w"
  by (simp add: Let_def)

definition one_line :: "string \<Rightarrow> bool" where
  "one_line p \<longleftrightarrow> p \<noteq> [] \<and> list_all (\<lambda>x. x \<noteq> CHR 0x0A \<and> x \<noteq> CHR 0x0D) p"

lemma state_key_id_hit: "one_line p \<Longrightarrow> state_key_id (''cb:'' @ p @ '':state'') = Some p"
  by (simp add: Let_def startsWith_def one_line_def)

text \<open>The prefix of the default configuration is read past; a prefix that ends in \<open>cb:\<close> is not.\<close>

lemma state_key_id_default: "one_line p \<Longrightarrow> state_key_id (cbState ''gw:'' p) = Some p"
proof -
  assume p: "one_line p"
  have "state_key_id (''gw:'' @ ''cb:'' @ p @ '':state'') = state_key_id (''cb:'' @ p @ '':state'')"
    by (simp add: state_key_id_skip startsWith_def del: state_key_id.simps)
  with state_key_id_hit [OF p] show ?thesis by (simp add: cbState_def)
qed

lemma state_key_id_wrong: "one_line p \<Longrightarrow> state_key_id (cbState ''cb:'' p) = Some (''cb:'' @ p)"
  by (simp add: Let_def startsWith_def one_line_def cbState_def)

text \<open>
  Every breaker of the default key space whose key a \<open>SCAN\<close> reports is listed, once for each report:
  \<open>SCAN\<close> may report a key twice, and the list then shows it twice.
\<close>

lemma states_of_ids:
  "list_all one_line ps \<Longrightarrow> states_of E ''gw:'' (map (cbState ''gw:'') ps) s = (Inr sts, s') \<Longrightarrow> map fst sts = ps"
  by (induction ps arbitrary: s sts) (auto simp: state_key_id_default split: prod.splits sum.splits)

section \<open>The routes over breakers and cache\<close>

definition circuit_breakers_list ::
  "snapshot \<Rightarrow> (string \<times> CircuitBreakerStatus option) list \<Rightarrow> ((string \<times> CircuitBreakerStatus option) \<times> string option) list" where
  "circuit_breakers_list snap states = map (\<lambda>st. (st, map_option p_name (getProvider snap (fst st)))) states"

definition circuit_breaker_reset :: "'s redis_env \<Rightarrow> key_prefix \<Rightarrow> string \<Rightarrow> 's \<Rightarrow> (thrown + redis_error + json) \<times> 's" where
  "circuit_breaker_reset E pre i s =
     (if i = [] then (Inl (TGateway (ValidationError ''Invalid provider id.'' (no_options\<lparr>opt_param := Some ''id''\<rparr>))), s)
      else (case cb_reset E pre i s of
              (Inl e, s1) \<Rightarrow> (Inr (Inl e), s1)
            | (Inr _, s1) \<Rightarrow> (Inr (Inr (JObj [(''providerId'', JStr i), (''state'', JStr ''CLOSED''), (''reset'', JBool True)])), s1)))"

record CacheStats =
  hits :: rat
  misses :: rat
  hitRate :: rat
  entries :: nat

text \<open>A counter that is absent is 0, and one that is not a number has no statistics.\<close>

definition counter_value :: "rval option \<Rightarrow> rat option" where
  "counter_value v = (case v of None \<Rightarrow> Some 0 | Some x \<Rightarrow> rval_num x)"

definition getStats :: "'s cache_env \<Rightarrow> 's \<Rightarrow> ((redis_error, CacheStats option) result \<times> 's) option" where
  "getStats C s =
     (case round_trip (ce_redis C) (command (MGET [statKey C ''hits'', statKey C ''misses''])) s of
        (Inl e, s1) \<Rightarrow> Some (Inl e, s1)
      | (Inr r, s1) \<Rightarrow>
          (case scan_loop (ce_scan C) ''0'' [] s1 of
             None \<Rightarrow> None
           | Some (Inl e, s2) \<Rightarrow> Some (Inl e, s2)
           | Some (Inr keys, s2) \<Rightarrow>
               Some (Inr (case r of
                   RBulks [h, m] \<Rightarrow>
                     (case (counter_value h, counter_value m) of
                        (Some a, Some b) \<Rightarrow>
                          (let tot = a + b in
                           Some \<lparr>hits = a, misses = b, hitRate = (if tot > 0 then a / tot else 0), entries = length keys\<rparr>)
                      | _ \<Rightarrow> None)
                 | _ \<Rightarrow> None), s2)))"

definition is_fingerprint :: "string \<Rightarrow> bool" where
  "is_fingerprint w \<longleftrightarrow> length w = 64 \<and> list_all (\<lambda>c. c \<in> set ''0123456789abcdef'') w"

definition cache_flush_route :: "'s cache_env \<Rightarrow> 's \<Rightarrow> (json \<times> 's) option" where
  "cache_flush_route C s = map_option (\<lambda>(n, s1). (JObj [(''flushed'', JNum n 0)], s1)) (cache_flush C s)"

definition cache_delete_route :: "'s cache_env \<Rightarrow> string \<Rightarrow> 's \<Rightarrow> (thrown + redis_error + json) \<times> 's" where
  "cache_delete_route C fp s =
     (if \<not> is_fingerprint fp
      then (Inl (TGateway (ValidationError ''Invalid cache fingerprint.'' (no_options\<lparr>opt_param := Some ''fingerprint''\<rparr>))), s)
      else (case round_trip (ce_redis C) (command (DEL [cacheEntry (ce_prefix C) fp])) s of
              (Inl e, s1) \<Rightarrow> (Inr (Inl e), s1)
            | (Inr r, s1) \<Rightarrow>
                (Inr (Inr (JObj [(''fingerprint'', JStr fp), (''removed'', JNum (int_reply r) 0)])), s1)))"

lemma getStats_rate:
  "getStats C s = Some (Inr (Some st), s1) \<Longrightarrow> 0 \<le> hits st \<Longrightarrow> 0 \<le> misses st \<Longrightarrow> 0 \<le> hitRate st \<and> hitRate st \<le> 1"
  by (auto simp: getStats_def Let_def divide_le_eq split: sum.splits prod.splits option.splits rreply.splits list.splits if_splits)

text \<open>A \<open>SCAN\<close> that yields the pages of a list of cursors yields all their keys.\<close>

fun pages_from :: "(string \<Rightarrow> 's \<Rightarrow> (redis_error, string \<times> string list) result \<times> 's) \<Rightarrow> string \<Rightarrow> 's \<Rightarrow> string list list \<Rightarrow> 's \<Rightarrow> bool" where
  "pages_from scan cursor s [] s' = False"
| "pages_from scan cursor s [b] s' = (scan cursor s = (Inr (''0'', b), s'))"
| "pages_from scan cursor s (b # b' # bs) s' =
     (\<exists>nxt s1. scan cursor s = (Inr (nxt, b), s1) \<and> nxt \<noteq> ''0'' \<and> pages_from scan nxt s1 (b' # bs) s')"

lemma scan_loop_pages:
  "pages_from scan cursor s bs s' \<Longrightarrow> scan_loop scan cursor found s = Some (Inr (found @ concat bs), s')"
proof (induction scan cursor s bs s' arbitrary: found rule: pages_from.induct)
  case (2 scan cursor s b s')
  then show ?case by (subst scan_loop.simps) simp
next
  case (3 scan cursor s b b' bs s')
  then show ?case by (subst scan_loop.simps) auto
qed simp

end
