(* ===== verification/Spec2Isabelle.thy ===== *)
theory Spec2Isabelle
  imports Load_Balancer Rate_Limiter Failover Retry OpenAI_Adapter Anthropic Gemini Cohere Crypto Validation Routes Adapters Key_Histories
    Config Health_Monitor Provider_Histories Migrations Metrics Lifecycle Admin_Reads
begin

text \<open>
  A model of the AI gateway: a server that speaks the OpenAI API to its clients and forwards
  their requests to one of several upstream providers, with authentication, rate limits, budgets,
  a response cache, load balancing, circuit breakers and failover.

  \<^bold>\<open>The program.\<close>  A request is authenticated (\<open>src/auth\<close>), validated against the OpenAI schemas
  (\<open>src/types/openai.ts\<close>), rate limited (\<open>src/rate-limiter\<close>) and given to the router
  (\<open>src/services/router.ts\<close>).  The router resolves the model to candidate providers
  (\<open>src/providers/registry.ts\<close>), looks in the cache (\<open>src/cache\<close>), asks the budget gate
  (\<open>src/services/cost-tracker.ts\<close>), and then runs the failover loop: the load balancer
  (\<open>src/loadbalancer\<close>) picks a candidate, the circuit breaker (\<open>src/circuit-breaker\<close>) admits or
  refuses the call, and the adapter of the provider (\<open>src/providers\<close>) translates the request, does
  the HTTP exchange and translates the answer back.  Rate limiter, breaker, balancer, cache and
  cost tracker keep their state in Redis (\<open>src/database/redis.ts\<close>), most of it changed by Lua
  scripts, so that several gateway processes share it.

  \<^bold>\<open>Theories.\<close>  Each theory opens with a text that says what it holds; its definitions keep the names
  of the source where they do not clash.

    \<^item> \<open>Prelude\<close>: strings, numbers, sorting and results of code that may throw.
    \<^item> \<open>Errors\<close> (\<open>utils/errors.ts\<close>, \<open>middleware/error-handler.ts\<close>): the error classes as records, the
      values that can be thrown, and the reply that the error handler makes of any of them.
    \<^item> \<open>Redis_Service\<close> (\<open>database/redis.ts\<close>, \<open>utils/constants.ts\<close>): commands on a database with expiry,
      scripts as programs over them, the client's script cache with its NOSCRIPT reload, outages.
      The server is a parameter with a contract (locale \<open>redis_service\<close>), interpreted on a
      reference server; the keys of the components are shown to be disjoint.
    \<^item> \<open>Rate_Limiter\<close>, \<open>Circuit_Breaker\<close>, \<open>Load_Balancer\<close>: the Lua scripts and the classes around them.
      The breaker is refined against the automaton of a single process, for every interleaving
      of a fleet; the limiter's bounds hold over sequences of checks with any clock that does
      not run backwards.
    \<^item> \<open>Provider_Base\<close>, \<open>Registry\<close>, \<open>Cost_Tracker\<close>, \<open>Auth\<close>, \<open>Cache\<close>: the classes of the same names.
    \<^item> \<open>Router\<close> and \<open>Failover\<close> (\<open>services/router.ts\<close>): the request lifecycle over the record
      \<open>router_deps\<close>.  The function \<open>gateway_deps\<close> fills the record with the models above, and the
      properties are proved for that instance by a \<open>sublocale\<close> of the locale \<open>failover\<close>.  A logging
      wrapper around the dependencies turns statements on the order of calls into statements on
      a trace.
    \<^item> \<open>Json\<close>, \<open>OpenAI_Types\<close>, \<open>Validation\<close>: JSON text and values, the wire types, the zod schemas.
    \<^item> \<open>Tokens\<close>, \<open>Retry\<close>, \<open>Sse\<close>, \<open>Crypto\<close> (\<open>utils\<close>, \<open>scripts/rotate-encryption-key.ts\<close>): counting, the
      retry helper, the event stream over bytes, credential encryption and key rotation.
    \<^item> \<open>Upstream\<close>, \<open>OpenAI_Adapter\<close>, \<open>Adapter_Common\<close>, \<open>Anthropic\<close>, \<open>Gemini\<close>, \<open>Cohere\<close> (\<open>providers\<close>): the
      exchange with an upstream and the adapters.  The locales \<open>conversation\<close> (merging messages into
      turns) and \<open>stream_normaliser\<close> with its extensions (turning events into chunks) hold what the
      adapters have in common and are interpreted on each adapter's own operations.
    \<^item> \<open>Adapters\<close>: the dispatch on the provider's type, with the locale \<open>adapter\<close> that the four
      adapters interpret.  \<open>Routes\<close> (\<open>routes/v1\<close>, \<open>utils/http.ts\<close>): the handlers of the OpenAI
      endpoints, with the guards in the order of their hooks and the writing of a stream.
    \<^item> \<open>Dates\<close>, \<open>Admin_Keys\<close>, \<open>Key_Histories\<close> (\<open>routes/admin/keys.ts\<close>, \<open>routes/admin/index.ts\<close>): the
      administration of API keys behind its gate, and what it means for authentication: the locale
      \<open>key_store\<close> states the contract of the database, and histories of requests and changes
      keep the authentication cache current.
    \<^item> \<open>Admin_Providers\<close>, \<open>Provider_Histories\<close> (\<open>routes/admin/providers.ts\<close>): the administration of providers and
      models, whose changes reload the registry, and histories of its calls.
    \<^item> \<open>Config\<close> (\<open>config/index.ts\<close>): the variables of the environment, their coercions and defaults.
      \<open>Health_Monitor\<close> (\<open>services/health-monitor.ts\<close>): what a run of probes records, and the protocol of
      the timer, the run in flight and \<open>stop\<close> as a step relation.
    \<^item> \<open>Admin_Reads\<close> (\<open>routes/admin/logs.ts\<close>, \<open>cache.ts\<close>, \<open>circuit-breakers.ts\<close>): the log query and the reads over
      breakers and cache.  \<open>Metrics\<close> (\<open>middleware/metrics.ts\<close>, \<open>middleware/request-id.ts\<close>): the hooks of
      every request.  \<open>Lifecycle\<close> (\<open>index.ts\<close>, \<open>app.ts\<close>, \<open>database/index.ts\<close>): connections, probes, start-up
      and shutdown.  \<open>Migrations\<close> (\<open>scripts/migrate.ts\<close>, \<open>scripts/create-partition.ts\<close>): the upkeep of
      the schema.

  \<^bold>\<open>What is shown.\<close>  The numbered texts before the theorems say it in words.  The groups are: the
  router (each failover round has a fixed shape, every request is accounted for exactly once,
  nothing unauthorised or over budget reaches an upstream, the loop ends); caching and
  authentication (a hit was stored for an equivalent request and has not expired, a context
  comes from an active row); limits (no window holds more requests or tokens than allowed, the
  breaker opens neither early nor late and its fleet refines one automaton, the smooth
  round-robin is exactly fair, gauges never go below zero); wire formats (streams are read
  alike however they are cut, JSON and relayed streams survive the trip, validation is stable,
  translated conversations alternate and lose nothing, normalised streams are well shaped and
  carry the same text); credentials (envelopes open again, a rotation is atomic and invisible, a created key works and
  changes to keys take effect at once, save for one window that is exhibited); administration and
  operation (the registry follows the tables, a deletion can be undone, credentials are
  write-only, a loaded configuration is admissible, a stopped monitor is quiet, shutdown keeps
  its order, migrations can be interrupted, log pages and metrics are exact);
  errors (replies do not leak, failures are classified as documented).

  \<^bold>\<open>Conventions.\<close>  Code that may throw returns a sum, \<open>Inl\<close> with the thrown value.  State is passed
  explicitly; asynchronous code is modelled one await after the other, and where several callers
  interleave the steps are explicit (the breaker fleet, the registry's single flight).  Loops
  are structural, except the failover loop, a \<open>partial_function\<close> whose termination is a theorem,
  and \<open>drain\<close> and the JSON number and string readers, which have termination proofs; the JSON
  parser recurses on fuel, and twice the length of the text is enough.  Strings range over code
  units below 256; numbers that the code divides are exact rationals, and timestamps, counters
  and token counts are unbounded integers.

  \<^bold>\<open>Parameters.\<close>  Code that is not in the repository is an argument: the Redis server, the
  database queries, the network (\<open>upstream\<close>), the tokeniser (\<open>tiktoken\<close>), AES, GHASH and SHA-256
  (\<open>cipher\<close>), clocks, random bytes and UUIDs.

  \<^bold>\<open>Not modelled.\<close>  Logging, tracing, the plugins of the HTTP server, the options of the database
  and Redis clients, sockets and backpressure, the counters per provider, the migrations themselves
  (SQL), and the benchmark and seed scripts: process I/O, configuration of libraries, or data.
\<close>

end
